(* ===== verification/Tacit_Prelude.thy ===== *)
theory Tacit_Prelude
  imports Main "HOL-Library.Word" "HOL-Library.Monad_Syntax"
begin

text \<open>
  Shared vocabulary of the development.

  \<^item> A JavaScript \<open>Uint8Array\<close> is a list of \<open>8 word\<close>s. A \<open>BigInt\<close>, and a \<open>Number\<close> the code uses as
    an integer, is an \<open>int\<close>; lengths and offsets are \<open>nat\<close>.
  \<^item> A function that throws returns \<open>js_error + 'a\<close>; a decoder that returns \<open>null\<close> returns an option.
  \<^item> \<open>slice\<close> is \<open>Uint8Array.prototype.slice\<close> on non-negative bounds (it clamps, as \<open>take\<close> and \<open>drop\<close> do).
  \<^item> \<open>le_bytes\<close> / \<open>le_val\<close> are the little-endian writer and reader loops of the wire formats, \<open>be_bytes\<close> the
    big-endian writer; \<open>concatParts\<close> is \<open>concatBytes(...parts)\<close> over parts that may throw while they are
    built, evaluated from left to right.

  The interfaces are the locales \<open>fixed_codec\<close> (a field of constant width), \<open>payload_codec\<close> (an encoder
  that may throw and a decoder that may reject) and \<open>strict_payload_codec\<close> (a payload codec in which every
  accepted byte string is an encoding).
\<close>

named_theorems wire_simps \<open>unfolding an encoder into its parts, and a decoder over those parts\<close>

subsection \<open>Division of BigInts\<close>

text \<open>A JavaScript \<open>BigInt\<close> quotient is cut towards zero, where \<open>div\<close> on \<open>int\<close> rounds down.\<close>

definition tdiv :: "int \<Rightarrow> int \<Rightarrow> int" where
  "tdiv a b = sgn a * sgn b * (\<bar>a\<bar> div \<bar>b\<bar>)"

lemma div_times_le: "0 < (d::int) \<Longrightarrow> n div d * d \<le> n"
  using pos_mod_sign [of d n] div_mult_mod_eq [of n d] by linarith

lemma tdiv_eq_div: "0 \<le> a \<Longrightarrow> 0 < b \<Longrightarrow> tdiv a b = a div b"
  by (cases "a = 0") (simp_all add: tdiv_def)

lemma tdiv_nonneg: "0 \<le> a \<Longrightarrow> 0 < b \<Longrightarrow> 0 \<le> tdiv a b"
  by (simp add: tdiv_eq_div pos_imp_zdiv_nonneg_iff)

lemma tdiv_times_le: "0 \<le> a \<Longrightarrow> 0 < b \<Longrightarrow> tdiv a b * b \<le> a"
  by (simp add: tdiv_eq_div div_times_le)

lemma tdiv_gt: "0 \<le> a \<Longrightarrow> 0 < b \<Longrightarrow> a < (tdiv a b + 1) * b"
proof -
  assume "0 \<le> a" "0 < b"
  then have "tdiv a b = a div b" "a mod b < b" by (simp_all add: tdiv_eq_div)
  moreover have "(a div b + 1) * b = a div b * b + b" by (simp add: algebra_simps)
  ultimately show ?thesis using div_mult_mod_eq [of a b] by (metis add_less_cancel_left)
qed

lemma tdiv_mono: "0 \<le> a \<Longrightarrow> a \<le> a' \<Longrightarrow> 0 < b \<Longrightarrow> tdiv a b \<le> tdiv a' b"
  by (simp add: tdiv_eq_div zdiv_mono1)

subsection \<open>Bytes, results, guards\<close>

type_synonym byte = "8 word"
type_synonym bytes = "byte list"

datatype js_error = Err string | BadLength string nat

type_synonym 'a res = "js_error + 'a"

text \<open>\<open>x | 0\<close> on a number: its low 32 bits, read as a signed integer.\<close>

definition toInt32 :: "int \<Rightarrow> int" where
  "toInt32 x = (x + 2 ^ 31) mod 2 ^ 32 - 2 ^ 31"

definition slice :: "bytes \<Rightarrow> nat \<Rightarrow> nat \<Rightarrow> bytes" where
  "slice xs a b = take (b - a) (drop a xs)"

definition u8 :: "bytes \<Rightarrow> nat \<Rightarrow> nat" where
  "u8 xs i = unat (xs ! i)"

definition byte_of :: "nat \<Rightarrow> byte" where
  "byte_of n = word_of_nat n"

definition require :: "bool \<Rightarrow> unit option" where
  "require c = (if c then Some () else None)"

definition zeros :: "nat \<Rightarrow> bytes" where
  "zeros n = replicate n 0"

definition all_zero :: "bytes \<Rightarrow> bool" where
  "all_zero b = list_all (\<lambda>x. x = 0) b"

primrec concatParts :: "bytes res list \<Rightarrow> bytes res" where
  "concatParts [] = Inr []"
| "concatParts (p # ps) =
     (case p of Inl e \<Rightarrow> Inl e
      | Inr b \<Rightarrow> (case concatParts ps of Inl e \<Rightarrow> Inl e | Inr r \<Rightarrow> Inr (b @ r)))"

definition throw_unless :: "bool \<Rightarrow> string \<Rightarrow> bytes res" where
  "throw_unless c msg = (if c then Inr [] else Inl (Err msg))"

lemma require_Some [simp]: "(require c = Some u) = c"
  by (simp add: require_def)

lemma require_bind [simp]: "(require c \<bind> f) = (if c then f () else None)"
  by (simp add: require_def)

lemma guarded_bind [simp]: "((if c then Some x else None) \<bind> f) = (if c then f x else None)"
  by simp

lemma if_None_Some [simp]: "((if c then e else None) = Some x) = (c \<and> e = Some x)"
  by simp

lemma concatParts_Cons_Inr [wire_simps]:
  "(concatParts (p # ps) = Inr q) = (\<exists>b r. p = Inr b \<and> concatParts ps = Inr r \<and> q = b @ r)"
  by (auto split: sum.splits)

lemma concatParts_Nil_Inr [wire_simps]: "(concatParts [] = Inr q) = (q = [])"
  by auto

declare concatParts.simps [simp del]

lemma throw_unless_Inr [wire_simps]: "(throw_unless c msg = Inr q) = (c \<and> q = [])"
  by (auto simp: throw_unless_def)

lemma all_zero_iff: "all_zero b = (b = zeros (length b))"
  unfolding all_zero_def zeros_def list_all_iff by (metis in_set_replicate replicate_length_same)

lemma length_zeros [simp]: "length (zeros n) = n"
  by (simp add: zeros_def)

lemma all_zero_zeros [simp]: "all_zero (zeros n)"
  by (simp add: all_zero_iff)

lemma unat_byte_of [simp]: "n < 256 \<Longrightarrow> unat (byte_of n) = n"
  by (simp add: byte_of_def unat_of_nat)

lemma uint_byte_of [simp]: "n < 256 \<Longrightarrow> uint (byte_of n) = int n"
  by (metis unat_byte_of of_nat_unat)

lemma byte_of_inj: "byte_of m = byte_of n \<Longrightarrow> m < 256 \<Longrightarrow> n < 256 \<Longrightarrow> m = n"
  by (metis unat_byte_of)

lemma byte_of_unat [simp]: "byte_of (unat b) = b"
  by (simp add: byte_of_def)

text \<open>A result with the error message forgotten.\<close>

definition ok_of :: "'a res \<Rightarrow> 'a option" where
  "ok_of r = (case r of Inl _ \<Rightarrow> None | Inr x \<Rightarrow> Some x)"

lemma ok_of_simps [simp]: "ok_of (Inl e) = None" "ok_of (Inr x) = Some x"
  by (simp_all add: ok_of_def)

lemma ok_of_Some [simp]: "(ok_of r = Some x) = (r = Inr x)"
  by (cases r) auto

lemma ok_of_None: "(ok_of r = None) = (\<exists>e. r = Inl e)"
  by (cases r) auto

text \<open>A loop that pushes one result per element and stops at the first error.\<close>

primrec mapRes :: "('a \<Rightarrow> 'b res) \<Rightarrow> 'a list \<Rightarrow> 'b list res" where
  "mapRes f [] = Inr []"
| "mapRes f (x # xs) =
     (case f x of Inl e \<Rightarrow> Inl e
      | Inr y \<Rightarrow> (case mapRes f xs of Inl e \<Rightarrow> Inl e | Inr ys \<Rightarrow> Inr (y # ys)))"

lemma mapRes_Inr: "(mapRes f xs = Inr ys) = list_all2 (\<lambda>x y. f x = Inr y) xs ys"
proof (induction xs arbitrary: ys)
  case (Cons x xs)
  have "(mapRes f (x # xs) = Inr ys) = (\<exists>z zs. f x = Inr z \<and> mapRes f xs = Inr zs \<and> ys = z # zs)"
    by (auto split: sum.splits)
  then show ?case by (auto simp: list_all2_Cons1 Cons.IH)
qed auto

lemma mapRes_cong: "(\<And>x. x \<in> set xs \<Longrightarrow> f x = g x) \<Longrightarrow> mapRes f xs = mapRes g xs"
  by (induction xs) (auto split: sum.splits)

text \<open>Running a list of steps on a state, until one of them throws.\<close>

primrec foldRes :: "('s \<Rightarrow> 'a \<Rightarrow> 's res) \<Rightarrow> 's \<Rightarrow> 'a list \<Rightarrow> 's res" where
  "foldRes f s [] = Inr s"
| "foldRes f s (x # xs) = (case f s x of Inl e \<Rightarrow> Inl e | Inr s' \<Rightarrow> foldRes f s' xs)"

lemma foldRes_append: "foldRes f s (xs @ ys) =
    (case foldRes f s xs of Inl e \<Rightarrow> Inl e | Inr s' \<Rightarrow> foldRes f s' ys)"
  by (induction xs arbitrary: s) (auto split: sum.splits)

lemma foldRes_trans:
  assumes "foldRes f s xs = Inr t" "P s" "\<And>u. R u u" "\<And>u v w. P u \<Longrightarrow> P v \<Longrightarrow> P w \<Longrightarrow> R u v \<Longrightarrow> R v w \<Longrightarrow> R u w"
    "\<And>u x u'. x \<in> set xs \<Longrightarrow> P u \<Longrightarrow> f u x = Inr u' \<Longrightarrow> P u' \<and> R u u'"
  shows "P t \<and> R s t"
  using assms(1,2,5)
proof (induction xs arbitrary: s)
  case Nil
  then show ?case by (simp add: assms(3))
next
  case (Cons x xs)
  then obtain s' where s': "f s x = Inr s'" "foldRes f s' xs = Inr t" by (auto split: sum.splits)
  have 1: "P s' \<and> R s s'" using Cons.prems(3) [OF _ Cons.prems(2) s'(1)] by simp
  moreover have "P t \<and> R s' t"
    by (rule Cons.IH [OF s'(2)]) (use 1 Cons.prems(3) in auto)
  ultimately show ?case using assms(4) Cons.prems(2) by blast
qed

lemma foldRes_invariant:
  assumes "foldRes f s xs = Inr t" "P s" "\<And>u x u'. x \<in> set xs \<Longrightarrow> P u \<Longrightarrow> f u x = Inr u' \<Longrightarrow> P u'"
  shows "P t"
  using foldRes_trans [OF assms(1), where P = P and R = "\<lambda>_ _. True"] assms(2,3) by blast

subsection \<open>Slicing a concatenation\<close>

lemma slice_empty [simp]: "slice xs a a = []"
  by (simp add: slice_def)

lemma slice_Cons [wire_simps]: "0 < a \<Longrightarrow> slice (x # xs) a b = slice xs (a - 1) (b - 1)"
  by (cases a; cases b) (auto simp: slice_def)

lemma slice_skip [wire_simps]:
  "length xs \<le> a \<Longrightarrow> slice (xs @ ys) a b = slice ys (a - length xs) (b - length xs)"
  by (simp add: slice_def)

lemma slice_hit [wire_simps]: "b = length xs \<Longrightarrow> slice (xs @ ys) 0 b = xs"
  by (simp add: slice_def)

lemma slice_all [wire_simps]: "length xs \<le> b \<Longrightarrow> slice xs 0 b = xs"
  by (simp add: slice_def)

lemma length_slice [simp]: "length (slice xs a b) = min (b - a) (length xs - a)"
  by (simp add: slice_def)

lemma slice_Nil_iff [simp]: "(slice xs a b = []) = (b \<le> a \<or> length xs \<le> a)"
  by (auto simp: slice_def)

lemma slice_join: "a \<le> b \<Longrightarrow> b \<le> c \<Longrightarrow> slice xs a b @ slice xs b c = slice xs a c"
proof -
  assume ab: "a \<le> b" and bc: "b \<le> c"
  then have "c - a = (b - a) + (c - b)" by simp
  then have "slice xs a c = take ((b - a) + (c - b)) (drop a xs)"
    by (simp only: slice_def)
  then show ?thesis
    using ab by (simp only: take_add) (simp add: slice_def)
qed

lemma slice_append_early: "b \<le> length xs \<Longrightarrow> slice (xs @ ys) a b = slice xs a b"
  by (simp add: slice_def)

lemma slice_drop: "length xs \<le> b \<Longrightarrow> slice xs a b = drop a xs"
  by (simp add: slice_def)

lemma u8_append [wire_simps]: "u8 (xs @ ys) i = (if i < length xs then u8 xs i else u8 ys (i - length xs))"
  by (simp add: u8_def nth_append)

lemma u8_Cons [wire_simps]: "u8 (x # xs) i = (if i = 0 then unat x else u8 xs (i - 1))"
  by (simp add: u8_def nth_Cons')

lemma u8_less [simp]: "u8 xs i < 256"
  using unsigned_less [of "xs ! i", where ?'a = nat] by (simp add: u8_def)

subsection \<open>Little- and big-endian integers\<close>

primrec le_bytes :: "nat \<Rightarrow> int \<Rightarrow> bytes" where
  "le_bytes 0 x = []"
| "le_bytes (Suc k) x = word_of_int (x mod 256) # le_bytes k (x div 256)"

primrec le_val :: "bytes \<Rightarrow> int" where
  "le_val [] = 0"
| "le_val (b # bs) = uint b + 256 * le_val bs"

definition be_bytes :: "nat \<Rightarrow> int \<Rightarrow> bytes" where
  "be_bytes k x = rev (le_bytes k x)"

definition be_val :: "bytes \<Rightarrow> int" where
  "be_val bs = le_val (rev bs)"

lemma length_le_bytes [simp]: "length (le_bytes k x) = k"
  by (induction k arbitrary: x) auto

lemma length_be_bytes [simp]: "length (be_bytes k x) = k"
  by (simp add: be_bytes_def)

lemma uint_byte_of_mod: "uint (word_of_int (x mod 256) :: byte) = x mod 256"
  by (simp add: uint_word_of_int)

lemma le_val_le_bytes: "le_val (le_bytes k x) = x mod 256 ^ k"
proof (induction k arbitrary: x)
  case 0
  then show ?case by simp
next
  case (Suc k)
  have "le_val (le_bytes (Suc k) x) = x mod 256 + 256 * (x div 256 mod 256 ^ k)"
    using Suc.IH by (simp add: uint_byte_of_mod)
  also have "\<dots> = x mod (256 * 256 ^ k)"
    by (simp add: zmod_zmult2_eq)
  finally show ?case by simp
qed

lemma le_val_nonneg [simp]: "0 \<le> le_val bs"
  by (induction bs) auto

lemma le_val_less: "le_val bs < 256 ^ length bs"
proof (induction bs)
  case Nil
  then show ?case by simp
next
  case (Cons b bs)
  have "uint b < 256"
    using uint_bounded [of b] by simp
  moreover have "256 * le_val bs + 256 \<le> 256 * 256 ^ length bs"
    using Cons.IH by simp
  ultimately show ?case by simp
qed

lemma le_bytes_le_val: "le_bytes (length bs) (le_val bs) = bs"
proof (induction bs)
  case Nil
  then show ?case by simp
next
  case (Cons b bs)
  have b: "uint b < 256" "0 \<le> uint b"
    using uint_bounded [of b] by simp_all
  then have "(uint b + 256 * le_val bs) mod 256 = uint b" and "(uint b + 256 * le_val bs) div 256 = le_val bs"
    by simp_all
  with Cons.IH show ?case by simp
qed

lemma le_bytes_mod: "le_bytes k (x mod 256 ^ k) = le_bytes k x"
proof -
  have "le_bytes (length (le_bytes k x)) (le_val (le_bytes k x)) = le_bytes k x"
    by (rule le_bytes_le_val)
  then show ?thesis by (simp add: le_val_le_bytes)
qed

lemma le_bytes_inj:
  assumes "le_bytes k x = le_bytes k y" "0 \<le> x" "x < 256 ^ k" "0 \<le> y" "y < 256 ^ k"
  shows "x = y"
proof -
  have "le_val (le_bytes k x) = x" and "le_val (le_bytes k y) = y"
    using assms(2-5) by (simp_all add: le_val_le_bytes)
  with assms(1) show ?thesis by metis
qed

subsection \<open>The integer writers and readers of the wire formats\<close>

definition asBytes :: "bytes \<Rightarrow> nat \<Rightarrow> string \<Rightarrow> bytes res" where
  "asBytes x len name = (if length x \<noteq> len then Inl (BadLength name len) else Inr x)"

definition u16LE :: "int \<Rightarrow> bytes res" where
  "u16LE n = Inr (le_bytes 2 (n mod 2 ^ 16))"

definition u32LE :: "int \<Rightarrow> bytes res" where
  "u32LE n = Inr (le_bytes 4 (n mod 2 ^ 32))"

definition u64LE :: "int \<Rightarrow> bytes res" where
  "u64LE x = (if x < 0 \<or> x \<ge> 2 ^ 64 then Inl (Err ''u64 overflow'') else Inr (le_bytes 8 x))"

definition u128LE :: "int \<Rightarrow> bytes res" where
  "u128LE x = (if x < 0 \<or> x \<ge> 2 ^ 128 then Inl (Err ''u128 overflow'') else Inr (le_bytes 16 x))"

definition u64BE :: "int \<Rightarrow> bytes" where
  "u64BE n = be_bytes 8 n"

definition u32BE :: "int \<Rightarrow> bytes" where
  "u32BE n = be_bytes 4 n"

definition readU16LE :: "bytes \<Rightarrow> nat \<Rightarrow> int option" where
  "readU16LE b off = (if off + 2 \<le> length b then Some (le_val (slice b off (off + 2))) else None)"

definition readU32LE :: "bytes \<Rightarrow> nat \<Rightarrow> int option" where
  "readU32LE b off = (if off + 4 \<le> length b then Some (le_val (slice b off (off + 4))) else None)"

definition readU64LE :: "bytes \<Rightarrow> nat \<Rightarrow> int option" where
  "readU64LE b off = do {
     hi \<leftarrow> readU32LE b (off + 4);
     lo \<leftarrow> readU32LE b off;
     Some (hi * 2 ^ 32 + lo)
   }"

definition readU128LE :: "bytes \<Rightarrow> nat \<Rightarrow> int option" where
  "readU128LE b off = (if off + 16 \<le> length b then Some (le_val (slice b off (off + 16))) else None)"

lemma asBytes_Inr [wire_simps]: "(asBytes x n nm = Inr q) = (length x = n \<and> q = x)"
  by (auto simp: asBytes_def)

lemma u16LE_Inr [wire_simps]: "(u16LE n = Inr q) = (q = le_bytes 2 n)"
proof -
  have "le_bytes 2 (n mod 2 ^ 16) = le_bytes 2 n"
    using le_bytes_mod [of 2 n] by simp
  then show ?thesis by (simp only: u16LE_def sum.inject eq_commute)
qed

lemma u32LE_Inr [wire_simps]: "(u32LE n = Inr q) = (q = le_bytes 4 n)"
proof -
  have "le_bytes 4 (n mod 2 ^ 32) = le_bytes 4 n"
    using le_bytes_mod [of 4 n] by simp
  then show ?thesis by (simp only: u32LE_def sum.inject eq_commute)
qed

lemma u64LE_Inr [wire_simps]: "(u64LE n = Inr q) = (0 \<le> n \<and> n < 2 ^ 64 \<and> q = le_bytes 8 n)"
  by (auto simp: u64LE_def)

lemma u128LE_Inr [wire_simps]: "(u128LE n = Inr q) = (0 \<le> n \<and> n < 2 ^ 128 \<and> q = le_bytes 16 n)"
  by (auto simp: u128LE_def)

lemma le_val_append: "le_val (xs @ ys) = le_val xs + 256 ^ length xs * le_val ys"
  by (induction xs) (auto simp: algebra_simps)

text \<open>The two-halves read of a 64-bit field is the plain little-endian read of its eight bytes.\<close>

lemma readU64LE_eq [wire_simps]:
  "readU64LE b off = (if off + 8 \<le> length b then Some (le_val (slice b off (off + 8))) else None)"
proof (cases "off + 8 \<le> length b")
  case True
  have "slice b off (off + 4) @ slice b (off + 4) (off + 8) = slice b off (off + 8)"
    by (rule slice_join) simp_all
  moreover have "length (slice b off (off + 4)) = 4"
    using True by simp
  ultimately have "le_val (slice b off (off + 8))
      = le_val (slice b off (off + 4)) + 256 ^ 4 * le_val (slice b (off + 4) (off + 8))"
    by (metis le_val_append)
  with True show ?thesis
    by (simp add: readU64LE_def readU32LE_def add.assoc)
next
  case False
  then show ?thesis
    by (simp add: readU64LE_def readU32LE_def)
qed

lemma le_halves:
  "off + 8 \<le> length b \<Longrightarrow>
   le_val (slice b (off + 4) (off + 8)) * 2 ^ 32 + le_val (slice b off (off + 4)) = le_val (slice b off (off + 8))"
  using readU64LE_eq [of b off] by (simp add: readU64LE_def readU32LE_def add.assoc)

subsection \<open>Interfaces\<close>

text \<open>A field of constant width: what the encoders and the hash preimages rely on.\<close>

locale fixed_codec =
  fixes enc :: "'a \<Rightarrow> bytes"
    and dec :: "bytes \<Rightarrow> 'a"
    and width :: nat
    and fits :: "'a \<Rightarrow> bool"
  assumes enc_length: "length (enc x) = width"
    and dec_enc: "fits x \<Longrightarrow> dec (enc x) = x"
    and enc_dec: "length bs = width \<Longrightarrow> enc (dec bs) = bs"
    and fits_dec: "length bs = width \<Longrightarrow> fits (dec bs)"
begin

lemma enc_inj: "fits x \<Longrightarrow> fits y \<Longrightarrow> enc x = enc y \<Longrightarrow> x = y"
  by (metis dec_enc)

lemma enc_append_inj: "fits x \<Longrightarrow> fits y \<Longrightarrow> enc x @ r = enc y @ s \<Longrightarrow> x = y \<and> r = s"
  using enc_length enc_inj by (metis append_eq_append_conv)

lemma dec_inj: "length a = width \<Longrightarrow> length b = width \<Longrightarrow> dec a = dec b \<Longrightarrow> a = b"
  by (metis enc_dec)

end

lemma fixed_codec_le: "fixed_codec (le_bytes k) le_val k (\<lambda>n. 0 \<le> n \<and> n < 256 ^ k)"
proof
  show "length (le_bytes k x) = k" for x by simp
  show "0 \<le> x \<and> x < 256 ^ k \<Longrightarrow> le_val (le_bytes k x) = x" for x
    by (simp add: le_val_le_bytes)
  show "length bs = k \<Longrightarrow> le_bytes k (le_val bs) = bs" for bs
    using le_bytes_le_val [of bs] by simp
  show "length bs = k \<Longrightarrow> 0 \<le> le_val bs \<and> le_val bs < 256 ^ k" for bs
    using le_val_less [of bs] by simp
qed

interpretation le16: fixed_codec "le_bytes 2" le_val 2 "\<lambda>n. 0 \<le> n \<and> n < 2 ^ 16"
  using fixed_codec_le [of 2] by simp

interpretation le32: fixed_codec "le_bytes 4" le_val 4 "\<lambda>n. 0 \<le> n \<and> n < 2 ^ 32"
  using fixed_codec_le [of 4] by simp

interpretation le64: fixed_codec "le_bytes 8" le_val 8 "\<lambda>n. 0 \<le> n \<and> n < 2 ^ 64"
  using fixed_codec_le [of 8] by simp

interpretation le128: fixed_codec "le_bytes 16" le_val 16 "\<lambda>n. 0 \<le> n \<and> n < 2 ^ 128"
  using fixed_codec_le [of 16] by simp

lemmas le_dec_enc [wire_simps] = le16.dec_enc le32.dec_enc le64.dec_enc le128.dec_enc

text \<open>
  A wire format as its callers see it: the encoder's arguments, the decoder's result, the part of the
  arguments the decoder gives back (\<open>view\<close>) and the arguments for which it does so (\<open>ok\<close>).
\<close>

locale payload_codec =
  fixes encode :: "'a \<Rightarrow> bytes res"
    and decode :: "bytes \<Rightarrow> 'b option"
    and view :: "'a \<Rightarrow> 'b"
    and ok :: "'a \<Rightarrow> bool"
  assumes decode_encode: "encode a = Inr p \<Longrightarrow> ok a \<Longrightarrow> decode p = Some (view a)"
begin

lemma encode_unambiguous:
  "encode a = Inr p \<Longrightarrow> encode a' = Inr p \<Longrightarrow> ok a \<Longrightarrow> ok a' \<Longrightarrow> view a = view a'"
  using decode_encode [of a p] decode_encode [of a' p] by simp

end

locale strict_payload_codec = payload_codec +
  assumes encode_decode: "decode p = Some v \<Longrightarrow> \<exists>a. encode a = Inr p \<and> ok a \<and> view a = v"
    and view_inj: "ok a \<Longrightarrow> ok a' \<Longrightarrow> view a = view a' \<Longrightarrow> encode a = encode a'"
begin

lemma decode_canonical: "decode p = Some v \<Longrightarrow> decode q = Some v \<Longrightarrow> p = q"
  using encode_decode [of p v] encode_decode [of q v] view_inj by (metis sum.inject(2))

lemma decode_accepts_iff: "(decode p \<noteq> None) = (\<exists>a. ok a \<and> encode a = Inr p)"
  using encode_decode decode_encode by fastforce

end

text \<open>
  Two readers of one wire format, where the second accepts what the first accepts and checks more: it never
  returns anything else.
\<close>

locale stricter_reader =
  fixes loose :: "bytes \<Rightarrow> 'a option"
    and strict :: "bytes \<Rightarrow> 'a option"
    and extra :: "'a \<Rightarrow> bool"
  assumes strict_eq: "strict p = (case loose p of None \<Rightarrow> None | Some a \<Rightarrow> if extra a then Some a else None)"
begin

lemma strict_iff: "(strict p = Some a) = (loose p = Some a \<and> extra a)"
  by (auto simp: strict_eq split: option.splits if_splits)

lemma never_disagree: "strict p = Some a \<Longrightarrow> loose p = Some b \<Longrightarrow> a = b"
  by (simp add: strict_iff)

end

text \<open>A strict codec whose decoder gives back the encoder's arguments themselves.\<close>

locale exact_codec = strict_payload_codec encode decode "\<lambda>a. a" ok
  for encode :: "'a \<Rightarrow> bytes res" and decode :: "bytes \<Rightarrow> 'a option" and ok :: "'a \<Rightarrow> bool"
begin

lemma decode_iff: "(decode p = Some a) = (encode a = Inr p \<and> ok a)"
  using decode_encode encode_decode by blast

end

subsection \<open>Runs of equal-sized items\<close>

primrec take_chunks :: "nat \<Rightarrow> nat \<Rightarrow> bytes \<Rightarrow> nat \<Rightarrow> bytes list" where
  "take_chunks 0 w payload p = []"
| "take_chunks (Suc n) w payload p = slice payload p (p + w) # take_chunks n w payload (p + w)"

lemma take_chunks_Cons [wire_simps]:
  "0 < a \<Longrightarrow> take_chunks n w (x # xs) a = take_chunks n w xs (a - 1)"
  by (induction n arbitrary: a) (auto simp: slice_Cons)

lemma take_chunks_skip [wire_simps]:
  "length xs \<le> a \<Longrightarrow> take_chunks n w (xs @ ys) a = take_chunks n w ys (a - length xs)"
  by (induction n arbitrary: a) (auto simp: slice_skip)

lemma take_chunks_concat [wire_simps]:
  "list_all (\<lambda>x. length x = w) xs \<Longrightarrow> n = length xs \<Longrightarrow> take_chunks n w (concat xs @ ys) 0 = xs"
proof (induction xs arbitrary: n)
  case Nil
  then show ?case by simp
next
  case (Cons x xs)
  then show ?case by (simp add: slice_hit take_chunks_skip)
qed

lemma length_concat_chunks: "list_all (\<lambda>x. length x = w) xs \<Longrightarrow> length (concat xs) = w * length xs"
  by (induction xs) auto

lemma length_take_chunks [simp]: "length (take_chunks n w payload p) = n"
  by (induction n arbitrary: p) auto

lemma concatParts_map_asBytes [wire_simps]:
  "(concatParts (map (\<lambda>x. asBytes x n nm) xs) = Inr q) = (list_all (\<lambda>x. length x = n) xs \<and> q = concat xs)"
  by (induction xs arbitrary: q) (auto simp: wire_simps)

lemma concatParts_append_Inr [wire_simps]:
  "(concatParts (ps @ qs) = Inr q) = (\<exists>a b. concatParts ps = Inr a \<and> concatParts qs = Inr b \<and> q = a @ b)"
  by (induction ps arbitrary: q) (auto simp: wire_simps)

subsection \<open>Reading behind a prefix\<close>

lemma slice_shift: "length pre = n \<Longrightarrow> slice (pre @ xs) (n + a) (n + b) = slice xs a b"
  by (auto simp: slice_def)

lemma slice_shift0: "length pre = n \<Longrightarrow> slice (pre @ xs) n (n + b) = slice xs 0 b"
  by (auto simp: slice_def)

lemma u8_shift: "length pre = n \<Longrightarrow> u8 (pre @ xs) (n + a) = u8 xs a"
  by (auto simp: u8_def nth_append)

lemma u8_shift0: "length pre = n \<Longrightarrow> u8 (pre @ xs) n = u8 xs 0"
  by (auto simp: u8_def nth_append)

lemma take_chunks_shift: "length pre = n \<Longrightarrow> take_chunks k w (pre @ xs) (n + a) = take_chunks k w xs a"
  by (induction k arbitrary: a) (auto simp: slice_shift add.assoc)

subsection \<open>Putting a decoded payload back together\<close>

text \<open>
  \<open>rebuild_simps\<close> reverses a decoder: an integer read from a slice writes that slice back, adjacent slices
  join, and the opcode byte in front of the rest is the payload.
\<close>

named_theorems rebuild_simps \<open>from the fields of an accepted payload back to the payload\<close>

lemma le_bytes_slice [rebuild_simps]:
  "b \<le> length p \<Longrightarrow> b - a = k \<Longrightarrow> le_bytes k (le_val (slice p a b)) = slice p a b"
  using le_bytes_le_val [of "slice p a b"] by simp

lemma le_val_slice_less [rebuild_simps]:
  "b - a = k \<Longrightarrow> 256 ^ k \<le> m \<Longrightarrow> le_val (slice p a b) < m"
proof -
  assume "b - a = k" and m: "256 ^ k \<le> m"
  then have "length (slice p a b) \<le> k" by simp
  then have "(256::int) ^ length (slice p a b) \<le> 256 ^ k"
    by (simp only: power_increasing)
  with m le_val_less [of "slice p a b"] show ?thesis by linarith
qed

lemma slice_join' [rebuild_simps]:
  "a \<le> b \<Longrightarrow> b \<le> c \<Longrightarrow> slice xs a b @ slice xs b c = slice xs a c"
  by (rule slice_join)

lemma byte_join [rebuild_simps]:
  "0 < j \<Longrightarrow> j \<le> length p \<Longrightarrow> j \<le> c \<Longrightarrow> u8 p (j - 1) = k \<Longrightarrow> byte_of k # slice p j c = slice p (j - 1) c"
proof (cases j)
  case (Suc i)
  assume "0 < j" "j \<le> length p" "j \<le> c" "u8 p (j - 1) = k"
  with Suc have "drop i p = byte_of k # drop (Suc i) p" "i < c"
    by (auto simp: u8_def Cons_nth_drop_Suc [symmetric])
  moreover from this have "c - i = Suc (c - Suc i)" by simp
  ultimately show ?thesis using Suc by (simp add: slice_def)
qed simp

lemma head_rebuild:
  assumes "p \<noteq> []" "u8 p 0 = k"
  shows "byte_of k # slice p 1 (length p) = p"
proof (cases p)
  case Nil
  with assms(1) show ?thesis by simp
next
  case (Cons x xs)
  with assms(2) show ?thesis by (auto simp: u8_def slice_def)
qed

text \<open>The same towards the end of a payload, for decoders that read to its last byte.\<close>

lemma slice_drop_join: "a \<le> b \<Longrightarrow> slice p a b @ drop b p = drop a p"
  by (metis add_diff_inverse_nat append_take_drop_id drop_drop not_le slice_def add.commute)

lemma byte_drop_join:
  "0 < j \<Longrightarrow> j \<le> length p \<Longrightarrow> u8 p (j - 1) = k \<Longrightarrow> byte_of k # drop j p = drop (j - 1) p"
  by (cases j) (auto simp: u8_def Cons_nth_drop_Suc)

lemmas rest_simps = slice_drop_join byte_drop_join

text \<open>\<open>payload[p] | (payload[p + 1] << 8)\<close>.\<close>

definition u16at :: "bytes \<Rightarrow> nat \<Rightarrow> nat" where
  "u16at payload p = u8 payload p + 256 * u8 payload (p + 1)"

lemma le_bytes_2: "le_bytes 2 x = [word_of_int (x mod 256), word_of_int (x div 256 mod 256)]"
  by (simp add: numeral_2_eq_2)

lemma u16at_less [simp]: "u16at b p < 65536"
  using u8_less [of b p] u8_less [of b "p + 1"] unfolding u16at_def by linarith

lemma le_bytes_u16at: "p + 2 \<le> length b \<Longrightarrow> le_bytes 2 (int (u16at b p)) = slice b p (p + 2)"
proof -
  assume len: "p + 2 \<le> length b"
  then have "drop p b = b ! p # b ! Suc p # drop (Suc (Suc p)) b" by (simp add: Cons_nth_drop_Suc)
  moreover have "int (u16at b p) = uint (b ! p) + 256 * uint (b ! Suc p)"
    by (simp add: u16at_def u8_def)
  ultimately have "int (u16at b p) = le_val (slice b p (p + 2))" by (simp add: slice_def numeral_2_eq_2)
  then show ?thesis using le_bytes_slice [of "p + 2" b p 2] len by simp
qed

lemma u16at_le_bytes [wire_simps]: "n < 65536 \<Longrightarrow> u16at (le_bytes 2 (int n) @ r) 0 = n"
proof -
  assume n: "n < 65536"
  let ?b = "le_bytes 2 (int n) @ r"
  have "le_bytes 2 (int (u16at ?b 0)) = le_bytes 2 (int n)"
    using le_bytes_u16at [of 0 ?b] by (simp add: slice_def)
  then show ?thesis
    using le_bytes_inj [of 2 "int (u16at ?b 0)" "int n"] n u16at_less [of ?b 0] by simp
qed

lemma u16at_shift [wire_simps]: "length xs \<le> i \<Longrightarrow> u16at (xs @ ys) i = u16at ys (i - length xs)"
  by (simp add: u16at_def u8_def nth_append Suc_diff_le)

lemma u16at_Cons [wire_simps]: "0 < i \<Longrightarrow> u16at (x # xs) i = u16at xs (i - 1)"
  by (simp add: u16at_def u8_Cons)

subsection \<open>Hash preimages\<close>

text \<open>
  \<open>ascii\<close> is \<open>new TextEncoder().encode\<close> on the domain tags, \<open>hashed\<close> applies a hash of the vendored library
  (a parameter) to a preimage that may throw while it is built. A binding statement says that two messages
  with one digest are equal unless their two preimages, which it names, are a \<open>collision\<close> of the hash; the
  locale \<open>hash_binding\<close> derives it from a preimage function that is injective on well-formed messages.
\<close>

definition ascii :: "string \<Rightarrow> bytes" where
  "ascii s = map of_char s"

definition hashed :: "(bytes \<Rightarrow> bytes) \<Rightarrow> bytes res \<Rightarrow> bytes res" where
  "hashed h r = (case r of Inl e \<Rightarrow> Inl e | Inr b \<Rightarrow> Inr (h b))"

definition collision :: "(bytes \<Rightarrow> bytes) \<Rightarrow> bytes \<Rightarrow> bytes \<Rightarrow> bool" where
  "collision h x y = (x \<noteq> y \<and> h x = h y)"

lemma hashed_Inr [wire_simps]: "(hashed h r = Inr d) = (\<exists>b. r = Inr b \<and> d = h b)"
  by (auto simp: hashed_def split: sum.splits)

lemma be_bytes_inj:
  "0 \<le> x \<Longrightarrow> x < 256 ^ k \<Longrightarrow> 0 \<le> y \<Longrightarrow> y < 256 ^ k \<Longrightarrow> (be_bytes k x = be_bytes k y) = (x = y)"
  using le_bytes_inj [of k x y] by (auto simp: be_bytes_def)

lemma le_bytes_eq_iff:
  "0 \<le> x \<Longrightarrow> x < 256 ^ k \<Longrightarrow> 0 \<le> y \<Longrightarrow> y < 256 ^ k \<Longrightarrow> (le_bytes k x = le_bytes k y) = (x = y)"
  using le_bytes_inj [of k x y] by auto

locale hash_binding =
  fixes digest :: "(bytes \<Rightarrow> bytes) \<Rightarrow> 'm \<Rightarrow> bytes res"
    and pre :: "'m \<Rightarrow> bytes"
    and view :: "'m \<Rightarrow> 'v"
    and wf :: "'m \<Rightarrow> bool"
  assumes digest_pre: "digest h m = Inr d \<Longrightarrow> d = h (pre m)"
    and pre_view: "digest h m = Inr d \<Longrightarrow> digest h m' = Inr d' \<Longrightarrow> wf m \<Longrightarrow> wf m' \<Longrightarrow>
      pre m = pre m' \<Longrightarrow> view m = view m'"
begin

lemma binds:
  assumes "digest h m = Inr d" "digest h m' = Inr d" "wf m" "wf m'"
  shows "view m = view m' \<or> collision h (pre m) (pre m')"
proof (cases "pre m = pre m'")
  case True
  then show ?thesis using pre_view assms by blast
next
  case False
  then show ?thesis
    using digest_pre [OF assms(1)] digest_pre [OF assms(2)] by (simp add: collision_def)
qed

end

end
