(* ===== verification/Utf8_Text.thy ===== *)
theory Utf8_Text
  imports Tacit_Prelude
begin

text \<open>
  \<open>TextEncoder\<close> and \<open>TextDecoder\<close> as the wire formats use them. A JavaScript string without lone surrogates
  is represented by its UTF-8 encoding, so \<open>TextEncoder.encode\<close> is the identity; the decoder follows the
  state machine of the Encoding Standard: a lead byte fixes how many continuation bytes follow and the range
  of the first of them, an ill-formed sequence is one error and the byte that broke it is read again. A
  leading byte order mark is dropped. \<open>utf8_decode_fatal\<close> is the decoder with \<open>fatal: true\<close> (\<open>None\<close> where it
  throws), \<open>utf8_decode\<close> the default one, which writes U+FFFD for each error.
\<close>

definition utf8_lead :: "nat \<Rightarrow> (nat \<times> nat \<times> nat) option" where
  "utf8_lead b =
     (if b \<le> 0x7F then Some (0, 0x80, 0xBF)
      else if 0xC2 \<le> b \<and> b \<le> 0xDF then Some (1, 0x80, 0xBF)
      else if 0xE0 \<le> b \<and> b \<le> 0xEF then
        Some (2, if b = 0xE0 then 0xA0 else 0x80, if b = 0xED then 0x9F else 0xBF)
      else if 0xF0 \<le> b \<and> b \<le> 0xF4 then
        Some (3, if b = 0xF0 then 0x90 else 0x80, if b = 0xF4 then 0x8F else 0xBF)
      else None)"

fun utf8_cont :: "nat \<Rightarrow> nat \<Rightarrow> nat \<Rightarrow> bytes \<Rightarrow> bytes \<times> bool \<times> bytes" where
  "utf8_cont 0 lo hi bs = ([], True, bs)"
| "utf8_cont (Suc n) lo hi [] = ([], False, [])"
| "utf8_cont (Suc n) lo hi (b # bs) =
     (if lo \<le> unat b \<and> unat b \<le> hi
      then (case utf8_cont n 0x80 0xBF bs of (t, c, r) \<Rightarrow> (b # t, c, r))
      else ([], False, b # bs))"

lemma utf8_cont_length: "utf8_cont n lo hi bs = (t, c, r) \<Longrightarrow> length r \<le> length bs"
  by (induction n lo hi bs arbitrary: t c r rule: utf8_cont.induct)
    (auto split: if_splits prod.splits simp: le_SucI)

lemma utf8_cont_append: "utf8_cont n lo hi bs = (t, True, r) \<Longrightarrow> t @ r = bs"
  by (induction n lo hi bs arbitrary: t r rule: utf8_cont.induct) (auto split: if_splits prod.splits)

function utf8_chunks :: "bytes \<Rightarrow> bytes option list" where
  "utf8_chunks [] = []"
| "utf8_chunks (b # bs) =
     (case utf8_lead (unat b) of
        None \<Rightarrow> None # utf8_chunks bs
      | Some (n, lo, hi) \<Rightarrow>
          (case utf8_cont n lo hi bs of
             (t, c, r) \<Rightarrow> (if c then Some (b # t) else None) # utf8_chunks r))"
  by pat_completeness auto
termination
  by (relation "measure length") (auto dest!: sym [of _ "utf8_cont _ _ _ _"] utf8_cont_length)

definition utf8_ok :: "bytes \<Rightarrow> bool" where
  "utf8_ok bs = list_all (\<lambda>c. c \<noteq> None) (utf8_chunks bs)"

definition strip_bom :: "bytes \<Rightarrow> bytes" where
  "strip_bom bs = (if take 3 bs = [0xEF, 0xBB, 0xBF] then drop 3 bs else bs)"

definition utf8_decode_fatal :: "bytes \<Rightarrow> bytes option" where
  "utf8_decode_fatal bs = (if utf8_ok bs then Some (strip_bom bs) else None)"

definition utf8_decode :: "bytes \<Rightarrow> bytes" where
  "utf8_decode bs =
     strip_bom (concat (map (\<lambda>c. case c of Some x \<Rightarrow> x | None \<Rightarrow> [0xEF, 0xBF, 0xBD]) (utf8_chunks bs)))"

text \<open>Text that survives the trip through its bytes: well-formed and without a leading byte order mark.\<close>

definition plain_text :: "bytes \<Rightarrow> bool" where
  "plain_text s = (utf8_ok s \<and> strip_bom s = s)"

lemma utf8_chunks_concat:
  "utf8_ok bs \<Longrightarrow>
     concat (map (\<lambda>c. case c of Some x \<Rightarrow> x | None \<Rightarrow> [0xEF, 0xBF, 0xBD]) (utf8_chunks bs)) = bs"
proof (induction bs rule: utf8_chunks.induct)
  case 1
  then show ?case by simp
next
  case (2 b bs)
  then show ?case
    by (auto simp: utf8_ok_def utf8_cont_append split: option.splits prod.splits if_splits)
qed

lemma utf8_decode_plain [wire_simps]: "plain_text s \<Longrightarrow> utf8_decode s = s"
  by (simp add: plain_text_def utf8_decode_def utf8_chunks_concat)

lemma utf8_decode_fatal_plain [wire_simps]: "plain_text s \<Longrightarrow> utf8_decode_fatal s = Some s"
  by (simp add: plain_text_def utf8_decode_fatal_def)

lemma utf8_decode_fatal_utf8_decode: "utf8_decode_fatal s = Some t \<Longrightarrow> utf8_decode s = t"
  by (auto simp: utf8_decode_fatal_def utf8_decode_def utf8_chunks_concat split: if_splits)

lemma plain_text_Nil [simp]: "plain_text []"
  by (simp add: plain_text_def utf8_ok_def strip_bom_def)

lemma plain_text_ascii: "list_all (\<lambda>b. unat b \<le> 0x7F) s \<Longrightarrow> plain_text s"
proof -
  assume ascii: "list_all (\<lambda>b. unat b \<le> 0x7F) s"
  then have "utf8_ok s"
    by (induction s) (auto simp: utf8_ok_def utf8_lead_def)
  moreover have "strip_bom s = s"
    using ascii by (cases s) (auto simp: strip_bom_def)
  ultimately show ?thesis by (simp add: plain_text_def)
qed

end
