(* ===== verification/Amm_Envelope.thy ===== *)
theory Amm_Envelope
  imports Tacit_Prelude Utf8_Text
begin

text \<open>
  The AMM liquidity envelopes of \<open>dapp/amm-envelope.js\<close>: \<open>T_PROTOCOL_FEE_CLAIM\<close>, \<open>T_LP_REMOVE\<close> and
  \<open>T_LP_ADD\<close> (both variants), each with its encoder, its decoder and the round trip. A payload is a
  \<open>Uint8Array\<close> over a buffer of its own, so a \<open>DataView\<close> read past its end throws and the decoder's
  \<open>catch\<close> turns it into \<open>null\<close>. Byte-string arguments are given as \<open>Uint8Array\<close>s (the hex spelling
  \<open>asBytes\<close> also takes is not modelled).
\<close>

definition XCURVE_PROOF_LEN :: nat where "XCURVE_PROOF_LEN = 169"
definition OPCODE_T_LP_ADD :: nat where "OPCODE_T_LP_ADD = 0x2D"
definition OPCODE_T_LP_REMOVE :: nat where "OPCODE_T_LP_REMOVE = 0x2E"
definition OPCODE_T_PROTOCOL_FEE_CLAIM :: nat where "OPCODE_T_PROTOCOL_FEE_CLAIM = 0x31"
definition FEE_BPS_MAX :: int where "FEE_BPS_MAX = 1000"
definition PROTOCOL_FEE_BPS_MAX :: int where "PROTOCOL_FEE_BPS_MAX = 1000"

lemmas envelope_consts = XCURVE_PROOF_LEN_def OPCODE_T_LP_ADD_def OPCODE_T_LP_REMOVE_def
  OPCODE_T_PROTOCOL_FEE_CLAIM_def FEE_BPS_MAX_def PROTOCOL_FEE_BPS_MAX_def

definition isZeroAddress :: "bytes \<Rightarrow> bool" where
  "isZeroAddress b = (length b = 33 \<and> all_zero b)"

text \<open>Checks that are made before the bytes are put together: the first one that throws wins.\<close>

definition andThen :: "bytes res \<Rightarrow> bytes res \<Rightarrow> bytes res" where
  "andThen checks body = (case checks of Inl e \<Rightarrow> Inl e | Inr _ \<Rightarrow> body)"

lemma andThen_Inr [wire_simps]: "(andThen c b = Inr q) = ((\<exists>r. c = Inr r) \<and> b = Inr q)"
  by (auto simp: andThen_def split: sum.splits)

subsection \<open>T_PROTOCOL_FEE_CLAIM\<close>

record protocolFeeClaim =
  fc_poolId :: bytes
  fc_claimerPubkey :: bytes
  fc_feeBps :: int
  fc_claimAmount :: int
  fc_claimCSecp :: bytes
  fc_claimBlinding :: bytes
  fc_claimSig :: bytes

definition encodeProtocolFeeClaim :: "protocolFeeClaim \<Rightarrow> bytes res" where
  "encodeProtocolFeeClaim args =
     (let amt = fc_claimAmount args in
      andThen
       (concatParts
         [asBytes (fc_poolId args) 32 ''poolId'',
          asBytes (fc_claimerPubkey args) 33 ''claimerPubkey'',
          asBytes (fc_claimCSecp args) 33 ''claimCSecp'',
          asBytes (fc_claimBlinding args) 32 ''claimBlinding'',
          asBytes (fc_claimSig args) 64 ''claimSig'',
          throw_unless (0 < amt \<and> amt < 2 ^ 64) ''claim_amount out of u64+ range''])
       (concatParts
         [Inr [byte_of OPCODE_T_PROTOCOL_FEE_CLAIM], Inr (fc_poolId args), Inr (fc_claimerPubkey args),
          u32LE (fc_feeBps args), u64LE amt, Inr (fc_claimCSecp args), Inr (fc_claimBlinding args),
          Inr (fc_claimSig args)]))"

definition decodeProtocolFeeClaim :: "bytes \<Rightarrow> protocolFeeClaim option" where
  "decodeProtocolFeeClaim payload = do {
     require (length payload = 207);
     require (u8 payload 0 = OPCODE_T_PROTOCOL_FEE_CLAIM);
     let poolId = slice payload 1 33;
     let claimerPubkey = slice payload 33 66;
     feeBps \<leftarrow> readU32LE payload 66;
     let amt = le_val (slice payload 70 78);
     let claimCSecp = slice payload 78 111;
     let claimBlinding = slice payload 111 143;
     let claimSig = slice payload 143 207;
     Some \<lparr>fc_poolId = poolId, fc_claimerPubkey = claimerPubkey, fc_feeBps = feeBps,
           fc_claimAmount = amt, fc_claimCSecp = claimCSecp, fc_claimBlinding = claimBlinding,
           fc_claimSig = claimSig\<rparr>
   }"

lemma decodeProtocolFeeClaim_encode:
  assumes "encodeProtocolFeeClaim c = Inr p" "0 \<le> fc_feeBps c \<and> fc_feeBps c < 2 ^ 32"
  shows "decodeProtocolFeeClaim p = Some c"
  using assms
  by (cases c) (auto simp: encodeProtocolFeeClaim_def decodeProtocolFeeClaim_def Let_def
      readU32LE_def envelope_consts wire_simps)

subsection \<open>T_LP_REMOVE\<close>

record lpRemove =
  lr_assetA :: bytes
  lr_assetB :: bytes
  lr_shareAmount :: int
  lr_deltaA :: int
  lr_deltaB :: int
  lr_recvACSecp :: bytes
  lr_recvACBJJ :: bytes
  lr_recvAXcurveSigma :: bytes
  lr_recvBCSecp :: bytes
  lr_recvBCBJJ :: bytes
  lr_recvBXcurveSigma :: bytes
  lr_kernelSigLP :: bytes
  lr_rRecvA :: bytes
  lr_rRecvB :: bytes
  lr_proof :: bytes

definition encodeLpRemove :: "lpRemove \<Rightarrow> bytes res" where
  "encodeLpRemove args = concatParts
     [Inr [byte_of OPCODE_T_LP_REMOVE],
      asBytes (lr_assetA args) 32 ''assetA'',
      asBytes (lr_assetB args) 32 ''assetB'',
      u64LE (lr_shareAmount args),
      u64LE (lr_deltaA args),
      u64LE (lr_deltaB args),
      asBytes (lr_recvACSecp args) 33 ''recvACSecp'',
      asBytes (lr_recvACBJJ args) 32 ''recvACBJJ'',
      asBytes (lr_recvAXcurveSigma args) XCURVE_PROOF_LEN ''recvAXcurveSigma'',
      asBytes (lr_recvBCSecp args) 33 ''recvBCSecp'',
      asBytes (lr_recvBCBJJ args) 32 ''recvBCBJJ'',
      asBytes (lr_recvBXcurveSigma args) XCURVE_PROOF_LEN ''recvBXcurveSigma'',
      asBytes (lr_kernelSigLP args) 64 ''kernelSigLP'',
      asBytes (lr_rRecvA args) 32 ''rRecvA'',
      asBytes (lr_rRecvB args) 32 ''rRecvB'',
      throw_unless (length (lr_proof args) \<le> 0xffff) ''proof too large'',
      u16LE (int (length (lr_proof args))),
      Inr (lr_proof args)]"

definition decodeLpRemove :: "bytes \<Rightarrow> lpRemove option" where
  "decodeLpRemove payload = do {
     let minLen = 1 + 32 + 32 + 8 + 8 + 8 + 33 + 32 + 169 + 33 + 32 + 169 + 64 + 32 + 32 + 2;
     require (length payload \<ge> minLen);
     require (u8 payload 0 = OPCODE_T_LP_REMOVE);
     let off = 1;
     let assetA = slice payload off (off + 32); let off = off + 32;
     let assetB = slice payload off (off + 32); let off = off + 32;
     shareAmount \<leftarrow> readU64LE payload off; let off = off + 8;
     deltaA \<leftarrow> readU64LE payload off; let off = off + 8;
     deltaB \<leftarrow> readU64LE payload off; let off = off + 8;
     let recvACSecp = slice payload off (off + 33); let off = off + 33;
     let recvACBJJ = slice payload off (off + 32); let off = off + 32;
     let recvAXcurveSigma = slice payload off (off + XCURVE_PROOF_LEN); let off = off + XCURVE_PROOF_LEN;
     let recvBCSecp = slice payload off (off + 33); let off = off + 33;
     let recvBCBJJ = slice payload off (off + 32); let off = off + 32;
     let recvBXcurveSigma = slice payload off (off + XCURVE_PROOF_LEN); let off = off + XCURVE_PROOF_LEN;
     let kernelSigLP = slice payload off (off + 64); let off = off + 64;
     let rRecvA = slice payload off (off + 32); let off = off + 32;
     let rRecvB = slice payload off (off + 32); let off = off + 32;
     proofLen \<leftarrow> readU16LE payload off; let off = off + 2;
     require (off + nat proofLen = length payload);
     let pf = slice payload off (off + nat proofLen);
     Some \<lparr>lr_assetA = assetA, lr_assetB = assetB, lr_shareAmount = shareAmount, lr_deltaA = deltaA,
       lr_deltaB = deltaB, lr_recvACSecp = recvACSecp, lr_recvACBJJ = recvACBJJ,
       lr_recvAXcurveSigma = recvAXcurveSigma, lr_recvBCSecp = recvBCSecp, lr_recvBCBJJ = recvBCBJJ,
       lr_recvBXcurveSigma = recvBXcurveSigma, lr_kernelSigLP = kernelSigLP, lr_rRecvA = rRecvA,
       lr_rRecvB = rRecvB, lr_proof = pf\<rparr>
   }"

lemma decodeLpRemove_encode:
  assumes "encodeLpRemove r = Inr p"
  shows "decodeLpRemove p = Some r"
  using assms
  by (cases r) (auto simp: encodeLpRemove_def decodeLpRemove_def Let_def
      readU16LE_def envelope_consts wire_simps)

subsection \<open>T_LP_ADD\<close>

text \<open>
  The pool-opening fields (variant 1) as the caller gives them; \<open>None\<close> where the argument may be missing.
  The decoder returns them with the defaults filled in.
\<close>

record poolInit =
  pi_feeBps :: int
  pi_vkCid :: bytes
  pi_ceremonyCid :: bytes
  pi_arbiterPubkeys :: "bytes list"
  pi_arbiterThresholdM :: "int option"
  pi_launcherSigs :: "bytes list"
  pi_protocolFeeAddress :: "bytes option"
  pi_protocolFeeBps :: int
  pi_poolMetaUri :: "bytes option"
  pi_poolCapabilityFlags :: "int option"

record lpAdd =
  la_variant :: int
  la_assetA :: bytes
  la_assetB :: bytes
  la_deltaA :: int
  la_deltaB :: int
  la_shareAmount :: int
  la_shareCSecp :: bytes
  la_shareCBJJ :: bytes
  la_shareXcurveSigma :: bytes
  la_kernelSigA :: bytes
  la_kernelSigB :: bytes
  la_shareR :: bytes
  la_init :: poolInit
  la_expiryHeight :: int
  la_refundABlinding :: bytes
  la_refundBBlinding :: bytes

definition thresholdM :: "poolInit \<Rightarrow> int" where
  "thresholdM i = (case pi_arbiterThresholdM i of Some m \<Rightarrow> m
     | None \<Rightarrow> if pi_arbiterPubkeys i \<noteq> [] then 1 else 0)"

definition protoAddr :: "poolInit \<Rightarrow> bytes" where
  "protoAddr i = (case pi_protocolFeeAddress i of Some a \<Rightarrow> a | None \<Rightarrow> zeros 33)"

definition metaUri :: "poolInit \<Rightarrow> bytes" where
  "metaUri i = (case pi_poolMetaUri i of Some u \<Rightarrow> u | None \<Rightarrow> [])"

definition capFlags :: "poolInit \<Rightarrow> int" where
  "capFlags i = (case pi_poolCapabilityFlags i of Some f \<Rightarrow> f | None \<Rightarrow> 0)"

definition encodeLpAddHead :: "lpAdd \<Rightarrow> bytes res list" where
  "encodeLpAddHead args =
     [throw_unless (la_variant args = 0 \<or> la_variant args = 1) ''variant must be 0 or 1'',
      Inr [byte_of OPCODE_T_LP_ADD, byte_of (nat (la_variant args))],
      asBytes (la_assetA args) 32 ''assetA'',
      asBytes (la_assetB args) 32 ''assetB'',
      u64LE (la_deltaA args),
      u64LE (la_deltaB args),
      u64LE (la_shareAmount args),
      asBytes (la_shareCSecp args) 33 ''shareCSecp'',
      asBytes (la_shareCBJJ args) 32 ''shareCBJJ'',
      asBytes (la_shareXcurveSigma args) XCURVE_PROOF_LEN ''shareXcurveSigma'',
      asBytes (la_kernelSigA args) 64 ''kernelSigA'',
      asBytes (la_kernelSigB args) 64 ''kernelSigB'',
      asBytes (la_shareR args) 32 ''shareR'']"

definition encodeLpAddInit :: "poolInit \<Rightarrow> bytes res list" where
  "encodeLpAddInit i =
     (let arb = pi_arbiterPubkeys i; arbM = thresholdM i; n = int (length arb);
          addr = protoAddr i; bps = pi_protocolFeeBps i in
      [throw_unless (0 \<le> pi_feeBps i \<and> pi_feeBps i \<le> FEE_BPS_MAX) ''feeBps must be 0..1000'',
       u16LE (pi_feeBps i),
       throw_unless (1 \<le> length (pi_vkCid i) \<and> length (pi_vkCid i) \<le> 64) ''vkCid length 1..64 bytes'',
       Inr [byte_of (length (pi_vkCid i))], Inr (pi_vkCid i),
       throw_unless (1 \<le> length (pi_ceremonyCid i) \<and> length (pi_ceremonyCid i) \<le> 64)
         ''ceremonyCid length 1..64 bytes'',
       Inr [byte_of (length (pi_ceremonyCid i))], Inr (pi_ceremonyCid i),
       throw_unless (length arb \<le> 16) ''arbiterPubkeys count 0..16'',
       throw_unless (\<not> (n = 0 \<and> arbM \<noteq> 0)) ''arbiterThresholdM must be 0 when no arbiter pubkeys pinned'',
       throw_unless (\<not> (n > 0 \<and> (arbM < 1 \<or> arbM > n))) ''arbiterThresholdM must be 1..count'',
       Inr [byte_of (length arb), byte_of (nat arbM)]]
      @ map (\<lambda>pk. asBytes pk 33 ''arbiterPubkey'') arb
      @ [throw_unless (length (pi_launcherSigs i) \<le> 2) ''launcherSigs count 0..2'',
         Inr [byte_of (length (pi_launcherSigs i))]]
      @ map (\<lambda>sig. asBytes sig 64 ''launcherSig'') (pi_launcherSigs i)
      @ [asBytes addr 33 ''protocolFeeAddress'',
         throw_unless (0 \<le> bps \<and> bps \<le> PROTOCOL_FEE_BPS_MAX) ''protocolFeeBps must be 0..1000'',
         throw_unless (\<not> (bps > 0 \<and> isZeroAddress addr))
           ''protocolFeeBps > 0 requires non-zero protocolFeeAddress'',
         throw_unless (\<not> (\<not> isZeroAddress addr \<and> bps = 0))
           ''non-zero protocolFeeAddress requires protocolFeeBps > 0'',
         u16LE bps,
         throw_unless (length (metaUri i) \<le> 255) ''poolMetaUri length must be 0..255 bytes'',
         Inr [byte_of (length (metaUri i))], Inr (metaUri i),
         throw_unless (0 \<le> capFlags i \<and> capFlags i \<le> 0xff) ''poolCapabilityFlags must be u8'',
         throw_unless (capFlags i = 0) ''poolCapabilityFlags must be 0x00 for V1 pools'',
         Inr [byte_of (nat (capFlags i))]])"

definition encodeLpAddTail :: "lpAdd \<Rightarrow> bytes res list" where
  "encodeLpAddTail args =
     [u32LE (la_expiryHeight args),
      asBytes (la_refundABlinding args) 32 ''refundABlinding'',
      asBytes (la_refundBBlinding args) 32 ''refundBBlinding'']"

definition encodeLpAdd :: "lpAdd \<Rightarrow> bytes res" where
  "encodeLpAdd args = concatParts
     (encodeLpAddHead args
      @ (if la_variant args = 1 then encodeLpAddInit (la_init args) else [])
      @ encodeLpAddTail args)"

text \<open>The object \<open>decodeLpAdd\<close> returns: the kernel signatures are skipped, not returned.\<close>

record lpAddInitDecoded =
  di_feeBps :: int
  di_vkCid :: bytes
  di_ceremonyCid :: bytes
  di_arbiterThresholdM :: nat
  di_arbiterPubkeys :: "bytes list"
  di_launcherSigs :: "bytes list"
  di_protocolFeeAddress :: bytes
  di_protocolFeeBps :: int
  di_poolMetaUri :: bytes
  di_poolCapabilityFlags :: nat

record lpAddDecoded =
  ld_variant :: nat
  ld_assetA :: bytes
  ld_assetB :: bytes
  ld_deltaA :: int
  ld_deltaB :: int
  ld_shareAmount :: int
  ld_shareCSecp :: bytes
  ld_shareCBJJ :: bytes
  ld_shareXcurveSigma :: bytes
  ld_shareR :: bytes
  ld_init :: "lpAddInitDecoded option"
  ld_expiryHeight :: int
  ld_refundABlinding :: bytes
  ld_refundBBlinding :: bytes

definition decodeLpAddInit :: "bytes \<Rightarrow> nat \<Rightarrow> (lpAddInitDecoded \<times> nat) option" where
  "decodeLpAddInit payload off = do {
     require (off + 2 \<le> length payload);
     feeBps \<leftarrow> readU16LE payload off; let off = off + 2;
     require (feeBps \<le> FEE_BPS_MAX);
     require (off + 1 \<le> length payload);
     let vkLen = u8 payload off; let off = off + 1;
     require (\<not> (vkLen < 1 \<or> vkLen > 64));
     require (off + vkLen \<le> length payload);
     let vkCid = utf8_decode (slice payload off (off + vkLen)); let off = off + vkLen;
     require (off + 1 \<le> length payload);
     let cerLen = u8 payload off; let off = off + 1;
     require (\<not> (cerLen < 1 \<or> cerLen > 64));
     require (off + cerLen \<le> length payload);
     let ceremonyCid = utf8_decode (slice payload off (off + cerLen)); let off = off + cerLen;
     require (off + 2 \<le> length payload);
     let arbCount = u8 payload off; let off = off + 1;
     require (arbCount \<le> 16);
     let arbM = u8 payload off; let off = off + 1;
     require (off + arbCount * 33 \<le> length payload);
     let arbs = take_chunks arbCount 33 payload off; let off = off + arbCount * 33;
     require (off + 1 \<le> length payload);
     let lsigCount = u8 payload off; let off = off + 1;
     require (lsigCount \<le> 2);
     require (off + lsigCount * 64 \<le> length payload);
     let lsigs = take_chunks lsigCount 64 payload off; let off = off + lsigCount * 64;
     require (off + 33 \<le> length payload);
     let addr = slice payload off (off + 33); let off = off + 33;
     require (off + 2 \<le> length payload);
     bps \<leftarrow> readU16LE payload off; let off = off + 2;
     require (bps \<le> PROTOCOL_FEE_BPS_MAX);
     require (off + 1 \<le> length payload);
     let metaLen = u8 payload off; let off = off + 1;
     require (off + metaLen \<le> length payload);
     let metaUri = utf8_decode (slice payload off (off + metaLen)); let off = off + metaLen;
     require (off + 1 \<le> length payload);
     let flags = u8 payload off; let off = off + 1;
     Some (\<lparr>di_feeBps = feeBps, di_vkCid = vkCid, di_ceremonyCid = ceremonyCid,
       di_arbiterThresholdM = arbM, di_arbiterPubkeys = arbs, di_launcherSigs = lsigs,
       di_protocolFeeAddress = addr, di_protocolFeeBps = bps, di_poolMetaUri = metaUri,
       di_poolCapabilityFlags = flags\<rparr>, off)
   }"

definition decodeLpAdd :: "bytes \<Rightarrow> lpAddDecoded option" where
  "decodeLpAdd payload = do {
     require (length payload \<ge> 2 + 32 + 32 + 8 + 8 + 8 + 33 + 32 + 169 + 64 + 64 + 32 + 2);
     require (u8 payload 0 = OPCODE_T_LP_ADD);
     let variant = u8 payload 1;
     require (variant = 0 \<or> variant = 1);
     let off = 2;
     let assetA = slice payload off (off + 32); let off = off + 32;
     let assetB = slice payload off (off + 32); let off = off + 32;
     deltaA \<leftarrow> readU64LE payload off; let off = off + 8;
     deltaB \<leftarrow> readU64LE payload off; let off = off + 8;
     shareAmount \<leftarrow> readU64LE payload off; let off = off + 8;
     let shareCSecp = slice payload off (off + 33); let off = off + 33;
     let shareCBJJ = slice payload off (off + 32); let off = off + 32;
     let shareXcurveSigma = slice payload off (off + XCURVE_PROOF_LEN);
     let off = off + XCURVE_PROOF_LEN + 64 + 64;
     let shareR = slice payload off (off + 32); let off = off + 32;
     (ini, off) \<leftarrow> (if variant = 1
       then map_option (\<lambda>(i, off). (Some i, off)) (decodeLpAddInit payload off)
       else Some (None, off));
     require (off + 4 + 32 + 32 \<le> length payload);
     expiryHeight \<leftarrow> readU32LE payload off; let off = off + 4;
     let refundA = slice payload off (off + 32); let off = off + 32;
     let refundB = slice payload off (off + 32);
     Some \<lparr>ld_variant = variant, ld_assetA = assetA, ld_assetB = assetB, ld_deltaA = deltaA,
       ld_deltaB = deltaB, ld_shareAmount = shareAmount, ld_shareCSecp = shareCSecp,
       ld_shareCBJJ = shareCBJJ, ld_shareXcurveSigma = shareXcurveSigma, ld_shareR = shareR,
       ld_init = ini, ld_expiryHeight = expiryHeight, ld_refundABlinding = refundA,
       ld_refundBBlinding = refundB\<rparr>
   }"

text \<open>What the decoder gives back of the encoder's arguments, defaults resolved.\<close>

definition lpAddInitView :: "poolInit \<Rightarrow> lpAddInitDecoded" where
  "lpAddInitView i = \<lparr>di_feeBps = pi_feeBps i, di_vkCid = pi_vkCid i,
     di_ceremonyCid = pi_ceremonyCid i, di_arbiterThresholdM = nat (thresholdM i),
     di_arbiterPubkeys = pi_arbiterPubkeys i, di_launcherSigs = pi_launcherSigs i,
     di_protocolFeeAddress = protoAddr i, di_protocolFeeBps = pi_protocolFeeBps i,
     di_poolMetaUri = metaUri i, di_poolCapabilityFlags = nat (capFlags i)\<rparr>"

definition lpAddView :: "lpAdd \<Rightarrow> lpAddDecoded" where
  "lpAddView a = \<lparr>ld_variant = nat (la_variant a), ld_assetA = la_assetA a, ld_assetB = la_assetB a,
     ld_deltaA = la_deltaA a, ld_deltaB = la_deltaB a, ld_shareAmount = la_shareAmount a,
     ld_shareCSecp = la_shareCSecp a, ld_shareCBJJ = la_shareCBJJ a,
     ld_shareXcurveSigma = la_shareXcurveSigma a, ld_shareR = la_shareR a,
     ld_init = (if la_variant a = 1 then Some (lpAddInitView (la_init a)) else None),
     ld_expiryHeight = la_expiryHeight a, ld_refundABlinding = la_refundABlinding a,
     ld_refundBBlinding = la_refundBBlinding a\<rparr>"

definition lpAddOk :: "lpAdd \<Rightarrow> bool" where
  "lpAddOk a = (0 \<le> la_expiryHeight a \<and> la_expiryHeight a < 2 ^ 32 \<and>
     (la_variant a = 1 \<longrightarrow> plain_text (pi_vkCid (la_init a)) \<and> plain_text (pi_ceremonyCid (la_init a))
        \<and> plain_text (metaUri (la_init a))))"

lemma encodeLpAddInit_Inr:
  assumes "concatParts (encodeLpAddInit i) = Inr q"
  shows "q = le_bytes 2 (pi_feeBps i) @ [byte_of (length (pi_vkCid i))] @ pi_vkCid i
      @ [byte_of (length (pi_ceremonyCid i))] @ pi_ceremonyCid i
      @ [byte_of (length (pi_arbiterPubkeys i)), byte_of (nat (thresholdM i))]
      @ concat (pi_arbiterPubkeys i) @ [byte_of (length (pi_launcherSigs i))]
      @ concat (pi_launcherSigs i) @ protoAddr i @ le_bytes 2 (pi_protocolFeeBps i)
      @ [byte_of (length (metaUri i))] @ metaUri i @ [0]"
    "0 \<le> pi_feeBps i" "pi_feeBps i \<le> 1000" "0 < length (pi_vkCid i)" "length (pi_vkCid i) \<le> 64"
    "0 < length (pi_ceremonyCid i)" "length (pi_ceremonyCid i) \<le> 64"
    "length (pi_arbiterPubkeys i) \<le> 16" "nat (thresholdM i) \<le> 16"
    "list_all (\<lambda>x. length x = 33) (pi_arbiterPubkeys i)" "length (pi_launcherSigs i) \<le> 2"
    "list_all (\<lambda>x. length x = 64) (pi_launcherSigs i)" "length (protoAddr i) = 33"
    "0 \<le> pi_protocolFeeBps i" "pi_protocolFeeBps i \<le> 1000" "length (metaUri i) \<le> 255" "capFlags i = 0"
    "(pi_protocolFeeBps i = 0) = isZeroAddress (protoAddr i)"
    "(if pi_arbiterPubkeys i = [] then thresholdM i = 0
      else 1 \<le> thresholdM i \<and> thresholdM i \<le> int (length (pi_arbiterPubkeys i)))"
  using assms
  by (simp_all add: encodeLpAddInit_def Let_def wire_simps envelope_consts byte_of_def, auto)

lemma decodeLpAddInit_encode:
  assumes enc: "concatParts (encodeLpAddInit i) = Inr q" and off: "length pre = off"
    and plain: "plain_text (pi_vkCid i)" "plain_text (pi_ceremonyCid i)" "plain_text (metaUri i)"
  shows "decodeLpAddInit (pre @ q @ post) off = Some (lpAddInitView i, off + length q)"
proof -
  note facts = encodeLpAddInit_Inr [OF enc]
  show ?thesis
    unfolding facts(1) off [symmetric]
    using facts(2-17) plain
    by (simp add: decodeLpAddInit_def lpAddInitView_def Let_def readU16LE_def envelope_consts
        length_concat_chunks wire_simps)
qed

lemma encodeLpAddHead_Inr:
  assumes "concatParts (encodeLpAddHead a) = Inr q"
  shows "q = [0x2D, byte_of (nat (la_variant a))] @ la_assetA a @ la_assetB a @ le_bytes 8 (la_deltaA a)
      @ le_bytes 8 (la_deltaB a) @ le_bytes 8 (la_shareAmount a) @ la_shareCSecp a @ la_shareCBJJ a
      @ la_shareXcurveSigma a @ la_kernelSigA a @ la_kernelSigB a @ la_shareR a"
    "la_variant a = 0 \<or> la_variant a = 1" "length (la_assetA a) = 32" "length (la_assetB a) = 32"
    "0 \<le> la_deltaA a" "la_deltaA a < 2 ^ 64" "0 \<le> la_deltaB a" "la_deltaB a < 2 ^ 64"
    "0 \<le> la_shareAmount a" "la_shareAmount a < 2 ^ 64" "length (la_shareCSecp a) = 33"
    "length (la_shareCBJJ a) = 32" "length (la_shareXcurveSigma a) = 169"
    "length (la_kernelSigA a) = 64" "length (la_kernelSigB a) = 64" "length (la_shareR a) = 32"
  using assms
  by (simp_all add: encodeLpAddHead_def wire_simps envelope_consts byte_of_def)

lemma length_encodeLpAddHead: "concatParts (encodeLpAddHead a) = Inr q \<Longrightarrow> length q = 484"
  using encodeLpAddHead_Inr [of a q] by simp

text \<open>The round trip, with any bytes after the payload: \<open>decodeLpAdd\<close> never looks past the refund tail.\<close>

lemma decodeLpAdd_encode_append:
  assumes enc: "encodeLpAdd a = Inr p" and ok: "lpAddOk a"
  shows "decodeLpAdd (p @ junk) = Some (lpAddView a)"
proof -
  obtain h m t where h: "concatParts (encodeLpAddHead a) = Inr h"
    and m: "concatParts (if la_variant a = 1 then encodeLpAddInit (la_init a) else []) = Inr m"
    and t: "concatParts (encodeLpAddTail a) = Inr t" and p: "p = h @ m @ t"
    using enc by (auto simp: encodeLpAdd_def concatParts_append_Inr)
  note hf = encodeLpAddHead_Inr [OF h]
  have len: "length h = 484" by (rule length_encodeLpAddHead [OF h])
  have tl: "t = le_bytes 4 (la_expiryHeight a) @ la_refundABlinding a @ la_refundBBlinding a"
    "length (la_refundABlinding a) = 32" "length (la_refundBBlinding a) = 32"
    using t by (simp_all add: encodeLpAddTail_def wire_simps)
  have ex: "0 \<le> la_expiryHeight a \<and> la_expiryHeight a < 2 ^ 32"
    using ok by (simp add: lpAddOk_def)
  consider "la_variant a = 0" "m = []" | "la_variant a = 1" "concatParts (encodeLpAddInit (la_init a)) = Inr m"
    using hf(2) m by (auto simp: wire_simps)
  then show ?thesis
  proof cases
    case 1
    show ?thesis
      unfolding p tl(1) hf(1) decodeLpAdd_def
      using 1 hf(3-) tl(2-) ex
      by (simp add: Let_def readU32LE_def envelope_consts wire_simps lpAddView_def)
  next
    case 2
    have ini: "decodeLpAddInit (h @ m @ t @ junk) 484 = Some (lpAddInitView (la_init a), 484 + length m)"
      using decodeLpAddInit_encode [OF 2(2) len] ok 2(1) by (simp add: lpAddOk_def)
    show ?thesis
      using ini
      unfolding p tl(1) hf(1) decodeLpAdd_def
      using 2(1) hf(3-) tl(2-) ex
      by (simp add: Let_def readU32LE_def envelope_consts wire_simps lpAddView_def)
  qed
qed

subsection \<open>The dapp's liquidity envelopes as payload codecs\<close>

interpretation feeClaimWire: payload_codec encodeProtocolFeeClaim decodeProtocolFeeClaim "\<lambda>c. c"
    "\<lambda>c. 0 \<le> fc_feeBps c \<and> fc_feeBps c < 2 ^ 32"
  by unfold_locales (rule decodeProtocolFeeClaim_encode)

interpretation lpRemoveWire: payload_codec encodeLpRemove decodeLpRemove "\<lambda>r. r" "\<lambda>_. True"
  by unfold_locales (rule decodeLpRemove_encode)

interpretation lpAddWire: payload_codec encodeLpAdd decodeLpAdd lpAddView lpAddOk
  using decodeLpAdd_encode_append [of _ _ "[]"] by unfold_locales simp

end
