(* ===== verification/Farm_Envelope.thy ===== *)
theory Farm_Envelope
  imports Amm_Envelope
begin

text \<open>
  The LP-farm envelopes of \<open>dapp/amm-envelope.js\<close>: \<open>T_FARM_INIT\<close>, \<open>T_LP_BOND\<close>, \<open>T_LP_UNBOND\<close>,
  \<open>T_LP_HARVEST\<close> and \<open>T_FARM_REFUND\<close>, with their encoders and decoders, and the messages that the launcher,
  the bonder and the position's owner sign. The hash functions come from a vendored library and are a
  parameter of every message builder.
\<close>

definition OPCODE_T_FARM_INIT :: nat where "OPCODE_T_FARM_INIT = 0x34"
definition OPCODE_T_LP_BOND :: nat where "OPCODE_T_LP_BOND = 0x35"
definition OPCODE_T_LP_UNBOND :: nat where "OPCODE_T_LP_UNBOND = 0x36"
definition OPCODE_T_LP_HARVEST :: nat where "OPCODE_T_LP_HARVEST = 0x3B"
definition OPCODE_T_FARM_REFUND :: nat where "OPCODE_T_FARM_REFUND = 0x3E"

lemmas farm_consts = OPCODE_T_FARM_INIT_def OPCODE_T_LP_BOND_def OPCODE_T_LP_UNBOND_def
  OPCODE_T_LP_HARVEST_def OPCODE_T_FARM_REFUND_def

text \<open>A compressed public key starts with \<open>0x02\<close> or \<open>0x03\<close>.\<close>

definition compressed :: "bytes \<Rightarrow> bool" where
  "compressed pk = (u8 pk 0 = 2 \<or> u8 pk 0 = 3)"

subsection \<open>Encoders\<close>

record farmInit =
  fi_poolId :: bytes
  fi_farmNonce :: bytes
  fi_launcherPubkey :: bytes
  fi_rewardAssetId :: bytes
  fi_rewardTotal :: int
  fi_rewardPerBlock :: int
  fi_startHeight :: int
  fi_endHeight :: int
  fi_cChangeOrSentinel :: bytes
  fi_rangeProof :: bytes
  fi_kernelSig :: bytes
  fi_launcherSig :: bytes
  fi_refundExpiry :: int
  fi_refundDestXonly :: bytes
  fi_refundBlinding :: bytes

definition encodeFarmInit :: "farmInit \<Rightarrow> bytes res" where
  "encodeFarmInit args = concatParts
     [Inr [byte_of OPCODE_T_FARM_INIT],
      asBytes (fi_poolId args) 32 ''poolId'',
      asBytes (fi_farmNonce args) 32 ''farmNonce'',
      asBytes (fi_launcherPubkey args) 33 ''launcherPubkey'',
      asBytes (fi_rewardAssetId args) 32 ''rewardAssetId'',
      u64LE (fi_rewardTotal args),
      u64LE (fi_rewardPerBlock args),
      u32LE (fi_startHeight args),
      u32LE (fi_endHeight args),
      asBytes (fi_cChangeOrSentinel args) 33 ''cChangeOrSentinel'',
      throw_unless (length (fi_rangeProof args) \<le> 0xffff) ''rangeProof too large'',
      u16LE (int (length (fi_rangeProof args))),
      Inr (fi_rangeProof args),
      asBytes (fi_kernelSig args) 64 ''kernelSig'',
      asBytes (fi_launcherSig args) 64 ''launcherSig'',
      u32LE (fi_refundExpiry args),
      asBytes (fi_refundDestXonly args) 32 ''refundDestXonly'',
      asBytes (fi_refundBlinding args) 32 ''refundBlinding'']"

record lpBond =
  lb_farmId :: bytes
  lb_bonderPubkey :: bytes
  lb_bondAmount :: int
  lb_entryAccPerShare :: int
  lb_bondViewHeight :: int
  lb_ownerCommit :: bytes
  lb_nonce :: bytes
  lb_cChangeOrSentinel :: bytes
  lb_rangeProof :: bytes
  lb_kernelSig :: bytes
  lb_bonderSig :: bytes
  lb_refundExpiry :: int
  lb_refundDestXonly :: bytes
  lb_refundBlinding :: bytes

definition encodeLpBond :: "lpBond \<Rightarrow> bytes res" where
  "encodeLpBond args = concatParts
     [Inr [byte_of OPCODE_T_LP_BOND],
      asBytes (lb_farmId args) 32 ''farmId'',
      asBytes (lb_bonderPubkey args) 33 ''bonderPubkey'',
      u64LE (lb_bondAmount args),
      u128LE (lb_entryAccPerShare args),
      u32LE (lb_bondViewHeight args),
      asBytes (lb_ownerCommit args) 32 ''ownerCommit'',
      asBytes (lb_nonce args) 32 ''nonce'',
      asBytes (lb_cChangeOrSentinel args) 33 ''cChangeOrSentinel'',
      throw_unless (length (lb_rangeProof args) \<le> 0xffff) ''rangeProof too large'',
      u16LE (int (length (lb_rangeProof args))),
      Inr (lb_rangeProof args),
      asBytes (lb_kernelSig args) 64 ''kernelSig'',
      asBytes (lb_bonderSig args) 64 ''bonderSig'',
      u32LE (lb_refundExpiry args),
      asBytes (lb_refundDestXonly args) 32 ''refundDestXonly'',
      asBytes (lb_refundBlinding args) 32 ''refundBlinding'']"

record lpUnbond =
  lu_farmId :: bytes
  lu_ownerCommit :: bytes
  lu_nonce :: bytes
  lu_shares :: int
  lu_rpsEntry :: int
  lu_lpReturnR :: bytes
  lu_unbonderSig :: bytes

definition encodeLpUnbond :: "lpUnbond \<Rightarrow> bytes res" where
  "encodeLpUnbond args = concatParts
     [Inr [byte_of OPCODE_T_LP_UNBOND],
      asBytes (lu_farmId args) 32 ''farmId'',
      asBytes (lu_ownerCommit args) 32 ''ownerCommit'',
      asBytes (lu_nonce args) 32 ''nonce'',
      u64LE (lu_shares args),
      u128LE (lu_rpsEntry args),
      asBytes (lu_lpReturnR args) 32 ''lpReturnR'',
      asBytes (lu_unbonderSig args) 64 ''unbonderSig'']"

record lpHarvest =
  lh_farmId :: bytes
  lh_bondId :: bytes
  lh_harvesterPubkey :: bytes
  lh_exitAccPerShare :: int
  lh_exitViewHeight :: int
  lh_rewardAmount :: int
  lh_rewardR :: bytes
  lh_ownerCommit :: bytes
  lh_oldNonce :: bytes
  lh_newNonce :: bytes
  lh_shares :: int
  lh_rpsEntry :: int
  lh_harvesterSig :: bytes

definition encodeLpHarvest :: "lpHarvest \<Rightarrow> bytes res" where
  "encodeLpHarvest args = concatParts
     [Inr [byte_of OPCODE_T_LP_HARVEST],
      asBytes (lh_farmId args) 32 ''farmId'',
      asBytes (lh_bondId args) 36 ''bondId'',
      asBytes (lh_harvesterPubkey args) 33 ''harvesterPubkey'',
      u128LE (lh_exitAccPerShare args),
      u32LE (lh_exitViewHeight args),
      u64LE (lh_rewardAmount args),
      asBytes (lh_rewardR args) 32 ''rewardR'',
      asBytes (lh_ownerCommit args) 32 ''ownerCommit'',
      asBytes (lh_oldNonce args) 32 ''oldNonce'',
      asBytes (lh_newNonce args) 32 ''newNonce'',
      u64LE (lh_shares args),
      u128LE (lh_rpsEntry args),
      asBytes (lh_harvesterSig args) 64 ''harvesterSig'']"

record farmRefund =
  fr_farmId :: bytes
  fr_launcherPubkey :: bytes
  fr_refundAmount :: int
  fr_refundViewHeight :: int
  fr_refundR :: bytes
  fr_launcherSig :: bytes

definition encodeFarmRefund :: "farmRefund \<Rightarrow> bytes res" where
  "encodeFarmRefund args = concatParts
     [Inr [byte_of OPCODE_T_FARM_REFUND],
      asBytes (fr_farmId args) 32 ''farmId'',
      asBytes (fr_launcherPubkey args) 33 ''launcherPubkey'',
      u64LE (fr_refundAmount args),
      u32LE (fr_refundViewHeight args),
      asBytes (fr_refundR args) 32 ''refundR'',
      asBytes (fr_launcherSig args) 64 ''launcherSig'']"

subsection \<open>Decoders\<close>

definition decodeFarmInit :: "bytes \<Rightarrow> farmInit option" where
  "decodeFarmInit payload = do {
     require (length payload \<ge> 315 + 2 + 68);
     require (u8 payload 0 = OPCODE_T_FARM_INIT); let p = 1;
     let poolId = slice payload p (p + 32); let p = p + 32;
     let farmNonce = slice payload p (p + 32); let p = p + 32;
     let launcherPubkey = slice payload p (p + 33); let p = p + 33;
     require (compressed launcherPubkey);
     let rewardAssetId = slice payload p (p + 32); let p = p + 32;
     rewardTotal \<leftarrow> readU64LE payload p; let p = p + 8;
     rewardPerBlock \<leftarrow> readU64LE payload p; let p = p + 8;
     startHeight \<leftarrow> readU32LE payload p; let p = p + 4;
     endHeight \<leftarrow> readU32LE payload p; let p = p + 4;
     let cChangeOrSentinel = slice payload p (p + 33); let p = p + 33;
     rpLen' \<leftarrow> readU16LE payload p; let rpLen = nat rpLen'; let p = p + 2;
     require (p + rpLen + 64 + 64 + 68 \<le> length payload);
     let rangeProof = slice payload p (p + rpLen); let p = p + rpLen;
     let kernelSig = slice payload p (p + 64); let p = p + 64;
     let launcherSig = slice payload p (p + 64); let p = p + 64;
     refundExpiry \<leftarrow> readU32LE payload p; let p = p + 4;
     let refundDestXonly = slice payload p (p + 32); let p = p + 32;
     let refundBlinding = slice payload p (p + 32); let p = p + 32;
     require (p = length payload);
     Some \<lparr>fi_poolId = poolId, fi_farmNonce = farmNonce, fi_launcherPubkey = launcherPubkey,
       fi_rewardAssetId = rewardAssetId, fi_rewardTotal = rewardTotal, fi_rewardPerBlock = rewardPerBlock,
       fi_startHeight = startHeight, fi_endHeight = endHeight, fi_cChangeOrSentinel = cChangeOrSentinel,
       fi_rangeProof = rangeProof, fi_kernelSig = kernelSig, fi_launcherSig = launcherSig,
       fi_refundExpiry = refundExpiry, fi_refundDestXonly = refundDestXonly,
       fi_refundBlinding = refundBlinding\<rparr>
   }"

definition decodeLpBond :: "bytes \<Rightarrow> lpBond option" where
  "decodeLpBond payload = do {
     require (length payload \<ge> 319 + 2 + 68);
     require (u8 payload 0 = OPCODE_T_LP_BOND); let p = 1;
     let farmId = slice payload p (p + 32); let p = p + 32;
     let bonderPubkey = slice payload p (p + 33); let p = p + 33;
     require (compressed bonderPubkey);
     bondAmount \<leftarrow> readU64LE payload p; let p = p + 8;
     entryAccPerShare \<leftarrow> readU128LE payload p; let p = p + 16;
     bondViewHeight \<leftarrow> readU32LE payload p; let p = p + 4;
     let ownerCommit = slice payload p (p + 32); let p = p + 32;
     let nonce = slice payload p (p + 32); let p = p + 32;
     let cChangeOrSentinel = slice payload p (p + 33); let p = p + 33;
     rpLen' \<leftarrow> readU16LE payload p; let rpLen = nat rpLen'; let p = p + 2;
     require (p + rpLen + 64 + 64 + 68 \<le> length payload);
     let rangeProof = slice payload p (p + rpLen); let p = p + rpLen;
     let kernelSig = slice payload p (p + 64); let p = p + 64;
     let bonderSig = slice payload p (p + 64); let p = p + 64;
     refundExpiry \<leftarrow> readU32LE payload p; let p = p + 4;
     let refundDestXonly = slice payload p (p + 32); let p = p + 32;
     let refundBlinding = slice payload p (p + 32); let p = p + 32;
     require (p = length payload);
     Some \<lparr>lb_farmId = farmId, lb_bonderPubkey = bonderPubkey, lb_bondAmount = bondAmount,
       lb_entryAccPerShare = entryAccPerShare, lb_bondViewHeight = bondViewHeight,
       lb_ownerCommit = ownerCommit, lb_nonce = nonce, lb_cChangeOrSentinel = cChangeOrSentinel,
       lb_rangeProof = rangeProof, lb_kernelSig = kernelSig, lb_bonderSig = bonderSig,
       lb_refundExpiry = refundExpiry, lb_refundDestXonly = refundDestXonly,
       lb_refundBlinding = refundBlinding\<rparr>
   }"

definition decodeLpUnbond :: "bytes \<Rightarrow> lpUnbond option" where
  "decodeLpUnbond payload = do {
     require (length payload = 217);
     require (u8 payload 0 = OPCODE_T_LP_UNBOND); let p = 1;
     let farmId = slice payload p (p + 32); let p = p + 32;
     let ownerCommit = slice payload p (p + 32); let p = p + 32;
     let nonce = slice payload p (p + 32); let p = p + 32;
     shares \<leftarrow> readU64LE payload p; let p = p + 8;
     rpsEntry \<leftarrow> readU128LE payload p; let p = p + 16;
     let lpReturnR = slice payload p (p + 32); let p = p + 32;
     let unbonderSig = slice payload p (p + 64); let p = p + 64;
     require (p = length payload);
     Some \<lparr>lu_farmId = farmId, lu_ownerCommit = ownerCommit, lu_nonce = nonce, lu_shares = shares,
       lu_rpsEntry = rpsEntry, lu_lpReturnR = lpReturnR, lu_unbonderSig = unbonderSig\<rparr>
   }"

definition decodeLpHarvest :: "bytes \<Rightarrow> lpHarvest option" where
  "decodeLpHarvest payload = do {
     require (length payload = 346);
     require (u8 payload 0 = OPCODE_T_LP_HARVEST); let p = 1;
     let farmId = slice payload p (p + 32); let p = p + 32;
     let bondId = slice payload p (p + 36); let p = p + 36;
     let harvesterPubkey = slice payload p (p + 33); let p = p + 33;
     exitAccPerShare \<leftarrow> readU128LE payload p; let p = p + 16;
     exitViewHeight \<leftarrow> readU32LE payload p; let p = p + 4;
     rewardAmount \<leftarrow> readU64LE payload p; let p = p + 8;
     let rewardR = slice payload p (p + 32); let p = p + 32;
     let ownerCommit = slice payload p (p + 32); let p = p + 32;
     let oldNonce = slice payload p (p + 32); let p = p + 32;
     let newNonce = slice payload p (p + 32); let p = p + 32;
     shares \<leftarrow> readU64LE payload p; let p = p + 8;
     rpsEntry \<leftarrow> readU128LE payload p; let p = p + 16;
     let harvesterSig = slice payload p (p + 64); let p = p + 64;
     require (p = length payload);
     Some \<lparr>lh_farmId = farmId, lh_bondId = bondId, lh_harvesterPubkey = harvesterPubkey,
       lh_exitAccPerShare = exitAccPerShare, lh_exitViewHeight = exitViewHeight,
       lh_rewardAmount = rewardAmount, lh_rewardR = rewardR, lh_ownerCommit = ownerCommit,
       lh_oldNonce = oldNonce, lh_newNonce = newNonce, lh_shares = shares, lh_rpsEntry = rpsEntry,
       lh_harvesterSig = harvesterSig\<rparr>
   }"

definition decodeFarmRefund :: "bytes \<Rightarrow> farmRefund option" where
  "decodeFarmRefund payload = do {
     require (length payload = 174);
     require (u8 payload 0 = OPCODE_T_FARM_REFUND); let p = 1;
     let farmId = slice payload p (p + 32); let p = p + 32;
     let launcherPubkey = slice payload p (p + 33); let p = p + 33;
     require (compressed launcherPubkey);
     refundAmount \<leftarrow> readU64LE payload p; let p = p + 8;
     refundViewHeight \<leftarrow> readU32LE payload p; let p = p + 4;
     let refundR = slice payload p (p + 32); let p = p + 32;
     let launcherSig = slice payload p (p + 64); let p = p + 64;
     require (p = length payload);
     Some \<lparr>fr_farmId = farmId, fr_launcherPubkey = launcherPubkey, fr_refundAmount = refundAmount,
       fr_refundViewHeight = refundViewHeight, fr_refundR = refundR, fr_launcherSig = launcherSig\<rparr>
   }"

subsection \<open>Round trips\<close>

abbreviation u32 :: "int \<Rightarrow> bool" where "u32 n \<equiv> 0 \<le> n \<and> n < 2 ^ 32"

definition farmInitOk :: "farmInit \<Rightarrow> bool" where
  "farmInitOk a = (compressed (fi_launcherPubkey a) \<and> u32 (fi_startHeight a) \<and> u32 (fi_endHeight a)
     \<and> u32 (fi_refundExpiry a))"

definition lpBondOk :: "lpBond \<Rightarrow> bool" where
  "lpBondOk a = (compressed (lb_bonderPubkey a) \<and> u32 (lb_bondViewHeight a) \<and> u32 (lb_refundExpiry a))"

definition farmRefundOk :: "farmRefund \<Rightarrow> bool" where
  "farmRefundOk a = (compressed (fr_launcherPubkey a) \<and> u32 (fr_refundViewHeight a))"

lemmas read_defs = readU16LE_def readU32LE_def readU64LE_eq readU128LE_def

lemma decodeFarmInit_encode:
  assumes "encodeFarmInit a = Inr p" "farmInitOk a"
  shows "decodeFarmInit p = Some a"
  using assms
  by (cases a) (auto simp: encodeFarmInit_def decodeFarmInit_def farmInitOk_def Let_def read_defs
      farm_consts wire_simps)

lemma decodeLpBond_encode:
  assumes "encodeLpBond a = Inr p" "lpBondOk a"
  shows "decodeLpBond p = Some a"
  using assms
  by (cases a) (auto simp: encodeLpBond_def decodeLpBond_def lpBondOk_def Let_def read_defs
      farm_consts wire_simps)

lemma decodeLpUnbond_encode:
  assumes "encodeLpUnbond a = Inr p"
  shows "decodeLpUnbond p = Some a"
  using assms
  by (cases a) (auto simp: encodeLpUnbond_def decodeLpUnbond_def Let_def read_defs farm_consts wire_simps)

lemma decodeLpHarvest_encode:
  assumes "encodeLpHarvest a = Inr p" "u32 (lh_exitViewHeight a)"
  shows "decodeLpHarvest p = Some a"
  using assms
  by (cases a) (auto simp: encodeLpHarvest_def decodeLpHarvest_def Let_def read_defs farm_consts wire_simps)

lemma decodeFarmRefund_encode:
  assumes "encodeFarmRefund a = Inr p" "farmRefundOk a"
  shows "decodeFarmRefund p = Some a"
  using assms
  by (cases a) (auto simp: encodeFarmRefund_def decodeFarmRefund_def farmRefundOk_def Let_def read_defs
      farm_consts wire_simps)

subsection \<open>Every accepted payload is an encoding\<close>

lemma encodeLpUnbond_decode:
  assumes "decodeLpUnbond p = Some a"
  shows "encodeLpUnbond a = Inr p"
proof -
  have len: "length p = 217" and op: "u8 p 0 = 54"
    using assms by (auto simp: decodeLpUnbond_def farm_consts split: if_splits)
  have "byte_of 54 # slice p 1 217 = p"
    using head_rebuild [of p 54] len op by fastforce
  then show ?thesis
    using assms len
    by (auto simp: decodeLpUnbond_def encodeLpUnbond_def Let_def read_defs farm_consts wire_simps
        rebuild_simps split: if_splits)
qed

lemma encodeLpHarvest_decode:
  assumes "decodeLpHarvest p = Some a"
  shows "encodeLpHarvest a = Inr p \<and> u32 (lh_exitViewHeight a)"
proof -
  have len: "length p = 346" and op: "u8 p 0 = 59"
    using assms by (auto simp: decodeLpHarvest_def farm_consts split: if_splits)
  have "byte_of 59 # slice p 1 346 = p"
    using head_rebuild [of p 59] len op by fastforce
  then show ?thesis
    using assms len
    by (auto simp: decodeLpHarvest_def encodeLpHarvest_def Let_def read_defs farm_consts wire_simps
        rebuild_simps split: if_splits)
qed

lemma encodeFarmRefund_decode:
  assumes "decodeFarmRefund p = Some a"
  shows "encodeFarmRefund a = Inr p \<and> farmRefundOk a"
proof -
  have len: "length p = 174" and op: "u8 p 0 = 62"
    using assms by (auto simp: decodeFarmRefund_def farm_consts split: if_splits)
  have "byte_of 62 # slice p 1 174 = p"
    using head_rebuild [of p 62] len op by fastforce
  then show ?thesis
    using assms len
    by (auto simp: decodeFarmRefund_def encodeFarmRefund_def farmRefundOk_def Let_def read_defs farm_consts
        wire_simps rebuild_simps split: if_splits)
qed

text \<open>The range proof's length prefix is the length of what is read behind it.\<close>

lemma length_prefix_rebuild:
  assumes "n = nat (le_val (slice p a (a + 2)))" "a + 2 \<le> length p" "b + n \<le> length p"
  shows "le_bytes 2 (int (length (slice p b (b + n)))) = slice p a (a + 2)"
proof -
  have "int (length (slice p b (b + n))) = le_val (slice p a (a + 2))"
    using assms by simp
  then show ?thesis
    using assms(2) by (simp add: le_bytes_slice)
qed

lemma nat_le_val_2: "nat (le_val (slice p a (a + 2))) \<le> 0xffff"
  using le_val_slice_less [of "a + 2" a 2 65536 p] by simp

lemma encodeFarmInit_decode:
  assumes "decodeFarmInit p = Some a"
  shows "encodeFarmInit a = Inr p \<and> farmInitOk a"
proof -
  define n where "n = nat (le_val (slice p 187 189))"
  have op: "u8 p 0 = 52" and len: "length p = 385 + n"
    using assms by (auto simp: decodeFarmInit_def farm_consts Let_def read_defs n_def split: if_splits)
  have hd: "byte_of 52 # slice p 1 (385 + n) = p"
    using head_rebuild [of p 52] len op by fastforce
  have n: "n \<le> 0xffff" and pre: "le_bytes 2 (int n) = slice p 187 189"
    using nat_le_val_2 [of p 187] le_bytes_slice [of 189 p 187 2] len by (auto simp: n_def)
  show ?thesis
    using assms len hd n pre
    by (auto simp: decodeFarmInit_def encodeFarmInit_def farmInitOk_def Let_def read_defs farm_consts
        wire_simps rebuild_simps n_def [symmetric] split: if_splits)
qed

lemma encodeLpBond_decode:
  assumes "decodeLpBond p = Some a"
  shows "encodeLpBond a = Inr p \<and> lpBondOk a"
proof -
  define n where "n = nat (le_val (slice p 191 193))"
  have op: "u8 p 0 = 53" and len: "length p = 389 + n"
    using assms by (auto simp: decodeLpBond_def farm_consts Let_def read_defs n_def split: if_splits)
  have hd: "byte_of 53 # slice p 1 (389 + n) = p"
    using head_rebuild [of p 53] len op by fastforce
  have n: "n \<le> 0xffff" and pre: "le_bytes 2 (int n) = slice p 191 193"
    using nat_le_val_2 [of p 191] le_bytes_slice [of 193 p 191 2] len by (auto simp: n_def)
  show ?thesis
    using assms len hd n pre
    by (auto simp: decodeLpBond_def encodeLpBond_def lpBondOk_def Let_def read_defs farm_consts
        wire_simps rebuild_simps n_def [symmetric] split: if_splits)
qed

interpretation farmInitWire: exact_codec encodeFarmInit decodeFarmInit farmInitOk
  using encodeFarmInit_decode by unfold_locales (auto intro: decodeFarmInit_encode)

interpretation lpBondWire: exact_codec encodeLpBond decodeLpBond lpBondOk
  using encodeLpBond_decode by unfold_locales (auto intro: decodeLpBond_encode)

interpretation lpUnbondWire: exact_codec encodeLpUnbond decodeLpUnbond "\<lambda>_. True"
  using encodeLpUnbond_decode by unfold_locales (auto intro: decodeLpUnbond_encode)

interpretation lpHarvestWire: exact_codec encodeLpHarvest decodeLpHarvest
    "\<lambda>a. u32 (lh_exitViewHeight a)"
  using encodeLpHarvest_decode by unfold_locales (auto intro: decodeLpHarvest_encode)

interpretation farmRefundWire: exact_codec encodeFarmRefund decodeFarmRefund farmRefundOk
  using encodeFarmRefund_decode by unfold_locales (auto intro: decodeFarmRefund_encode)

subsection \<open>Signed messages\<close>


definition deriveFarmId :: "(bytes \<Rightarrow> bytes) \<Rightarrow> bytes \<Rightarrow> bytes \<Rightarrow> bytes \<Rightarrow> bytes \<Rightarrow> bytes res" where
  "deriveFarmId sha256 poolId launcherPubkey rewardAssetId farmNonce = hashed sha256 (concatParts
     [Inr (ascii ''tacit-amm-farm-init-v1''),
      asBytes poolId 32 ''poolId'',
      asBytes launcherPubkey 33 ''launcherPubkey'',
      asBytes rewardAssetId 32 ''rewardAssetId'',
      asBytes farmNonce 32 ''farmNonce''])"

record outpoint = op_txid :: bytes op_vout :: int

definition ammFundingHash :: "(bytes \<Rightarrow> bytes) \<Rightarrow> outpoint list \<Rightarrow> bytes \<Rightarrow> bytes res" where
  "ammFundingHash sha256 outpoints kernelSig = hashed sha256 (concatParts
     (concat (map (\<lambda>op. [map_sum id rev (asBytes (op_txid op) 32 ''op.txid''), u32LE (op_vout op)]) outpoints)
      @ [hashed sha256 (asBytes kernelSig 64 ''kernelSig'')]))"

definition buildFarmInitMsg ::
  "(bytes \<Rightarrow> bytes) \<Rightarrow> bytes \<Rightarrow> bytes \<Rightarrow> int \<Rightarrow> int \<Rightarrow> int \<Rightarrow> int \<Rightarrow> bytes \<Rightarrow> int \<Rightarrow> bytes \<Rightarrow> bytes \<Rightarrow> bytes res" where
  "buildFarmInitMsg sha256 farmId launcherPubkey rewardTotal rewardPerBlock startHeight endHeight
     fundingHash refundExpiry refundDestXonly refundBlinding = hashed sha256 (concatParts
     [Inr (ascii ''tacit-amm-farm-init-v1''),
      asBytes farmId 32 ''farmId'',
      asBytes launcherPubkey 33 ''launcherPubkey'',
      u64LE rewardTotal, u64LE rewardPerBlock,
      u32LE startHeight, u32LE endHeight,
      asBytes fundingHash 32 ''fundingHash'',
      u32LE refundExpiry,
      asBytes refundDestXonly 32 ''refundDestXonly'',
      asBytes refundBlinding 32 ''refundBlinding''])"

definition buildLpBondMsg ::
  "(bytes \<Rightarrow> bytes) \<Rightarrow> bytes \<Rightarrow> bytes \<Rightarrow> int \<Rightarrow> int \<Rightarrow> int \<Rightarrow> bytes \<Rightarrow> bytes \<Rightarrow> bytes \<Rightarrow> int \<Rightarrow> bytes \<Rightarrow> bytes \<Rightarrow> bytes res" where
  "buildLpBondMsg sha256 farmId bonderPubkey bondAmount entryAccPerShare bondViewHeight ownerCommit nonce
     fundingHash refundExpiry refundDestXonly refundBlinding = hashed sha256 (concatParts
     [Inr (ascii ''tacit-amm-farm-bond-v1''),
      asBytes farmId 32 ''farmId'',
      asBytes bonderPubkey 33 ''bonderPubkey'',
      u64LE bondAmount,
      u128LE entryAccPerShare,
      u32LE bondViewHeight,
      asBytes ownerCommit 32 ''ownerCommit'',
      asBytes nonce 32 ''nonce'',
      asBytes fundingHash 32 ''fundingHash'',
      u32LE refundExpiry,
      asBytes refundDestXonly 32 ''refundDestXonly'',
      asBytes refundBlinding 32 ''refundBlinding''])"

definition buildLpUnbondMsg ::
  "(bytes \<Rightarrow> bytes) \<Rightarrow> bytes \<Rightarrow> bytes \<Rightarrow> bytes \<Rightarrow> int \<Rightarrow> int \<Rightarrow> int \<Rightarrow> bytes \<Rightarrow> bytes \<Rightarrow> bytes res" where
  "buildLpUnbondMsg sha256 farmId bondId unbonderPubkey exitAccPerShare exitViewHeight rewardAmount
     lpReturnR rewardR = hashed sha256 (concatParts
     [Inr (ascii ''tacit-amm-farm-unbond-v1''),
      asBytes farmId 32 ''farmId'',
      asBytes bondId 36 ''bondId'',
      asBytes unbonderPubkey 33 ''unbonderPubkey'',
      u128LE exitAccPerShare,
      u32LE exitViewHeight,
      u64LE rewardAmount,
      asBytes lpReturnR 32 ''lpReturnR'',
      asBytes rewardR 32 ''rewardR''])"

definition buildLpHarvestMsg ::
  "(bytes \<Rightarrow> bytes) \<Rightarrow> bytes \<Rightarrow> bytes \<Rightarrow> bytes \<Rightarrow> int \<Rightarrow> int \<Rightarrow> int \<Rightarrow> bytes \<Rightarrow> bytes res" where
  "buildLpHarvestMsg sha256 farmId bondId harvesterPubkey exitAccPerShare exitViewHeight rewardAmount
     rewardR = hashed sha256 (concatParts
     [Inr (ascii ''tacit-amm-farm-harvest-v1''),
      asBytes farmId 32 ''farmId'',
      asBytes bondId 36 ''bondId'',
      asBytes harvesterPubkey 33 ''harvesterPubkey'',
      u128LE exitAccPerShare,
      u32LE exitViewHeight,
      u64LE rewardAmount,
      asBytes rewardR 32 ''rewardR''])"

definition buildFarmStateHash :: "(bytes \<Rightarrow> bytes) \<Rightarrow> int \<Rightarrow> int \<Rightarrow> int \<Rightarrow> bytes res" where
  "buildFarmStateHash sha256 treasuryRemaining totalBonded accRewardPerShare = hashed sha256 (concatParts
     [Inr (ascii ''tacit-farm-state-v1''),
      u64LE treasuryRemaining,
      u64LE totalBonded,
      u128LE accRewardPerShare])"

definition farmReceiptLeaf ::
  "(bytes \<Rightarrow> bytes) \<Rightarrow> bytes \<Rightarrow> bytes \<Rightarrow> int \<Rightarrow> bytes \<Rightarrow> bytes \<Rightarrow> bytes res" where
  "farmReceiptLeaf keccak farmId lpAsset shares owner nonce = hashed keccak (concatParts
     [Inr (ascii ''tacit-farm-receipt-v3''),
      asBytes farmId 32 ''farmId'',
      asBytes lpAsset 32 ''lpAsset'',
      u64LE shares,
      asBytes owner 32 ''owner'',
      asBytes nonce 32 ''nonce''])"

definition lpHarvestOwnerMsg ::
  "(bytes \<Rightarrow> bytes) \<Rightarrow> bytes \<Rightarrow> bytes \<Rightarrow> int \<Rightarrow> bytes \<Rightarrow> bytes \<Rightarrow> bytes res" where
  "lpHarvestOwnerMsg keccak farmId oldLeaf reward rewardR destSpk = hashed keccak (concatParts
     [Inr (ascii ''tacit-farm-harvest-owner-v1''),
      asBytes farmId 32 ''farmId'',
      asBytes oldLeaf 32 ''oldLeaf'',
      Inr (u64BE reward),
      asBytes rewardR 32 ''rewardR'',
      Inr destSpk])"

definition lpUnbondOwnerMsg ::
  "(bytes \<Rightarrow> bytes) \<Rightarrow> bytes \<Rightarrow> bytes \<Rightarrow> int \<Rightarrow> bytes \<Rightarrow> bytes \<Rightarrow> bytes res" where
  "lpUnbondOwnerMsg keccak farmId oldLeaf shares lpReturnR destSpk = hashed keccak (concatParts
     [Inr (ascii ''tacit-farm-unbond-owner-v1''),
      asBytes farmId 32 ''farmId'',
      asBytes oldLeaf 32 ''oldLeaf'',
      Inr (u64BE shares),
      asBytes lpReturnR 32 ''lpReturnR'',
      Inr destSpk])"

definition buildFarmRefundMsg ::
  "(bytes \<Rightarrow> bytes) \<Rightarrow> bytes \<Rightarrow> int \<Rightarrow> int \<Rightarrow> bytes \<Rightarrow> bytes \<Rightarrow> bytes res" where
  "buildFarmRefundMsg keccak farmId refundAmount refundViewHeight refundR destSpk =
     hashed keccak (concatParts
     [Inr (ascii ''tacit-amm-farm-refund-v1''),
      asBytes farmId 32 ''farmId'',
      Inr (u64BE refundAmount),
      asBytes refundR 32 ''refundR'',
      Inr (u32BE refundViewHeight),
      Inr destSpk])"

definition buildProtocolFeeClaimMsg ::
  "(bytes \<Rightarrow> bytes) \<Rightarrow> bytes \<Rightarrow> int \<Rightarrow> bytes \<Rightarrow> bytes \<Rightarrow> bytes \<Rightarrow> bytes res" where
  "buildProtocolFeeClaimMsg keccak poolIdBytes claimAmount claimCSecpBytes claimBlindingBytes destSpk =
     hashed keccak (andThen
       (concatParts
         [asBytes poolIdBytes 32 ''poolIdBytes'',
          asBytes claimCSecpBytes 33 ''claimCSecpBytes'',
          asBytes claimBlindingBytes 32 ''claimBlindingBytes''])
       (concatParts
         [Inr (ascii ''tacit-amm-protocol-fee-claim-v1''), Inr poolIdBytes, Inr (u64BE claimAmount),
          Inr claimCSecpBytes, Inr claimBlindingBytes, Inr destSpk]))"

end
