(* ===== verification/Farm_Messages.thy ===== *)
theory Farm_Messages
  imports Farm_Envelope
begin

text \<open>
  What a keccak-hashed farm signature or receipt binds. The five message builders of
  \<open>dapp/amm-envelope.js\<close> that hash with keccak are put side by side, and a digest is shown to determine the
  message: the builder, and every field of it. The only way out is a collision of the hash, which is
  exhibited.
\<close>

datatype ownerMsg =
    ReceiptLeaf bytes bytes int bytes bytes
  | HarvestOwner bytes bytes int bytes bytes
  | UnbondOwner bytes bytes int bytes bytes
  | RefundLauncher bytes int int bytes bytes
  | FeeClaim bytes int bytes bytes bytes

fun ownerMsgDigest :: "(bytes \<Rightarrow> bytes) \<Rightarrow> ownerMsg \<Rightarrow> bytes res" where
  "ownerMsgDigest k (ReceiptLeaf farmId lpAsset shares owner nonce) =
     farmReceiptLeaf k farmId lpAsset shares owner nonce"
| "ownerMsgDigest k (HarvestOwner farmId oldLeaf reward rewardR destSpk) =
     lpHarvestOwnerMsg k farmId oldLeaf reward rewardR destSpk"
| "ownerMsgDigest k (UnbondOwner farmId oldLeaf shares lpReturnR destSpk) =
     lpUnbondOwnerMsg k farmId oldLeaf shares lpReturnR destSpk"
| "ownerMsgDigest k (RefundLauncher farmId amount height refundR destSpk) =
     buildFarmRefundMsg k farmId amount height refundR destSpk"
| "ownerMsgDigest k (FeeClaim poolId amount commitment blinding destSpk) =
     buildProtocolFeeClaimMsg k poolId amount commitment blinding destSpk"

text \<open>The amounts are 64-bit and the heights 32-bit: the big-endian writers keep only that many bits.\<close>

fun inRange :: "ownerMsg \<Rightarrow> bool" where
  "inRange (ReceiptLeaf farmId lpAsset shares owner nonce) = True"
| "inRange (HarvestOwner farmId oldLeaf reward rewardR destSpk) = (0 \<le> reward \<and> reward < 2 ^ 64)"
| "inRange (UnbondOwner farmId oldLeaf shares lpReturnR destSpk) = (0 \<le> shares \<and> shares < 2 ^ 64)"
| "inRange (RefundLauncher farmId amount height refundR destSpk) =
     (0 \<le> amount \<and> amount < 2 ^ 64 \<and> u32 height)"
| "inRange (FeeClaim poolId amount commitment blinding destSpk) = (0 \<le> amount \<and> amount < 2 ^ 64)"

text \<open>The bytes that are hashed.\<close>

fun preimage :: "ownerMsg \<Rightarrow> bytes" where
  "preimage (ReceiptLeaf farmId lpAsset shares owner nonce) =
     ascii ''tacit-farm-receipt-v3'' @ farmId @ lpAsset @ le_bytes 8 shares @ owner @ nonce"
| "preimage (HarvestOwner farmId oldLeaf reward rewardR destSpk) =
     ascii ''tacit-farm-harvest-owner-v1'' @ farmId @ oldLeaf @ be_bytes 8 reward @ rewardR @ destSpk"
| "preimage (UnbondOwner farmId oldLeaf shares lpReturnR destSpk) =
     ascii ''tacit-farm-unbond-owner-v1'' @ farmId @ oldLeaf @ be_bytes 8 shares @ lpReturnR @ destSpk"
| "preimage (RefundLauncher farmId amount height refundR destSpk) =
     ascii ''tacit-amm-farm-refund-v1'' @ farmId @ be_bytes 8 amount @ refundR @ be_bytes 4 height @ destSpk"
| "preimage (FeeClaim poolId amount commitment blinding destSpk) =
     ascii ''tacit-amm-protocol-fee-claim-v1'' @ poolId @ be_bytes 8 amount @ commitment @ blinding @ destSpk"

lemmas ownerMsg_builders = farmReceiptLeaf_def lpHarvestOwnerMsg_def lpUnbondOwnerMsg_def
  buildFarmRefundMsg_def buildProtocolFeeClaimMsg_def u64BE_def u32BE_def

lemma ownerMsgDigest_preimage: "ownerMsgDigest k m = Inr d \<Longrightarrow> d = k (preimage m)"
  by (cases m) (auto simp: ownerMsg_builders wire_simps)

fun sizes :: "ownerMsg \<Rightarrow> bool" where
  "sizes (ReceiptLeaf farmId lpAsset shares owner nonce) =
     (length farmId = 32 \<and> length lpAsset = 32 \<and> length owner = 32 \<and> 0 \<le> shares \<and> shares < 2 ^ 64)"
| "sizes (HarvestOwner farmId oldLeaf reward rewardR destSpk) =
     (length farmId = 32 \<and> length oldLeaf = 32 \<and> length rewardR = 32)"
| "sizes (UnbondOwner farmId oldLeaf shares lpReturnR destSpk) =
     (length farmId = 32 \<and> length oldLeaf = 32 \<and> length lpReturnR = 32)"
| "sizes (RefundLauncher farmId amount height refundR destSpk) = (length farmId = 32 \<and> length refundR = 32)"
| "sizes (FeeClaim poolId amount commitment blinding destSpk) =
     (length poolId = 32 \<and> length commitment = 33 \<and> length blinding = 32)"

lemma ownerMsgDigest_sizes: "ownerMsgDigest k m = Inr d \<Longrightarrow> sizes m"
  by (cases m) (auto simp: ownerMsg_builders wire_simps)

lemma preimage_inj:
  assumes "preimage m = preimage m'" "sizes m" "sizes m'" "inRange m" "inRange m'"
  shows "m = m'"
  using assms
  by (cases m; cases m') (auto simp: ascii_def be_bytes_inj le_bytes_eq_iff)

interpretation ownerMsgs: hash_binding ownerMsgDigest preimage "\<lambda>m. m" inRange
  using ownerMsgDigest_preimage ownerMsgDigest_sizes preimage_inj by unfold_locales blast+

end
