(* ===== verification/Swap_Envelope.thy ===== *)
theory Swap_Envelope
  imports Farm_Envelope
begin

text \<open>
  The trading envelopes: \<open>T_SWAP_VAR\<close> (one pool) and \<open>T_SWAP_ROUTE\<close> (two to four pools), with the encoders
  and decoders of \<open>dapp/tacit.js\<close>, the decoders of \<open>worker/src/index.js\<close>, and the messages a trader signs.
  Whether 33 bytes are a point of the curve is decided by a third-party library
  (\<open>secp.ProjectivePoint.fromHex\<close>), so it is the parameter \<open>onCurve\<close>.
\<close>

definition T_SWAP_VAR :: nat where "T_SWAP_VAR = 0x32"
definition T_SWAP_ROUTE :: nat where "T_SWAP_ROUTE = 0x33"
definition SWAP_ROUTE_N_HOPS_MAX :: nat where "SWAP_ROUTE_N_HOPS_MAX = 4"
definition SWAP_ROUTE_HOP_BYTES :: nat where "SWAP_ROUTE_HOP_BYTES = 32 + 1 + 2 + 8 + 8 + 8 + 8"

lemmas swap_consts = T_SWAP_VAR_def T_SWAP_ROUTE_def SWAP_ROUTE_N_HOPS_MAX_def SWAP_ROUTE_HOP_BYTES_def

text \<open>\<open>bytesToPoint\<close> does not throw, respectively \<open>compressedPointFromHex\<close> on the hex of the bytes.\<close>

definition bytesToPoint :: "(bytes \<Rightarrow> bool) \<Rightarrow> bytes \<Rightarrow> bool" where
  "bytesToPoint onCurve b = (length b = 33 \<and> (u8 b 0 = 2 \<or> u8 b 0 = 3) \<and> onCurve b)"

definition compressedPointFromHex :: "(bytes \<Rightarrow> bool) \<Rightarrow> bytes \<Rightarrow> bool" where
  "compressedPointFromHex onCurve b = (length b * 2 = 66 \<and> (u8 b 0 = 0x02 \<or> u8 b 0 = 0x03) \<and> onCurve b)"

lemma compressedPointFromHex_eq: "compressedPointFromHex = bytesToPoint"
  by (intro ext) (auto simp: compressedPointFromHex_def bytesToPoint_def)

subsection \<open>T_SWAP_VAR\<close>

record swapVar =
  sv_poolId :: bytes
  sv_direction :: int
  sv_R_A_pre :: int
  sv_R_B_pre :: int
  sv_deltaIn :: int
  sv_deltaInMin :: int
  sv_deltaInMax :: int
  sv_deltaOut :: int
  sv_minOut :: int
  sv_tipAmount :: int
  sv_tipAsset :: int
  sv_expiryHeight :: int
  sv_traderPubkey :: bytes
  sv_cInSecp :: bytes
  sv_cChangeOrSentinel :: bytes
  sv_cReceiptSecp :: bytes
  sv_rReceipt :: bytes
  sv_rangeProof :: bytes
  sv_kernelSig :: bytes
  sv_intentSig :: bytes

definition encodeTSwapVarPayload :: "swapVar \<Rightarrow> bytes res" where
  "encodeTSwapVarPayload a = andThen
     (concatParts
       [throw_unless (length (sv_poolId a) = 32) ''pool_id 32 bytes'',
        throw_unless (sv_direction a = 0 \<or> sv_direction a = 1) ''direction must be 0|1'',
        throw_unless (sv_tipAsset a = 0 \<or> sv_tipAsset a = 1) ''tip_asset must be 0|1'',
        throw_unless (length (sv_traderPubkey a) = 33) ''trader_pubkey 33 bytes'',
        throw_unless (length (sv_cInSecp a) = 33) ''c_in_secp 33 bytes'',
        throw_unless (length (sv_cChangeOrSentinel a) = 33) ''c_change_or_sentinel 33 bytes'',
        throw_unless (length (sv_cReceiptSecp a) = 33) ''c_receipt_secp 33 bytes'',
        throw_unless (length (sv_rReceipt a) = 32) ''r_receipt 32 bytes'',
        throw_unless (\<not> (length (sv_rangeProof a) = 0 \<or> length (sv_rangeProof a) > 0xffff))
          ''range_proof len 1..65535'',
        throw_unless (length (sv_kernelSig a) = 64) ''kernel_sig 64 bytes'',
        throw_unless (length (sv_intentSig a) = 64) ''intent_sig 64 bytes''])
     (concatParts
       [Inr [byte_of T_SWAP_VAR],
        Inr (sv_poolId a),
        Inr [byte_of (nat (sv_direction a))],
        u64LE (sv_R_A_pre a), u64LE (sv_R_B_pre a),
        u64LE (sv_deltaIn a), u64LE (sv_deltaInMin a), u64LE (sv_deltaInMax a),
        u64LE (sv_deltaOut a), u64LE (sv_minOut a), u64LE (sv_tipAmount a),
        Inr [byte_of (nat (sv_tipAsset a))],
        u32LE (sv_expiryHeight a),
        Inr (sv_traderPubkey a), Inr (sv_cInSecp a), Inr (sv_cChangeOrSentinel a), Inr (sv_cReceiptSecp a),
        Inr (sv_rReceipt a),
        u16LE (int (length (sv_rangeProof a))), Inr (sv_rangeProof a),
        Inr (sv_kernelSig a), Inr (sv_intentSig a)])"

definition decodeTSwapVarPayload :: "(bytes \<Rightarrow> bool) \<Rightarrow> bytes \<Rightarrow> swapVar option" where
  "decodeTSwapVarPayload onCurve payload = do {
     require (length payload \<ge> 297);
     let p = 0;
     require (u8 payload p = T_SWAP_VAR); let p = p + 1;
     let poolId = slice payload p (p + 32); let p = p + 32;
     let direction = u8 payload p; let p = p + 1;
     require (direction = 0 \<or> direction = 1);
     R_A_pre \<leftarrow> readU64LE payload p; let p = p + 8;
     R_B_pre \<leftarrow> readU64LE payload p; let p = p + 8;
     deltaIn \<leftarrow> readU64LE payload p; let p = p + 8;
     deltaInMin \<leftarrow> readU64LE payload p; let p = p + 8;
     deltaInMax \<leftarrow> readU64LE payload p; let p = p + 8;
     deltaOut \<leftarrow> readU64LE payload p; let p = p + 8;
     minOut \<leftarrow> readU64LE payload p; let p = p + 8;
     require (\<not> (deltaInMin > deltaIn \<or> deltaIn > deltaInMax));
     require (\<not> deltaOut < minOut);
     tipAmount \<leftarrow> readU64LE payload p; let p = p + 8;
     let tipAsset = u8 payload p; let p = p + 1;
     require (tipAsset = 0 \<or> tipAsset = 1);
     expiryHeight \<leftarrow> readU32LE payload p; let p = p + 4;
     let traderPubkey = slice payload p (p + 33); let p = p + 33;
     require (bytesToPoint onCurve traderPubkey);
     let cInSecp = slice payload p (p + 33); let p = p + 33;
     require (bytesToPoint onCurve cInSecp);
     let cChangeOrSentinel = slice payload p (p + 33); let p = p + 33;
     require (all_zero cChangeOrSentinel \<or> bytesToPoint onCurve cChangeOrSentinel);
     let cReceiptSecp = slice payload p (p + 33); let p = p + 33;
     require (bytesToPoint onCurve cReceiptSecp);
     let rReceipt = slice payload p (p + 32); let p = p + 32;
     require (p + 2 \<le> length payload);
     rpLen' \<leftarrow> readU16LE payload p; let rpLen = nat rpLen'; let p = p + 2;
     require (rpLen \<noteq> 0);
     require (p + rpLen + 64 + 64 \<le> length payload);
     let rangeProof = slice payload p (p + rpLen); let p = p + rpLen;
     let kernelSig = slice payload p (p + 64); let p = p + 64;
     let intentSig = slice payload p (p + 64); let p = p + 64;
     require (p = length payload);
     Some \<lparr>sv_poolId = poolId, sv_direction = int direction, sv_R_A_pre = R_A_pre, sv_R_B_pre = R_B_pre,
       sv_deltaIn = deltaIn, sv_deltaInMin = deltaInMin, sv_deltaInMax = deltaInMax, sv_deltaOut = deltaOut,
       sv_minOut = minOut, sv_tipAmount = tipAmount, sv_tipAsset = int tipAsset,
       sv_expiryHeight = expiryHeight, sv_traderPubkey = traderPubkey, sv_cInSecp = cInSecp,
       sv_cChangeOrSentinel = cChangeOrSentinel, sv_cReceiptSecp = cReceiptSecp, sv_rReceipt = rReceipt,
       sv_rangeProof = rangeProof, sv_kernelSig = kernelSig, sv_intentSig = intentSig\<rparr>
   }"

text \<open>
  The indexer's decoder has no check on the declared amounts. It returns hex and decimal strings; the model
  keeps the values they spell.
\<close>

definition decodeTSwapVarPayload_worker :: "(bytes \<Rightarrow> bool) \<Rightarrow> bytes \<Rightarrow> swapVar option" where
  "decodeTSwapVarPayload_worker onCurve payload = do {
     require (length payload \<ge> 297);
     let p = 0;
     require (u8 payload p = T_SWAP_VAR); let p = p + 1;
     let poolId = slice payload p (p + 32); let p = p + 32;
     let direction = u8 payload p; let p = p + 1;
     require (direction = 0 \<or> direction = 1);
     R_A_pre \<leftarrow> readU64LE payload p; let p = p + 8;
     R_B_pre \<leftarrow> readU64LE payload p; let p = p + 8;
     deltaIn \<leftarrow> readU64LE payload p; let p = p + 8;
     deltaInMin \<leftarrow> readU64LE payload p; let p = p + 8;
     deltaInMax \<leftarrow> readU64LE payload p; let p = p + 8;
     deltaOut \<leftarrow> readU64LE payload p; let p = p + 8;
     minOut \<leftarrow> readU64LE payload p; let p = p + 8;
     tipAmount \<leftarrow> readU64LE payload p; let p = p + 8;
     let tipAsset = u8 payload p; let p = p + 1;
     require (tipAsset = 0 \<or> tipAsset = 1);
     expiryHeight \<leftarrow> readU32LE payload p; let p = p + 4;
     let traderPubkey = slice payload p (p + 33); let p = p + 33;
     require (compressedPointFromHex onCurve traderPubkey);
     let cInSecp = slice payload p (p + 33); let p = p + 33;
     require (compressedPointFromHex onCurve cInSecp);
     let cChangeOrSentinel = slice payload p (p + 33); let p = p + 33;
     require (all_zero cChangeOrSentinel \<or> compressedPointFromHex onCurve cChangeOrSentinel);
     let cReceiptSecp = slice payload p (p + 33); let p = p + 33;
     require (compressedPointFromHex onCurve cReceiptSecp);
     let rReceipt = slice payload p (p + 32); let p = p + 32;
     require (p + 2 \<le> length payload);
     rpLen' \<leftarrow> readU16LE payload p; let rpLen = nat rpLen'; let p = p + 2;
     require (rpLen \<noteq> 0);
     require (p + rpLen + 64 + 64 \<le> length payload);
     let rangeProof = slice payload p (p + rpLen); let p = p + rpLen;
     let kernelSig = slice payload p (p + 64); let p = p + 64;
     let intentSig = slice payload p (p + 64); let p = p + 64;
     require (p = length payload);
     Some \<lparr>sv_poolId = poolId, sv_direction = int direction, sv_R_A_pre = R_A_pre, sv_R_B_pre = R_B_pre,
       sv_deltaIn = deltaIn, sv_deltaInMin = deltaInMin, sv_deltaInMax = deltaInMax, sv_deltaOut = deltaOut,
       sv_minOut = minOut, sv_tipAmount = tipAmount, sv_tipAsset = int tipAsset,
       sv_expiryHeight = expiryHeight, sv_traderPubkey = traderPubkey, sv_cInSecp = cInSecp,
       sv_cChangeOrSentinel = cChangeOrSentinel, sv_cReceiptSecp = cReceiptSecp, sv_rReceipt = rReceipt,
       sv_rangeProof = rangeProof, sv_kernelSig = kernelSig, sv_intentSig = intentSig\<rparr>
   }"

text \<open>What the encoder does not check and a decoder does: the points, the expiry's width and (in the wallet) the amounts.\<close>

definition amountsOk :: "swapVar \<Rightarrow> bool" where
  "amountsOk a = (sv_deltaInMin a \<le> sv_deltaIn a \<and> sv_deltaIn a \<le> sv_deltaInMax a \<and> sv_minOut a \<le> sv_deltaOut a)"

definition swapPointsOk :: "(bytes \<Rightarrow> bool) \<Rightarrow> swapVar \<Rightarrow> bool" where
  "swapPointsOk onCurve a =
     (bytesToPoint onCurve (sv_traderPubkey a) \<and> bytesToPoint onCurve (sv_cInSecp a) \<and>
      (all_zero (sv_cChangeOrSentinel a) \<or> bytesToPoint onCurve (sv_cChangeOrSentinel a)) \<and>
      bytesToPoint onCurve (sv_cReceiptSecp a) \<and> u32 (sv_expiryHeight a))"

lemma swapVar_reader_parity:
  "decodeTSwapVarPayload onCurve p =
     (case decodeTSwapVarPayload_worker onCurve p of None \<Rightarrow> None
      | Some a \<Rightarrow> if amountsOk a then Some a else None)"
  by (auto simp: decodeTSwapVarPayload_def decodeTSwapVarPayload_worker_def Let_def read_defs amountsOk_def
      compressedPointFromHex_eq wire_simps)

lemma swapVar_worker_encode:
  assumes "encodeTSwapVarPayload a = Inr p" "swapPointsOk onCurve a"
  shows "decodeTSwapVarPayload_worker onCurve p = Some a"
  using assms
  by (cases a) (auto simp: encodeTSwapVarPayload_def decodeTSwapVarPayload_worker_def swapPointsOk_def Let_def
      read_defs swap_consts compressedPointFromHex_eq wire_simps)

lemma swapVar_worker_decode:
  assumes "decodeTSwapVarPayload_worker onCurve p = Some a"
  shows "encodeTSwapVarPayload a = Inr p \<and> swapPointsOk onCurve a"
proof -
  define n where "n = nat (le_val (slice p 267 269))"
  have op: "u8 p 0 = 50" and len: "length p = 397 + n" and n0: "0 < n"
    using assms by (auto simp: decodeTSwapVarPayload_worker_def swap_consts Let_def read_defs n_def split: if_splits)
  have hd: "byte_of 50 # slice p (Suc 0) (397 + n) = p"
    using head_rebuild [of p 50] len op by fastforce
  have n: "n \<le> 0xffff" and pre: "le_bytes 2 (int n) = slice p 267 269"
    using nat_le_val_2 [of p 267] le_bytes_slice [of 269 p 267 2] len by (auto simp: n_def)
  show ?thesis
    using assms len n n0 pre hd unfolding decodeTSwapVarPayload_worker_def Let_def read_defs compressedPointFromHex_eq
    by (simp add: n_def [symmetric] op swap_consts split del: if_split, elim conjE, hypsubst)
      (simp add: encodeTSwapVarPayload_def swapPointsOk_def wire_simps rebuild_simps swap_consts split del: if_split)
qed

interpretation swapVarWorkerWire: exact_codec encodeTSwapVarPayload "decodeTSwapVarPayload_worker onCurve" "swapPointsOk onCurve" for onCurve
  using swapVar_worker_decode by unfold_locales (auto intro: swapVar_worker_encode)

lemma swapVar_dapp_Some:
  "(decodeTSwapVarPayload onCurve p = Some a) = (decodeTSwapVarPayload_worker onCurve p = Some a \<and> amountsOk a)"
  by (auto simp: swapVar_reader_parity split: option.splits if_splits)

interpretation swapVarWire: exact_codec encodeTSwapVarPayload "decodeTSwapVarPayload onCurve" "\<lambda>a. swapPointsOk onCurve a \<and> amountsOk a" for onCurve
  using swapVar_worker_decode by unfold_locales (auto simp: swapVar_dapp_Some intro: swapVar_worker_encode)

subsection \<open>T_SWAP_ROUTE\<close>

record routeHop =
  hop_poolId :: bytes
  hop_direction :: int
  hop_feeBps :: int
  hop_R_A_pre :: int
  hop_R_B_pre :: int
  hop_deltaANetMag :: int
  hop_deltaBNetMag :: int

record swapRoute =
  sr_traderInputAssetId :: bytes
  sr_traderOutputAssetId :: bytes
  sr_minOut :: int
  sr_expiryHeight :: int
  sr_traderPubkey :: bytes
  sr_hops :: "routeHop list"
  sr_traderInputTxidBE :: bytes
  sr_traderInputVout :: int
  sr_cInSecp :: bytes
  sr_cReceiptSecp :: bytes
  sr_rReceipt :: bytes
  sr_rangeProof :: bytes
  sr_kernelSig :: bytes
  sr_intentSig :: bytes

definition encodeSwapRouteHop :: "routeHop \<Rightarrow> bytes res" where
  "encodeSwapRouteHop hop = concatParts
     [throw_unless (length (hop_poolId hop) = 32) ''hop.poolId must be 32 bytes'',
      throw_unless (hop_direction hop = 0 \<or> hop_direction hop = 1) ''hop.direction must be 0|1'',
      throw_unless (\<not> (hop_feeBps hop < 0 \<or> hop_feeBps hop > 1000)) ''hop.feeBps must be 0..1000'',
      Inr (hop_poolId hop),
      Inr [byte_of (nat (hop_direction hop))],
      u16LE (hop_feeBps hop),
      u64LE (hop_R_A_pre hop),
      u64LE (hop_R_B_pre hop),
      u64LE (hop_deltaANetMag hop),
      u64LE (hop_deltaBNetMag hop)]"

definition encodeTSwapRoutePayload :: "swapRoute \<Rightarrow> bytes res" where
  "encodeTSwapRoutePayload a = andThen
     (concatParts
       [throw_unless (\<not> (length (sr_hops a) < 2 \<or> length (sr_hops a) > SWAP_ROUTE_N_HOPS_MAX))
          ''hops length must be 2..4'',
        throw_unless (length (sr_traderInputAssetId a) = 32) ''trader_input_asset_id 32 bytes'',
        throw_unless (length (sr_traderOutputAssetId a) = 32) ''trader_output_asset_id 32 bytes'',
        throw_unless (length (sr_traderPubkey a) = 33) ''trader_pubkey 33 bytes'',
        throw_unless (length (sr_traderInputTxidBE a) = 32) ''trader_input_outpoint_txid_be 32 bytes'',
        throw_unless (length (sr_cInSecp a) = 33) ''c_in_secp 33 bytes'',
        throw_unless (length (sr_cReceiptSecp a) = 33) ''c_receipt_secp 33 bytes'',
        throw_unless (length (sr_rReceipt a) = 32) ''r_receipt 32 bytes'',
        throw_unless (\<not> (length (sr_rangeProof a) = 0 \<or> length (sr_rangeProof a) > 0xffff))
          ''range_proof len 1..65535'',
        throw_unless (length (sr_kernelSig a) = 64) ''kernel_sig 64 bytes'',
        throw_unless (length (sr_intentSig a) = 64) ''intent_sig 64 bytes''])
     (concatParts
       ([Inr [byte_of T_SWAP_ROUTE, byte_of (length (sr_hops a))],
         Inr (sr_traderInputAssetId a), Inr (sr_traderOutputAssetId a),
         u64LE (sr_minOut a), u32LE (sr_expiryHeight a),
         Inr (sr_traderPubkey a)]
        @ map encodeSwapRouteHop (sr_hops a)
        @ [Inr (sr_traderInputTxidBE a),
           u32LE (sr_traderInputVout a),
           Inr (sr_cInSecp a), Inr (sr_cReceiptSecp a), Inr (sr_rReceipt a),
           u16LE (int (length (sr_rangeProof a))), Inr (sr_rangeProof a),
           Inr (sr_kernelSig a), Inr (sr_intentSig a)]))"

definition decodeHop :: "bytes \<Rightarrow> nat \<Rightarrow> routeHop option" where
  "decodeHop payload p = do {
     let poolId = slice payload p (p + 32); let p = p + 32;
     let direction = u8 payload p; let p = p + 1;
     require (direction = 0 \<or> direction = 1);
     feeBps \<leftarrow> readU16LE payload p; let p = p + 2;
     require (\<not> feeBps > 1000);
     R_A_pre \<leftarrow> readU64LE payload p; let p = p + 8;
     R_B_pre \<leftarrow> readU64LE payload p; let p = p + 8;
     deltaANetMag \<leftarrow> readU64LE payload p; let p = p + 8;
     deltaBNetMag \<leftarrow> readU64LE payload p; let p = p + 8;
     Some \<lparr>hop_poolId = poolId, hop_direction = int direction, hop_feeBps = feeBps, hop_R_A_pre = R_A_pre,
       hop_R_B_pre = R_B_pre, hop_deltaANetMag = deltaANetMag, hop_deltaBNetMag = deltaBNetMag\<rparr>
   }"

primrec decodeHops :: "nat \<Rightarrow> bytes \<Rightarrow> nat \<Rightarrow> (routeHop list \<times> nat) option" where
  "decodeHops 0 payload p = Some ([], p)"
| "decodeHops (Suc n) payload p = do {
     hop \<leftarrow> decodeHop payload p;
     (hops, p') \<leftarrow> decodeHops n payload (p + SWAP_ROUTE_HOP_BYTES);
     Some (hop # hops, p')
   }"

text \<open>The part behind the hops, up to the end of the payload.\<close>

type_synonym routeTail = "bytes \<times> int \<times> bytes \<times> bytes \<times> bytes \<times> bytes \<times> bytes \<times> bytes"

definition decodeRouteTail :: "(bytes \<Rightarrow> bool) \<Rightarrow> bytes \<Rightarrow> nat \<Rightarrow> routeTail option" where
  "decodeRouteTail isPoint payload p = do {
     require (p + 36 \<le> length payload);
     let traderInputTxidBE = slice payload p (p + 32); let p = p + 32;
     traderInputVout \<leftarrow> readU32LE payload p; let p = p + 4;
     require (p + 33 + 33 + 32 + 2 \<le> length payload);
     let cInSecp = slice payload p (p + 33); let p = p + 33;
     require (isPoint cInSecp);
     let cReceiptSecp = slice payload p (p + 33); let p = p + 33;
     require (isPoint cReceiptSecp);
     let rReceipt = slice payload p (p + 32); let p = p + 32;
     rpLen' \<leftarrow> readU16LE payload p; let rpLen = nat rpLen'; let p = p + 2;
     require (rpLen \<noteq> 0);
     require (p + rpLen + 64 + 64 \<le> length payload);
     let rangeProof = slice payload p (p + rpLen); let p = p + rpLen;
     let kernelSig = slice payload p (p + 64); let p = p + 64;
     let intentSig = slice payload p (p + 64); let p = p + 64;
     require (p = length payload);
     Some (traderInputTxidBE, traderInputVout, cInSecp, cReceiptSecp, rReceipt, rangeProof, kernelSig, intentSig)
   }"

definition decodeTSwapRoutePayload :: "(bytes \<Rightarrow> bool) \<Rightarrow> bytes \<Rightarrow> swapRoute option" where
  "decodeTSwapRoutePayload onCurve payload = do {
     require (length payload \<ge> 434);
     let p = 0;
     require (u8 payload p = T_SWAP_ROUTE); let p = p + 1;
     let nHops = u8 payload p; let p = p + 1;
     require (\<not> (nHops < 2 \<or> nHops > SWAP_ROUTE_N_HOPS_MAX));
     let traderInputAssetId = slice payload p (p + 32); let p = p + 32;
     let traderOutputAssetId = slice payload p (p + 32); let p = p + 32;
     require (traderInputAssetId \<noteq> traderOutputAssetId);
     minOut \<leftarrow> readU64LE payload p; let p = p + 8;
     expiryHeight \<leftarrow> readU32LE payload p; let p = p + 4;
     let traderPubkey = slice payload p (p + 33); let p = p + 33;
     require (bytesToPoint onCurve traderPubkey);
     require (p + nHops * SWAP_ROUTE_HOP_BYTES \<le> length payload);
     (hops, p) \<leftarrow> decodeHops nHops payload p;
     (traderInputTxidBE, traderInputVout, cInSecp, cReceiptSecp, rReceipt, rangeProof, kernelSig, intentSig)
       \<leftarrow> decodeRouteTail (bytesToPoint onCurve) payload p;
     Some \<lparr>sr_traderInputAssetId = traderInputAssetId, sr_traderOutputAssetId = traderOutputAssetId,
       sr_minOut = minOut, sr_expiryHeight = expiryHeight, sr_traderPubkey = traderPubkey, sr_hops = hops,
       sr_traderInputTxidBE = traderInputTxidBE, sr_traderInputVout = traderInputVout, sr_cInSecp = cInSecp,
       sr_cReceiptSecp = cReceiptSecp, sr_rReceipt = rReceipt, sr_rangeProof = rangeProof,
       sr_kernelSig = kernelSig, sr_intentSig = intentSig\<rparr>
   }"

definition decodeTSwapRoutePayload_worker :: "(bytes \<Rightarrow> bool) \<Rightarrow> bytes \<Rightarrow> swapRoute option" where
  "decodeTSwapRoutePayload_worker onCurve payload = do {
     require (length payload \<ge> 434);
     let p = 0;
     require (u8 payload p = 0x33); let p = p + 1;
     let nHops = u8 payload p; let p = p + 1;
     require (\<not> (nHops < 2 \<or> nHops > 4));
     let traderInputAssetId = slice payload p (p + 32); let p = p + 32;
     let traderOutputAssetId = slice payload p (p + 32); let p = p + 32;
     require (traderInputAssetId \<noteq> traderOutputAssetId);
     minOut \<leftarrow> readU64LE payload p; let p = p + 8;
     expiryHeight \<leftarrow> readU32LE payload p; let p = p + 4;
     let traderPubkey = slice payload p (p + 33); let p = p + 33;
     require (compressedPointFromHex onCurve traderPubkey);
     require (p + nHops * (32 + 1 + 2 + 8 + 8 + 8 + 8) \<le> length payload);
     (hops, p) \<leftarrow> decodeHops nHops payload p;
     (traderInputTxidBE, traderInputVout, cInSecp, cReceiptSecp, rReceipt, rangeProof, kernelSig, intentSig)
       \<leftarrow> decodeRouteTail (compressedPointFromHex onCurve) payload p;
     Some \<lparr>sr_traderInputAssetId = traderInputAssetId, sr_traderOutputAssetId = traderOutputAssetId,
       sr_minOut = minOut, sr_expiryHeight = expiryHeight, sr_traderPubkey = traderPubkey, sr_hops = hops,
       sr_traderInputTxidBE = traderInputTxidBE, sr_traderInputVout = traderInputVout, sr_cInSecp = cInSecp,
       sr_cReceiptSecp = cReceiptSecp, sr_rReceipt = rReceipt, sr_rangeProof = rangeProof,
       sr_kernelSig = kernelSig, sr_intentSig = intentSig\<rparr>
   }"

lemma swapRoute_readers_agree: "decodeTSwapRoutePayload_worker = decodeTSwapRoutePayload"
  unfolding decodeTSwapRoutePayload_worker_def decodeTSwapRoutePayload_def compressedPointFromHex_eq swap_consts ..

subsection \<open>Hops on the wire\<close>

lemma length_encodeHop: "encodeSwapRouteHop h = Inr q \<Longrightarrow> length q = 67"
  by (auto simp: encodeSwapRouteHop_def wire_simps)

lemma length_encodeHops: "concatParts (map encodeSwapRouteHop hs) = Inr q \<Longrightarrow> length q = length hs * 67"
  by (induction hs arbitrary: q) (auto simp: wire_simps dest: length_encodeHop)

lemma decodeHop_encode: "encodeSwapRouteHop h = Inr q \<Longrightarrow> decodeHop (q @ r) 0 = Some h"
  by (cases h) (auto simp: encodeSwapRouteHop_def decodeHop_def Let_def read_defs wire_simps)

lemma read_shift:
  "readU16LE (pre @ xs) (length pre + a) = readU16LE xs a"
  "readU32LE (pre @ xs) (length pre + a) = readU32LE xs a"
  "readU64LE (pre @ xs) (length pre + a) = readU64LE xs a"
  unfolding read_defs add.assoc slice_shift [OF refl] length_append by simp_all

lemma decodeHop_shift: "length pre \<le> a \<Longrightarrow> decodeHop (pre @ xs) a = decodeHop xs (a - length pre)"
proof -
  assume "length pre \<le> a"
  moreover have "decodeHop (pre @ xs) (length pre + b) = decodeHop xs b" for b
    unfolding decodeHop_def Let_def add.assoc slice_shift [OF refl] u8_shift [OF refl] read_shift ..
  ultimately show ?thesis by (metis le_add_diff_inverse)
qed

lemma decodeHops_shift [wire_simps]:
  "length pre \<le> a \<Longrightarrow>
   decodeHops n (pre @ xs) a = map_option (\<lambda>(hs, p). (hs, p + length pre)) (decodeHops n xs (a - length pre))"
proof (induction n arbitrary: a)
  case (Suc n)
  then show ?case
    by (auto simp: decodeHop_shift split: option.splits bind_splits)
qed simp

lemma decodeHops_Cons [wire_simps]:
  "0 < a \<Longrightarrow> decodeHops n (x # xs) a = map_option (\<lambda>(hs, p). (hs, p + 1)) (decodeHops n xs (a - 1))"
  using decodeHops_shift [of "[x]" a n xs] by simp

lemma decodeHops_encode [wire_simps]:
  "concatParts (map encodeSwapRouteHop hs) = Inr q \<Longrightarrow> n = length hs \<Longrightarrow>
   decodeHops n (q @ r) 0 = Some (hs, length q)"
proof (induction hs arbitrary: q n)
  case (Cons h hs)
  then obtain a b where q: "q = a @ b" "encodeSwapRouteHop h = Inr a"
      and b: "concatParts (map encodeSwapRouteHop hs) = Inr b"
    by (auto simp: wire_simps)
  have "length a = 67" using q by (rule_tac length_encodeHop) simp
  then show ?case
    using Cons.IH [OF b refl] Cons.prems(2) q decodeHop_encode [of h a "b @ r"]
    by (simp add: decodeHops_shift swap_consts)
qed (simp add: wire_simps)

lemma decodeHop_Some0:
  assumes "decodeHop q 0 = Some h" "67 \<le> length q"
  shows "encodeSwapRouteHop h = Inr (slice q 0 67)"
proof -
  have d: "u8 q 32 = 0 \<or> u8 q 32 = 1" and "le_val (slice q 33 35) \<le> 1000"
    using assms by (auto simp: decodeHop_def Let_def read_defs split: if_splits)
  moreover have "slice q 0 32 @ byte_of (u8 q 32) # slice q 33 67 = slice q 0 67"
    using byte_join [of 33 q 67 "u8 q 32"] assms(2) by (simp add: slice_join)
  ultimately show ?thesis
    using assms
    by (auto simp: decodeHop_def encodeSwapRouteHop_def Let_def read_defs wire_simps rebuild_simps not_less
        split: if_splits)
qed

lemma decodeHop_Some:
  assumes "decodeHop p a = Some h" "a + 67 \<le> length p"
  shows "encodeSwapRouteHop h = Inr (slice p a (a + 67))"
proof -
  have "decodeHop (take a p @ drop a p) a = Some h" using assms(1) by simp
  then have "decodeHop (drop a p) 0 = Some h" using assms(2) by (simp add: decodeHop_shift del: append_take_drop_id)
  then show ?thesis using decodeHop_Some0 [of "drop a p" h] assms(2) by (simp add: slice_def)
qed

lemma decodeHops_Some:
  assumes "decodeHops n p a = Some (hs, b)" "a + n * 67 \<le> length p"
  shows "concatParts (map encodeSwapRouteHop hs) = Inr (slice p a (a + n * 67)) \<and> length hs = n \<and> b = a + n * 67"
  using assms
proof (induction n arbitrary: a hs)
  case (Suc n)
  from Suc.prems(1) obtain h hs' where h: "decodeHop p a = Some h" and hs: "hs = h # hs'"
      and r: "decodeHops n p (a + 67) = Some (hs', b)"
    by (auto simp: swap_consts split: bind_splits)
  have "encodeSwapRouteHop h = Inr (slice p a (a + 67))"
    using decodeHop_Some [OF h] Suc.prems(2) by simp
  moreover have "concatParts (map encodeSwapRouteHop hs') = Inr (slice p (a + 67) (a + 67 + n * 67)) \<and>
      length hs' = n \<and> b = a + 67 + n * 67"
    using Suc.IH [OF r] Suc.prems(2) by simp
  moreover have "slice p a (a + 67) @ slice p (a + 67) (a + 67 + n * 67) = slice p a (a + Suc n * 67)"
    using slice_join [of a "a + 67" "a + 67 + n * 67" p] by (simp add: algebra_simps)
  ultimately show ?case using hs by (simp add: concatParts.simps)
qed (simp add: concatParts.simps)

subsection \<open>The route payload\<close>

definition routeOk :: "(bytes \<Rightarrow> bool) \<Rightarrow> swapRoute \<Rightarrow> bool" where
  "routeOk onCurve a =
     (sr_traderInputAssetId a \<noteq> sr_traderOutputAssetId a \<and> bytesToPoint onCurve (sr_traderPubkey a) \<and>
      bytesToPoint onCurve (sr_cInSecp a) \<and> bytesToPoint onCurve (sr_cReceiptSecp a) \<and>
      u32 (sr_expiryHeight a) \<and> u32 (sr_traderInputVout a))"

lemma decodeRouteTail_shift [wire_simps]:
  "length pre \<le> a \<Longrightarrow> decodeRouteTail f (pre @ xs) a = decodeRouteTail f xs (a - length pre)"
proof -
  assume "length pre \<le> a"
  moreover have "decodeRouteTail f (pre @ xs) (length pre + b) = decodeRouteTail f xs b" for b
    unfolding decodeRouteTail_def Let_def add.assoc slice_shift [OF refl] u8_shift [OF refl] read_shift
      length_append add_le_cancel_left add_left_cancel ..
  ultimately show ?thesis by (metis le_add_diff_inverse)
qed

lemma decodeRouteTail_Cons [wire_simps]:
  "0 < a \<Longrightarrow> decodeRouteTail f (x # xs) a = decodeRouteTail f xs (a - 1)"
  using decodeRouteTail_shift [of "[x]" a f xs] by simp

definition routeTailParts :: "routeTail \<Rightarrow> bytes" where
  "routeTailParts t = (case t of (txid, vout, cIn, cReceipt, rReceipt, rp, ks, isig) \<Rightarrow>
     txid @ le_bytes 4 vout @ cIn @ cReceipt @ rReceipt @ le_bytes 2 (int (length rp)) @ rp @ ks @ isig)"

lemma decodeRouteTail_Some:
  assumes "decodeRouteTail f q 0 = Some (txid, vout, cIn, cReceipt, rReceipt, rp, ks, isig)"
  shows "q = routeTailParts (txid, vout, cIn, cReceipt, rReceipt, rp, ks, isig) \<and> f cIn \<and> f cReceipt \<and>
    u32 vout \<and> length txid = 32 \<and> length cIn = 33 \<and> length cReceipt = 33 \<and> length rReceipt = 32 \<and>
    0 < length rp \<and> length rp \<le> 0xffff \<and> length ks = 64 \<and> length isig = 64"
proof -
  define n where "n = nat (le_val (slice q 134 136))"
  have len: "length q = 264 + n" and n0: "0 < n"
    using assms by (auto simp: decodeRouteTail_def Let_def read_defs n_def split: if_splits)
  have n: "n \<le> 0xffff" and pre: "le_bytes 2 (int n) = slice q 134 136"
    using nat_le_val_2 [of q "134"] le_bytes_slice [of "136" q "134" 2] len by (auto simp: n_def)
  show ?thesis
    using assms len n n0 pre slice_all [of q "264 + n"] unfolding decodeRouteTail_def Let_def read_defs
    by (simp add: n_def [symmetric] split del: if_split, elim conjE, hypsubst)
      (simp add: routeTailParts_def rebuild_simps)
qed

lemma decodeTSwapRoute_encode:
  assumes "encodeTSwapRoutePayload a = Inr p" "routeOk onCurve a"
  shows "decodeTSwapRoutePayload onCurve p = Some a"
proof -
  obtain q where q: "concatParts (map encodeSwapRouteHop (sr_hops a)) = Inr q"
    using assms(1) by (auto simp: encodeTSwapRoutePayload_def wire_simps)
  note lq = length_encodeHops [OF q]
  show ?thesis
    using assms q lq
    by (cases a) (auto simp: encodeTSwapRoutePayload_def decodeTSwapRoutePayload_def routeOk_def Let_def
        read_defs swap_consts wire_simps decodeRouteTail_def)
qed

lemma encodeTSwapRoute_decode:
  assumes "decodeTSwapRoutePayload onCurve p = Some a"
  shows "encodeTSwapRoutePayload a = Inr p \<and> routeOk onCurve a"
proof -
  define k where "k = u8 p 1"
  define m where "m = 111 + k * 67"
  obtain hs b txid vout cIn cReceipt rReceipt rp ks isig
    where hops: "decodeHops k p 111 = Some (hs, b)" and fit: "m \<le> length p"
      and tl: "decodeRouteTail (bytesToPoint onCurve) p b
        = Some (txid, vout, cIn, cReceipt, rReceipt, rp, ks, isig)"
      and op: "u8 p 0 = 51" and k: "2 \<le> k" "k \<le> 4" and len: "434 \<le> length p"
      and ne: "slice p 2 34 \<noteq> slice p 34 66" and pk: "bytesToPoint onCurve (slice p 78 111)"
      and a: "a = \<lparr>sr_traderInputAssetId = slice p 2 34, sr_traderOutputAssetId = slice p 34 66,
       sr_minOut = le_val (slice p 66 74), sr_expiryHeight = le_val (slice p 74 78),
       sr_traderPubkey = slice p 78 111, sr_hops = hs,
       sr_traderInputTxidBE = txid, sr_traderInputVout = vout, sr_cInSecp = cIn,
       sr_cReceiptSecp = cReceipt, sr_rReceipt = rReceipt, sr_rangeProof = rp,
       sr_kernelSig = ks, sr_intentSig = isig\<rparr>"
    using assms
    by (auto simp: decodeTSwapRoutePayload_def Let_def swap_consts read_defs k_def m_def mult.commute
        numeral_2_eq_2 split: bind_splits if_splits)
  have H: "concatParts (map encodeSwapRouteHop hs) = Inr (slice p 111 m)" "length hs = k" "b = m"
    using decodeHops_Some [OF hops] fit by (simp_all add: m_def)
  have "decodeRouteTail (bytesToPoint onCurve) (take m p @ drop m p) m
      = Some (txid, vout, cIn, cReceipt, rReceipt, rp, ks, isig)"
    using tl H(3) by simp
  then have "decodeRouteTail (bytesToPoint onCurve) (drop m p) 0
      = Some (txid, vout, cIn, cReceipt, rReceipt, rp, ks, isig)"
    using fit by (simp add: decodeRouteTail_shift del: append_take_drop_id)
  note T = decodeRouteTail_Some [OF this]
  have m: "111 \<le> m" by (simp add: m_def)
  have "byte_of k # slice p 2 m = slice p 1 m"
    using byte_join [of 2 p m k] len m by (simp add: k_def)
  moreover have "byte_of 51 # slice p 1 m = slice p 0 m"
    using byte_join [of 1 p m 51] len m op by simp
  moreover have "slice p 0 m @ drop m p = p" using fit by (simp add: slice_def)
  ultimately have P: "byte_of 51 # byte_of k # slice p 2 m @ drop m p = p" by (metis append_Cons)
  have S: "slice p 2 34 @ slice p 34 66 @ slice p 66 74 @ slice p 74 78 @ slice p 78 111 @ slice p 111 m @ r
      = slice p 2 m @ r" for r
    using m by (simp add: slice_join append_assoc [symmetric] del: append_assoc)
  show ?thesis
    using T H ne pk k len P unfolding a
    by (auto simp: S encodeTSwapRoutePayload_def routeOk_def wire_simps swap_consts concatParts_append_Inr
        routeTailParts_def le_bytes_slice le_val_slice_less)
qed

interpretation swapRouteWire: exact_codec encodeTSwapRoutePayload "decodeTSwapRoutePayload onCurve" "routeOk onCurve" for onCurve
  using encodeTSwapRoute_decode by unfold_locales (auto intro: decodeTSwapRoute_encode)

end
