(* ===== verification/Worker_Envelope.thy ===== *)
theory Worker_Envelope
  imports Swap_Envelope
begin

text \<open>
  The indexer's decoders of the liquidity and farm envelopes (\<open>worker/src/index.js\<close>), next to the wallet's.
  They return hex and decimal strings, of which the model keeps the values, so that a decoded record of the
  indexer has the type of the wallet's. Their extra checks are on curve points (the parameter \<open>onCurve\<close>)
  and, for liquidity operations, on the configuration and the end of the payload.
\<close>

subsection \<open>Farm, fee-claim and removal payloads\<close>

definition decodeTFarmInitPayload :: "(bytes \<Rightarrow> bool) \<Rightarrow> bytes \<Rightarrow> farmInit option" where
  "decodeTFarmInitPayload onCurve payload = do {
     require (length payload \<ge> 315 + 2);
     require (u8 payload 0 = OPCODE_T_FARM_INIT); let p = 1;
     let poolId = slice payload p (p + 32); let p = p + 32;
     let farmNonce = slice payload p (p + 32); let p = p + 32;
     let launcherPubkey = slice payload p (p + 33); let p = p + 33;
     require (compressed launcherPubkey);
     require (compressedPointFromHex onCurve launcherPubkey);
     let rewardAssetId = slice payload p (p + 32); let p = p + 32;
     rewardTotal \<leftarrow> readU64LE payload p; let p = p + 8;
     rewardPerBlock \<leftarrow> readU64LE payload p; let p = p + 8;
     startHeight \<leftarrow> readU32LE payload p; let p = p + 4;
     endHeight \<leftarrow> readU32LE payload p; let p = p + 4;
     let cChangeOrSentinel = slice payload p (p + 33); let p = p + 33;
     require (all_zero cChangeOrSentinel \<or> compressedPointFromHex onCurve cChangeOrSentinel);
     require (p + 2 \<le> length payload);
     rpLen' \<leftarrow> readU16LE payload p; let rpLen = nat rpLen'; let p = p + 2;
     require (p + rpLen + 64 + 64 + 68 \<le> length payload);
     let rangeProof = slice payload p (p + rpLen); let p = p + rpLen;
     let kernelSig = slice payload p (p + 64); let p = p + 64;
     let launcherSig = slice payload p (p + 64); let p = p + 64;
     refundExpiry \<leftarrow> readU32LE payload p; let p = p + 4;
     let refundDestXonly = slice payload p (p + 32); let p = p + 32;
     let refundBlinding = slice payload p (p + 32); let p = p + 32;
     require (p = length payload);
     Some \<lparr>fi_poolId = poolId, fi_farmNonce = farmNonce, fi_launcherPubkey = launcherPubkey,
       fi_rewardAssetId = rewardAssetId, fi_rewardTotal = rewardTotal, fi_rewardPerBlock = rewardPerBlock,
       fi_startHeight = startHeight, fi_endHeight = endHeight, fi_cChangeOrSentinel = cChangeOrSentinel,
       fi_rangeProof = rangeProof, fi_kernelSig = kernelSig, fi_launcherSig = launcherSig,
       fi_refundExpiry = refundExpiry, fi_refundDestXonly = refundDestXonly,
       fi_refundBlinding = refundBlinding\<rparr>
   }"

definition decodeTLpBondPayload :: "(bytes \<Rightarrow> bool) \<Rightarrow> bytes \<Rightarrow> lpBond option" where
  "decodeTLpBondPayload onCurve payload = do {
     require (length payload \<ge> 319 + 2);
     require (u8 payload 0 = OPCODE_T_LP_BOND); let p = 1;
     let farmId = slice payload p (p + 32); let p = p + 32;
     let bonderPubkey = slice payload p (p + 33); let p = p + 33;
     require (compressed bonderPubkey);
     require (compressedPointFromHex onCurve bonderPubkey);
     bondAmount \<leftarrow> readU64LE payload p; let p = p + 8;
     entryAccPerShare \<leftarrow> readU128LE payload p; let p = p + 16;
     bondViewHeight \<leftarrow> readU32LE payload p; let p = p + 4;
     let ownerCommit = slice payload p (p + 32); let p = p + 32;
     let nonce = slice payload p (p + 32); let p = p + 32;
     let cChangeOrSentinel = slice payload p (p + 33); let p = p + 33;
     require (all_zero cChangeOrSentinel \<or> compressedPointFromHex onCurve cChangeOrSentinel);
     require (p + 2 \<le> length payload);
     rpLen' \<leftarrow> readU16LE payload p; let rpLen = nat rpLen'; let p = p + 2;
     require (p + rpLen + 64 + 64 + 68 \<le> length payload);
     let rangeProof = slice payload p (p + rpLen); let p = p + rpLen;
     let kernelSig = slice payload p (p + 64); let p = p + 64;
     let bonderSig = slice payload p (p + 64); let p = p + 64;
     refundExpiry \<leftarrow> readU32LE payload p; let p = p + 4;
     let refundDestXonly = slice payload p (p + 32); let p = p + 32;
     let refundBlinding = slice payload p (p + 32); let p = p + 32;
     require (p = length payload);
     Some \<lparr>lb_farmId = farmId, lb_bonderPubkey = bonderPubkey, lb_bondAmount = bondAmount,
       lb_entryAccPerShare = entryAccPerShare, lb_bondViewHeight = bondViewHeight,
       lb_ownerCommit = ownerCommit, lb_nonce = nonce, lb_cChangeOrSentinel = cChangeOrSentinel,
       lb_rangeProof = rangeProof, lb_kernelSig = kernelSig, lb_bonderSig = bonderSig,
       lb_refundExpiry = refundExpiry, lb_refundDestXonly = refundDestXonly,
       lb_refundBlinding = refundBlinding\<rparr>
   }"

definition decodeTLpUnbondPayload :: "bytes \<Rightarrow> lpUnbond option" where
  "decodeTLpUnbondPayload payload = do {
     require (length payload = 217);
     require (u8 payload 0 = OPCODE_T_LP_UNBOND); let p = 1;
     let farmId = slice payload p (p + 32); let p = p + 32;
     let ownerCommit = slice payload p (p + 32); let p = p + 32;
     let nonce = slice payload p (p + 32); let p = p + 32;
     shares \<leftarrow> readU64LE payload p; let p = p + 8;
     rpsEntry \<leftarrow> readU128LE payload p; let p = p + 16;
     let lpReturnR = slice payload p (p + 32); let p = p + 32;
     let unbonderSig = slice payload p (p + 64); let p = p + 64;
     require (p = length payload);
     Some \<lparr>lu_farmId = farmId, lu_ownerCommit = ownerCommit, lu_nonce = nonce, lu_shares = shares,
       lu_rpsEntry = rpsEntry, lu_lpReturnR = lpReturnR, lu_unbonderSig = unbonderSig\<rparr>
   }"

definition decodeTLpHarvestPayload :: "(bytes \<Rightarrow> bool) \<Rightarrow> bytes \<Rightarrow> lpHarvest option" where
  "decodeTLpHarvestPayload onCurve payload = do {
     require (length payload = 346);
     require (u8 payload 0 = OPCODE_T_LP_HARVEST); let p = 1;
     let farmId = slice payload p (p + 32); let p = p + 32;
     let bondId = slice payload p (p + 36); let p = p + 36;
     let harvesterPubkey = slice payload p (p + 33); let p = p + 33;
     require (compressed harvesterPubkey);
     require (compressedPointFromHex onCurve harvesterPubkey);
     exitAccPerShare \<leftarrow> readU128LE payload p; let p = p + 16;
     exitViewHeight \<leftarrow> readU32LE payload p; let p = p + 4;
     rewardAmount \<leftarrow> readU64LE payload p; let p = p + 8;
     let rewardR = slice payload p (p + 32); let p = p + 32;
     let ownerCommit = slice payload p (p + 32); let p = p + 32;
     let oldNonce = slice payload p (p + 32); let p = p + 32;
     let newNonce = slice payload p (p + 32); let p = p + 32;
     shares \<leftarrow> readU64LE payload p; let p = p + 8;
     rpsEntry \<leftarrow> readU128LE payload p; let p = p + 16;
     let harvesterSig = slice payload p (p + 64); let p = p + 64;
     require (p = length payload);
     Some \<lparr>lh_farmId = farmId, lh_bondId = bondId, lh_harvesterPubkey = harvesterPubkey,
       lh_exitAccPerShare = exitAccPerShare, lh_exitViewHeight = exitViewHeight,
       lh_rewardAmount = rewardAmount, lh_rewardR = rewardR, lh_ownerCommit = ownerCommit,
       lh_oldNonce = oldNonce, lh_newNonce = newNonce, lh_shares = shares, lh_rpsEntry = rpsEntry,
       lh_harvesterSig = harvesterSig\<rparr>
   }"

definition decodeTFarmRefundPayload :: "(bytes \<Rightarrow> bool) \<Rightarrow> bytes \<Rightarrow> farmRefund option" where
  "decodeTFarmRefundPayload onCurve payload = do {
     require (length payload = 174);
     require (u8 payload 0 = OPCODE_T_FARM_REFUND); let p = 1;
     let farmId = slice payload p (p + 32); let p = p + 32;
     let launcherPubkey = slice payload p (p + 33); let p = p + 33;
     require (compressed launcherPubkey);
     require (compressedPointFromHex onCurve launcherPubkey);
     refundAmount \<leftarrow> readU64LE payload p; let p = p + 8;
     refundViewHeight \<leftarrow> readU32LE payload p; let p = p + 4;
     let refundR = slice payload p (p + 32); let p = p + 32;
     let launcherSig = slice payload p (p + 64); let p = p + 64;
     require (p = length payload);
     Some \<lparr>fr_farmId = farmId, fr_launcherPubkey = launcherPubkey, fr_refundAmount = refundAmount,
       fr_refundViewHeight = refundViewHeight, fr_refundR = refundR, fr_launcherSig = launcherSig\<rparr>
   }"

definition decodeTProtocolFeeClaimPayload :: "(bytes \<Rightarrow> bool) \<Rightarrow> bytes \<Rightarrow> protocolFeeClaim option" where
  "decodeTProtocolFeeClaimPayload onCurve payload = do {
     require (length payload = 207);
     require (u8 payload 0 = OPCODE_T_PROTOCOL_FEE_CLAIM);
     let poolId = slice payload 1 33;
     let claimerPubkey = slice payload 33 66;
     require (compressedPointFromHex onCurve claimerPubkey);
     feeBps \<leftarrow> readU32LE payload 66;
     lo \<leftarrow> readU32LE payload 70;
     hi \<leftarrow> readU32LE payload 74;
     let amt = hi * 2 ^ 32 + lo;
     let claimCSecp = slice payload 78 111;
     require (compressedPointFromHex onCurve claimCSecp);
     let claimBlinding = slice payload 111 143;
     let claimSig = slice payload 143 207;
     Some \<lparr>fc_poolId = poolId, fc_claimerPubkey = claimerPubkey, fc_feeBps = feeBps,
           fc_claimAmount = amt, fc_claimCSecp = claimCSecp, fc_claimBlinding = claimBlinding,
           fc_claimSig = claimSig\<rparr>
   }"

definition decodeTLpRemovePayload :: "(bytes \<Rightarrow> bool) \<Rightarrow> bytes \<Rightarrow> lpRemove option" where
  "decodeTLpRemovePayload onCurve payload = do {
     require (payload \<noteq> [] \<and> u8 payload 0 = OPCODE_T_LP_REMOVE);
     let FIXED = 1 + 32 + 32 + 8 + 8 + 8 + 2 * (33 + 32 + XCURVE_PROOF_LEN) + 64 + 32 + 32 + 2;
     require (length payload \<ge> FIXED + 1);
     let off = 1;
     let assetA = slice payload off (off + 32); let off = off + 32;
     let assetB = slice payload off (off + 32); let off = off + 32;
     shareAmount \<leftarrow> readU64LE payload off; let off = off + 8;
     deltaA \<leftarrow> readU64LE payload off; let off = off + 8;
     deltaB \<leftarrow> readU64LE payload off; let off = off + 8;
     let recvACSecp = slice payload off (off + 33); let off = off + 33;
     require (compressedPointFromHex onCurve recvACSecp);
     let recvACBJJ = slice payload off (off + 32); let off = off + 32;
     let recvAXcurveSigma = slice payload off (off + XCURVE_PROOF_LEN); let off = off + XCURVE_PROOF_LEN;
     let recvBCSecp = slice payload off (off + 33); let off = off + 33;
     require (compressedPointFromHex onCurve recvBCSecp);
     let recvBCBJJ = slice payload off (off + 32); let off = off + 32;
     let recvBXcurveSigma = slice payload off (off + XCURVE_PROOF_LEN); let off = off + XCURVE_PROOF_LEN;
     let kernelSigLP = slice payload off (off + 64); let off = off + 64;
     let rRecvA = slice payload off (off + 32); let off = off + 32;
     let rRecvB = slice payload off (off + 32); let off = off + 32;
     require (off + 2 \<le> length payload);
     proofLen \<leftarrow> readU16LE payload off; let off = off + 2;
     require (nat proofLen \<noteq> 0);
     require (off + nat proofLen = length payload);
     let pf = slice payload off (off + nat proofLen);
     Some \<lparr>lr_assetA = assetA, lr_assetB = assetB, lr_shareAmount = shareAmount, lr_deltaA = deltaA,
       lr_deltaB = deltaB, lr_recvACSecp = recvACSecp, lr_recvACBJJ = recvACBJJ,
       lr_recvAXcurveSigma = recvAXcurveSigma, lr_recvBCSecp = recvBCSecp, lr_recvBCBJJ = recvBCBJJ,
       lr_recvBXcurveSigma = recvBXcurveSigma, lr_kernelSigLP = kernelSigLP, lr_rRecvA = rRecvA,
       lr_rRecvB = rRecvB, lr_proof = pf\<rparr>
   }"

subsection \<open>Where the readers differ\<close>

definition changeOk :: "(bytes \<Rightarrow> bool) \<Rightarrow> bytes \<Rightarrow> bool" where
  "changeOk onCurve c = (all_zero c \<or> compressedPointFromHex onCurve c)"

lemmas reader_simps = Let_def read_defs farm_consts envelope_consts changeOk_def

interpretation farmInitReaders: stricter_reader decodeFarmInit "decodeTFarmInitPayload onCurve"
    "\<lambda>a. compressedPointFromHex onCurve (fi_launcherPubkey a) \<and> changeOk onCurve (fi_cChangeOrSentinel a)" for onCurve
  by unfold_locales (auto simp: decodeFarmInit_def decodeTFarmInitPayload_def reader_simps)

interpretation lpBondReaders: stricter_reader decodeLpBond "decodeTLpBondPayload onCurve"
    "\<lambda>a. compressedPointFromHex onCurve (lb_bonderPubkey a) \<and> changeOk onCurve (lb_cChangeOrSentinel a)" for onCurve
  by unfold_locales (auto simp: decodeLpBond_def decodeTLpBondPayload_def reader_simps)

interpretation lpUnbondReaders: stricter_reader decodeLpUnbond decodeTLpUnbondPayload "\<lambda>_. True"
  by unfold_locales (auto simp: decodeLpUnbond_def decodeTLpUnbondPayload_def split: option.split)

interpretation lpHarvestReaders: stricter_reader decodeLpHarvest "decodeTLpHarvestPayload onCurve"
    "\<lambda>a. compressedPointFromHex onCurve (lh_harvesterPubkey a)" for onCurve
  by unfold_locales (auto simp: decodeLpHarvest_def decodeTLpHarvestPayload_def reader_simps
      compressedPointFromHex_def compressed_def)

interpretation farmRefundReaders: stricter_reader decodeFarmRefund "decodeTFarmRefundPayload onCurve"
    "\<lambda>a. compressedPointFromHex onCurve (fr_launcherPubkey a)" for onCurve
  by unfold_locales (auto simp: decodeFarmRefund_def decodeTFarmRefundPayload_def reader_simps)

interpretation feeClaimReaders: stricter_reader decodeProtocolFeeClaim "decodeTProtocolFeeClaimPayload onCurve"
    "\<lambda>a. compressedPointFromHex onCurve (fc_claimerPubkey a) \<and> compressedPointFromHex onCurve (fc_claimCSecp a)" for onCurve
  using le_halves [of 70]
  by unfold_locales (auto simp: decodeProtocolFeeClaim_def decodeTProtocolFeeClaimPayload_def reader_simps)

interpretation lpRemoveReaders: stricter_reader decodeLpRemove "decodeTLpRemovePayload onCurve"
    "\<lambda>a. compressedPointFromHex onCurve (lr_recvACSecp a) \<and> compressedPointFromHex onCurve (lr_recvBCSecp a) \<and>
      lr_proof a \<noteq> []" for onCurve
  by unfold_locales (auto simp: decodeLpRemove_def decodeTLpRemovePayload_def reader_simps)

subsection \<open>Liquidity additions\<close>

record lpAddWorker = lpAddDecoded +
  lw_kernelSigA :: bytes
  lw_kernelSigB :: bytes

text \<open>
  Where the indexer reads a length byte behind the end of the payload (\<open>vkLen\<close>, \<open>cerLen\<close>), JavaScript gives
  \<open>undefined\<close>, every later offset is \<open>NaN\<close>, and the decoder ends in \<open>null\<close> at the fee address, whose
  slice is empty; the model returns \<open>None\<close> at the read.
\<close>

definition decodeTLpAddInit :: "(bytes \<Rightarrow> bool) \<Rightarrow> bytes \<Rightarrow> nat \<Rightarrow> (lpAddInitDecoded \<times> nat) option" where
  "decodeTLpAddInit onCurve payload p = do {
     require (p + 2 \<le> length payload);
     feeBps \<leftarrow> readU16LE payload p; let p = p + 2;
     require (feeBps \<le> 1000);
     require (p + 1 \<le> length payload);
     let vkLen = u8 payload p; let p = p + 1;
     require (\<not> (vkLen < 1 \<or> vkLen > 64));
     require (p + vkLen \<le> length payload);
     let vkCid = utf8_decode (slice payload p (p + vkLen)); let p = p + vkLen;
     require (p + 1 \<le> length payload);
     let cerLen = u8 payload p; let p = p + 1;
     require (\<not> (cerLen < 1 \<or> cerLen > 64));
     require (p + cerLen \<le> length payload);
     let ceremonyCid = utf8_decode (slice payload p (p + cerLen)); let p = p + cerLen;
     require (p + 2 \<le> length payload);
     let arbCount = u8 payload p; let p = p + 1;
     require (arbCount \<le> 16);
     let arbM = u8 payload p; let p = p + 1;
     require (\<not> (arbCount = 0 \<and> arbM \<noteq> 0));
     require (\<not> (arbCount > 0 \<and> (arbM < 1 \<or> arbM > arbCount)));
     require (p + arbCount * 33 \<le> length payload);
     let arbs = take_chunks arbCount 33 payload p; let p = p + arbCount * 33;
     require (list_all (compressedPointFromHex onCurve) arbs);
     require (p + 1 \<le> length payload);
     let lsigCount = u8 payload p; let p = p + 1;
     require (lsigCount \<le> 2);
     require (p + lsigCount * 64 \<le> length payload);
     let lsigs = take_chunks lsigCount 64 payload p; let p = p + lsigCount * 64;
     require (p + 33 \<le> length payload);
     let addr = slice payload p (p + 33); let p = p + 33;
     let isZero = all_zero addr;
     require (isZero \<or> compressedPointFromHex onCurve addr);
     require (p + 2 \<le> length payload);
     bps \<leftarrow> readU16LE payload p; let p = p + 2;
     require (bps \<le> 1000);
     require (\<not> (bps > 0 \<and> isZero));
     require (\<not> (\<not> isZero \<and> bps = 0));
     require (p + 1 \<le> length payload);
     let metaLen = u8 payload p; let p = p + 1;
     require (p + metaLen \<le> length payload);
     let metaUri = (if metaLen = 0 then [] else utf8_decode (slice payload p (p + metaLen))); let p = p + metaLen;
     require (p + 1 \<le> length payload);
     let flags = u8 payload p; let p = p + 1;
     require (flags div 4 mod 2 = 0);
     Some (\<lparr>di_feeBps = feeBps, di_vkCid = vkCid, di_ceremonyCid = ceremonyCid,
       di_arbiterThresholdM = arbM, di_arbiterPubkeys = arbs, di_launcherSigs = lsigs,
       di_protocolFeeAddress = addr, di_protocolFeeBps = bps, di_poolMetaUri = metaUri,
       di_poolCapabilityFlags = flags\<rparr>, p)
   }"

definition decodeTLpAddPayload :: "(bytes \<Rightarrow> bool) \<Rightarrow> bytes \<Rightarrow> lpAddWorker option" where
  "decodeTLpAddPayload onCurve payload = do {
     require (payload \<noteq> [] \<and> u8 payload 0 = OPCODE_T_LP_ADD);
     let HEADER = 1 + 1 + 32 + 32 + 8 + 8 + 8 + 33 + 32 + XCURVE_PROOF_LEN + 64 + 64 + 32;
     require (length payload \<ge> HEADER);
     let variant = u8 payload 1;
     require (variant = 0 \<or> variant = 1);
     let p = 2;
     let assetA = slice payload p (p + 32); let p = p + 32;
     let assetB = slice payload p (p + 32); let p = p + 32;
     deltaA \<leftarrow> readU64LE payload p; let p = p + 8;
     deltaB \<leftarrow> readU64LE payload p; let p = p + 8;
     shareAmount \<leftarrow> readU64LE payload p; let p = p + 8;
     let shareCSecp = slice payload p (p + 33); let p = p + 33;
     require (compressedPointFromHex onCurve shareCSecp);
     let shareCBJJ = slice payload p (p + 32); let p = p + 32;
     let shareXcurveSigma = slice payload p (p + XCURVE_PROOF_LEN); let p = p + XCURVE_PROOF_LEN;
     let kernelSigA = slice payload p (p + 64); let p = p + 64;
     let kernelSigB = slice payload p (p + 64); let p = p + 64;
     let shareR = slice payload p (p + 32); let p = p + 32;
     (ini, p) \<leftarrow> (if variant = 1
       then map_option (\<lambda>(i, p). (Some i, p)) (decodeTLpAddInit onCurve payload p)
       else Some (None, p));
     require (p + 4 + 32 + 32 \<le> length payload);
     expiryHeight \<leftarrow> readU32LE payload p; let p = p + 4;
     let refundA = slice payload p (p + 32); let p = p + 32;
     let refundB = slice payload p (p + 32); let p = p + 32;
     require (p = length payload);
     Some \<lparr>ld_variant = variant, ld_assetA = assetA, ld_assetB = assetB, ld_deltaA = deltaA,
       ld_deltaB = deltaB, ld_shareAmount = shareAmount, ld_shareCSecp = shareCSecp,
       ld_shareCBJJ = shareCBJJ, ld_shareXcurveSigma = shareXcurveSigma, ld_shareR = shareR,
       ld_init = ini, ld_expiryHeight = expiryHeight, ld_refundABlinding = refundA,
       ld_refundBBlinding = refundB, lw_kernelSigA = kernelSigA, lw_kernelSigB = kernelSigB\<rparr>
   }"

text \<open>
  The indexer's decoder makes the wallet's reads in the wallet's order and checks more on the way (points on
  the curve, the arbiter threshold, the fee address, capability bit 2, the end of the payload). The rules
  walk two such readers in step.
\<close>

lemma step_let:
  "(let x = e in f x) = Some y \<Longrightarrow> (\<And>x. x = e \<Longrightarrow> f x = Some y \<Longrightarrow> g x = Some z) \<Longrightarrow> (let x = e in g x) = Some z"
  by (simp add: Let_def)

lemma step_bind:
  "(m \<bind> f) = Some y \<Longrightarrow> (\<And>x. m = Some x \<Longrightarrow> f x = Some y \<Longrightarrow> g x = Some z) \<Longrightarrow> (m \<bind> g) = Some z"
  by (cases m) auto

lemma step_extra: "(require c \<bind> f) = Some y \<Longrightarrow> (c \<Longrightarrow> f () = Some y \<Longrightarrow> g = Some z) \<Longrightarrow> g = Some z"
  by (cases c) (auto simp: require_def)

lemma step_extra_let: "(let x = e in f x) = Some y \<Longrightarrow> (\<And>x. x = e \<Longrightarrow> f x = Some y \<Longrightarrow> g = Some z) \<Longrightarrow> g = Some z"
  by (simp add: Let_def)

lemma empty_text: "(if n = 0 then [] else utf8_decode (slice b p (p + n))) = utf8_decode (slice b p (p + n))"
  by (simp add: utf8_decode_def strip_bom_def)

lemma worker_init_reads:
  assumes "decodeTLpAddInit onCurve payload p = Some y"
  shows "decodeLpAddInit payload p = Some y"
  using assms unfolding decodeTLpAddInit_def decodeLpAddInit_def envelope_consts empty_text
  apply -
  apply (erule step_bind step_let step_extra step_extra_let)+
  apply assumption
  done

lemma init_reads_fee: "decodeLpAddInit payload p = Some y \<Longrightarrow> p + 2 \<le> length payload"
  by (simp add: decodeLpAddInit_def)

lemma worker_lp_add_reads:
  assumes "decodeTLpAddPayload onCurve p = Some w"
  shows "decodeLpAdd p = Some (lpAddDecoded.truncate w)"
  using assms
  by (auto simp: decodeTLpAddPayload_def decodeLpAdd_def Let_def envelope_consts read_defs
      lpAddDecoded.truncate_def bind_eq_Some_conv split: if_splits dest!: worker_init_reads dest: init_reads_fee)

text \<open>
  An addition to an existing pool, with any bytes behind it: the indexer reads it exactly when nothing
  follows and its share commitment is on the curve.
\<close>

definition lpAddWorkerView :: "lpAdd \<Rightarrow> lpAddWorker" where
  "lpAddWorkerView a = lpAddDecoded.extend (lpAddView a)
     \<lparr>lw_kernelSigA = la_kernelSigA a, lw_kernelSigB = la_kernelSigB a\<rparr>"

lemma worker_lp_add_tail:
  assumes enc: "encodeLpAdd a = Inr p" and ok: "lpAddOk a" and v: "la_variant a = 0"
  shows "decodeTLpAddPayload onCurve (p @ junk) =
    (if junk = [] \<and> compressedPointFromHex onCurve (la_shareCSecp a) then Some (lpAddWorkerView a) else None)"
proof -
  obtain h t where h: "concatParts (encodeLpAddHead a) = Inr h"
    and t: "concatParts (encodeLpAddTail a) = Inr t" and p: "p = h @ t"
    using enc v by (auto simp: encodeLpAdd_def concatParts_append_Inr wire_simps)
  note hf = encodeLpAddHead_Inr [OF h]
  have tl: "t = le_bytes 4 (la_expiryHeight a) @ la_refundABlinding a @ la_refundBBlinding a"
    "length (la_refundABlinding a) = 32" "length (la_refundBBlinding a) = 32"
    using t by (simp_all add: encodeLpAddTail_def wire_simps)
  have ex: "0 \<le> la_expiryHeight a \<and> la_expiryHeight a < 2 ^ 32"
    using ok by (simp add: lpAddOk_def)
  show ?thesis
    unfolding p tl(1) hf(1) decodeTLpAddPayload_def
    using v hf(3-) tl(2-) ex
    by (simp add: Let_def readU32LE_def envelope_consts wire_simps lpAddView_def lpAddWorkerView_def
        lpAddDecoded.extend_def)
qed

end
