(* ===== verification/Token_Transfer.thy ===== *)
theory Token_Transfer
  imports Tacit_Prelude
begin

text \<open>
  The confidential transfer payloads of \<open>dapp/tacit.js\<close>: \<open>T_CXFER\<close>, \<open>T_CXFER_BPP\<close>, \<open>T_CXFER_BOUND\<close>,
  \<open>T_AXFER\<close>, \<open>T_AXFER_BPP\<close>, \<open>T_AXFER_VAR\<close>, \<open>T_AXFER_VAR_BPP\<close>, \<open>T_MINT\<close> and \<open>T_BURN\<close>, and the indexer's
  structural decoders of the same payloads (\<open>worker/src/index.js\<close>), which keep only what it indexes.

  A payload starts with a header of fixed size that ends in the number of outputs, and goes on with the
  outputs (commitment and encrypted amount) and a length-prefixed range proof up to its last byte:
  \<open>decodeBody\<close> reads that second part. The plain and the Bulletproofs+ forms of a payload are written by
  functions that differ in the opcode only; the model states them over the opcode.
\<close>

definition T_CXFER :: nat where "T_CXFER = 0x23"
definition T_CXFER_BPP :: nat where "T_CXFER_BPP = 0x22"
definition T_MINT :: nat where "T_MINT = 0x24"
definition T_BURN :: nat where "T_BURN = 0x25"
definition T_AXFER :: nat where "T_AXFER = 0x26"
definition T_AXFER_BPP :: nat where "T_AXFER_BPP = 0x3C"
definition T_AXFER_VAR :: nat where "T_AXFER_VAR = 0x37"
definition T_AXFER_VAR_BPP :: nat where "T_AXFER_VAR_BPP = 0x3D"
definition T_CXFER_BOUND :: nat where "T_CXFER_BOUND = 0x39"

lemmas transfer_consts = T_CXFER_def T_CXFER_BPP_def T_MINT_def T_BURN_def T_AXFER_def T_AXFER_BPP_def
  T_AXFER_VAR_def T_AXFER_VAR_BPP_def T_CXFER_BOUND_def

record cOutput =
  co_commitment :: bytes
  co_encryptedAmount :: bytes

subsection \<open>Outputs and range proof\<close>

definition encodeOutput :: "cOutput \<Rightarrow> bytes res list" where
  "encodeOutput out =
     [throw_unless (length (co_commitment out) = 33) ''commitment 33 bytes'',
      throw_unless (length (co_encryptedAmount out) = 8) ''encrypted_amount must be 8 bytes'',
      Inr (co_commitment out), Inr (co_encryptedAmount out)]"

definition encodeOutputs :: "cOutput list \<Rightarrow> bytes res list" where
  "encodeOutputs outputs = concat (map encodeOutput outputs)"

definition encodeProof :: "bytes \<Rightarrow> bytes res list" where
  "encodeProof rangeproof = [Inr (le_bytes 2 (int (length rangeproof))), Inr rangeproof]"

definition encodeBody :: "cOutput list \<Rightarrow> bytes \<Rightarrow> bytes res list" where
  "encodeBody outputs rangeproof = encodeOutputs outputs @ encodeProof rangeproof"

primrec decodeOutputs :: "nat \<Rightarrow> bytes \<Rightarrow> nat \<Rightarrow> (cOutput list \<times> nat) option" where
  "decodeOutputs 0 payload p = Some ([], p)"
| "decodeOutputs (Suc n) payload p = do {
     require (p + 33 + 8 \<le> length payload);
     let commitment = slice payload p (p + 33); let p = p + 33;
     let encryptedAmount = slice payload p (p + 8); let p = p + 8;
     (outputs, p) \<leftarrow> decodeOutputs n payload p;
     Some (\<lparr>co_commitment = commitment, co_encryptedAmount = encryptedAmount\<rparr> # outputs, p)
   }"

definition decodeProof :: "bytes \<Rightarrow> nat \<Rightarrow> bytes option" where
  "decodeProof payload p = do {
     require (p + 2 \<le> length payload);
     let rpLen = u16at payload p; let p = p + 2;
     require (p + rpLen = length payload);
     Some (slice payload p (p + rpLen))
   }"

definition decodeBody :: "nat \<Rightarrow> bytes \<Rightarrow> nat \<Rightarrow> (cOutput list \<times> bytes) option" where
  "decodeBody n payload p = do {
     (outputs, p) \<leftarrow> decodeOutputs n payload p;
     rangeproof \<leftarrow> decodeProof payload p;
     Some (outputs, rangeproof)
   }"

text \<open>What the loops compute: the outputs' bytes follow each other, the proof ends the payload.\<close>

definition outputOk :: "cOutput \<Rightarrow> bool" where
  "outputOk out = (length (co_commitment out) = 33 \<and> length (co_encryptedAmount out) = 8)"

definition outputBytes :: "cOutput \<Rightarrow> bytes" where
  "outputBytes out = co_commitment out @ co_encryptedAmount out"

definition bodyBytes :: "cOutput list \<Rightarrow> bytes \<Rightarrow> bytes" where
  "bodyBytes outputs rangeproof =
     concat (map outputBytes outputs) @ le_bytes 2 (int (length rangeproof)) @ rangeproof"

lemma encodeOutputs_Inr [wire_simps]:
  "(concatParts (encodeOutputs outputs) = Inr q) =
     (list_all outputOk outputs \<and> q = concat (map outputBytes outputs))"
  by (induction outputs arbitrary: q)
    (auto simp: encodeOutputs_def encodeOutput_def outputOk_def outputBytes_def wire_simps)

lemma encodeBody_Inr [wire_simps]:
  "(concatParts (encodeBody outputs rangeproof) = Inr q) =
     (list_all outputOk outputs \<and> q = bodyBytes outputs rangeproof)"
  by (auto simp: encodeBody_def encodeProof_def bodyBytes_def wire_simps)

lemma decodeOutputs_iff:
  "(decodeOutputs n payload p = Some (outputs, q)) =
     (q = p + 41 * n \<and> (n = 0 \<or> q \<le> length payload) \<and> length outputs = n \<and> list_all outputOk outputs \<and>
      concat (map outputBytes outputs) = slice payload p q)"
proof (induction n arbitrary: p outputs)
  case 0
  show ?case by auto
next
  case (Suc n)
  have cut: "slice payload p (p + 41 + 41 * n) = slice payload p (p + 33) @ slice payload (p + 33) (p + 41) @
      slice payload (p + 41) (p + 41 + 41 * n)"
    using slice_join [of p "p + 41" "p + 41 + 41 * n" payload] slice_join [of p "p + 33" "p + 41" payload]
    by (simp flip: append_assoc)
  show ?case (is "?l = ?r")
  proof
    assume ?l
    then show ?r
      using cut
      by (auto simp: Let_def Suc.IH outputOk_def outputBytes_def bind_eq_Some_conv add.assoc)
  next
    assume r: ?r
    then obtain out outs where out: "outputs = out # outs" by (cases outputs) auto
    have len: "length (slice payload p (p + 33)) = 33" "length (slice payload (p + 33) (p + 41)) = 8"
      using r by auto
    have "co_commitment out = slice payload p (p + 33)" "co_encryptedAmount out = slice payload (p + 33) (p + 41)"
      "concat (map outputBytes outs) = slice payload (p + 41) (p + 41 + 41 * n)"
      using r out cut len by (auto simp: outputOk_def outputBytes_def [of out] add.assoc append_eq_append_conv)
    moreover from this have "decodeOutputs n payload (p + 41) = Some (outs, q)"
      using r out by (subst Suc.IH) (auto simp: add.assoc)
    ultimately show ?l
      using r out by (cases out) (auto simp: Let_def add.commute [of p])
  qed
qed

lemma decodeProof_iff:
  "p \<le> length payload \<Longrightarrow> (decodeProof payload p = Some rp) =
     (length rp \<le> 0xffff \<and> drop p payload = le_bytes 2 (int (length rp)) @ rp)"
proof
  assume "decodeProof payload p = Some rp"
  then have len: "p + 2 \<le> length payload" "p + 2 + u16at payload p = length payload"
    and rp: "rp = drop (p + 2) payload"
    by (auto simp: decodeProof_def Let_def slice_drop)
  then have "length rp = u16at payload p" by simp
  then show "length rp \<le> 0xffff \<and> drop p payload = le_bytes 2 (int (length rp)) @ rp"
    using le_bytes_u16at [OF len(1)] slice_drop_join [of p "p + 2" payload] rp
      u16at_less [of payload p, THEN Suc_leI] by simp
next
  assume p: "p \<le> length payload"
    and rp: "length rp \<le> 0xffff \<and> drop p payload = le_bytes 2 (int (length rp)) @ rp"
  then have pay: "payload = take p payload @ le_bytes 2 (int (length rp)) @ rp"
    by (metis append_take_drop_id)
  have "u16at payload p = length rp"
    by (subst pay) (use p rp in \<open>simp add: wire_simps\<close>)
  moreover have "length payload = p + 2 + length rp"
    by (subst pay) (use p in simp)
  moreover have "drop (p + 2) payload = rp"
    by (subst pay) (use p in simp)
  ultimately show "decodeProof payload p = Some rp"
    by (simp add: decodeProof_def Let_def slice_drop)
qed

lemma decodeBody_iff:
  assumes "p \<le> length payload"
  shows "(decodeBody n payload p = Some (outputs, rp)) =
     (length outputs = n \<and> list_all outputOk outputs \<and> length rp \<le> 0xffff \<and> drop p payload = bodyBytes outputs rp)"
proof -
  have len: "list_all outputOk outs \<Longrightarrow> length (concat (map outputBytes outs)) = 41 * length outs" for outs
    by (induction outs) (auto simp: outputOk_def outputBytes_def)
  have "(decodeBody n payload p = Some (outputs, rp)) =
      (decodeOutputs n payload p = Some (outputs, p + 41 * n) \<and> decodeProof payload (p + 41 * n) = Some rp)"
    by (auto simp: decodeBody_def decodeOutputs_iff bind_eq_Some_conv)
  also have "\<dots> = (length outputs = n \<and> list_all outputOk outputs \<and> length rp \<le> 0xffff \<and>
      drop p payload = bodyBytes outputs rp)" (is "?l = ?r")
  proof
    assume ?l
    then show ?r
      using assms slice_drop_join [of p "p + 41 * n" payload]
      by (auto simp: decodeOutputs_iff decodeProof_iff bodyBytes_def)
  next
    assume r: ?r
    then have l: "length payload - p = 41 * n + 2 + length rp"
      using len [of outputs] by (metis bodyBytes_def length_append length_drop length_le_bytes add.assoc)
    then have le: "p + 41 * n \<le> length payload" by linarith
    have "slice payload p (p + 41 * n) = take (41 * n) (bodyBytes outputs rp)"
      "drop (p + 41 * n) payload = drop (41 * n) (bodyBytes outputs rp)"
      using r by (simp_all add: slice_def add.commute [of p] flip: drop_drop [of "41 * n" p])
    then show ?l
      using r le len [of outputs] by (simp add: decodeOutputs_iff decodeProof_iff bodyBytes_def)
  qed
  finally show ?thesis .
qed

subsection \<open>Transfers\<close>

record cxfer =
  cx_assetId :: bytes
  cx_kernelSig :: bytes
  cx_outputs :: "cOutput list"
  cx_rangeproof :: bytes

definition encodeCXferAs :: "nat \<Rightarrow> cxfer \<Rightarrow> bytes res" where
  "encodeCXferAs opcode a = concatParts
     ([throw_unless (length (cx_assetId a) = 32) ''asset_id 32 bytes'',
       throw_unless (length (cx_kernelSig a) = 64) ''kernel_sig must be 64 bytes'',
       throw_unless (length (cx_outputs a) \<in> {1, 2, 4, 8}) ''outputs must be in {1,2,4,8}'',
       throw_unless (length (cx_rangeproof a) \<le> 0xffff) ''rangeproof too large'',
       Inr [byte_of opcode], Inr (cx_assetId a), Inr (cx_kernelSig a), Inr [byte_of (length (cx_outputs a))]]
      @ encodeBody (cx_outputs a) (cx_rangeproof a))"

definition decodeCXferAs :: "nat \<Rightarrow> bytes \<Rightarrow> cxfer option" where
  "decodeCXferAs opcode payload = do {
     require (length payload \<ge> 1 + 32 + 64 + 1 + (33 + 8) + 2);
     require (u8 payload 0 = opcode); let p = 1;
     let assetId = slice payload p (p + 32); let p = p + 32;
     let kernelSig = slice payload p (p + 64); let p = p + 64;
     let n = u8 payload p; let p = p + 1;
     require (n \<in> {1, 2, 4, 8});
     (outputs, rangeproof) \<leftarrow> decodeBody n payload p;
     Some \<lparr>cx_assetId = assetId, cx_kernelSig = kernelSig, cx_outputs = outputs, cx_rangeproof = rangeproof\<rparr>
   }"

definition encodeCXferPayload :: "cxfer \<Rightarrow> bytes res" where
  "encodeCXferPayload = encodeCXferAs T_CXFER"

definition decodeCXferPayload :: "bytes \<Rightarrow> cxfer option" where
  "decodeCXferPayload = decodeCXferAs T_CXFER"

definition encodeCXferBppPayload :: "cxfer \<Rightarrow> bytes res" where
  "encodeCXferBppPayload = encodeCXferAs T_CXFER_BPP"

definition decodeCXferBppPayload :: "bytes \<Rightarrow> cxfer option" where
  "decodeCXferBppPayload = decodeCXferAs T_CXFER_BPP"

lemma length_bodyBytes:
  "list_all outputOk outs \<Longrightarrow> length (bodyBytes outs rp) = 41 * length outs + 2 + length rp"
  by (induction outs) (auto simp: outputOk_def outputBytes_def bodyBytes_def)

lemma cxfer_codec:
  assumes "opcode < 256"
  shows "(decodeCXferAs opcode p = Some a) = (encodeCXferAs opcode a = Inr p)"
proof
  assume d: "decodeCXferAs opcode p = Some a"
  then have len: "141 \<le> length p" and op: "u8 p 0 = opcode" and n: "u8 p 97 \<in> {1, 2, 4, 8}"
    and a: "cx_assetId a = slice p 1 33" "cx_kernelSig a = slice p 33 97"
    and body: "decodeBody (u8 p 97) p 98 = Some (cx_outputs a, cx_rangeproof a)"
    by (auto simp: decodeCXferAs_def Let_def bind_eq_Some_conv)
  have b: "length (cx_outputs a) = u8 p 97" "list_all outputOk (cx_outputs a)" "length (cx_rangeproof a) \<le> 0xffff"
    "bodyBytes (cx_outputs a) (cx_rangeproof a) = drop 98 p"
    using body len by (simp_all add: decodeBody_iff)
  show "encodeCXferAs opcode a = Inr p"
    using len op n a b by (simp add: encodeCXferAs_def wire_simps rest_simps)
next
  assume e: "encodeCXferAs opcode a = Inr p"
  then have p: "p = [byte_of opcode] @ cx_assetId a @ cx_kernelSig a @ [byte_of (length (cx_outputs a))] @
      bodyBytes (cx_outputs a) (cx_rangeproof a)"
    and f: "length (cx_assetId a) = 32" "length (cx_kernelSig a) = 64" "length (cx_outputs a) \<in> {1, 2, 4, 8}"
      "length (cx_rangeproof a) \<le> 0xffff" "list_all outputOk (cx_outputs a)"
    by (auto simp: encodeCXferAs_def wire_simps)
  have "decodeBody (length (cx_outputs a)) p 98 = Some (cx_outputs a, cx_rangeproof a)"
    using f p by (subst decodeBody_iff) auto
  then show "decodeCXferAs opcode p = Some a"
    using p f assms
    by (cases a) (auto simp: decodeCXferAs_def Let_def wire_simps length_bodyBytes)
qed

interpretation cxferWire: exact_codec encodeCXferPayload decodeCXferPayload "\<lambda>_. True"
  using cxfer_codec [of T_CXFER]
  by unfold_locales (auto simp: encodeCXferPayload_def decodeCXferPayload_def transfer_consts)

interpretation cxferBppWire: exact_codec encodeCXferBppPayload decodeCXferBppPayload "\<lambda>_. True"
  using cxfer_codec [of T_CXFER_BPP]
  by unfold_locales (auto simp: encodeCXferBppPayload_def decodeCXferBppPayload_def transfer_consts)

text \<open>A transfer that names the pool deployment it is bound to.\<close>

record cxferBound = cxfer +
  cb_targetChainBinding :: bytes

definition decodeCXferBoundPayload :: "bytes \<Rightarrow> cxferBound option" where
  "decodeCXferBoundPayload payload = do {
     require (length payload \<ge> 1 + 32 + 32 + 64 + 1 + (33 + 8) + 2);
     require (u8 payload 0 = T_CXFER_BOUND); let p = 1;
     let targetChainBinding = slice payload p (p + 32); let p = p + 32;
     let assetId = slice payload p (p + 32); let p = p + 32;
     let kernelSig = slice payload p (p + 64); let p = p + 64;
     let n = u8 payload p; let p = p + 1;
     require (n \<in> {1, 2, 4, 8});
     (outputs, rangeproof) \<leftarrow> decodeBody n payload p;
     Some \<lparr>cx_assetId = assetId, cx_kernelSig = kernelSig, cx_outputs = outputs, cx_rangeproof = rangeproof,
       cb_targetChainBinding = targetChainBinding\<rparr>
   }"

definition encodeBoundOutputs :: "cOutput list \<Rightarrow> bytes res list" where
  "encodeBoundOutputs outputs = concat (map (\<lambda>out.
     [asBytes (co_commitment out) 33 ''commitment'', asBytes (co_encryptedAmount out) 8 ''amount_ct'']) outputs)"

definition encodeCxferBoundEnvelope :: "cxferBound \<Rightarrow> bytes res" where
  "encodeCxferBoundEnvelope a = concatParts
     ([throw_unless (length (cb_targetChainBinding a) = 32) ''target_chain_binding must be 32 bytes'',
       throw_unless (length (cx_assetId a) = 32) ''assetId must be 32 bytes'',
       throw_unless (length (cx_kernelSig a) = 64) ''kernel_sig must be 64 bytes'',
       throw_unless (length (cx_outputs a) \<in> {1, 2, 4, 8}) ''outputs.length must be in {1,2,4,8}'',
       throw_unless (length (cx_rangeproof a) \<le> 0xffff) ''rangeProof too large'',
       Inr [byte_of T_CXFER_BOUND], Inr (cb_targetChainBinding a), Inr (cx_assetId a), Inr (cx_kernelSig a),
       Inr [byte_of (length (cx_outputs a))]]
      @ encodeBoundOutputs (cx_outputs a) @ encodeProof (cx_rangeproof a))"

text \<open>\<open>boundKit\<close> makes the same payload out of the Bulletproofs+ transfer payload.\<close>

definition boundEncodePayload :: "bytes \<Rightarrow> cxfer \<Rightarrow> bytes res" where
  "boundEncodePayload target args =
     (if length target \<noteq> 32 then Inl (Err ''btc-bind: the chain binding must be 32 bytes'')
      else case encodeCXferBppPayload args of Inl e \<Rightarrow> Inl e
        | Inr p \<Rightarrow> Inr ([byte_of T_CXFER_BOUND] @ target @ drop 1 p))"

lemma encodeBoundOutputs_Inr [wire_simps]:
  "(concatParts (encodeBoundOutputs outputs @ encodeProof rp) = Inr q) =
     (list_all outputOk outputs \<and> q = bodyBytes outputs rp)"
proof -
  have "(concatParts (encodeBoundOutputs outputs) = Inr r) =
      (list_all outputOk outputs \<and> r = concat (map outputBytes outputs))" for r
    by (induction outputs arbitrary: r)
      (auto simp: encodeBoundOutputs_def outputOk_def outputBytes_def wire_simps)
  then show ?thesis by (auto simp: encodeProof_def bodyBytes_def wire_simps)
qed

lemma encodeBound_Inr:
  "(encodeCxferBoundEnvelope a = Inr p) =
     (length (cb_targetChainBinding a) = 32 \<and> length (cx_assetId a) = 32 \<and> length (cx_kernelSig a) = 64 \<and>
      length (cx_outputs a) \<in> {1, 2, 4, 8} \<and> length (cx_rangeproof a) \<le> 0xffff \<and> list_all outputOk (cx_outputs a) \<and>
      p = [byte_of T_CXFER_BOUND] @ cb_targetChainBinding a @ cx_assetId a @ cx_kernelSig a @
        [byte_of (length (cx_outputs a))] @ bodyBytes (cx_outputs a) (cx_rangeproof a))"
  unfolding encodeCxferBoundEnvelope_def append_Cons append_Nil
  by (simp only: concatParts_Cons_Inr throw_unless_Inr encodeBoundOutputs_Inr sum.inject) auto

lemma bound_codec: "(decodeCXferBoundPayload p = Some a) = (encodeCxferBoundEnvelope a = Inr p)"
proof
  assume d: "decodeCXferBoundPayload p = Some a"
  then have len: "173 \<le> length p" and op: "u8 p 0 = T_CXFER_BOUND" and n: "u8 p 129 \<in> {1, 2, 4, 8}"
    and a: "cb_targetChainBinding a = slice p 1 33" "cx_assetId a = slice p 33 65" "cx_kernelSig a = slice p 65 129"
    and body: "decodeBody (u8 p 129) p 130 = Some (cx_outputs a, cx_rangeproof a)"
    by (auto simp: decodeCXferBoundPayload_def Let_def bind_eq_Some_conv)
  have b: "length (cx_outputs a) = u8 p 129" "list_all outputOk (cx_outputs a)" "length (cx_rangeproof a) \<le> 0xffff"
    "bodyBytes (cx_outputs a) (cx_rangeproof a) = drop 130 p"
    using body len by (simp_all add: decodeBody_iff)
  show "encodeCxferBoundEnvelope a = Inr p"
    using len op n a b by (simp add: encodeBound_Inr rest_simps)
next
  assume e: "encodeCxferBoundEnvelope a = Inr p"
  note f = e [unfolded encodeBound_Inr]
  then have "decodeBody (length (cx_outputs a)) p 130 = Some (cx_outputs a, cx_rangeproof a)"
    by (subst decodeBody_iff) auto
  then show "decodeCXferBoundPayload p = Some a"
    using f
    by (cases a) (auto simp: decodeCXferBoundPayload_def Let_def wire_simps length_bodyBytes transfer_consts)
qed

interpretation boundWire: exact_codec encodeCxferBoundEnvelope decodeCXferBoundPayload "\<lambda>_. True"
  by unfold_locales (auto simp: bound_codec)

lemma boundKit_same_bytes:
  "(boundEncodePayload target a = Inr p) =
     (encodeCxferBoundEnvelope (cxfer.extend a \<lparr>cb_targetChainBinding = target\<rparr>) = Inr p)"
proof -
  have "(boundEncodePayload target a = Inr p) = (length target = 32 \<and>
      (\<exists>r. encodeCXferBppPayload a = Inr r \<and> p = [byte_of T_CXFER_BOUND] @ target @ drop 1 r))"
    by (auto simp: boundEncodePayload_def split: sum.splits)
  then show ?thesis
    by (cases a) (auto simp: encodeBound_Inr cxfer.extend_def encodeCXferBppPayload_def encodeCXferAs_def wire_simps)
qed

subsection \<open>Atomic settlements\<close>

record axfer = cxfer +
  ax_assetInputCount :: int

definition encodeAxferAs :: "nat \<Rightarrow> axfer \<Rightarrow> bytes res" where
  "encodeAxferAs opcode a = concatParts
     ([throw_unless (length (cx_assetId a) = 32) ''asset_id 32 bytes'',
       throw_unless (1 \<le> ax_assetInputCount a \<and> ax_assetInputCount a \<le> 255)
         ''asset_input_count must be integer in [1, 255]'',
       throw_unless (length (cx_kernelSig a) = 64) ''kernel_sig must be 64 bytes'',
       throw_unless (length (cx_outputs a) \<in> {1, 2, 4, 8}) ''outputs must be in {1,2,4,8}'',
       throw_unless (length (cx_rangeproof a) \<le> 0xffff) ''rangeproof too large'',
       Inr [byte_of opcode], Inr (cx_assetId a), Inr [byte_of (nat (ax_assetInputCount a))], Inr (cx_kernelSig a),
       Inr [byte_of (length (cx_outputs a))]]
      @ encodeBody (cx_outputs a) (cx_rangeproof a))"

definition decodeAxferAs :: "nat \<Rightarrow> bytes \<Rightarrow> axfer option" where
  "decodeAxferAs opcode payload = do {
     require (length payload \<ge> 1 + 32 + 1 + 64 + 1 + (33 + 8) + 2);
     require (u8 payload 0 = opcode); let p = 1;
     let assetId = slice payload p (p + 32); let p = p + 32;
     let assetInputCount = u8 payload p; let p = p + 1;
     require (\<not> assetInputCount < 1);
     let kernelSig = slice payload p (p + 64); let p = p + 64;
     let n = u8 payload p; let p = p + 1;
     require (n \<in> {1, 2, 4, 8});
     (outputs, rangeproof) \<leftarrow> decodeBody n payload p;
     Some \<lparr>cx_assetId = assetId, cx_kernelSig = kernelSig, cx_outputs = outputs, cx_rangeproof = rangeproof,
       ax_assetInputCount = int assetInputCount\<rparr>
   }"

definition encodeAxferPayload :: "axfer \<Rightarrow> bytes res" where
  "encodeAxferPayload = encodeAxferAs T_AXFER"

definition decodeAxferPayload :: "bytes \<Rightarrow> axfer option" where
  "decodeAxferPayload = decodeAxferAs T_AXFER"

definition encodeAxferBppPayload :: "axfer \<Rightarrow> bytes res" where
  "encodeAxferBppPayload = encodeAxferAs T_AXFER_BPP"

definition decodeAxferBppPayload :: "bytes \<Rightarrow> axfer option" where
  "decodeAxferBppPayload = decodeAxferAs T_AXFER_BPP"

text \<open>The variable-amount settlement has one asset input and two outputs.\<close>

definition encodeAxferVarAs :: "nat \<Rightarrow> string \<Rightarrow> cxfer \<Rightarrow> bytes res" where
  "encodeAxferVarAs opcode msg a = concatParts
     ([throw_unless (length (cx_assetId a) = 32) ''asset_id 32 bytes'',
       throw_unless (length (cx_kernelSig a) = 64) ''kernel_sig must be 64 bytes'',
       throw_unless (length (cx_outputs a) = 2) msg,
       throw_unless (length (cx_rangeproof a) \<le> 0xffff) ''rangeproof too large'',
       Inr [byte_of opcode], Inr (cx_assetId a), Inr [byte_of 1], Inr (cx_kernelSig a), Inr [byte_of 2]]
      @ encodeBody (cx_outputs a) (cx_rangeproof a))"

definition decodeAxferVarAs :: "nat \<Rightarrow> bytes \<Rightarrow> axfer option" where
  "decodeAxferVarAs opcode payload = do {
     require (payload \<noteq> [] \<and> u8 payload 0 = opcode);
     require (length payload \<ge> 1 + 32 + 1 + 64 + 1 + 2 * (33 + 8) + 2); let p = 1;
     let assetId = slice payload p (p + 32); let p = p + 32;
     let assetInputCount = u8 payload p; let p = p + 1;
     require (assetInputCount = 1);
     let kernelSig = slice payload p (p + 64); let p = p + 64;
     let n = u8 payload p; let p = p + 1;
     require (n = 2);
     (outputs, rangeproof) \<leftarrow> decodeBody n payload p;
     Some \<lparr>cx_assetId = assetId, cx_kernelSig = kernelSig, cx_outputs = outputs, cx_rangeproof = rangeproof,
       ax_assetInputCount = int assetInputCount\<rparr>
   }"

definition encodeAxferVarPayload :: "cxfer \<Rightarrow> bytes res" where
  "encodeAxferVarPayload = encodeAxferVarAs T_AXFER_VAR
     ''T_AXFER_VAR outputs MUST be exactly 2 (recipient + maker change)''"

definition decodeAxferVarPayload :: "bytes \<Rightarrow> axfer option" where
  "decodeAxferVarPayload = decodeAxferVarAs T_AXFER_VAR"

definition encodeAxferVarBppPayload :: "cxfer \<Rightarrow> bytes res" where
  "encodeAxferVarBppPayload = encodeAxferVarAs T_AXFER_VAR_BPP
     ''T_AXFER_VAR_BPP outputs MUST be exactly 2 (recipient + maker change)''"

definition decodeAxferVarBppPayload :: "bytes \<Rightarrow> axfer option" where
  "decodeAxferVarBppPayload = decodeAxferVarAs T_AXFER_VAR_BPP"

definition axferVarOutputIndexForVout :: "nat \<Rightarrow> nat option" where
  "axferVarOutputIndexForVout vout = (if vout = 0 then Some 0 else if vout = 2 then Some 1 else None)"

lemma axfer_codec:
  assumes "opcode < 256"
  shows "(decodeAxferAs opcode p = Some a) = (encodeAxferAs opcode a = Inr p)"
proof
  assume d: "decodeAxferAs opcode p = Some a"
  then have len: "142 \<le> length p" and op: "u8 p 0 = opcode" and n: "u8 p 98 \<in> {1, 2, 4, 8}"
    and a: "cx_assetId a = slice p 1 33" "cx_kernelSig a = slice p 34 98" "ax_assetInputCount a = int (u8 p 33)"
      "0 < u8 p 33"
    and body: "decodeBody (u8 p 98) p 99 = Some (cx_outputs a, cx_rangeproof a)"
    by (auto simp: decodeAxferAs_def Let_def bind_eq_Some_conv)
  have b: "length (cx_outputs a) = u8 p 98" "list_all outputOk (cx_outputs a)" "length (cx_rangeproof a) \<le> 0xffff"
    "bodyBytes (cx_outputs a) (cx_rangeproof a) = drop 99 p"
    using body len by (simp_all add: decodeBody_iff)
  show "encodeAxferAs opcode a = Inr p"
    using len op n a b u8_less [of p 33, THEN Suc_leI]
    by (simp add: encodeAxferAs_def wire_simps rest_simps)
next
  assume e: "encodeAxferAs opcode a = Inr p"
  then have p: "p = [byte_of opcode] @ cx_assetId a @ [byte_of (nat (ax_assetInputCount a))] @ cx_kernelSig a @
      [byte_of (length (cx_outputs a))] @ bodyBytes (cx_outputs a) (cx_rangeproof a)"
    and f: "length (cx_assetId a) = 32" "1 \<le> ax_assetInputCount a" "ax_assetInputCount a \<le> 255"
      "length (cx_kernelSig a) = 64" "length (cx_outputs a) \<in> {1, 2, 4, 8}"
      "length (cx_rangeproof a) \<le> 0xffff" "list_all outputOk (cx_outputs a)"
    by (auto simp: encodeAxferAs_def wire_simps)
  have "decodeBody (length (cx_outputs a)) p 99 = Some (cx_outputs a, cx_rangeproof a)"
    using f p by (subst decodeBody_iff) auto
  then show "decodeAxferAs opcode p = Some a"
    using p f assms
    by (cases a) (auto simp: decodeAxferAs_def Let_def wire_simps length_bodyBytes)
qed

text \<open>A variable-amount payload is a settlement payload with one asset input and two outputs.\<close>

lemma axferVar_decode_iff:
  "(decodeAxferVarAs opcode p = Some a) =
     (decodeAxferAs opcode p = Some a \<and> ax_assetInputCount a = 1 \<and> length (cx_outputs a) = 2)"
proof -
  have "length p = 183 + length rp"
    if "decodeBody 2 p 99 = Some (outs, rp)" "142 \<le> length p" for outs rp
  proof -
    have "length (drop 99 p) = 84 + length rp"
      using that decodeBody_iff [of 99 p 2 outs rp] length_bodyBytes [of outs rp] by simp
    then show ?thesis by simp
  qed
  moreover have "length outs = n" if "decodeBody n p 99 = Some (outs, rp)" "142 \<le> length p" for outs rp n
    using that decodeBody_iff [of 99 p n outs rp] by simp
  ultimately show ?thesis
    by (cases a) (fastforce simp: decodeAxferVarAs_def decodeAxferAs_def Let_def bind_eq_Some_conv)
qed

lemma axferVar_encode_eq:
  "(encodeAxferVarAs opcode msg c = Inr p) =
     (encodeAxferAs opcode (cxfer.extend c \<lparr>ax_assetInputCount = 1\<rparr>) = Inr p \<and> length (cx_outputs c) = 2)"
  by (cases c) (auto simp: encodeAxferVarAs_def encodeAxferAs_def cxfer.extend_def wire_simps)

lemma axferVar_codec:
  "opcode < 256 \<Longrightarrow> (decodeAxferVarAs opcode p = Some a) =
     (encodeAxferVarAs opcode msg (cxfer.truncate a) = Inr p \<and> ax_assetInputCount a = 1)"
  by (cases a)
    (auto simp: axferVar_decode_iff axferVar_encode_eq axfer_codec cxfer.extend_def cxfer.truncate_def)

interpretation axferWire: exact_codec encodeAxferPayload decodeAxferPayload "\<lambda>_. True"
  using axfer_codec [of T_AXFER]
  by unfold_locales (auto simp: encodeAxferPayload_def decodeAxferPayload_def transfer_consts)

interpretation axferBppWire: exact_codec encodeAxferBppPayload decodeAxferBppPayload "\<lambda>_. True"
  using axfer_codec [of T_AXFER_BPP]
  by unfold_locales (auto simp: encodeAxferBppPayload_def decodeAxferBppPayload_def transfer_consts)

subsection \<open>Mint and burn\<close>

record cmint =
  cm_assetId :: bytes
  cm_etchTxid :: bytes
  cm_commitment :: bytes
  cm_encryptedAmount :: bytes
  cm_rangeproof :: bytes
  cm_issuerSig :: bytes

definition encodeCMintPayload :: "cmint \<Rightarrow> bytes res" where
  "encodeCMintPayload a = concatParts
     [throw_unless (length (cm_assetId a) = 32) ''asset_id 32 bytes'',
      throw_unless (length (cm_etchTxid a) = 32) ''etch_txid 32 bytes'',
      throw_unless (length (cm_commitment a) = 33) ''commitment 33 bytes'',
      throw_unless (length (cm_encryptedAmount a) = 8) ''encrypted_amount must be 8 bytes'',
      throw_unless (length (cm_rangeproof a) \<le> 0xffff) ''rangeproof too large'',
      throw_unless (length (cm_issuerSig a) = 64) ''issuer_sig must be 64 bytes'',
      Inr [byte_of T_MINT], Inr (cm_assetId a), Inr (cm_etchTxid a), Inr (cm_commitment a),
      Inr (cm_encryptedAmount a), Inr (le_bytes 2 (int (length (cm_rangeproof a)))), Inr (cm_rangeproof a),
      Inr (cm_issuerSig a)]"

definition decodeCMintPayload :: "bytes \<Rightarrow> cmint option" where
  "decodeCMintPayload payload = do {
     require (length payload \<ge> 1 + 32 + 32 + 33 + 8 + 2 + 64);
     require (u8 payload 0 = T_MINT); let p = 1;
     let assetId = slice payload p (p + 32); let p = p + 32;
     let etchTxid = slice payload p (p + 32); let p = p + 32;
     let commitment = slice payload p (p + 33); let p = p + 33;
     let encryptedAmount = slice payload p (p + 8); let p = p + 8;
     let rpLen = u16at payload p; let p = p + 2;
     require (p + rpLen + 64 \<le> length payload);
     let rangeproof = slice payload p (p + rpLen); let p = p + rpLen;
     let issuerSig = slice payload p (p + 64); let p = p + 64;
     require (p = length payload);
     Some \<lparr>cm_assetId = assetId, cm_etchTxid = etchTxid, cm_commitment = commitment,
       cm_encryptedAmount = encryptedAmount, cm_rangeproof = rangeproof, cm_issuerSig = issuerSig\<rparr>
   }"

definition computeMintMsg :: "(bytes \<Rightarrow> bytes) \<Rightarrow> bytes \<Rightarrow> bytes \<Rightarrow> bytes \<Rightarrow> bytes \<Rightarrow> bytes res" where
  "computeMintMsg sha256 assetId commitAnchor commitment encryptedAmount = hashed sha256 (concatParts
     [throw_unless (length commitAnchor = 36) ''commit_anchor must be 36 bytes'',
      Inr (ascii ''tacit-mint-v1''), Inr assetId, Inr commitAnchor, Inr commitment, Inr encryptedAmount])"

record cburn = cxfer +
  bu_burnedAmount :: int

definition encodeCBurnPayload :: "cburn \<Rightarrow> bytes res" where
  "encodeCBurnPayload a = concatParts
     ([throw_unless (length (cx_assetId a) = 32) ''asset_id 32 bytes'',
       throw_unless (\<not> (bu_burnedAmount a < 0 \<or> bu_burnedAmount a \<ge> 2 ^ 64)) ''burned_amount out of range'',
       throw_unless (length (cx_kernelSig a) = 64) ''kernel_sig must be 64 bytes'',
       throw_unless (length (cx_outputs a) \<in> {0, 1, 2, 4, 8}) ''outputs.length must be in {0,1,2,4,8}'',
       throw_unless (\<not> (length (cx_outputs a) > 0 \<and> length (cx_rangeproof a) > 0xffff)) ''rangeproof too large'',
       throw_unless (\<not> (length (cx_outputs a) = 0 \<and> length (cx_rangeproof a) > 0))
         ''rangeproof must be empty when outputs.length === 0'',
       Inr [byte_of T_BURN], Inr (cx_assetId a), Inr (le_bytes 8 (bu_burnedAmount a)), Inr (cx_kernelSig a),
       Inr [byte_of (length (cx_outputs a))]]
      @ (if length (cx_outputs a) > 0 then encodeBody (cx_outputs a) (cx_rangeproof a)
         else encodeOutputs (cx_outputs a)))"

definition decodeBurnTail :: "nat \<Rightarrow> bytes \<Rightarrow> nat \<Rightarrow> (cOutput list \<times> bytes) option" where
  "decodeBurnTail n payload p =
     (if n > 0 then decodeBody n payload p else do { require (p = length payload); Some ([], []) })"

definition decodeCBurnPayload :: "bytes \<Rightarrow> cburn option" where
  "decodeCBurnPayload payload = do {
     require (length payload \<ge> 1 + 32 + 8 + 64 + 1);
     require (u8 payload 0 = T_BURN); let p = 1;
     let assetId = slice payload p (p + 32); let p = p + 32;
     let burnedLE = slice payload p (p + 8); let p = p + 8;
     burnedAmount \<leftarrow> readU64LE burnedLE 0;
     let kernelSig = slice payload p (p + 64); let p = p + 64;
     let n = u8 payload p; let p = p + 1;
     require (n \<in> {0, 1, 2, 4, 8});
     (outputs, rangeproof) \<leftarrow> decodeBurnTail n payload p;
     Some \<lparr>cx_assetId = assetId, cx_kernelSig = kernelSig, cx_outputs = outputs, cx_rangeproof = rangeproof,
       bu_burnedAmount = burnedAmount\<rparr>
   }"

lemma mint_codec: "(decodeCMintPayload p = Some a) = (encodeCMintPayload a = Inr p)"
proof
  assume d: "decodeCMintPayload p = Some a"
  define n where "n = u16at p 106"
  from d have len: "length p = 172 + n" and op: "u8 p 0 = T_MINT"
    by (auto simp: decodeCMintPayload_def Let_def n_def)
  have sz: "le_bytes 2 (int n) = slice p 106 108" "n \<le> 65535"
    using le_bytes_u16at [of 106 p] len u16at_less [of p 106, THEN Suc_leI] by (simp_all add: n_def)
  have last: "slice p (108 + n) (172 + n) = drop (108 + n) p" using len by (simp add: slice_drop)
  show "encodeCMintPayload a = Inr p"
    using d len op sz last
    by (auto simp: decodeCMintPayload_def encodeCMintPayload_def Let_def n_def [symmetric] wire_simps rest_simps)
next
  assume "encodeCMintPayload a = Inr p"
  then show "decodeCMintPayload p = Some a"
    by (cases a) (auto simp: decodeCMintPayload_def encodeCMintPayload_def Let_def wire_simps transfer_consts)
qed

interpretation mintWire: exact_codec encodeCMintPayload decodeCMintPayload "\<lambda>_. True"
  by unfold_locales (auto simp: mint_codec)

text \<open>A burn without outputs has no range proof.\<close>

definition burnTail :: "cOutput list \<Rightarrow> bytes \<Rightarrow> bytes" where
  "burnTail outputs rp = (if outputs = [] then [] else bodyBytes outputs rp)"

lemma burnTail_iff:
  assumes "p \<le> length payload"
  shows "(decodeBurnTail n payload p = Some (outputs, rp)) =
    (length outputs = n \<and> list_all outputOk outputs \<and> length rp \<le> 0xffff \<and> (outputs = [] \<longrightarrow> rp = []) \<and>
      drop p payload = burnTail outputs rp)"
  using assms by (cases "n = 0") (auto simp: decodeBurnTail_def burnTail_def decodeBody_iff)

lemma encodeBurn_Inr:
  "(encodeCBurnPayload a = Inr p) =
     (length (cx_assetId a) = 32 \<and> 0 \<le> bu_burnedAmount a \<and> bu_burnedAmount a < 2 ^ 64 \<and>
      length (cx_kernelSig a) = 64 \<and> length (cx_outputs a) \<in> {0, 1, 2, 4, 8} \<and> length (cx_rangeproof a) \<le> 0xffff \<and>
      (cx_outputs a = [] \<longrightarrow> cx_rangeproof a = []) \<and> list_all outputOk (cx_outputs a) \<and>
      p = [byte_of T_BURN] @ cx_assetId a @ le_bytes 8 (bu_burnedAmount a) @ cx_kernelSig a @
        [byte_of (length (cx_outputs a))] @ burnTail (cx_outputs a) (cx_rangeproof a))"
proof -
  have tail: "(concatParts (if length (cx_outputs a) > 0 then encodeBody (cx_outputs a) (cx_rangeproof a)
      else encodeOutputs (cx_outputs a)) = Inr q) =
      (list_all outputOk (cx_outputs a) \<and> q = burnTail (cx_outputs a) (cx_rangeproof a))" for q
    by (auto simp: burnTail_def wire_simps)
  then show ?thesis
    unfolding encodeCBurnPayload_def append_Cons append_Nil
    by (simp only: concatParts_Cons_Inr throw_unless_Inr sum.inject tail) auto
qed

lemma burn_codec: "(decodeCBurnPayload p = Some a) = (encodeCBurnPayload a = Inr p)"
proof
  assume d: "decodeCBurnPayload p = Some a"
  then have len: "106 \<le> length p" and op: "u8 p 0 = T_BURN" and n: "u8 p 105 \<in> {0, 1, 2, 4, 8}"
    and a: "cx_assetId a = slice p 1 33" "bu_burnedAmount a = le_val (slice p 33 41)"
      "cx_kernelSig a = slice p 41 105"
    and body: "decodeBurnTail (u8 p 105) p 106 = Some (cx_outputs a, cx_rangeproof a)"
    by (auto simp: decodeCBurnPayload_def Let_def bind_eq_Some_conv readU64LE_eq wire_simps split: if_splits)
  have b: "length (cx_outputs a) = u8 p 105" "list_all outputOk (cx_outputs a)" "length (cx_rangeproof a) \<le> 0xffff"
    "cx_outputs a = [] \<longrightarrow> cx_rangeproof a = []" "burnTail (cx_outputs a) (cx_rangeproof a) = drop 106 p"
    using body len by (simp_all add: burnTail_iff)
  show "encodeCBurnPayload a = Inr p"
    using len op n a b
    by (simp add: encodeBurn_Inr rest_simps le_bytes_slice le_val_slice_less)
next
  assume e: "encodeCBurnPayload a = Inr p"
  note f = e [unfolded encodeBurn_Inr]
  have body: "decodeBurnTail (length (cx_outputs a)) p 106 = Some (cx_outputs a, cx_rangeproof a)"
    using f by (subst burnTail_iff) auto
  show "decodeCBurnPayload p = Some a"
    using f body
    by (cases a) (auto simp: decodeCBurnPayload_def Let_def wire_simps readU64LE_eq transfer_consts)
qed

interpretation burnWire: exact_codec encodeCBurnPayload decodeCBurnPayload "\<lambda>_. True"
  by unfold_locales (auto simp: burn_codec)

end
