(* ===== verification/Token_Etch.thy ===== *)
theory Token_Etch
  imports Utf8_Text Token_Transfer
begin

text \<open>
  How tokens come into being: the etch (\<open>T_CETCH\<close>), the permissionless-mint deployment (\<open>T_PETCH\<close>) and its
  mint events (\<open>T_PMINT\<close>), from \<open>dapp/tacit.js\<close>, with the indexer's decoders and the provenance reader of
  etches (\<open>dapp/burn-deposit-bitcoin.js\<close>). A JavaScript string is the list of its UTF-8 bytes, and \<open>null\<close> or
  the empty string is the empty list where the encoder treats them alike. A decoded text is what
  \<open>TextDecoder\<close> with \<open>fatal: true\<close> returns, so a leading byte order mark is lost: a round trip needs
  \<open>plain_text\<close>.
\<close>

definition T_CETCH :: nat where "T_CETCH = 0x21"
definition T_PETCH :: nat where "T_PETCH = 0x27"
definition T_PMINT :: nat where "T_PMINT = 0x28"

lemmas etch_consts = T_CETCH_def T_PETCH_def T_PMINT_def

subsection \<open>Etch\<close>

record cetch =
  ce_ticker :: bytes
  ce_decimals :: int
  ce_commitment :: bytes
  ce_rangeproof :: bytes
  ce_encryptedAmount :: bytes
  ce_mintAuthority :: "bytes option"
  ce_imageUri :: bytes

definition MINT_AUTH_NONE :: bytes where "MINT_AUTH_NONE = zeros 32"

definition etchAuth :: "cetch \<Rightarrow> bytes" where
  "etchAuth a = (case ce_mintAuthority a of None \<Rightarrow> MINT_AUTH_NONE | Some x \<Rightarrow> x)"

definition isZeroAuth :: "bytes \<Rightarrow> bool" where
  "isZeroAuth b = all_zero (take 32 b)"

definition encodeCEtchPayload :: "cetch \<Rightarrow> bytes res" where
  "encodeCEtchPayload a = (let tk = ce_ticker a; auth = etchAuth a; imgBytes = ce_imageUri a in concatParts
     [throw_unless (\<not> (length tk = 0 \<or> length tk > 16)) ''ticker 1-16 bytes'',
      throw_unless (\<not> (ce_decimals a < 0 \<or> ce_decimals a > 8)) ''decimals must be an integer 0-8'',
      throw_unless (length (ce_commitment a) = 33) ''commitment 33 bytes'',
      throw_unless (length (ce_encryptedAmount a) = 8) ''encrypted_amount must be 8 bytes'',
      throw_unless (length (ce_rangeproof a) \<le> 0xffff) ''rangeproof too large'',
      throw_unless (length auth = 32) ''mint_authority must be 32 bytes (x-only pubkey or zero)'',
      throw_unless (length imgBytes \<le> 256) ''image_uri must be <=256 bytes'',
      Inr [byte_of T_CETCH], Inr [byte_of (length tk)], Inr tk, Inr [byte_of (nat (ce_decimals a))],
      Inr (ce_commitment a), Inr (ce_encryptedAmount a), Inr (le_bytes 2 (int (length (ce_rangeproof a)))),
      Inr (ce_rangeproof a), Inr auth, Inr (le_bytes 2 (int (length imgBytes))), Inr imgBytes])"

record etched =
  et_ticker :: bytes
  et_decimals :: int
  et_commitment :: bytes
  et_rangeproof :: bytes
  et_encryptedAmount :: bytes
  et_mintAuthority :: bytes
  et_mintable :: bool
  et_imageUri :: "bytes option"

definition decodeImage :: "bytes \<Rightarrow> nat \<Rightarrow> nat \<Rightarrow> bytes option option" where
  "decodeImage payload p imgLen =
     (if imgLen > 0 then map_option Some (utf8_decode_fatal (slice payload p (p + imgLen))) else Some None)"

definition decodeCEtchPayload :: "bytes \<Rightarrow> etched option" where
  "decodeCEtchPayload payload = do {
     require (length payload \<ge> 1 + 1 + 1 + 1 + 33 + 8 + 2 + 32 + 2);
     require (u8 payload 0 = T_CETCH); let p = 1;
     let tlen = u8 payload p; let p = p + 1;
     require (\<not> (tlen < 1 \<or> tlen > 16));
     require (p + tlen \<le> length payload);
     ticker \<leftarrow> utf8_decode_fatal (slice payload p (p + tlen)); let p = p + tlen;
     let decimals = u8 payload p; let p = p + 1;
     require (\<not> decimals > 8);
     require (p + 33 + 8 + 2 \<le> length payload);
     let commitment = slice payload p (p + 33); let p = p + 33;
     let encryptedAmount = slice payload p (p + 8); let p = p + 8;
     let rpLen = u16at payload p; let p = p + 2;
     require (p + rpLen + 32 + 2 \<le> length payload);
     let rangeproof = slice payload p (p + rpLen); let p = p + rpLen;
     let mintAuthority = slice payload p (p + 32); let p = p + 32;
     let imgLen = u16at payload p; let p = p + 2;
     require (\<not> imgLen > 256);
     require (p + imgLen = length payload);
     imageUri \<leftarrow> decodeImage payload p imgLen;
     let mintable = (\<not> isZeroAuth mintAuthority);
     Some \<lparr>et_ticker = ticker, et_decimals = int decimals, et_commitment = commitment, et_rangeproof = rangeproof,
       et_encryptedAmount = encryptedAmount, et_mintAuthority = mintAuthority, et_mintable = mintable,
       et_imageUri = imageUri\<rparr>
   }"

record indexedEtch =
  ie_ticker :: bytes
  ie_decimals :: int
  ie_commitment :: bytes
  ie_imageUri :: "bytes option"
  ie_mintable :: bool
  ie_mintAuthority :: bytes

definition decodeCEtchPayload_worker :: "bytes \<Rightarrow> indexedEtch option" where
  "decodeCEtchPayload_worker payload = do {
     require (length payload \<ge> 1 + 1 + 1 + 1 + 33 + 8 + 2 + 32 + 2);
     require (u8 payload 0 = T_CETCH); let p = 1;
     let tlen = u8 payload p; let p = p + 1;
     require (\<not> (tlen < 1 \<or> tlen > 16));
     require (p + tlen \<le> length payload);
     ticker \<leftarrow> utf8_decode_fatal (slice payload p (p + tlen)); let p = p + tlen;
     let decimals = u8 payload p; let p = p + 1;
     require (\<not> decimals > 8);
     require (p + 33 + 8 + 2 \<le> length payload);
     let commitment = slice payload p (p + 33); let p = p + 33;
     let p = p + 8;
     let rpLen = u16at payload p; let p = p + 2;
     require (p + rpLen + 32 + 2 \<le> length payload);
     let p = p + rpLen;
     let mintAuthority = slice payload p (p + 32); let p = p + 32;
     let imgLen = u16at payload p; let p = p + 2;
     require (\<not> imgLen > 256);
     require (p + imgLen = length payload);
     imageUri \<leftarrow> decodeImage payload p imgLen;
     let mintable = (\<not> all_zero mintAuthority);
     Some \<lparr>ie_ticker = ticker, ie_decimals = int decimals, ie_commitment = commitment, ie_imageUri = imageUri,
       ie_mintable = mintable, ie_mintAuthority = mintAuthority\<rparr>
   }"

text \<open>
  The provenance reader. On the one-byte envelope \<open>[0x21]\<close> the ticker length is \<open>undefined\<close>: no comparison
  with it or with the offsets computed from it (\<open>NaN\<close>) is true, every \<open>subarray\<close> is empty, and the reader
  returns empty strings and no decimals where it should return \<open>null\<close>.
\<close>

record provenanceEtch =
  pe_c0Compressed :: bytes
  pe_mintAuthority :: bytes
  pe_decimals :: "nat option"
  pe_rangeProof :: bytes

definition parseCetch :: "bytes \<Rightarrow> provenanceEtch option" where
  "parseCetch env = do {
     require (\<not> (length env < 1 \<or> u8 env 0 \<noteq> 0x21)); let p = 1;
     (if length env = 1
      then Some \<lparr>pe_c0Compressed = [], pe_mintAuthority = [], pe_decimals = None, pe_rangeProof = []\<rparr>
      else do {
        let tlen = u8 env p; let p = p + 1;
        require (\<not> (tlen < 1 \<or> tlen > 16));
        let p = p + tlen;
        require (\<not> p \<ge> length env);
        let decimals = u8 env p; let p = p + 1;
        require (\<not> decimals > 8);
        require (p + 33 + 8 + 2 \<le> length env);
        let commitment = slice env p (p + 33); let p = p + 33;
        let p = p + 8;
        let rpLen = u16at env p; let p = p + 2;
        let rangeProof = slice env p (p + rpLen);
        let p = p + rpLen;
        require (p + 32 \<le> length env);
        let mintAuthority = slice env p (p + 32);
        Some \<lparr>pe_c0Compressed = commitment, pe_mintAuthority = mintAuthority, pe_decimals = Some decimals,
          pe_rangeProof = rangeProof\<rparr>
      })
   }"

subsection \<open>What the decoder gives back\<close>

definition etchView :: "cetch \<Rightarrow> etched" where
  "etchView a = \<lparr>et_ticker = ce_ticker a, et_decimals = ce_decimals a, et_commitment = ce_commitment a,
     et_rangeproof = ce_rangeproof a, et_encryptedAmount = ce_encryptedAmount a, et_mintAuthority = etchAuth a,
     et_mintable = (\<not> all_zero (etchAuth a)),
     et_imageUri = (if ce_imageUri a = [] then None else Some (ce_imageUri a))\<rparr>"

definition indexEtch :: "etched \<Rightarrow> indexedEtch" where
  "indexEtch a = \<lparr>ie_ticker = et_ticker a, ie_decimals = et_decimals a, ie_commitment = et_commitment a,
     ie_imageUri = et_imageUri a, ie_mintable = et_mintable a, ie_mintAuthority = et_mintAuthority a\<rparr>"

lemma etch_round_trip:
  assumes "encodeCEtchPayload a = Inr p" "plain_text (ce_ticker a)" "plain_text (ce_imageUri a)"
  shows "decodeCEtchPayload p = Some (etchView a)"
proof -
  have p: "p = [byte_of T_CETCH, byte_of (length (ce_ticker a))] @ ce_ticker a @ [byte_of (nat (ce_decimals a))] @
      ce_commitment a @ ce_encryptedAmount a @ le_bytes 2 (int (length (ce_rangeproof a))) @ ce_rangeproof a @
      etchAuth a @ le_bytes 2 (int (length (ce_imageUri a))) @ ce_imageUri a"
    and f: "0 < length (ce_ticker a)" "length (ce_ticker a) \<le> 16" "0 \<le> ce_decimals a" "ce_decimals a \<le> 8"
      "length (ce_commitment a) = 33" "length (ce_encryptedAmount a) = 8" "length (ce_rangeproof a) \<le> 0xffff"
      "length (etchAuth a) = 32" "length (ce_imageUri a) \<le> 256"
    using assms(1) by (auto simp: encodeCEtchPayload_def Let_def wire_simps)
  show ?thesis
    unfolding p
    using f assms(2,3)
    by (simp add: decodeCEtchPayload_def Let_def wire_simps etch_consts decodeImage_def isZeroAuth_def etchView_def)
      (auto simp: Suc_le_eq not_less)
qed

interpretation etchWire: payload_codec encodeCEtchPayload decodeCEtchPayload etchView
    "\<lambda>a. plain_text (ce_ticker a) \<and> plain_text (ce_imageUri a)"
  by unfold_locales (blast intro: etch_round_trip)

lemma worker_etch: "decodeCEtchPayload_worker p = map_option indexEtch (decodeCEtchPayload p)"
  by (auto simp: decodeCEtchPayload_worker_def decodeCEtchPayload_def Let_def indexEtch_def isZeroAuth_def
      map_option_bind intro!: Option.bind_cong)

text \<open>The provenance reader looks at less of the payload than the wallet, and reads the same where both accept.\<close>

lemma provenance_etch:
  assumes "decodeCEtchPayload p = Some a"
  shows "parseCetch p = Some \<lparr>pe_c0Compressed = et_commitment a, pe_mintAuthority = et_mintAuthority a,
    pe_decimals = Some (nat (et_decimals a)), pe_rangeProof = et_rangeproof a\<rparr>"
  using assms by (auto simp: parseCetch_def decodeCEtchPayload_def Let_def etch_consts bind_eq_Some_conv)

lemma provenance_etch_short:
  "parseCetch [0x21] = Some \<lparr>pe_c0Compressed = [], pe_mintAuthority = [], pe_decimals = None, pe_rangeProof = []\<rparr>"
  by (simp add: parseCetch_def u8_def)

subsection \<open>Permissionless mint: deployment\<close>

record petch =
  pt_ticker :: bytes
  pt_decimals :: int
  pt_capAmount :: int
  pt_mintLimit :: int
  pt_mintStartHeight :: int
  pt_mintEndHeight :: int
  pt_imageUri :: bytes

definition encodeCPetchPayload :: "petch \<Rightarrow> bytes res" where
  "encodeCPetchPayload a =
     (let tk = pt_ticker a; cap = pt_capAmount a; lim = pt_mintLimit a; img = pt_imageUri a in concatParts
     [throw_unless (\<not> (length tk < 1 \<or> length tk > 16)) ''ticker length must be 1..16'',
      throw_unless (\<not> (pt_decimals a < 0 \<or> pt_decimals a > 8)) ''decimals must be 0..8'',
      throw_unless (\<not> (cap \<le> 0 \<or> cap \<ge> 2 ^ 64)) ''cap_amount out of range'',
      throw_unless (\<not> (lim \<le> 0 \<or> lim > cap)) ''mint_limit out of range'',
      throw_unless (cap mod lim = 0) ''cap_amount must be evenly divisible by mint_limit'',
      throw_unless (\<not> (pt_mintStartHeight a < 0 \<or> pt_mintStartHeight a > 0xffffffff)) ''mint_start_height out of range'',
      throw_unless (\<not> (pt_mintEndHeight a < 0 \<or> pt_mintEndHeight a > 0xffffffff)) ''mint_end_height out of range'',
      throw_unless (\<not> (pt_mintStartHeight a \<noteq> 0 \<and> pt_mintEndHeight a \<noteq> 0 \<and>
          pt_mintEndHeight a \<le> pt_mintStartHeight a))
        ''mint_end_height must exceed mint_start_height when both nonzero'',
      throw_unless (length img \<le> 256) ''image_uri too long'',
      Inr [byte_of T_PETCH], Inr [byte_of (length tk)], Inr tk, Inr [byte_of (nat (pt_decimals a))],
      Inr (le_bytes 8 cap), Inr (le_bytes 8 lim), Inr (le_bytes 4 (pt_mintStartHeight a)),
      Inr (le_bytes 4 (pt_mintEndHeight a)), Inr (le_bytes 2 (int (length img))), Inr img])"

record petched =
  pd_ticker :: bytes
  pd_decimals :: int
  pd_capAmount :: int
  pd_mintLimit :: int
  pd_mintStartHeight :: int
  pd_mintEndHeight :: int
  pd_imageUri :: "bytes option"

definition decodeCPetchPayload :: "bytes \<Rightarrow> petched option" where
  "decodeCPetchPayload payload = do {
     require (length payload \<ge> 1 + 1 + 1 + 1 + 8 + 8 + 4 + 4 + 2);
     require (u8 payload 0 = T_PETCH); let p = 1;
     let tlen = u8 payload p; let p = p + 1;
     require (\<not> (tlen < 1 \<or> tlen > 16));
     require (p + tlen \<le> length payload);
     ticker \<leftarrow> utf8_decode_fatal (slice payload p (p + tlen)); let p = p + tlen;
     let decimals = u8 payload p; let p = p + 1;
     require (\<not> decimals > 8);
     require (p + 8 + 8 + 4 + 4 + 2 \<le> length payload);
     capAmount \<leftarrow> readU64LE payload p; let p = p + 8;
     mintLimit \<leftarrow> readU64LE payload p; let p = p + 8;
     require (\<not> capAmount \<le> 0);
     require (\<not> mintLimit \<le> 0);
     require (\<not> mintLimit > capAmount);
     require (capAmount mod mintLimit = 0);
     mintStartHeight \<leftarrow> readU32LE payload p; let p = p + 4;
     mintEndHeight \<leftarrow> readU32LE payload p; let p = p + 4;
     require (\<not> (mintStartHeight \<noteq> 0 \<and> mintEndHeight \<noteq> 0 \<and> mintEndHeight \<le> mintStartHeight));
     let imgLen = u16at payload p; let p = p + 2;
     require (\<not> imgLen > 256);
     require (p + imgLen = length payload);
     imageUri \<leftarrow> decodeImage payload p imgLen;
     Some \<lparr>pd_ticker = ticker, pd_decimals = int decimals, pd_capAmount = capAmount, pd_mintLimit = mintLimit,
       pd_mintStartHeight = mintStartHeight, pd_mintEndHeight = mintEndHeight, pd_imageUri = imageUri\<rparr>
   }"

text \<open>The indexer cuts the two amounts out before it reads them.\<close>

definition decodeCPetchPayload_worker :: "bytes \<Rightarrow> petched option" where
  "decodeCPetchPayload_worker payload = do {
     require (length payload \<ge> 1 + 1 + 1 + 1 + 8 + 8 + 4 + 4 + 2);
     require (u8 payload 0 = T_PETCH); let p = 1;
     let tlen = u8 payload p; let p = p + 1;
     require (\<not> (tlen < 1 \<or> tlen > 16));
     require (p + tlen \<le> length payload);
     ticker \<leftarrow> utf8_decode_fatal (slice payload p (p + tlen)); let p = p + tlen;
     let decimals = u8 payload p; let p = p + 1;
     require (\<not> decimals > 8);
     require (p + 8 + 8 + 4 + 4 + 2 \<le> length payload);
     let capLE = slice payload p (p + 8); let p = p + 8;
     let limitLE = slice payload p (p + 8); let p = p + 8;
     capAmount \<leftarrow> readU64LE capLE 0;
     mintLimit \<leftarrow> readU64LE limitLE 0;
     require (\<not> capAmount \<le> 0);
     require (\<not> mintLimit \<le> 0);
     require (\<not> mintLimit > capAmount);
     require (capAmount mod mintLimit = 0);
     mintStartHeight \<leftarrow> readU32LE payload p; let p = p + 4;
     mintEndHeight \<leftarrow> readU32LE payload p; let p = p + 4;
     require (\<not> (mintStartHeight \<noteq> 0 \<and> mintEndHeight \<noteq> 0 \<and> mintEndHeight \<le> mintStartHeight));
     let imgLen = u16at payload p; let p = p + 2;
     require (\<not> imgLen > 256);
     require (p + imgLen = length payload);
     imageUri \<leftarrow> decodeImage payload p imgLen;
     Some \<lparr>pd_ticker = ticker, pd_decimals = int decimals, pd_capAmount = capAmount, pd_mintLimit = mintLimit,
       pd_mintStartHeight = mintStartHeight, pd_mintEndHeight = mintEndHeight, pd_imageUri = imageUri\<rparr>
   }"

definition petchView :: "petch \<Rightarrow> petched" where
  "petchView a = \<lparr>pd_ticker = pt_ticker a, pd_decimals = pt_decimals a, pd_capAmount = pt_capAmount a,
     pd_mintLimit = pt_mintLimit a, pd_mintStartHeight = pt_mintStartHeight a,
     pd_mintEndHeight = pt_mintEndHeight a, pd_imageUri = (if pt_imageUri a = [] then None else Some (pt_imageUri a))\<rparr>"

lemma petch_round_trip:
  assumes "encodeCPetchPayload a = Inr p" "plain_text (pt_ticker a)" "plain_text (pt_imageUri a)"
  shows "decodeCPetchPayload p = Some (petchView a)"
proof -
  have p: "p = [byte_of T_PETCH, byte_of (length (pt_ticker a))] @ pt_ticker a @ [byte_of (nat (pt_decimals a))] @
      le_bytes 8 (pt_capAmount a) @ le_bytes 8 (pt_mintLimit a) @ le_bytes 4 (pt_mintStartHeight a) @
      le_bytes 4 (pt_mintEndHeight a) @ le_bytes 2 (int (length (pt_imageUri a))) @ pt_imageUri a"
    and f: "0 < length (pt_ticker a)" "length (pt_ticker a) \<le> 16" "0 \<le> pt_decimals a" "pt_decimals a \<le> 8"
      "0 < pt_capAmount a" "pt_capAmount a < 2 ^ 64" "0 < pt_mintLimit a" "pt_mintLimit a \<le> pt_capAmount a"
      "pt_capAmount a mod pt_mintLimit a = 0" "0 \<le> pt_mintStartHeight a" "pt_mintStartHeight a < 2 ^ 32"
      "0 \<le> pt_mintEndHeight a" "pt_mintEndHeight a < 2 ^ 32" "length (pt_imageUri a) \<le> 256"
    and w: "\<not> (pt_mintStartHeight a \<noteq> 0 \<and> pt_mintEndHeight a \<noteq> 0 \<and> pt_mintEndHeight a \<le> pt_mintStartHeight a)"
    using assms(1) by (auto simp: encodeCPetchPayload_def Let_def wire_simps)
  show ?thesis
    unfolding p
    using f w assms(2,3)
    by (simp add: decodeCPetchPayload_def Let_def wire_simps readU32LE_def readU64LE_eq etch_consts decodeImage_def
        petchView_def)
      (auto simp: Suc_le_eq not_less)
qed

lemma worker_petch: "decodeCPetchPayload_worker p = decodeCPetchPayload p"
  by (auto simp: decodeCPetchPayload_worker_def decodeCPetchPayload_def Let_def readU64LE_eq wire_simps
      intro!: Option.bind_cong)

interpretation petchWire: payload_codec encodeCPetchPayload decodeCPetchPayload petchView
    "\<lambda>a. plain_text (pt_ticker a) \<and> plain_text (pt_imageUri a)"
  by unfold_locales (blast intro: petch_round_trip)

subsection \<open>Permissionless mint: events\<close>

record pmint =
  pm_assetId :: bytes
  pm_etchTxid :: bytes
  pm_commitment :: bytes
  pm_amount :: int
  pm_blinding :: bytes

definition encodeCPmintPayload :: "pmint \<Rightarrow> bytes res" where
  "encodeCPmintPayload a = concatParts
     [throw_unless (length (pm_assetId a) = 32) ''asset_id 32 bytes'',
      throw_unless (length (pm_etchTxid a) = 32) ''etch_txid 32 bytes'',
      throw_unless (length (pm_commitment a) = 33) ''commitment 33 bytes'',
      throw_unless (\<not> (pm_amount a \<le> 0 \<or> pm_amount a \<ge> 2 ^ 64)) ''amount out of range'',
      throw_unless (length (pm_blinding a) = 32) ''blinding must be 32 bytes'',
      throw_unless (\<not> all_zero (pm_blinding a)) ''blinding must be non-zero'',
      Inr [byte_of T_PMINT], Inr (pm_assetId a), Inr (pm_etchTxid a), Inr (pm_commitment a),
      Inr (le_bytes 8 (pm_amount a)), Inr (pm_blinding a)]"

definition decodeCPmintPayload :: "bytes \<Rightarrow> pmint option" where
  "decodeCPmintPayload payload = do {
     require (length payload = 1 + 32 + 32 + 33 + 8 + 32);
     require (u8 payload 0 = T_PMINT); let p = 1;
     let assetId = slice payload p (p + 32); let p = p + 32;
     let etchTxid = slice payload p (p + 32); let p = p + 32;
     let commitment = slice payload p (p + 33); let p = p + 33;
     amount \<leftarrow> readU64LE payload p; let p = p + 8;
     require (\<not> (amount \<le> 0 \<or> amount \<ge> 2 ^ 64));
     let blinding = slice payload p (p + 32); let p = p + 32;
     require (\<not> all_zero blinding);
     require (p = length payload);
     Some \<lparr>pm_assetId = assetId, pm_etchTxid = etchTxid, pm_commitment = commitment, pm_amount = amount,
       pm_blinding = blinding\<rparr>
   }"

definition decodeCPmintPayload_worker :: "bytes \<Rightarrow> pmint option" where
  "decodeCPmintPayload_worker payload = do {
     require (length payload = 1 + 32 + 32 + 33 + 8 + 32);
     require (u8 payload 0 = T_PMINT); let p = 1;
     let assetId = slice payload p (p + 32); let p = p + 32;
     let etchTxid = slice payload p (p + 32); let p = p + 32;
     let commitment = slice payload p (p + 33); let p = p + 33;
     let amountLE = slice payload p (p + 8); let p = p + 8;
     amount \<leftarrow> readU64LE amountLE 0;
     require (\<not> (amount \<le> 0 \<or> amount \<ge> 2 ^ 64));
     let blinding = slice payload p (p + 32); let p = p + 32;
     require (\<not> all_zero blinding);
     require (p = length payload);
     Some \<lparr>pm_assetId = assetId, pm_etchTxid = etchTxid, pm_commitment = commitment, pm_amount = amount,
       pm_blinding = blinding\<rparr>
   }"

lemma pmint_codec: "(decodeCPmintPayload p = Some a) = (encodeCPmintPayload a = Inr p)"
proof
  assume d: "decodeCPmintPayload p = Some a"
  then have len: "length p = 138" and op: "u8 p 0 = T_PMINT"
    by (auto simp: decodeCPmintPayload_def)
  have last: "slice p 106 138 = drop 106 p" using len by (simp add: slice_drop)
  show "encodeCPmintPayload a = Inr p"
    using d len op last
    by (auto simp: decodeCPmintPayload_def encodeCPmintPayload_def Let_def readU64LE_eq wire_simps rest_simps
        le_bytes_slice)
next
  assume "encodeCPmintPayload a = Inr p"
  then show "decodeCPmintPayload p = Some a"
    by (cases a) (auto simp: decodeCPmintPayload_def encodeCPmintPayload_def Let_def readU64LE_eq wire_simps etch_consts)
qed

lemma worker_pmint: "decodeCPmintPayload_worker p = decodeCPmintPayload p"
  by (auto simp: decodeCPmintPayload_worker_def decodeCPmintPayload_def Let_def readU64LE_eq wire_simps)

interpretation pmintWire: exact_codec encodeCPmintPayload decodeCPmintPayload "\<lambda>_. True"
  by unfold_locales (auto simp: pmint_codec)

end
