(* ===== verification/Token_Drop.thy ===== *)
theory Token_Drop
  imports Utf8_Text Token_Transfer
begin

text \<open>
  Claim pools over existing supply (\<open>T_DROP\<close>), the depositor's reclaim that shares the opcode, and the claims
  (\<open>T_DCLAIM\<close>) with their eligibility witness: the encoders and decoders of \<open>dapp/tacit.js\<close> and of
  \<open>worker/src/index.js\<close>, and the messages the depositor signs. Amounts are written as two 32-bit halves, which
  is the little-endian 64-bit layout; a drop's ticker is the list of its UTF-8 bytes, empty for \<open>null\<close>.
\<close>

definition T_DROP :: nat where "T_DROP = 0x2B"
definition T_DCLAIM :: nat where "T_DCLAIM = 0x2C"

lemmas drop_consts = T_DROP_def T_DCLAIM_def

subsection \<open>Drop and reclaim\<close>

record cdrop =
  dr_assetId :: bytes
  dr_capAmount :: int
  dr_perClaim :: int
  dr_merkleRoot :: bytes
  dr_expiryHeight :: int
  dr_ticker :: bytes
  dr_decimals :: int
  dr_assetInputCount :: int
  dr_kernelSig :: bytes

record dropReclaim =
  rc_assetId :: bytes
  rc_capAmount :: int
  rc_reclaimDropId :: bytes
  rc_reclaimSig :: bytes
  rc_capBlinding :: bytes

definition encodeCDropPayload :: "cdrop \<Rightarrow> bytes res" where
  "encodeCDropPayload a = (let cap = dr_capAmount a; per = dr_perClaim a; tk = dr_ticker a in concatParts
     [throw_unless (length (dr_assetId a) = 32) ''asset_id must be 32 bytes'',
      throw_unless (\<not> (cap \<le> 0 \<or> cap \<ge> 2 ^ 64)) ''cap_amount out of u64 range'',
      throw_unless (\<not> (per \<le> 0 \<or> per \<ge> 2 ^ 64)) ''per_claim out of u64 range'',
      throw_unless (cap mod per = 0) ''cap_amount must be divisible by per_claim'',
      throw_unless (length (dr_merkleRoot a) = 32) ''merkle_root must be 32 bytes'',
      throw_unless (\<not> (dr_expiryHeight a < 0 \<or> dr_expiryHeight a > 0xffffffff)) ''expiry_height must be u32'',
      throw_unless (length tk \<le> 16) ''ticker too long (max 16 bytes UTF-8)'',
      throw_unless (\<not> (dr_decimals a < 0 \<or> dr_decimals a > 8)) ''decimals must be 0..8'',
      throw_unless (\<not> (dr_assetInputCount a < 1 \<or> dr_assetInputCount a > 16)) ''asset_input_count must be 1..16'',
      throw_unless (length (dr_kernelSig a) = 64) ''kernel_sig must be 64 bytes'',
      Inr [byte_of T_DROP], Inr (dr_assetId a), Inr (le_bytes 8 cap), Inr (le_bytes 8 per), Inr (dr_merkleRoot a),
      Inr (le_bytes 4 (dr_expiryHeight a)), Inr [byte_of (length tk)], Inr tk, Inr [byte_of (nat (dr_decimals a))],
      Inr [byte_of (nat (dr_assetInputCount a))], Inr (dr_kernelSig a)])"

definition encodeCDropReclaimPayload :: "dropReclaim \<Rightarrow> bytes res" where
  "encodeCDropReclaimPayload a = (let cap = rc_capAmount a in concatParts
     [throw_unless (length (rc_assetId a) = 32) ''asset_id must be 32 bytes'',
      throw_unless (\<not> (cap \<le> 0 \<or> cap \<ge> 2 ^ 64)) ''cap_amount out of u64 range'',
      throw_unless (length (rc_reclaimDropId a) = 32) ''reclaim_drop_id must be 32 bytes'',
      throw_unless (length (rc_reclaimSig a) = 64) ''reclaim_sig must be 64 bytes'',
      throw_unless (length (rc_capBlinding a) = 32) ''cap_blinding must be 32 bytes'',
      throw_unless (\<not> all_zero (rc_capBlinding a)) ''cap_blinding must be non-zero'',
      Inr [byte_of T_DROP], Inr (rc_assetId a), Inr (le_bytes 8 cap), Inr (zeros 8),
      Inr (rc_reclaimDropId a), Inr (rc_reclaimSig a), Inr (rc_capBlinding a)])"

datatype dropPayload = Drop cdrop | Reclaim dropReclaim

definition decodeReclaim :: "bytes \<Rightarrow> nat \<Rightarrow> bytes \<Rightarrow> int \<Rightarrow> dropPayload option" where
  "decodeReclaim payload p assetId capAmount = do {
     require (length payload = 1 + 32 + 8 + 8 + 32 + 64 + 32);
     let reclaimDropId = slice payload p (p + 32); let p = p + 32;
     let reclaimSig = slice payload p (p + 64); let p = p + 64;
     let capBlinding = slice payload p (p + 32); let p = p + 32;
     require (p = length payload);
     require (\<not> all_zero capBlinding);
     Some (Reclaim \<lparr>rc_assetId = assetId, rc_capAmount = capAmount, rc_reclaimDropId = reclaimDropId,
       rc_reclaimSig = reclaimSig, rc_capBlinding = capBlinding\<rparr>)
   }"

definition decodeTicker :: "bytes \<Rightarrow> nat \<Rightarrow> nat \<Rightarrow> bytes option" where
  "decodeTicker payload p tlen =
     (if tlen > 0 then utf8_decode_fatal (slice payload p (p + tlen)) else Some [])"

definition decodeStandard :: "bytes \<Rightarrow> nat \<Rightarrow> bytes \<Rightarrow> int \<Rightarrow> int \<Rightarrow> dropPayload option" where
  "decodeStandard payload p assetId capAmount perClaim = do {
     require (\<not> perClaim \<ge> 2 ^ 64);
     require (capAmount mod perClaim = 0);
     let merkleRoot = slice payload p (p + 32); let p = p + 32;
     expiryHeight \<leftarrow> readU32LE payload p; let p = p + 4;
     require (p + 1 \<le> length payload);
     let tlen = u8 payload p; let p = p + 1;
     require (tlen \<le> 16);
     require (p + tlen + 1 + 1 + 64 \<le> length payload);
     ticker \<leftarrow> decodeTicker payload p tlen; let p = p + tlen;
     let decimals = u8 payload p; let p = p + 1;
     require (\<not> decimals > 8);
     let assetInputCount = u8 payload p; let p = p + 1;
     require (\<not> (assetInputCount < 1 \<or> assetInputCount > 16));
     let kernelSig = slice payload p (p + 64); let p = p + 64;
     require (p = length payload);
     Some (Drop \<lparr>dr_assetId = assetId, dr_capAmount = capAmount, dr_perClaim = perClaim, dr_merkleRoot = merkleRoot,
       dr_expiryHeight = expiryHeight, dr_ticker = ticker, dr_decimals = int decimals,
       dr_assetInputCount = int assetInputCount, dr_kernelSig = kernelSig\<rparr>)
   }"

definition decodeCDropPayload :: "bytes \<Rightarrow> dropPayload option" where
  "decodeCDropPayload payload = do {
     require (length payload \<ge> 152);
     require (u8 payload 0 = T_DROP); let p = 1;
     let assetId = slice payload p (p + 32); let p = p + 32;
     capAmount \<leftarrow> readU64LE payload p; let p = p + 8;
     perClaim \<leftarrow> readU64LE payload p; let p = p + 8;
     require (\<not> capAmount \<le> 0);
     (if perClaim = 0 then decodeReclaim payload p assetId capAmount
      else decodeStandard payload p assetId capAmount perClaim)
   }"

text \<open>The indexer's copies: other error messages, fields returned in hex and decimal.\<close>

definition encodeCDropPayload_worker :: "cdrop \<Rightarrow> bytes res" where
  "encodeCDropPayload_worker a = (let cap = dr_capAmount a; per = dr_perClaim a; tk = dr_ticker a in concatParts
     [throw_unless (length (dr_assetId a) = 32) ''asset_id 32'',
      throw_unless (\<not> (cap \<le> 0 \<or> cap \<ge> 2 ^ 64)) ''cap_amount out of u64'',
      throw_unless (\<not> (per \<le> 0 \<or> per \<ge> 2 ^ 64)) ''per_claim out of u64'',
      throw_unless (cap mod per = 0) ''cap_amount must be divisible by per_claim'',
      throw_unless (length (dr_merkleRoot a) = 32) ''merkle_root 32'',
      throw_unless (\<not> (dr_expiryHeight a < 0 \<or> dr_expiryHeight a > 0xffffffff)) ''expiry_height u32'',
      throw_unless (length tk \<le> 16) ''ticker too long'',
      throw_unless (\<not> (dr_decimals a < 0 \<or> dr_decimals a > 8)) ''decimals 0..8'',
      throw_unless (\<not> (dr_assetInputCount a < 1 \<or> dr_assetInputCount a > 16)) ''asset_input_count 1..16'',
      throw_unless (length (dr_kernelSig a) = 64) ''kernel_sig 64'',
      Inr [byte_of T_DROP], Inr (dr_assetId a), Inr (le_bytes 8 cap), Inr (le_bytes 8 per), Inr (dr_merkleRoot a),
      Inr (le_bytes 4 (dr_expiryHeight a)), Inr [byte_of (length tk)], Inr tk, Inr [byte_of (nat (dr_decimals a))],
      Inr [byte_of (nat (dr_assetInputCount a))], Inr (dr_kernelSig a)])"

definition encodeCDropReclaimPayload_worker :: "dropReclaim \<Rightarrow> bytes res" where
  "encodeCDropReclaimPayload_worker a = (let cap = rc_capAmount a in concatParts
     [throw_unless (length (rc_assetId a) = 32) ''asset_id 32'',
      throw_unless (\<not> (cap \<le> 0 \<or> cap \<ge> 2 ^ 64)) ''cap_amount out of u64'',
      throw_unless (length (rc_reclaimDropId a) = 32) ''reclaim_drop_id 32'',
      throw_unless (length (rc_reclaimSig a) = 64) ''reclaim_sig 64'',
      throw_unless (length (rc_capBlinding a) = 32) ''cap_blinding 32'',
      throw_unless (\<not> all_zero (rc_capBlinding a)) ''cap_blinding must be non-zero'',
      Inr [byte_of T_DROP], Inr (rc_assetId a), Inr (le_bytes 8 cap), Inr (zeros 8),
      Inr (rc_reclaimDropId a), Inr (rc_reclaimSig a), Inr (rc_capBlinding a)])"

definition decodeCDropPayload_worker :: "bytes \<Rightarrow> dropPayload option" where
  "decodeCDropPayload_worker payload = do {
     require (length payload \<ge> 152);
     require (u8 payload 0 = T_DROP); let p = 1;
     let assetId = slice payload p (p + 32); let p = p + 32;
     capAmount \<leftarrow> readU64LE payload p; let p = p + 8;
     perClaim \<leftarrow> readU64LE payload p; let p = p + 8;
     require (\<not> capAmount \<le> 0);
     (if perClaim = 0 then do {
        require (length payload = 1 + 32 + 8 + 8 + 32 + 64 + 32);
        let reclaimDropId = slice payload p (p + 32); let p = p + 32;
        let reclaimSig = slice payload p (p + 64); let p = p + 64;
        let capBlinding = slice payload p (p + 32); let p = p + 32;
        require (p = length payload);
        require (\<not> all_zero capBlinding);
        Some (Reclaim \<lparr>rc_assetId = assetId, rc_capAmount = capAmount, rc_reclaimDropId = reclaimDropId,
          rc_reclaimSig = reclaimSig, rc_capBlinding = capBlinding\<rparr>)
      } else do {
        require (\<not> perClaim \<ge> 2 ^ 64);
        require (capAmount mod perClaim = 0);
        let merkleRoot = slice payload p (p + 32); let p = p + 32;
        expiryHeight \<leftarrow> readU32LE payload p; let p = p + 4;
        require (p + 1 \<le> length payload);
        let tlen = u8 payload p; let p = p + 1;
        require (tlen \<le> 16);
        require (p + tlen + 1 + 1 + 64 \<le> length payload);
        ticker \<leftarrow> (if tlen > 0 then utf8_decode_fatal (slice payload p (p + tlen)) else Some []);
        let p = p + tlen;
        let decimals = u8 payload p; let p = p + 1;
        require (\<not> decimals > 8);
        let assetInputCount = u8 payload p; let p = p + 1;
        require (\<not> (assetInputCount < 1 \<or> assetInputCount > 16));
        let kernelSig = slice payload p (p + 64); let p = p + 64;
        require (p = length payload);
        Some (Drop \<lparr>dr_assetId = assetId, dr_capAmount = capAmount, dr_perClaim = perClaim,
          dr_merkleRoot = merkleRoot, dr_expiryHeight = expiryHeight, dr_ticker = ticker,
          dr_decimals = int decimals, dr_assetInputCount = int assetInputCount, dr_kernelSig = kernelSig\<rparr>)
      })
   }"

lemma worker_drop: "decodeCDropPayload_worker = decodeCDropPayload"
  by (intro ext, unfold decodeCDropPayload_worker_def decodeCDropPayload_def decodeReclaim_def decodeStandard_def
      decodeTicker_def) (rule refl)

lemma concatParts_checks:
  "ok_of (throw_unless c m) = ok_of (throw_unless c m') \<and>
   (ok_of p = ok_of q \<longrightarrow> ok_of (concatParts ps) = ok_of (concatParts qs) \<longrightarrow>
     ok_of (concatParts (p # ps)) = ok_of (concatParts (q # qs)))"
  by (cases p; cases q) (auto simp: throw_unless_def concatParts.simps ok_of_def split: sum.splits)

lemma worker_drop_encoders:
  "ok_of (encodeCDropPayload_worker a) = ok_of (encodeCDropPayload a)"
  "ok_of (encodeCDropReclaimPayload_worker b) = ok_of (encodeCDropReclaimPayload b)"
  unfolding encodeCDropPayload_worker_def encodeCDropPayload_def encodeCDropReclaimPayload_worker_def
    encodeCDropReclaimPayload_def Let_def
  by (intro concatParts_checks [THEN conjunct2, rule_format] concatParts_checks [THEN conjunct1] refl)+

lemma drop_round_trip:
  assumes "encodeCDropPayload a = Inr p" "plain_text (dr_ticker a)"
  shows "decodeCDropPayload p = Some (Drop a)"
proof -
  have p: "p = [byte_of T_DROP] @ dr_assetId a @ le_bytes 8 (dr_capAmount a) @ le_bytes 8 (dr_perClaim a) @
      dr_merkleRoot a @ le_bytes 4 (dr_expiryHeight a) @ [byte_of (length (dr_ticker a))] @ dr_ticker a @
      [byte_of (nat (dr_decimals a)), byte_of (nat (dr_assetInputCount a))] @ dr_kernelSig a"
    and f: "length (dr_assetId a) = 32" "0 < dr_capAmount a" "dr_capAmount a < 2 ^ 64" "0 < dr_perClaim a"
      "dr_perClaim a < 2 ^ 64" "dr_capAmount a mod dr_perClaim a = 0" "length (dr_merkleRoot a) = 32"
      "0 \<le> dr_expiryHeight a" "dr_expiryHeight a < 2 ^ 32" "length (dr_ticker a) \<le> 16" "0 \<le> dr_decimals a"
      "dr_decimals a \<le> 8" "1 \<le> dr_assetInputCount a" "dr_assetInputCount a \<le> 16" "length (dr_kernelSig a) = 64"
    using assms(1) by (auto simp: encodeCDropPayload_def Let_def wire_simps)
  have n: "nat (dr_decimals a) \<le> 8" "0 < nat (dr_assetInputCount a)" "nat (dr_assetInputCount a) \<le> 16"
    using f by auto
  show ?thesis
    unfolding p
    using f n assms(2)
    by (simp add: decodeCDropPayload_def decodeStandard_def decodeTicker_def Let_def readU32LE_def readU64LE_eq
        drop_consts wire_simps)
qed

lemma reclaim_round_trip:
  assumes "encodeCDropReclaimPayload a = Inr p"
  shows "decodeCDropPayload p = Some (Reclaim a)"
proof -
  have z: "le_val (zeros 8) = 0" by (simp add: zeros_def numeral_eq_Suc)
  show ?thesis
    using assms z
    by (cases a) (auto simp: encodeCDropReclaimPayload_def decodeCDropPayload_def decodeReclaim_def Let_def
        readU64LE_eq drop_consts wire_simps)
qed

text \<open>Opcode \<open>0x2B\<close> has two shapes, and no byte string is read as both.\<close>

lemma drop_shapes_differ:
  assumes "encodeCDropPayload a = Inr p" "plain_text (dr_ticker a)" "encodeCDropReclaimPayload b = Inr q"
  shows "p \<noteq> q"
  using drop_round_trip [OF assms(1,2)] reclaim_round_trip [OF assms(3)] by auto

text \<open>
  The bridge reads a third payload behind the drop opcode, told by its length of 161 bytes alone
  (\<open>dapp/burn-deposit-bitcoin.js\<close>); a drop with a ticker of nine bytes has that length.
\<close>

record bridgeBurn =
  bb_asset :: bytes
  bb_nullifier :: bytes
  bb_dest :: bytes
  bb_target :: bytes

definition parseBurnEnvelope :: "bytes \<Rightarrow> bridgeBurn option" where
  "parseBurnEnvelope env =
     (if length env \<noteq> 161 \<or> u8 env 0 \<noteq> 0x2b then None
      else Some \<lparr>bb_asset = slice env 1 33, bb_nullifier = slice env 65 97, bb_dest = slice env 97 129, bb_target = slice env 129 161\<rparr>)"

lemma drop_reads_as_burn:
  assumes "encodeCDropPayload a = Inr p" "length (dr_ticker a) = 9"
  shows "\<exists>b. parseBurnEnvelope p = Some b \<and> bb_asset b = dr_assetId a"
  using assms by (auto simp: encodeCDropPayload_def Let_def wire_simps parseBurnEnvelope_def u8_def drop_consts byte_of_def slice_def)

subsection \<open>Claims\<close>

record claimWitness =
  cw_recipientPub :: bytes
  cw_leafIndex :: int
  cw_ethAddress :: bytes
  cw_ethSig :: bytes
  cw_proofPath :: "bytes list"

definition encodeCDClaimWitness :: "claimWitness \<Rightarrow> bytes res" where
  "encodeCDClaimWitness w = concatParts
     [throw_unless (length (cw_recipientPub w) = 33) ''recipient_pub 33'',
      throw_unless (u8 (cw_recipientPub w) 0 = 2 \<or> u8 (cw_recipientPub w) 0 = 3)
        ''recipient_pub must start with 02 or 03'',
      throw_unless (\<not> (cw_leafIndex w < 0 \<or> cw_leafIndex w > 0xffffffff)) ''leaf_index u32'',
      throw_unless (length (cw_ethAddress w) = 20) ''eth_address 20'',
      throw_unless (length (cw_ethSig w) = 65) ''eth_sig 65'',
      throw_unless (length (cw_proofPath w) \<le> 32) ''proof_path too deep (max 32)'',
      throw_unless (list_all (\<lambda>s. length s = 32) (cw_proofPath w)) ''proof_path entries must be 32-byte'',
      Inr (cw_recipientPub w), Inr (le_bytes 4 (cw_leafIndex w)), Inr (cw_ethAddress w), Inr (cw_ethSig w),
      Inr [byte_of (length (cw_proofPath w))], Inr (concat (cw_proofPath w))]"

record claimArgs =
  ca_assetId :: bytes
  ca_dropRevealTxid :: bytes
  ca_commitment :: bytes
  ca_amount :: int
  ca_blinding :: bytes
  ca_witness :: bytes

definition encodeCDClaimPayload :: "claimArgs \<Rightarrow> bytes res" where
  "encodeCDClaimPayload a = concatParts
     [throw_unless (length (ca_assetId a) = 32) ''asset_id must be 32 bytes'',
      throw_unless (length (ca_dropRevealTxid a) = 32) ''drop_reveal_txid must be 32 bytes'',
      throw_unless (length (ca_commitment a) = 33) ''commitment must be 33 bytes'',
      throw_unless (\<not> (ca_amount a \<le> 0 \<or> ca_amount a \<ge> 2 ^ 64)) ''amount out of u64 range'',
      throw_unless (length (ca_blinding a) = 32) ''blinding must be 32 bytes'',
      throw_unless (\<not> all_zero (ca_blinding a)) ''blinding must be non-zero'',
      throw_unless (length (ca_witness a) \<le> 65535) ''witness too large (max 64 KB)'',
      Inr [byte_of T_DCLAIM], Inr (ca_assetId a), Inr (ca_dropRevealTxid a), Inr (ca_commitment a),
      Inr (le_bytes 8 (ca_amount a)), Inr (ca_blinding a), Inr (le_bytes 2 (int (length (ca_witness a)))),
      Inr (ca_witness a)]"

record dclaim =
  dc_assetId :: bytes
  dc_dropRevealTxid :: bytes
  dc_commitment :: bytes
  dc_amount :: int
  dc_blinding :: bytes
  dc_witness :: "claimWitness option"

definition decodeWitness :: "bytes \<Rightarrow> claimWitness option" where
  "decodeWitness witnessBytes = do {
     let headerSize = 33 + 4 + 20 + 65 + 1;
     require (\<not> length witnessBytes < headerSize);
     let wp = 0;
     let recipientPub = slice witnessBytes wp (wp + 33); let wp = wp + 33;
     require (u8 recipientPub 0 = 2 \<or> u8 recipientPub 0 = 3);
     leafIndex \<leftarrow> readU32LE witnessBytes wp; let wp = wp + 4;
     let ethAddress = slice witnessBytes wp (wp + 20); let wp = wp + 20;
     let ethSig = slice witnessBytes wp (wp + 65); let wp = wp + 65;
     let proofLen = u8 witnessBytes wp; let wp = wp + 1;
     require (\<not> proofLen > 32);
     require (wp + proofLen * 32 = length witnessBytes);
     let proofPath = take_chunks proofLen 32 witnessBytes wp;
     Some \<lparr>cw_recipientPub = recipientPub, cw_leafIndex = leafIndex, cw_ethAddress = ethAddress, cw_ethSig = ethSig,
       cw_proofPath = proofPath\<rparr>
   }"

definition decodeCDClaimPayload :: "bytes \<Rightarrow> dclaim option" where
  "decodeCDClaimPayload payload = do {
     require (length payload \<ge> 140);
     require (u8 payload 0 = T_DCLAIM); let p = 1;
     let assetId = slice payload p (p + 32); let p = p + 32;
     let dropRevealTxid = slice payload p (p + 32); let p = p + 32;
     let commitment = slice payload p (p + 33); let p = p + 33;
     amount \<leftarrow> readU64LE payload p; let p = p + 8;
     require (\<not> (amount \<le> 0 \<or> amount \<ge> 2 ^ 64));
     let blinding = slice payload p (p + 32); let p = p + 32;
     require (\<not> all_zero blinding);
     witnessLen' \<leftarrow> readU16LE payload p; let witnessLen = nat witnessLen'; let p = p + 2;
     require (p + witnessLen = length payload);
     let witnessBytes = slice payload p (p + witnessLen); let p = p + witnessLen;
     witness \<leftarrow> (if witnessLen > 0 then map_option Some (decodeWitness witnessBytes) else Some None);
     Some \<lparr>dc_assetId = assetId, dc_dropRevealTxid = dropRevealTxid, dc_commitment = commitment, dc_amount = amount,
       dc_blinding = blinding, dc_witness = witness\<rparr>
   }"

definition claimView :: "claimArgs \<Rightarrow> claimWitness option \<Rightarrow> dclaim" where
  "claimView a w = \<lparr>dc_assetId = ca_assetId a, dc_dropRevealTxid = ca_dropRevealTxid a,
     dc_commitment = ca_commitment a, dc_amount = ca_amount a, dc_blinding = ca_blinding a, dc_witness = w\<rparr>"

lemma witness_codec: "(decodeWitness b = Some w) = (encodeCDClaimWitness w = Inr b)"
proof
  assume d: "decodeWitness b = Some w"
  define n where "n = u8 b 122"
  from d have len: "length b = 123 + n * 32" and n: "n \<le> 32"
    by (auto simp: decodeWitness_def Let_def n_def readU32LE_def)
  have path: "concat (take_chunks k 32 b i) = slice b i (i + k * 32)" for k i
    by (induction k arbitrary: i) (simp_all add: slice_join add.assoc)
  have sized: "list_all (\<lambda>s. length s = 32) (take_chunks k 32 b i)" if "i + k * 32 \<le> length b" for k i
    using that by (induction k arbitrary: i) auto
  have last: "concat (take_chunks n 32 b 123) = drop 123 b" "list_all (\<lambda>s. length s = 32) (take_chunks n 32 b 123)"
    using path [of n 123] sized [of 123 n] len by (simp_all add: slice_drop)
  have leaf: "\<not> le_val (slice b 33 37) < 0" "\<not> 4294967295 < le_val (slice b 33 37)"
    using le_val_slice_less [of 37 33 4 4294967296 b] by (simp_all add: not_less)
  show "encodeCDClaimWitness w = Inr b"
    using d len n last leaf
    by (auto simp: decodeWitness_def encodeCDClaimWitness_def Let_def readU32LE_def n_def [symmetric] wire_simps
        rest_simps le_bytes_slice le_val_slice_less)
next
  assume "encodeCDClaimWitness w = Inr b"
  then show "decodeWitness b = Some w"
    using take_chunks_concat [of 32 "cw_proofPath w" _ "[]"] length_concat_chunks [of 32 "cw_proofPath w"]
    by (cases w) (auto simp: decodeWitness_def encodeCDClaimWitness_def Let_def readU32LE_def wire_simps)
qed

interpretation witnessWire: exact_codec encodeCDClaimWitness decodeWitness "\<lambda>_. True"
  by unfold_locales (auto simp: witness_codec)

lemma claim_codec:
  assumes "encodeCDClaimPayload a = Inr p"
  shows "decodeCDClaimPayload p =
    (if ca_witness a = [] then Some (claimView a None)
     else map_option (\<lambda>w. claimView a (Some w)) (decodeWitness (ca_witness a)))"
proof -
  have p: "p = [byte_of T_DCLAIM] @ ca_assetId a @ ca_dropRevealTxid a @ ca_commitment a @ le_bytes 8 (ca_amount a) @
      ca_blinding a @ le_bytes 2 (int (length (ca_witness a))) @ ca_witness a"
    and f: "length (ca_assetId a) = 32" "length (ca_dropRevealTxid a) = 32" "length (ca_commitment a) = 33"
      "0 < ca_amount a" "ca_amount a < 2 ^ 64" "length (ca_blinding a) = 32" "\<not> all_zero (ca_blinding a)"
      "length (ca_witness a) \<le> 65535"
    using assms by (auto simp: encodeCDClaimPayload_def wire_simps)
  show ?thesis
    unfolding p
    using f
    by (cases "decodeWitness (ca_witness a)")
      (simp_all add: decodeCDClaimPayload_def Let_def readU16LE_def readU64LE_eq drop_consts wire_simps claimView_def)
qed

lemma claim_payload_back:
  assumes "decodeCDClaimPayload p = Some d"
  obtains a where "encodeCDClaimPayload a = Inr p"
    "dc_witness d = None \<and> ca_witness a = [] \<or>
     (\<exists>w. dc_witness d = Some w \<and> encodeCDClaimWitness w = Inr (ca_witness a))"
    "d = claimView a (dc_witness d)"
proof -
  define n where "n = nat (le_val (slice p 138 140))"
  from assms have len: "length p = 140 + n" and op: "u8 p 0 = T_DCLAIM"
    by (auto simp: decodeCDClaimPayload_def Let_def readU16LE_def readU64LE_eq n_def)
  define a where "a = \<lparr>ca_assetId = slice p 1 33, ca_dropRevealTxid = slice p 33 65, ca_commitment = slice p 65 98,
    ca_amount = le_val (slice p 98 106), ca_blinding = slice p 106 138, ca_witness = drop 140 p\<rparr>"
  have amt: "0 < ca_amount a" "ca_amount a < 2 ^ 64" "\<not> all_zero (ca_blinding a)"
    using assms len by (auto simp: decodeCDClaimPayload_def Let_def readU16LE_def readU64LE_eq a_def)
  have sz: "length (ca_witness a) = n" "n \<le> 65535" "le_bytes 2 (int n) = slice p 138 140"
    using len le_val_slice_less [of 140 138 2 65536 p] le_bytes_slice [of 140 p 138 2] by (simp_all add: a_def n_def)
  have enc: "encodeCDClaimPayload a = Inr p"
    using amt sz len op
    by (simp add: encodeCDClaimPayload_def a_def wire_simps rest_simps le_bytes_slice)
  from claim_codec [OF enc] assms have
    "d = claimView a None \<and> ca_witness a = [] \<or>
     (\<exists>w. decodeWitness (ca_witness a) = Some w \<and> d = claimView a (Some w))"
    by (cases "decodeWitness (ca_witness a)") (auto split: if_splits)
  with enc show ?thesis
    by (intro that [of a]) (auto simp: claimView_def witness_codec)
qed

text \<open>The indexer's copies.\<close>

definition encodeCDClaimWitness_worker :: "claimWitness \<Rightarrow> bytes res" where
  "encodeCDClaimWitness_worker w = concatParts
     [throw_unless (length (cw_recipientPub w) = 33) ''recipient_pub 33'',
      throw_unless (u8 (cw_recipientPub w) 0 = 2 \<or> u8 (cw_recipientPub w) 0 = 3)
        ''recipient_pub must start with 02 or 03'',
      throw_unless (\<not> (cw_leafIndex w < 0 \<or> cw_leafIndex w > 0xffffffff)) ''leaf_index u32'',
      throw_unless (length (cw_ethAddress w) = 20) ''eth_address 20'',
      throw_unless (length (cw_ethSig w) = 65) ''eth_sig 65'',
      throw_unless (length (cw_proofPath w) \<le> 32) ''proof_path too deep'',
      throw_unless (list_all (\<lambda>s. length s = 32) (cw_proofPath w)) ''proof_path entries must be 32-byte'',
      Inr (cw_recipientPub w), Inr (le_bytes 4 (cw_leafIndex w)), Inr (cw_ethAddress w), Inr (cw_ethSig w),
      Inr [byte_of (length (cw_proofPath w))], Inr (concat (cw_proofPath w))]"

definition encodeCDClaimPayload_worker :: "claimArgs \<Rightarrow> bytes res" where
  "encodeCDClaimPayload_worker a = concatParts
     [throw_unless (length (ca_assetId a) = 32) ''asset_id 32'',
      throw_unless (length (ca_dropRevealTxid a) = 32) ''drop_reveal_txid 32'',
      throw_unless (length (ca_commitment a) = 33) ''commitment 33'',
      throw_unless (\<not> (ca_amount a \<le> 0 \<or> ca_amount a \<ge> 2 ^ 64)) ''amount out of u64'',
      throw_unless (length (ca_blinding a) = 32) ''blinding 32'',
      throw_unless (\<not> all_zero (ca_blinding a)) ''blinding must be non-zero'',
      throw_unless (length (ca_witness a) \<le> 65535) ''witness too large'',
      Inr [byte_of T_DCLAIM], Inr (ca_assetId a), Inr (ca_dropRevealTxid a), Inr (ca_commitment a),
      Inr (le_bytes 8 (ca_amount a)), Inr (ca_blinding a), Inr (le_bytes 2 (int (length (ca_witness a)))),
      Inr (ca_witness a)]"

definition decodeCDClaimPayload_worker :: "bytes \<Rightarrow> dclaim option" where
  "decodeCDClaimPayload_worker payload = do {
     require (length payload \<ge> 140);
     require (u8 payload 0 = T_DCLAIM); let p = 1;
     let assetId = slice payload p (p + 32); let p = p + 32;
     let dropRevealTxid = slice payload p (p + 32); let p = p + 32;
     let commitment = slice payload p (p + 33); let p = p + 33;
     amount \<leftarrow> readU64LE payload p; let p = p + 8;
     require (\<not> (amount \<le> 0 \<or> amount \<ge> 2 ^ 64));
     let blinding = slice payload p (p + 32); let p = p + 32;
     require (\<not> all_zero blinding);
     witnessLen' \<leftarrow> readU16LE payload p; let witnessLen = nat witnessLen'; let p = p + 2;
     require (p + witnessLen = length payload);
     let witnessBytes = slice payload p (p + witnessLen); let p = p + witnessLen;
     witness \<leftarrow> (if witnessLen > 0 then do {
       let headerSize = 33 + 4 + 20 + 65 + 1;
       require (\<not> witnessLen < headerSize);
       let wp = 0;
       let recipientPub = slice witnessBytes wp (wp + 33); let wp = wp + 33;
       require (u8 recipientPub 0 = 2 \<or> u8 recipientPub 0 = 3);
       leafIndex \<leftarrow> readU32LE witnessBytes wp; let wp = wp + 4;
       let ethAddress = slice witnessBytes wp (wp + 20); let wp = wp + 20;
       let ethSig = slice witnessBytes wp (wp + 65); let wp = wp + 65;
       let proofLen = u8 witnessBytes wp; let wp = wp + 1;
       require (\<not> proofLen > 32);
       require (wp + proofLen * 32 = length witnessBytes);
       let proofPath = take_chunks proofLen 32 witnessBytes wp;
       Some (Some \<lparr>cw_recipientPub = recipientPub, cw_leafIndex = leafIndex, cw_ethAddress = ethAddress,
         cw_ethSig = ethSig, cw_proofPath = proofPath\<rparr>) }
     else Some None);
     Some \<lparr>dc_assetId = assetId, dc_dropRevealTxid = dropRevealTxid, dc_commitment = commitment, dc_amount = amount,
       dc_blinding = blinding, dc_witness = witness\<rparr>
   }"

lemma worker_claim_encoders:
  "ok_of (encodeCDClaimWitness_worker w) = ok_of (encodeCDClaimWitness w)"
  "ok_of (encodeCDClaimPayload_worker a) = ok_of (encodeCDClaimPayload a)"
  unfolding encodeCDClaimWitness_worker_def encodeCDClaimWitness_def encodeCDClaimPayload_worker_def
    encodeCDClaimPayload_def
  by (intro concatParts_checks [THEN conjunct2, rule_format] concatParts_checks [THEN conjunct1] refl)+

lemma worker_claim: "decodeCDClaimPayload_worker p = decodeCDClaimPayload p"
proof (cases "140 + nat (le_val (slice p 138 140)) = length p")
  case True
  then show ?thesis
    unfolding decodeCDClaimPayload_worker_def decodeCDClaimPayload_def decodeWitness_def Let_def readU16LE_def
      readU64LE_eq
    by (auto simp: map_option_bind intro!: Option.bind_cong)
next
  case False
  then show ?thesis
    by (auto simp: decodeCDClaimPayload_worker_def decodeCDClaimPayload_def Let_def readU16LE_def readU64LE_eq)
qed

subsection \<open>What the depositor signs\<close>

record assetInput =
  ai_txid :: bytes
  ai_vout :: int

text \<open>\<open>txid\<close>s are 64 hex digits in the code, 32 bytes here.\<close>

definition inputBytes :: "assetInput \<Rightarrow> bytes res list" where
  "inputBytes inp =
     [throw_unless (length (ai_txid inp) = 32) ''input.txid 64-hex'',
      throw_unless (\<not> (ai_vout inp < 0 \<or> ai_vout inp > 0xffffffff)) ''input.vout u32'',
      Inr (rev (ai_txid inp)), Inr (le_bytes 4 (ai_vout inp))]"

definition dropKernelMsg ::
  "(bytes \<Rightarrow> bytes) \<Rightarrow> bytes \<Rightarrow> int \<Rightarrow> int \<Rightarrow> bytes \<Rightarrow> int \<Rightarrow> nat \<Rightarrow> assetInput list \<Rightarrow> bytes res" where
  "dropKernelMsg sha256 assetId capAmount perClaim merkleRoot expiryHeight assetInputCount assetInputs =
     hashed sha256 (concatParts
       ([throw_unless (length assetId = 32) ''asset_id 32'',
         throw_unless (length merkleRoot = 32) ''merkle_root 32'',
         throw_unless (length assetInputs = assetInputCount) ''assetInputs.length must equal assetInputCount'',
         Inr (ascii ''tacit-drop-v1''), Inr assetId, Inr (le_bytes 8 capAmount), Inr (le_bytes 8 perClaim),
         Inr merkleRoot, Inr (le_bytes 4 expiryHeight), Inr [byte_of assetInputCount]]
        @ concat (map inputBytes assetInputs)))"

definition dropReclaimMsg :: "(bytes \<Rightarrow> bytes) \<Rightarrow> bytes \<Rightarrow> bytes \<Rightarrow> int \<Rightarrow> bytes res" where
  "dropReclaimMsg sha256 reclaimDropId assetId capAmount = hashed sha256 (concatParts
     [throw_unless (length reclaimDropId = 32) ''reclaim_drop_id 32'',
      throw_unless (length assetId = 32) ''asset_id 32'',
      Inr (ascii ''tacit-drop-reclaim-v1''), Inr reclaimDropId, Inr assetId, Inr (le_bytes 8 capAmount)])"

definition dropIdFromRevealTxid :: "(bytes \<Rightarrow> bytes) \<Rightarrow> bytes \<Rightarrow> bytes" where
  "dropIdFromRevealTxid sha256 revealTxid = sha256 (rev revealTxid @ zeros 4)"

end
