(* ===== verification/Token_Readers.thy ===== *)
theory Token_Readers
  imports Token_Transfer
begin

text \<open>
  The other readers of the transfer payloads. The indexer (\<open>worker/src/index.js\<close>) checks the structure of a
  payload and keeps the asset and the output commitments; \<open>dapp/burn-deposit-bitcoin.js\<close> re-reads transfers
  when it follows the provenance of a note back to its etch. Byte strings that the code returns in hex are
  byte lists here. For each reader a lemma says that it is the wallet's decoder followed by a projection.
\<close>

subsection \<open>The wallet's loops, evaluated\<close>

primrec outputsAt :: "nat \<Rightarrow> bytes \<Rightarrow> nat \<Rightarrow> cOutput list" where
  "outputsAt 0 payload p = []"
| "outputsAt (Suc n) payload p =
     \<lparr>co_commitment = slice payload p (p + 33), co_encryptedAmount = slice payload (p + 33) (p + 33 + 8)\<rparr>
       # outputsAt n payload (p + 33 + 8)"

lemma length_outputsAt [simp]: "length (outputsAt n payload p) = n"
  by (induction n arbitrary: p) auto

lemma decodeOutputs_eq:
  "decodeOutputs n payload p =
     (if n = 0 \<or> p + 41 * n \<le> length payload then Some (outputsAt n payload p, p + 41 * n) else None)"
proof (induction n arbitrary: p)
  case (Suc n)
  have "p + 33 + 8 = p + 41" "(p + 41) + 41 * n = p + 41 * Suc n" by simp_all
  with Suc show ?case by (auto simp: Let_def)
qed simp

lemma decodeBody_eq:
  "decodeBody n payload p =
     (if p + 41 * n + 2 \<le> length payload \<and> p + 41 * n + 2 + u16at payload (p + 41 * n) = length payload
      then Some (outputsAt n payload p, slice payload (p + 41 * n + 2) (length payload)) else None)"
  by (auto simp: decodeBody_def decodeOutputs_eq decodeProof_def Let_def)

subsection \<open>The indexer\<close>

primrec commitmentsAt :: "nat \<Rightarrow> bytes \<Rightarrow> nat \<Rightarrow> bytes list" where
  "commitmentsAt 0 payload p = []"
| "commitmentsAt (Suc n) payload p = slice payload p (p + 33) # commitmentsAt n payload (p + 33 + 8)"

record indexedXfer =
  ix_assetId :: bytes
  ix_outputs :: "bytes list"

record indexedAxfer = indexedXfer +
  ix_assetInputCount :: int

definition decodeCXferAs_worker :: "nat \<Rightarrow> bytes \<Rightarrow> indexedXfer option" where
  "decodeCXferAs_worker opcode payload = do {
     require (length payload \<ge> 1 + 32 + 64 + 1);
     require (u8 payload 0 = opcode); let p = 1;
     let assetId = slice payload p (p + 32); let p = p + 32;
     let p = p + 64;
     let N = u8 payload p; let p = p + 1;
     require (N \<in> {1, 2, 4, 8});
     require (p + N * (33 + 8) + 2 \<le> length payload);
     let outputs = commitmentsAt N payload p; let p = p + N * (33 + 8);
     let rpLen = u16at payload p; let p = p + 2;
     require (p + rpLen = length payload);
     Some \<lparr>ix_assetId = assetId, ix_outputs = outputs\<rparr>
   }"

definition decodeCXferPayload_worker :: "bytes \<Rightarrow> indexedXfer option" where
  "decodeCXferPayload_worker = decodeCXferAs_worker T_CXFER"

definition decodeCXferBppPayload_worker :: "bytes \<Rightarrow> indexedXfer option" where
  "decodeCXferBppPayload_worker = decodeCXferAs_worker T_CXFER_BPP"

definition decodeCXferBoundPayload_worker :: "bytes \<Rightarrow> indexedXfer option" where
  "decodeCXferBoundPayload_worker payload = do {
     require (length payload \<ge> 1 + 32 + 32 + 64 + 1);
     require (u8 payload 0 = T_CXFER_BOUND); let p = 1;
     let p = p + 32;
     let assetId = slice payload p (p + 32); let p = p + 32;
     let p = p + 64;
     let N = u8 payload p; let p = p + 1;
     require (N \<in> {1, 2, 4, 8});
     require (p + N * (33 + 8) + 2 \<le> length payload);
     let outputs = commitmentsAt N payload p; let p = p + N * (33 + 8);
     let rpLen = u16at payload p; let p = p + 2;
     require (p + rpLen = length payload);
     Some \<lparr>ix_assetId = assetId, ix_outputs = outputs\<rparr>
   }"

definition decodeAxferAs_worker :: "nat \<Rightarrow> bytes \<Rightarrow> indexedAxfer option" where
  "decodeAxferAs_worker opcode payload = do {
     require (length payload \<ge> 1 + 32 + 1 + 64 + 1);
     require (u8 payload 0 = opcode); let p = 1;
     let assetId = slice payload p (p + 32); let p = p + 32;
     let assetInputCount = u8 payload p; let p = p + 1;
     require (\<not> assetInputCount < 1);
     let p = p + 64;
     let N = u8 payload p; let p = p + 1;
     require (N \<in> {1, 2, 4, 8});
     require (p + N * (33 + 8) + 2 \<le> length payload);
     let outputs = commitmentsAt N payload p; let p = p + N * (33 + 8);
     let rpLen = u16at payload p; let p = p + 2;
     require (p + rpLen = length payload);
     Some \<lparr>ix_assetId = assetId, ix_outputs = outputs, ix_assetInputCount = int assetInputCount\<rparr>
   }"

definition decodeAxferPayload_worker :: "bytes \<Rightarrow> indexedAxfer option" where
  "decodeAxferPayload_worker = decodeAxferAs_worker T_AXFER"

definition decodeAxferBppPayload_worker :: "bytes \<Rightarrow> indexedAxfer option" where
  "decodeAxferBppPayload_worker = decodeAxferAs_worker T_AXFER_BPP"

definition decodeAxferVarAs_worker :: "nat \<Rightarrow> bytes \<Rightarrow> indexedAxfer option" where
  "decodeAxferVarAs_worker opcode payload = do {
     require (payload \<noteq> [] \<and> u8 payload 0 = opcode);
     require (length payload \<ge> 1 + 32 + 1 + 64 + 1 + 2 * (33 + 8) + 2); let p = 1;
     let assetId = slice payload p (p + 32); let p = p + 32;
     let assetInputCount = u8 payload p; let p = p + 1;
     require (assetInputCount = 1);
     let p = p + 64;
     let N = u8 payload p; let p = p + 1;
     require (N = 2);
     require (p + N * (33 + 8) + 2 \<le> length payload);
     let outputs = commitmentsAt N payload p; let p = p + N * (33 + 8);
     let rpLen = u16at payload p; let p = p + 2;
     require (p + rpLen = length payload);
     Some \<lparr>ix_assetId = assetId, ix_outputs = outputs, ix_assetInputCount = int assetInputCount\<rparr>
   }"

definition decodeAxferVarPayload_worker :: "bytes \<Rightarrow> indexedAxfer option" where
  "decodeAxferVarPayload_worker = decodeAxferVarAs_worker T_AXFER_VAR"

definition decodeAxferVarBppPayload_worker :: "bytes \<Rightarrow> indexedAxfer option" where
  "decodeAxferVarBppPayload_worker = decodeAxferVarAs_worker T_AXFER_VAR_BPP"

record indexedMint =
  im_assetId :: bytes
  im_etchTxid :: bytes
  im_commitment :: bytes

definition decodeCMintPayload_worker :: "bytes \<Rightarrow> indexedMint option" where
  "decodeCMintPayload_worker payload = do {
     require (length payload \<ge> 1 + 32 + 32 + 33 + 8 + 2 + 64);
     require (u8 payload 0 = T_MINT); let p = 1;
     let assetId = slice payload p (p + 32); let p = p + 32;
     let etchTxid = slice payload p (p + 32); let p = p + 32;
     let commitment = slice payload p (p + 33); let p = p + 33;
     let p = p + 8;
     let rpLen = u16at payload p; let p = p + 2;
     require (p + rpLen + 64 \<le> length payload);
     let p = p + rpLen; let p = p + 64;
     require (p = length payload);
     Some \<lparr>im_assetId = assetId, im_etchTxid = etchTxid, im_commitment = commitment\<rparr>
   }"

primrec commitmentsChecked :: "nat \<Rightarrow> bytes \<Rightarrow> nat \<Rightarrow> (bytes list \<times> nat) option" where
  "commitmentsChecked 0 payload p = Some ([], p)"
| "commitmentsChecked (Suc n) payload p = do {
     require (p + 33 + 8 \<le> length payload);
     let commitment = slice payload p (p + 33); let p = p + 33; let p = p + 8;
     (outputs, p) \<leftarrow> commitmentsChecked n payload p;
     Some (commitment # outputs, p)
   }"

record indexedBurn = indexedXfer +
  ib_burnedAmount :: int

definition decodeCBurnPayload_worker :: "bytes \<Rightarrow> indexedBurn option" where
  "decodeCBurnPayload_worker payload = do {
     require (length payload \<ge> 1 + 32 + 8 + 64 + 1);
     require (u8 payload 0 = T_BURN); let p = 1;
     let assetId = slice payload p (p + 32); let p = p + 32;
     let burnedLE = slice payload p (p + 8); let p = p + 8;
     burnedAmount \<leftarrow> readU64LE burnedLE 0;
     require (\<not> (burnedAmount < 0 \<or> burnedAmount \<ge> 2 ^ 64));
     let p = p + 64;
     let n = u8 payload p; let p = p + 1;
     require (n \<in> {0, 1, 2, 4, 8});
     (outputs, p) \<leftarrow> commitmentsChecked n payload p;
     (if n > 0 then do {
        require (p + 2 \<le> length payload);
        let rpLen = u16at payload p; let p = p + 2;
        require (p + rpLen = length payload) }
      else require (p = length payload));
     Some \<lparr>ix_assetId = assetId, ix_outputs = outputs, ib_burnedAmount = burnedAmount\<rparr>
   }"

subsection \<open>Each indexer reader is a projection of the wallet's\<close>

definition indexXfer :: "cxfer \<Rightarrow> indexedXfer" where
  "indexXfer a = \<lparr>ix_assetId = cx_assetId a, ix_outputs = map co_commitment (cx_outputs a)\<rparr>"

definition indexBound :: "cxferBound \<Rightarrow> indexedXfer" where
  "indexBound a = \<lparr>ix_assetId = cx_assetId a, ix_outputs = map co_commitment (cx_outputs a)\<rparr>"

definition indexAxfer :: "axfer \<Rightarrow> indexedAxfer" where
  "indexAxfer a = \<lparr>ix_assetId = cx_assetId a, ix_outputs = map co_commitment (cx_outputs a),
     ix_assetInputCount = ax_assetInputCount a\<rparr>"

definition indexMint :: "cmint \<Rightarrow> indexedMint" where
  "indexMint a = \<lparr>im_assetId = cm_assetId a, im_etchTxid = cm_etchTxid a, im_commitment = cm_commitment a\<rparr>"

definition indexBurn :: "cburn \<Rightarrow> indexedBurn" where
  "indexBurn a = \<lparr>ix_assetId = cx_assetId a, ix_outputs = map co_commitment (cx_outputs a),
     ib_burnedAmount = bu_burnedAmount a\<rparr>"

lemma commitments_outputsAt [simp]: "map co_commitment (outputsAt n payload p) = commitmentsAt n payload p"
  by (induction n arbitrary: p) auto

lemma commitmentsChecked_eq:
  "commitmentsChecked n payload p =
     (if n = 0 \<or> p + 41 * n \<le> length payload then Some (commitmentsAt n payload p, p + 41 * n) else None)"
proof (induction n arbitrary: p)
  case (Suc n)
  have "p + 33 + 8 = p + 41" "(p + 41) + 41 * n = p + 41 * Suc n" by simp_all
  with Suc show ?case by (auto simp: Let_def)
qed simp

lemma worker_cxfer: "decodeCXferAs_worker opcode p = map_option indexXfer (decodeCXferAs opcode p)"
  by (auto simp: decodeCXferAs_worker_def decodeCXferAs_def decodeBody_eq Let_def indexXfer_def mult.commute)

lemma worker_bound: "decodeCXferBoundPayload_worker p = map_option indexBound (decodeCXferBoundPayload p)"
  by (auto simp: decodeCXferBoundPayload_worker_def decodeCXferBoundPayload_def decodeBody_eq Let_def
      indexBound_def mult.commute)

lemma worker_axfer: "decodeAxferAs_worker opcode p = map_option indexAxfer (decodeAxferAs opcode p)"
  by (auto simp: decodeAxferAs_worker_def decodeAxferAs_def decodeBody_eq Let_def indexAxfer_def mult.commute)

lemma worker_axferVar: "decodeAxferVarAs_worker opcode p = map_option indexAxfer (decodeAxferVarAs opcode p)"
  by (auto simp: decodeAxferVarAs_worker_def decodeAxferVarAs_def decodeBody_eq Let_def indexAxfer_def)

lemma worker_mint: "decodeCMintPayload_worker p = map_option indexMint (decodeCMintPayload p)"
  by (auto simp: decodeCMintPayload_worker_def decodeCMintPayload_def Let_def indexMint_def)

lemma worker_burn: "decodeCBurnPayload_worker p = map_option indexBurn (decodeCBurnPayload p)"
proof (cases "106 \<le> length p \<and> u8 p 0 = T_BURN \<and> u8 p 105 \<in> {0, 1, 2, 4, 8}")
  case True
  have "le_val (slice p 33 41) < 2 ^ 64" by (rule le_val_slice_less [where k = 8]) simp_all
  moreover have "\<not> le_val (slice p 33 41) < 0" by (simp add: not_less)
  ultimately show ?thesis
    using True
    by (cases "u8 p 105 = 0")
      (simp_all add: decodeCBurnPayload_worker_def decodeCBurnPayload_def decodeBurnTail_def decodeBody_eq
        commitmentsChecked_eq Let_def indexBurn_def readU64LE_eq wire_simps)
next
  case False
  then show ?thesis
    by (auto simp: decodeCBurnPayload_worker_def decodeCBurnPayload_def Let_def readU64LE_eq)
qed

subsection \<open>The provenance reader\<close>

record provenanceXfer =
  px_asset :: bytes
  px_kernelSig :: bytes
  px_commitments :: "bytes list"
  px_encryptedAmounts :: "bytes list"
  px_rangeProof :: bytes
  px_assetInputCount :: "nat option"

primrec pairsAt :: "nat \<Rightarrow> bytes \<Rightarrow> nat \<Rightarrow> (bytes \<times> bytes) list" where
  "pairsAt 0 env p = []"
| "pairsAt (Suc n) env p = (slice env p (p + 33), slice env (p + 33) (p + 41)) # pairsAt n env (p + (33 + 8))"

definition parseCxferEnvelopeFull :: "bytes \<Rightarrow> provenanceXfer option" where
  "parseCxferEnvelopeFull env = do {
     require (env \<noteq> [] \<and> u8 env 0 \<in> {0x22, 0x23, 0x26, 0x3c});
     let atomic = (u8 env 0 = 0x26 \<or> u8 env 0 = 0x3c);
     let head = (if atomic then 1 + 32 + 1 else 1 + 32);
     require (\<not> (length env < head + 64 + 1 \<or> (atomic \<and> u8 env 33 = 0)));
     let asset = slice env 1 33;
     let kernelSig = slice env head (head + 64);
     let p = head + 64;
     let n = u8 env p; let p = p + 1;
     require (n \<in> {1, 2, 4, 8} \<and> p + n * (33 + 8) + 2 \<le> length env);
     let outs = pairsAt n env p; let p = p + n * (33 + 8);
     let rpLen = u16at env p; let p = p + 2;
     require (p + rpLen = length env);
     Some \<lparr>px_asset = asset, px_kernelSig = kernelSig, px_commitments = map fst outs,
       px_encryptedAmounts = map snd outs, px_rangeProof = slice env p (p + rpLen),
       px_assetInputCount = (if atomic then Some (u8 env 33) else None)\<rparr>
   }"

definition axferAssetInputCount :: "bytes \<Rightarrow> nat option" where
  "axferAssetInputCount env = (case parseCxferEnvelopeFull env of None \<Rightarrow> None | Some cx \<Rightarrow> px_assetInputCount cx)"

record boundProvenance =
  bp_target :: bytes
  bp_asset :: bytes
  bp_kernelSig :: bytes
  bp_commitments :: "bytes list"
  bp_rangeProof :: bytes

definition parseCxferBoundEnvelope :: "bytes \<Rightarrow> boundProvenance option" where
  "parseCxferBoundEnvelope env = do {
     require (\<not> (length env < 1 + 32 + 32 + 64 + 1 \<or> u8 env 0 \<noteq> T_CXFER_BOUND));
     let target = slice env 1 33; let asset = slice env 33 65; let kernelSig = slice env 65 129;
     let p = 129;
     let n = u8 env p; let p = p + 1;
     require (n \<in> {1, 2, 4, 8} \<and> p + n * (33 + 8) + 2 \<le> length env);
     let commitments = commitmentsAt n env p; let p = p + n * (33 + 8);
     let rpLen = u16at env p; let p = p + 2;
     require (p + rpLen = length env);
     Some \<lparr>bp_target = target, bp_asset = asset, bp_kernelSig = kernelSig, bp_commitments = commitments,
       bp_rangeProof = slice env p (p + rpLen)\<rparr>
   }"

definition parseCmint :: "bytes \<Rightarrow> cmint option" where
  "parseCmint env = do {
     require (\<not> (length env < 1 + 32 + 32 + 33 + 8 + 2 \<or> u8 env 0 \<noteq> 0x24));
     let asset = slice env 1 33; let etchTxid = slice env 33 65; let commitment = slice env 65 98;
     let amountCt = slice env 98 106;
     let rpLen = u16at env 106; let rpStart = 108; let rpEnd = rpStart + rpLen;
     require (rpEnd + 64 = length env);
     Some \<lparr>cm_assetId = asset, cm_etchTxid = etchTxid, cm_commitment = commitment, cm_encryptedAmount = amountCt,
       cm_rangeproof = slice env rpStart rpEnd, cm_issuerSig = slice env rpEnd (rpEnd + 64)\<rparr>
   }"

definition provenanceOf :: "cxfer \<Rightarrow> nat option \<Rightarrow> provenanceXfer" where
  "provenanceOf a count = \<lparr>px_asset = cx_assetId a, px_kernelSig = cx_kernelSig a,
     px_commitments = map co_commitment (cx_outputs a),
     px_encryptedAmounts = map co_encryptedAmount (cx_outputs a), px_rangeProof = cx_rangeproof a,
     px_assetInputCount = count\<rparr>"

definition boundProvenanceOf :: "cxferBound \<Rightarrow> boundProvenance" where
  "boundProvenanceOf a = \<lparr>bp_target = cb_targetChainBinding a, bp_asset = cx_assetId a,
     bp_kernelSig = cx_kernelSig a, bp_commitments = map co_commitment (cx_outputs a),
     bp_rangeProof = cx_rangeproof a\<rparr>"

lemma pairs_outputsAt:
  "pairsAt n env p = map (\<lambda>out. (co_commitment out, co_encryptedAmount out)) (outputsAt n env p)"
  by (induction n arbitrary: p) (auto simp: add.commute add.left_commute)

lemma provenance_plain:
  assumes "u8 p 0 = T_CXFER \<or> u8 p 0 = T_CXFER_BPP"
  shows "parseCxferEnvelopeFull p = map_option (\<lambda>a. provenanceOf a None) (decodeCXferAs (u8 p 0) p)"
proof -
  have "u8 p 0 \<in> {0x22, 0x23, 0x26, 0x3c}" "u8 p 0 \<noteq> 0x26" "u8 p 0 \<noteq> 0x3c"
    using assms by (auto simp: transfer_consts)
  then show ?thesis
    by (auto simp: parseCxferEnvelopeFull_def decodeCXferAs_def decodeBody_eq Let_def provenanceOf_def
        pairs_outputsAt comp_def mult.commute)
qed

lemma provenance_atomic:
  assumes "u8 p 0 = T_AXFER \<or> u8 p 0 = T_AXFER_BPP"
  shows "parseCxferEnvelopeFull p = map_option
    (\<lambda>a. provenanceOf (cxfer.truncate a) (Some (nat (ax_assetInputCount a)))) (decodeAxferAs (u8 p 0) p)"
proof -
  have "u8 p 0 \<in> {0x22, 0x23, 0x26, 0x3c}" "u8 p 0 = 0x26 \<or> u8 p 0 = 0x3c"
    using assms by (auto simp: transfer_consts)
  then show ?thesis
    by (auto simp: parseCxferEnvelopeFull_def decodeAxferAs_def decodeBody_eq Let_def provenanceOf_def
        cxfer.truncate_def pairs_outputsAt comp_def mult.commute)
qed

lemma provenance_bound: "parseCxferBoundEnvelope p = map_option boundProvenanceOf (decodeCXferBoundPayload p)"
  by (auto simp: parseCxferBoundEnvelope_def decodeCXferBoundPayload_def decodeBody_eq Let_def boundProvenanceOf_def
      mult.commute)

lemma provenance_mint: "parseCmint p = decodeCMintPayload p"
  by (auto simp: parseCmint_def decodeCMintPayload_def Let_def T_MINT_def)

lemmas worker_readers = decodeCXferPayload_worker_def decodeCXferPayload_def decodeCXferBppPayload_worker_def
  decodeCXferBppPayload_def decodeAxferPayload_worker_def decodeAxferPayload_def decodeAxferBppPayload_worker_def
  decodeAxferBppPayload_def decodeAxferVarPayload_worker_def decodeAxferVarPayload_def
  decodeAxferVarBppPayload_worker_def decodeAxferVarBppPayload_def worker_cxfer worker_axfer worker_axferVar

lemma provenance_reader:
  "parseCxferEnvelopeFull p =
     (if u8 p 0 = T_CXFER then map_option (\<lambda>a. provenanceOf a None) (decodeCXferPayload p)
      else if u8 p 0 = T_CXFER_BPP then map_option (\<lambda>a. provenanceOf a None) (decodeCXferBppPayload p)
      else if u8 p 0 = T_AXFER then
        map_option (\<lambda>a. provenanceOf (cxfer.truncate a) (Some (nat (ax_assetInputCount a)))) (decodeAxferPayload p)
      else if u8 p 0 = T_AXFER_BPP then
        map_option (\<lambda>a. provenanceOf (cxfer.truncate a) (Some (nat (ax_assetInputCount a)))) (decodeAxferBppPayload p)
      else None)"
  using provenance_plain [of p] provenance_atomic [of p]
  by (simp add: worker_readers) (simp add: parseCxferEnvelopeFull_def transfer_consts)

end
