(* ===== verification/Examples_Token.thy ===== *)
theory Examples_Token
  imports Token_Etch Token_Drop Token_Readers
begin

text \<open>Concrete token payloads: an etch, a permissionless-mint deployment, a drop with its reclaim and a claim.\<close>

definition exEtch :: cetch where
  "exEtch = \<lparr>ce_ticker = [84, 65, 67], ce_decimals = 8, ce_commitment = zeros 33, ce_rangeproof = [1, 2, 3],
     ce_encryptedAmount = zeros 8, ce_mintAuthority = None, ce_imageUri = []\<rparr>"

definition exPetch :: petch where
  "exPetch = \<lparr>pt_ticker = [70, 65, 73, 82], pt_decimals = 0, pt_capAmount = 300, pt_mintLimit = 100,
     pt_mintStartHeight = 0, pt_mintEndHeight = 0, pt_imageUri = []\<rparr>"

definition exDrop :: cdrop where
  "exDrop = \<lparr>dr_assetId = zeros 32, dr_capAmount = 300, dr_perClaim = 100, dr_merkleRoot = zeros 32,
     dr_expiryHeight = 0, dr_ticker = [84], dr_decimals = 0, dr_assetInputCount = 1, dr_kernelSig = zeros 64\<rparr>"

definition exReclaim :: dropReclaim where
  "exReclaim = \<lparr>rc_assetId = zeros 32, rc_capAmount = 200, rc_reclaimDropId = zeros 32, rc_reclaimSig = zeros 64,
     rc_capBlinding = 1 # zeros 31\<rparr>"

definition exClaimArgs :: claimArgs where
  "exClaimArgs = \<lparr>ca_assetId = zeros 32, ca_dropRevealTxid = zeros 32, ca_commitment = zeros 33, ca_amount = 100,
     ca_blinding = 1 # zeros 31, ca_witness = []\<rparr>"

lemma ex_etch: "(\<exists>p. encodeCEtchPayload exEtch = Inr p) \<and> (\<exists>q. encodeCPetchPayload exPetch = Inr q)"
  by (simp add: exEtch_def exPetch_def encodeCEtchPayload_def encodeCPetchPayload_def etchAuth_def
      MINT_AUTH_NONE_def Let_def concatParts.simps throw_unless_def)

lemma ex_etch_text: "plain_text (ce_ticker exEtch)" "plain_text (ce_imageUri exEtch)"
  "plain_text (pt_ticker exPetch)" "plain_text (pt_imageUri exPetch)"
  by (simp_all add: exEtch_def exPetch_def plain_text_ascii)

lemma ex_drop: "(\<exists>p. encodeCDropPayload exDrop = Inr p) \<and> (\<exists>q. encodeCDropReclaimPayload exReclaim = Inr q) \<and>
    (\<exists>r. encodeCDClaimPayload exClaimArgs = Inr r)"
  by (simp add: exDrop_def exReclaim_def exClaimArgs_def encodeCDropPayload_def encodeCDropReclaimPayload_def
      encodeCDClaimPayload_def Let_def concatParts.simps throw_unless_def all_zero_def)

end
