(* ===== verification/Kv_Keys.thy ===== *)
theory Kv_Keys
  imports Tacit_Prelude "HOL-Library.List_Lexorder" "HOL-Library.Char_ord" "HOL-Library.Product_Lexorder"
begin

text \<open>
  The key strings of the indexer's store (\<open>worker/src/index.js\<close>): mints and claims are filed under their block
  height, their position in the block and their transaction id, zero-padded, so that the store's
  lexicographic listing is the order of the chain. \<open>String(n)\<close>, \<open>padStart\<close>, \<open>split\<close> and \<open>parseInt\<close> are the
  JavaScript functions the code uses; the order on strings is the library's lexicographic order.
\<close>

definition digit :: "nat \<Rightarrow> char" where
  "digit n = char_of (48 + n)"

fun stringOf :: "nat \<Rightarrow> string" where
  "stringOf n = (if n < 10 then [digit n] else stringOf (n div 10) @ [digit (n mod 10)])"

declare stringOf.simps [simp del]

definition padStart :: "nat \<Rightarrow> string \<Rightarrow> string" where
  "padStart k s = replicate (k - length s) (CHR ''0'') @ s"

definition pmintPrefix :: "string \<Rightarrow> string \<Rightarrow> string" where
  "pmintPrefix network aid =
     (if network = ''signet'' then ''pmint:'' @ aid @ '':'' else ''pmint:'' @ network @ '':'' @ aid @ '':'')"

definition pmintKeyFor :: "string \<Rightarrow> string \<Rightarrow> nat \<Rightarrow> nat \<Rightarrow> string \<Rightarrow> string" where
  "pmintKeyFor network aid height txIndex txid =
     (let h = padStart 10 (stringOf height); idx = padStart 6 (stringOf txIndex) in
      if network = ''signet'' then ''pmint:'' @ aid @ '':'' @ h @ '':'' @ idx @ '':'' @ txid
      else ''pmint:'' @ network @ '':'' @ aid @ '':'' @ h @ '':'' @ idx @ '':'' @ txid)"

definition dclaimPrefix :: "string \<Rightarrow> string \<Rightarrow> string" where
  "dclaimPrefix network dropId =
     (if network = ''signet'' then ''dclaim:'' @ dropId @ '':'' else ''dclaim:'' @ network @ '':'' @ dropId @ '':'')"

definition dclaimKeyFor :: "string \<Rightarrow> string \<Rightarrow> nat \<Rightarrow> nat \<Rightarrow> string \<Rightarrow> string" where
  "dclaimKeyFor network dropId height txIndex txid =
     (let h = padStart 10 (stringOf height); idx = padStart 6 (stringOf txIndex) in
      if network = ''signet'' then ''dclaim:'' @ dropId @ '':'' @ h @ '':'' @ idx @ '':'' @ txid
      else ''dclaim:'' @ network @ '':'' @ dropId @ '':'' @ h @ '':'' @ idx @ '':'' @ txid)"

definition dclaimLeafKey :: "string \<Rightarrow> string \<Rightarrow> nat \<Rightarrow> string" where
  "dclaimLeafKey network dropId leafIndex =
     (let idx = padStart 10 (stringOf leafIndex) in
      if network = ''signet'' then ''dclaim-leaf:'' @ dropId @ '':'' @ idx
      else ''dclaim-leaf:'' @ network @ '':'' @ dropId @ '':'' @ idx)"

subsection \<open>Reading a key\<close>

fun splitOn :: "char \<Rightarrow> string \<Rightarrow> string list" where
  "splitOn c [] = [[]]"
| "splitOn c (x # xs) = (if x = c then [] # splitOn c xs
     else case splitOn c xs of [] \<Rightarrow> [[x]] | w # ws \<Rightarrow> (x # w) # ws)"

definition isDigit :: "char \<Rightarrow> bool" where
  "isDigit c = (48 \<le> (of_char c :: nat) \<and> (of_char c :: nat) \<le> 57)"

definition digitVal :: "char \<Rightarrow> nat" where
  "digitVal c = of_char c - 48"

definition digitsVal :: "string \<Rightarrow> nat" where
  "digitsVal s = foldl (\<lambda>n c. 10 * n + digitVal c) 0 s"

definition isSpace :: "char \<Rightarrow> bool" where
  "isSpace c = ((of_char c :: nat) \<in> {9, 10, 11, 12, 13, 32})"

text \<open>\<open>parseInt(s, 10)\<close>: leading white space, a sign, then the longest run of digits; \<open>NaN\<close> without one.\<close>

definition parseInt :: "string \<Rightarrow> int option" where
  "parseInt s =
     (let t = dropWhile isSpace s;
          neg = (t \<noteq> [] \<and> hd t = CHR ''-'');
          u = (if t \<noteq> [] \<and> (hd t = CHR ''-'' \<or> hd t = CHR ''+'') then tl t else t);
          ds = takeWhile isDigit u
      in if ds = [] then None else Some (if neg then - int (digitsVal ds) else int (digitsVal ds)))"

definition hexDigit :: "char \<Rightarrow> bool" where
  "hexDigit c = (isDigit c \<or> (97 \<le> (of_char c :: nat) \<and> (of_char c :: nat) \<le> 102))"

definition hex64 :: "string \<Rightarrow> bool" where
  "hex64 s = (length s = 64 \<and> list_all hexDigit s)"

text \<open>\<open>parts[parts.length - i]\<close>, \<open>undefined\<close> when there are fewer parts.\<close>

definition fromEnd :: "nat \<Rightarrow> string list \<Rightarrow> string option" where
  "fromEnd i parts = (if 0 < i \<and> i \<le> length parts then Some (parts ! (length parts - i)) else None)"

definition keyTxid :: "string \<Rightarrow> string" where
  "keyTxid name = last (splitOn (CHR '':'') name)"

definition keyField :: "nat \<Rightarrow> string \<Rightarrow> int option" where
  "keyField i name = (case fromEnd i (splitOn (CHR '':'') name) of None \<Rightarrow> None | Some s \<Rightarrow> parseInt s)"

subsection \<open>Fixed-width numerals\<close>

primrec digitsOf :: "nat \<Rightarrow> nat \<Rightarrow> string" where
  "digitsOf 0 n = []"
| "digitsOf (Suc k) n = digitsOf k (n div 10) @ [digit (n mod 10)]"

lemma length_digitsOf [simp]: "length (digitsOf k n) = k"
  by (induction k arbitrary: n) auto

lemma digit_0: "digit 0 = CHR ''0''"
  by (simp add: digit_def char_of_def bit_simps)

lemma digitsOf_zero: "digitsOf k 0 = replicate k (CHR ''0'')"
proof (induction k)
  case (Suc k)
  have "replicate k (CHR ''0'') @ [CHR ''0''] = replicate (Suc k) (CHR ''0'')"
    by (simp add: replicate_append_same)
  then show ?case using Suc by (simp add: digit_0)
qed simp

lemma digitsOf_pad: "j \<le> k \<Longrightarrow> n < 10 ^ j \<Longrightarrow> digitsOf k n = replicate (k - j) (CHR ''0'') @ digitsOf j n"
proof (induction j arbitrary: k n)
  case 0
  then show ?case by (simp add: digitsOf_zero)
next
  case (Suc j)
  then obtain k' where k: "k = Suc k'" by (cases k) auto
  have "n div 10 < 10 ^ j" using Suc.prems(2) by simp
  with Suc.IH [of k' "n div 10"] Suc.prems(1) k show ?case by simp
qed

lemma stringOf_digitsOf: "\<exists>j>0. stringOf n = digitsOf j n \<and> n < 10 ^ j \<and> (\<forall>k. n < 10 ^ k \<longrightarrow> 0 < k \<longrightarrow> j \<le> k)"
proof (induction n rule: stringOf.induct)
  case (1 n)
  show ?case
  proof (cases "n < 10")
    case True
    then have "stringOf n = digitsOf 1 n" by (simp add: stringOf.simps [of n])
    then show ?thesis using True by (intro exI [of _ 1]) auto
  next
    case False
    then obtain j where j: "j > 0" "stringOf (n div 10) = digitsOf j (n div 10)" "n div 10 < 10 ^ j"
      "\<forall>k. n div 10 < 10 ^ k \<longrightarrow> 0 < k \<longrightarrow> j \<le> k"
      using 1 by blast
    have "stringOf n = digitsOf (Suc j) n" using False j(2) by (simp add: stringOf.simps [of n])
    moreover have "n < 10 ^ Suc j" using j(3) by simp
    moreover have "Suc j \<le> k" if lt: "n < 10 ^ k" and pos: "0 < k" for k
    proof -
      obtain k' where k: "k = Suc k'" using pos by (cases k) auto
      with lt False have "n div 10 < 10 ^ k'" "0 < k'" by (auto intro: ccontr)
      then show ?thesis using j(4) k by auto
    qed
    ultimately show ?thesis by blast
  qed
qed

lemma padStart_stringOf: "0 < k \<Longrightarrow> n < 10 ^ k \<Longrightarrow> padStart k (stringOf n) = digitsOf k n"
proof -
  assume k: "0 < k" "n < 10 ^ k"
  obtain j where "j > 0" "stringOf n = digitsOf j n" "n < 10 ^ j" "j \<le> k"
    using stringOf_digitsOf [of n] k by blast
  then show ?thesis by (simp add: padStart_def digitsOf_pad [of j k n])
qed

subsection \<open>The listing order is the order of the chain\<close>

lemma lex_append:
  fixes xs ys us vs :: "'a::order list"
  shows "length xs = length ys \<Longrightarrow> (xs @ us < ys @ vs) = (xs < ys \<or> xs = ys \<and> us < vs)"
  by (induction xs ys rule: list_induct2) auto

lemma of_char_digit [simp]: "n < 10 \<Longrightarrow> (of_char (digit n) :: nat) = 48 + n"
  by (simp add: digit_def)

lemma digit_less: "m < 10 \<Longrightarrow> n < 10 \<Longrightarrow> (digit m < digit n) = (m < n)"
  by (simp add: less_char_def)

lemma digit_eq: "m < 10 \<Longrightarrow> n < 10 \<Longrightarrow> (digit m = digit n) = (m = n)"
  by (metis of_char_digit add_left_cancel)

lemma digitsOf_eq: "m < 10 ^ k \<Longrightarrow> n < 10 ^ k \<Longrightarrow> (digitsOf k m = digitsOf k n) = (m = n)"
proof (induction k arbitrary: m n)
  case (Suc k)
  then have "m div 10 < 10 ^ k" "n div 10 < 10 ^ k" by simp_all
  moreover have "(m = n) = (m div 10 = n div 10 \<and> m mod 10 = n mod 10)"
    by (metis div_mult_mod_eq)
  ultimately show ?case by (simp add: Suc.IH digit_eq)
qed simp

lemma digitsOf_less: "m < 10 ^ k \<Longrightarrow> n < 10 ^ k \<Longrightarrow> (digitsOf k m < digitsOf k n) = (m < n)"
proof (induction k arbitrary: m n)
  case (Suc k)
  then have b: "m div 10 < 10 ^ k" "n div 10 < 10 ^ k" by simp_all
  have "(m < n) = (m div 10 < n div 10 \<or> m div 10 = n div 10 \<and> m mod 10 < n mod 10)"
    using div_mult_mod_eq [of m 10] div_mult_mod_eq [of n 10] div_le_mono [of n m 10] by linarith
  then show ?case
    using b by (simp add: lex_append Suc.IH digitsOf_eq digit_less)
qed simp

text \<open>A key is a common prefix, the padded height, the padded position and the transaction id.\<close>

definition keyTail :: "nat \<Rightarrow> nat \<Rightarrow> string \<Rightarrow> string" where
  "keyTail h i t = padStart 10 (stringOf h) @ '':'' @ padStart 6 (stringOf i) @ '':'' @ t"

lemma pmintKey_tail: "pmintKeyFor network aid h i t = pmintPrefix network aid @ keyTail h i t"
  by (simp add: pmintKeyFor_def pmintPrefix_def keyTail_def Let_def)

lemma dclaimKey_tail: "dclaimKeyFor network d h i t = dclaimPrefix network d @ keyTail h i t"
  by (simp add: dclaimKeyFor_def dclaimPrefix_def keyTail_def Let_def)

lemma keyTail_less:
  assumes "h < 10 ^ 10" "h' < 10 ^ 10" "i < 10 ^ 6" "i' < 10 ^ 6"
  shows "(keyTail h i t < keyTail h' i' t') = ((h, i, t) < (h', i', t'))"
  using assms by (simp add: keyTail_def padStart_stringOf lex_append digitsOf_less digitsOf_eq less_prod_def')

locale key_order =
  fixes keyFor :: "nat \<Rightarrow> nat \<Rightarrow> string \<Rightarrow> string" and prefix :: string
  assumes key_split: "keyFor h i t = prefix @ keyTail h i t"
begin

lemma listing_order:
  assumes "h < 10 ^ 10" "h' < 10 ^ 10" "i < 10 ^ 6" "i' < 10 ^ 6"
  shows "(keyFor h i t < keyFor h' i' t') = ((h, i, t) < (h', i', t'))"
  using keyTail_less [OF assms] by (simp add: key_split lex_append)

lemma key_inj:
  assumes "h < 10 ^ 10" "h' < 10 ^ 10" "i < 10 ^ 6" "i' < 10 ^ 6" "keyFor h i t = keyFor h' i' t'"
  shows "h = h' \<and> i = i' \<and> t = t'"
proof -
  have "\<not> (h, i, t) < (h', i', t')" "\<not> (h', i', t') < (h, i, t)"
    using listing_order [OF assms(1-4), of t t'] listing_order [OF assms(2,1,4,3), of t' t] assms(5) by auto
  then have "(h, i, t) = (h', i', t')" by (metis linorder_neqE)
  then show ?thesis by simp
qed

end

interpretation pmintKeys: key_order "pmintKeyFor network aid" "pmintPrefix network aid" for network aid
  by unfold_locales (rule pmintKey_tail)

interpretation dclaimKeys: key_order "dclaimKeyFor network d" "dclaimPrefix network d" for network d
  by unfold_locales (rule dclaimKey_tail)

subsection \<open>A key is read back\<close>

lemma splitOn_not_Nil [simp]: "splitOn c s \<noteq> []"
  by (induction s) (auto split: list.splits)

lemma splitOn_append: "splitOn c (xs @ c # ys) = splitOn c xs @ splitOn c ys"
proof (induction xs)
  case (Cons x xs)
  then show ?case by (cases "splitOn c xs") auto
qed simp

lemma splitOn_single: "c \<notin> set s \<Longrightarrow> splitOn c s = [s]"
  by (induction s) auto

lemma digit_props: "n < 10 \<Longrightarrow> isDigit (digit n) \<and> \<not> isSpace (digit n) \<and> digit n \<noteq> CHR ''-'' \<and>
    digit n \<noteq> CHR ''+'' \<and> digit n \<noteq> CHR '':'' \<and> digitVal (digit n) = n"
proof -
  assume n: "n < 10"
  have "digit n \<noteq> c" if "(of_char c :: nat) < 48 \<or> 57 < (of_char c :: nat)" for c
    using that of_char_digit [OF n] n by auto
  then have "digit n \<noteq> CHR ''-''" "digit n \<noteq> CHR ''+''" "digit n \<noteq> CHR '':''" by simp_all
  then show ?thesis using n by (simp add: isDigit_def isSpace_def digitVal_def)
qed

lemma digitsOf_chars: "c \<in> set (digitsOf k n) \<Longrightarrow> \<exists>d<10. c = digit d"
proof (induction k arbitrary: n)
  case (Suc k)
  then show ?case by (cases "c = digit (n mod 10)") (auto intro: exI [of _ "n mod 10"])
qed simp

lemma digitsOf_char_props:
  assumes "c \<in> set (digitsOf k n)"
  shows "isDigit c" "\<not> isSpace c" "c \<noteq> CHR ''-''" "c \<noteq> CHR ''+''" "c \<noteq> CHR '':''"
proof -
  obtain d where "d < 10" "c = digit d" using digitsOf_chars [OF assms] by auto
  then show "isDigit c" "\<not> isSpace c" "c \<noteq> CHR ''-''" "c \<noteq> CHR ''+''" "c \<noteq> CHR '':''"
    using digit_props [of d] by simp_all
qed

lemma digitsVal_digitsOf: "n < 10 ^ k \<Longrightarrow> digitsVal (digitsOf k n) = n"
proof (induction k arbitrary: n)
  case (Suc k)
  then have "digitsVal (digitsOf k (n div 10)) = n div 10" by simp
  then show ?case using digit_props [of "n mod 10"] div_mult_mod_eq [of n 10] by (simp add: digitsVal_def)
qed (simp add: digitsVal_def)

lemma parseInt_digits:
  assumes "s \<noteq> []" "\<And>c. c \<in> set s \<Longrightarrow> isDigit c \<and> \<not> isSpace c \<and> c \<noteq> CHR ''-'' \<and> c \<noteq> CHR ''+''"
  shows "parseInt s = Some (int (digitsVal s))"
proof -
  obtain x xs where s: "s = x # xs" using assms(1) by (cases s) auto
  have x: "\<not> isSpace x" "x \<noteq> CHR ''-''" "x \<noteq> CHR ''+''" using assms(2) [of x] s by auto
  have "dropWhile isSpace s = s" using x s by simp
  moreover have "takeWhile isDigit s = s" using assms(2) by (simp add: takeWhile_eq_all_conv)
  moreover have "hd s = x" using s by simp
  ultimately show ?thesis unfolding parseInt_def Let_def using x assms(1)
    by (simp del: takeWhile_eq_all_conv)
qed

lemma parseInt_digitsOf: "0 < k \<Longrightarrow> n < 10 ^ k \<Longrightarrow> parseInt (digitsOf k n) = Some (int n)"
  using parseInt_digits [of "digitsOf k n"] digitsOf_char_props [of _ k n] digitsVal_digitsOf [of n k]
  by (cases k) simp_all

lemma digitsOf_no_colon: "CHR '':'' \<notin> set (digitsOf k n)"
  using digitsOf_char_props(5) [of "CHR '':''" k n] by blast

lemma read_key:
  assumes "h < 10 ^ 10" "i < 10 ^ 6" "CHR '':'' \<notin> set t"
  shows "keyTxid (pre @ '':'' @ keyTail h i t) = t"
    "keyField 2 (pre @ '':'' @ keyTail h i t) = Some (int i)"
    "keyField 3 (pre @ '':'' @ keyTail h i t) = Some (int h)"
proof -
  have parts: "splitOn (CHR '':'') (pre @ '':'' @ keyTail h i t)
      = splitOn (CHR '':'') pre @ [digitsOf 10 h, digitsOf 6 i, t]"
    using assms
    by (simp add: keyTail_def padStart_stringOf splitOn_append splitOn_single [OF digitsOf_no_colon] splitOn_single)
  show "keyTxid (pre @ '':'' @ keyTail h i t) = t"
    "keyField 2 (pre @ '':'' @ keyTail h i t) = Some (int i)"
    "keyField 3 (pre @ '':'' @ keyTail h i t) = Some (int h)"
    unfolding keyTxid_def keyField_def fromEnd_def parts
    using assms parseInt_digitsOf [of 10 h] parseInt_digitsOf [of 6 i] by (simp_all add: nth_append)
qed

lemma hex64_no_colon: "hex64 t \<Longrightarrow> CHR '':'' \<notin> set t"
  by (auto simp: hex64_def list_all_iff hexDigit_def isDigit_def)

end
