(* ===== verification/Fair_Mint.thy ===== *)
theory Fair_Mint
  imports Kv_Keys
begin

text \<open>
  Who is credited in a fair launch or a drop (\<open>worker/src/index.js\<close>): \<open>loadCanonicalPmints\<close>,
  \<open>refreshPetchProgress\<close> and \<open>loadCreditedDclaims\<close> list the mint or claim keys of an asset from the store, page
  by page, and credit each distinct transaction that is at least three blocks deep until the cap is full.

  The store is a parameter: \<open>kv prefix cursor\<close> is the page that \<open>REGISTRY_KV.list\<close> returns, and nothing is assumed of
  it. \<open>kvKeys\<close> collects what it would list. The clock field of a snapshot (\<open>updated_at\<close>) is left out.
\<close>

definition PMINT_CONFIRMATION_DEPTH :: int where "PMINT_CONFIRMATION_DEPTH = 3"
definition DCLAIM_CREDIT_PAGE_GUARD :: nat where "DCLAIM_CREDIT_PAGE_GUARD = 64"
definition PETCH_REFRESH_MAX_PAGES :: nat where "PETCH_REFRESH_MAX_PAGES = 300"
definition PETCH_REFRESH_SAFETY_CAP :: nat where "PETCH_REFRESH_SAFETY_CAP = 300000"
definition CAP_OVERFLOW_TXIDS_MAX :: nat where "CAP_OVERFLOW_TXIDS_MAX = 10000"

record 'c kvPage =
  kp_keys :: "string list"
  kp_complete :: bool
  kp_cursor :: "'c option"

primrec kvKeys :: "nat \<Rightarrow> ('c option \<Rightarrow> 'c kvPage) \<Rightarrow> 'c option \<Rightarrow> string list" where
  "kvKeys 0 kv c = []"
| "kvKeys (Suc n) kv c = kp_keys (kv c) @
     (if kp_complete (kv c) then [] else case kp_cursor (kv c) of None \<Rightarrow> [] | Some c' \<Rightarrow> kvKeys n kv (Some c'))"

subsection \<open>Claims of a drop\<close>

record claimScan =
  cl_credited :: "string list"
  cl_seen :: "string list"
  cl_creditedBig :: int
  cl_capReached :: bool

definition claimStep :: "int \<Rightarrow> int \<Rightarrow> claimScan \<Rightarrow> string \<Rightarrow> claimScan" where
  "claimStep tipHeight maxClaims st name =
     (let txid = keyTxid name in
      case keyField 3 name of None \<Rightarrow> st
      | Some h \<Rightarrow>
          if \<not> hex64 txid then st
          else if tipHeight - h + 1 < PMINT_CONFIRMATION_DEPTH then st
          else if txid \<in> set (cl_seen st) then st
          else let st = st\<lparr>cl_seen := txid # cl_seen st\<rparr> in
            if cl_creditedBig st \<ge> maxClaims then st\<lparr>cl_capReached := True\<rparr>
            else st\<lparr>cl_creditedBig := cl_creditedBig st + 1, cl_credited := cl_credited st @ [txid]\<rparr>)"

primrec claimPages :: "nat \<Rightarrow> ('c option \<Rightarrow> 'c kvPage) \<Rightarrow> int \<Rightarrow> int \<Rightarrow> 'c option \<Rightarrow> claimScan \<Rightarrow> claimScan \<times> bool" where
  "claimPages 0 kv tipHeight maxClaims cursor st = (st, False)"
| "claimPages (Suc n) kv tipHeight maxClaims cursor st =
     (let page = kv cursor; st = foldl (claimStep tipHeight maxClaims) st (kp_keys page) in
      if kp_complete page then (st, True)
      else if cl_creditedBig st \<ge> maxClaims then (st\<lparr>cl_capReached := True\<rparr>, True)
      else case kp_cursor page of None \<Rightarrow> (st, True)
        | Some c \<Rightarrow> claimPages n kv tipHeight maxClaims (Some c) st)"

record creditedClaims =
  cc_credited_txids :: "string list"
  cc_list_complete :: bool
  cc_resolvable :: bool

text \<open>The cap and the amount per claim are \<open>None\<close> where \<open>BigInt\<close> throws on them.\<close>

definition maxClaimsOf :: "int option \<Rightarrow> int option \<Rightarrow> int option" where
  "maxClaimsOf cap per = (case (cap, per) of (Some c, Some p) \<Rightarrow> if p > 0 then Some (tdiv c p) else None | _ \<Rightarrow> None)"

definition loadCreditedDclaims ::
  "(string \<Rightarrow> 'c option \<Rightarrow> 'c kvPage) \<Rightarrow> string \<Rightarrow> string \<Rightarrow> int option \<Rightarrow> int option \<Rightarrow> int option \<Rightarrow> creditedClaims" where
  "loadCreditedDclaims kv network dropId tipHeight cap per =
     (case (maxClaimsOf cap per, tipHeight) of
        (Some maxClaims, Some tip) \<Rightarrow>
          (let (st, listComplete) = claimPages DCLAIM_CREDIT_PAGE_GUARD (kv (dclaimPrefix network dropId)) tip maxClaims None
                 \<lparr>cl_credited = [], cl_seen = [], cl_creditedBig = 0, cl_capReached = False\<rparr>
           in \<lparr>cc_credited_txids = cl_credited st, cc_list_complete = listComplete,
                cc_resolvable = (listComplete \<or> cl_capReached st)\<rparr>)
      | _ \<Rightarrow> \<lparr>cc_credited_txids = [], cc_list_complete = False, cc_resolvable = False\<rparr>)"

subsection \<open>Progress of a fair launch\<close>

record petchScan =
  rf_creditedCount :: nat
  rf_creditedAmount :: int
  rf_capOverflowCount :: nat
  rf_pendingCount :: nat
  rf_canonicalCount :: nat
  rf_lastCredited :: "(int \<times> int \<times> string) option"
  rf_capOverflowTxids :: "string list"
  rf_seen :: "string list"

definition freshScan :: petchScan where
  "freshScan = \<lparr>rf_creditedCount = 0, rf_creditedAmount = 0, rf_capOverflowCount = 0, rf_pendingCount = 0,
     rf_canonicalCount = 0, rf_lastCredited = None, rf_capOverflowTxids = [], rf_seen = []\<rparr>"

definition startsWith :: "string \<Rightarrow> string \<Rightarrow> bool" where
  "startsWith s p = (take (length p) s = p)"

text \<open>One key: the new state, and whether the credit branch was taken (only there the scan looks at its safety cap).\<close>

definition refreshStep ::
  "int \<Rightarrow> int option \<Rightarrow> int option \<Rightarrow> string \<Rightarrow> petchScan \<Rightarrow> string \<Rightarrow> petchScan \<times> bool" where
  "refreshStep tipHeight capAmount mintLimit orphanPrefix st name =
     (if startsWith name orphanPrefix then (st, False)
      else let st = st\<lparr>rf_canonicalCount := rf_canonicalCount st + 1\<rparr>; txid = keyTxid name in
      case (keyField 3 name, keyField 2 name) of
        (Some h, Some ti) \<Rightarrow>
          if \<not> hex64 txid then (st, False)
          else let depth = max 0 (tipHeight - h + 1) in
          if depth < PMINT_CONFIRMATION_DEPTH then (st\<lparr>rf_pendingCount := rf_pendingCount st + 1\<rparr>, False)
          else if txid \<in> set (rf_seen st) then (st, False)
          else let st = st\<lparr>rf_seen := txid # rf_seen st\<rparr> in
          (case (capAmount, mintLimit) of
             (Some cap, Some lim) \<Rightarrow>
               (let wouldBe = rf_creditedAmount st + lim in
                if wouldBe > cap then
                  (st\<lparr>rf_capOverflowCount := rf_capOverflowCount st + 1,
                     rf_capOverflowTxids := (if length (rf_capOverflowTxids st) < CAP_OVERFLOW_TXIDS_MAX
                       then rf_capOverflowTxids st @ [txid] else rf_capOverflowTxids st)\<rparr>, False)
                else (st\<lparr>rf_creditedAmount := wouldBe, rf_creditedCount := rf_creditedCount st + 1,
                   rf_lastCredited := Some (h, ti, txid)\<rparr>, True))
           | _ \<Rightarrow> (st\<lparr>rf_creditedCount := rf_creditedCount st + 1, rf_lastCredited := Some (h, ti, txid),
               rf_creditedAmount := rf_creditedAmount st + (case mintLimit of None \<Rightarrow> 0 | Some l \<Rightarrow> l)\<rparr>, True))
      | _ \<Rightarrow> (st, False))"

primrec refreshKeys ::
  "int \<Rightarrow> int option \<Rightarrow> int option \<Rightarrow> string \<Rightarrow> petchScan \<Rightarrow> string list \<Rightarrow> petchScan \<times> bool" where
  "refreshKeys tip cap lim orphanPrefix st [] = (st, False)"
| "refreshKeys tip cap lim orphanPrefix st (k # ks) =
     (let (st, credited) = refreshStep tip cap lim orphanPrefix st k in
      if credited \<and> rf_canonicalCount st \<ge> PETCH_REFRESH_SAFETY_CAP then (st, True)
      else refreshKeys tip cap lim orphanPrefix st ks)"

text \<open>The page loop returns the scan, whether it was cut short and whether it saw the end of the listing.\<close>

primrec refreshPages ::
  "nat \<Rightarrow> ('c option \<Rightarrow> 'c kvPage) \<Rightarrow> int \<Rightarrow> int option \<Rightarrow> int option \<Rightarrow> string \<Rightarrow> 'c option \<Rightarrow> petchScan
     \<Rightarrow> petchScan \<times> bool \<times> bool" where
  "refreshPages 0 kv tip cap lim orphanPrefix cursor st = (st, False, False)"
| "refreshPages (Suc n) kv tip cap lim orphanPrefix cursor st =
     (let lst = kv cursor; (st, truncated) = refreshKeys tip cap lim orphanPrefix st (kp_keys lst) in
      if truncated then (st, True, False)
      else if kp_complete lst then (st, False, True)
      else case kp_cursor lst of None \<Rightarrow> (st, False, True)
        | Some c \<Rightarrow> refreshPages n kv tip cap lim orphanPrefix (Some c) st)"

primrec orphanPages :: "nat \<Rightarrow> ('c option \<Rightarrow> 'c kvPage) \<Rightarrow> 'c option \<Rightarrow> nat \<Rightarrow> nat \<times> bool" where
  "orphanPages 0 kv cursor orphanCount = (orphanCount, False)"
| "orphanPages (Suc n) kv cursor orphanCount =
     (let lst = kv cursor; orphanCount = orphanCount + length (kp_keys lst) in
      if kp_complete lst then (orphanCount, True)
      else if orphanCount \<ge> 5000 then (orphanCount, False)
      else case kp_cursor lst of None \<Rightarrow> (orphanCount, True)
        | Some c \<Rightarrow> orphanPages n kv (Some c) orphanCount)"

record petchCaps =
  pc_cap_amount :: "int option"
  pc_mint_limit :: "int option"
  pc_mint_end_height :: "int option"

record petchProgress =
  pp_credited_count :: nat
  pp_credited_amount :: int
  pp_cap_overflow_count :: nat
  pp_cap_overflow_txids :: "string list"
  pp_cap_overflow_truncated :: bool
  pp_pending_count :: nat
  pp_canonical_count :: nat
  pp_orphan_count :: nat
  pp_last_credited :: "(int \<times> int \<times> string) option"
  pp_tip_at_update :: int
  pp_scanned_at_update :: "int option"
  pp_truncated :: bool
  pp_snapshot_scan_complete :: bool
  pp_cap_counter_final :: bool
  pp_bootstrapped :: bool

definition refreshPetchProgress ::
  "(string \<Rightarrow> 'c option \<Rightarrow> 'c kvPage) \<Rightarrow> int option \<Rightarrow> string \<Rightarrow> string \<Rightarrow> int option \<Rightarrow> petchCaps option \<Rightarrow> petchProgress option" where
  "refreshPetchProgress kv scannedAt network aid tipHeight petch =
     (case (petch, tipHeight) of
        (Some pt, Some tip) \<Rightarrow>
          (let orphanPrefixStr = pmintPrefix network aid @ ''0000000000:'';
               (st, cut, canonicalComplete) = refreshPages PETCH_REFRESH_MAX_PAGES (kv (pmintPrefix network aid)) tip
                 (pc_cap_amount pt) (pc_mint_limit pt) orphanPrefixStr None freshScan;
               truncated = (cut \<or> \<not> canonicalComplete);
               (orphanCount, orphanComplete) = orphanPages 60 (kv orphanPrefixStr) None 0;
               capFull = (pc_cap_amount pt = Some (rf_creditedAmount st));
               windowClosed = (case pc_mint_end_height pt of None \<Rightarrow> False
                 | Some e \<Rightarrow> e > 0 \<and> tip > e + PMINT_CONFIRMATION_DEPTH);
               capCounterFinal = (capFull \<or> windowClosed)
           in Some \<lparr>pp_credited_count = rf_creditedCount st, pp_credited_amount = rf_creditedAmount st,
                pp_cap_overflow_count = rf_capOverflowCount st, pp_cap_overflow_txids = rf_capOverflowTxids st,
                pp_cap_overflow_truncated = (rf_capOverflowCount st > length (rf_capOverflowTxids st)),
                pp_pending_count = rf_pendingCount st + orphanCount, pp_canonical_count = rf_canonicalCount st,
                pp_orphan_count = orphanCount, pp_last_credited = rf_lastCredited st, pp_tip_at_update = tip,
                pp_scanned_at_update = map_option (\<lambda>s. min s tip) scannedAt, pp_truncated = truncated,
                pp_snapshot_scan_complete = (\<not> truncated \<and> orphanComplete),
                pp_cap_counter_final = capCounterFinal,
                pp_bootstrapped = (\<not> truncated \<and> orphanComplete \<and> capCounterFinal)\<rparr>)
      | _ \<Rightarrow> None)"

subsection \<open>The credited mints, one by one\<close>

record mintEvent =
  me_pending :: bool
  me_minted_at_height :: "int option"
  me_mint_txid :: "string option"

datatype mintStatus = Pending | UnknownDepth | Duplicate | CapOverflow | Credited

record annotated =
  an_event :: mintEvent
  an_depth :: "int option"
  an_status :: mintStatus
  an_credited :: bool

record mintTally =
  mt_creditedCount :: int
  mt_creditedAmount :: int
  mt_seen :: "string list"

definition seenBefore :: "mintTally \<Rightarrow> mintEvent \<Rightarrow> bool" where
  "seenBefore s e = (case me_mint_txid e of None \<Rightarrow> False | Some t \<Rightarrow> t \<in> set (mt_seen s))"

definition markSeen :: "mintTally \<Rightarrow> mintEvent \<Rightarrow> mintTally" where
  "markSeen s e = (case me_mint_txid e of None \<Rightarrow> s | Some t \<Rightarrow> s\<lparr>mt_seen := t # mt_seen s\<rparr>)"

definition annotateMint ::
  "int option \<Rightarrow> int option \<Rightarrow> int option \<Rightarrow> mintTally \<Rightarrow> mintEvent \<Rightarrow> mintTally \<times> annotated" where
  "annotateMint tipHeight capAmount mintLimit s e =
     (case (me_pending e, me_minted_at_height e) of
        (False, Some h) \<Rightarrow>
          (case map_option (\<lambda>tip. max 0 (tip - h + 1)) tipHeight of
             None \<Rightarrow> (s, \<lparr>an_event = e, an_depth = None, an_status = UnknownDepth, an_credited = False\<rparr>)
           | Some depth \<Rightarrow>
              if depth < PMINT_CONFIRMATION_DEPTH
              then (s, \<lparr>an_event = e, an_depth = Some depth, an_status = Pending, an_credited = False\<rparr>)
              else if seenBefore s e
              then (s, \<lparr>an_event = e, an_depth = Some depth, an_status = Duplicate, an_credited = False\<rparr>)
              else let s = markSeen s e in
              (case (capAmount, mintLimit) of
                 (Some cap, Some lim) \<Rightarrow>
                   (let wouldBe = mt_creditedAmount s + lim in
                    if wouldBe > cap
                    then (s, \<lparr>an_event = e, an_depth = Some depth, an_status = CapOverflow, an_credited = False\<rparr>)
                    else (s\<lparr>mt_creditedCount := mt_creditedCount s + 1, mt_creditedAmount := wouldBe\<rparr>,
                      \<lparr>an_event = e, an_depth = Some depth, an_status = Credited, an_credited = True\<rparr>))
               | _ \<Rightarrow> (s\<lparr>mt_creditedCount := mt_creditedCount s + 1,
                     mt_creditedAmount := mt_creditedAmount s + (case mintLimit of None \<Rightarrow> 0 | Some l \<Rightarrow> l)\<rparr>,
                   \<lparr>an_event = e, an_depth = Some depth, an_status = Credited, an_credited = True\<rparr>)))
      | _ \<Rightarrow> (s, \<lparr>an_event = e, an_depth = None, an_status = Pending, an_credited = False\<rparr>))"

primrec annotateMints ::
  "int option \<Rightarrow> int option \<Rightarrow> int option \<Rightarrow> mintTally \<Rightarrow> mintEvent list \<Rightarrow> mintTally \<times> annotated list" where
  "annotateMints tip cap lim s [] = (s, [])"
| "annotateMints tip cap lim s (e # es) =
     (let (s, a) = annotateMint tip cap lim s e; (s, as) = annotateMints tip cap lim s es in (s, a # as))"

primrec orphanTxidPages :: "nat \<Rightarrow> ('c option \<Rightarrow> 'c kvPage) \<Rightarrow> 'c option \<Rightarrow> string list \<Rightarrow> string list" where
  "orphanTxidPages 0 kv cursor orphanTxids = orphanTxids"
| "orphanTxidPages (Suc n) kv cursor orphanTxids =
     (let lst = kv cursor; orphanTxids = orphanTxids @ map keyTxid (kp_keys lst) in
      if kp_complete lst \<or> length orphanTxids \<ge> 5000 then orphanTxids
      else case kp_cursor lst of None \<Rightarrow> orphanTxids | Some c \<Rightarrow> orphanTxidPages n kv (Some c) orphanTxids)"

text \<open>The collected keys, and whether the end of the listing was seen.\<close>

primrec canonicalPages ::
  "nat \<Rightarrow> ('c option \<Rightarrow> 'c kvPage) \<Rightarrow> string \<Rightarrow> 'c option \<Rightarrow> string list \<Rightarrow> string list \<times> bool" where
  "canonicalPages 0 kv orphanPrefix cursor keys = (keys, False)"
| "canonicalPages (Suc n) kv orphanPrefix cursor keys =
     (let lst = kv cursor; keys = keys @ filter (\<lambda>k. \<not> startsWith k orphanPrefix) (kp_keys lst) in
      if kp_complete lst then (keys, True)
      else if length keys \<ge> 5000 then (keys, False)
      else case kp_cursor lst of None \<Rightarrow> (keys, True)
        | Some c \<Rightarrow> canonicalPages n kv orphanPrefix (Some c) keys)"

record canonicalMints =
  lm_events :: "annotated list"
  lm_credited_count :: int
  lm_cumulative_minted :: int
  lm_truncated :: bool
  lm_canonical_truncated :: bool
  lm_orphan_truncated :: bool

definition loadCanonicalPmints ::
  "(string \<Rightarrow> 'c option \<Rightarrow> 'c kvPage) \<Rightarrow> (string \<Rightarrow> mintEvent option) \<Rightarrow> string \<Rightarrow> string \<Rightarrow> int option
     \<Rightarrow> int option \<Rightarrow> int option \<Rightarrow> canonicalMints" where
  "loadCanonicalPmints kv get network aid tipHeight capAmount mintLimit =
     (let orphanPrefixStr = pmintPrefix network aid @ ''0000000000:'';
          orphanTxids = orphanTxidPages 30 (kv orphanPrefixStr) None [];
          (canonicalKeys, canonicalComplete) = canonicalPages 60 (kv (pmintPrefix network aid)) orphanPrefixStr None [];
          canonical = List.map_filter get canonicalKeys;
          orphanEvents = map (\<lambda>t. \<lparr>me_pending = True, me_minted_at_height = None, me_mint_txid = Some t\<rparr>) orphanTxids;
          (s, events) = annotateMints tipHeight capAmount mintLimit
            \<lparr>mt_creditedCount = 0, mt_creditedAmount = 0, mt_seen = []\<rparr> (canonical @ orphanEvents);
          orphanTruncated = (length orphanTxids \<ge> 5000)
      in \<lparr>lm_events = events, lm_credited_count = mt_creditedCount s, lm_cumulative_minted = mt_creditedAmount s,
           lm_truncated = (\<not> canonicalComplete \<or> orphanTruncated), lm_canonical_truncated = (\<not> canonicalComplete),
           lm_orphan_truncated = orphanTruncated\<rparr>)"

subsection \<open>A capped count of distinct transactions\<close>

text \<open>
  What the three scans promise: a scan that remembers the transactions it has seen and counts a new one while
  there are slots left counts, in the end, the distinct deep transactions, up to the number of slots.
\<close>

locale capped_scan =
  fixes step :: "'s \<Rightarrow> 'k \<Rightarrow> 's"
    and deep :: "'k \<Rightarrow> bool"
    and txid :: "'k \<Rightarrow> string"
    and seen :: "'s \<Rightarrow> string set"
    and count :: "'s \<Rightarrow> nat"
    and slots :: nat
    and inv :: "'s \<Rightarrow> bool"
  assumes skip: "\<not> deep k \<or> txid k \<in> seen s \<Longrightarrow> seen (step s k) = seen s \<and> count (step s k) = count s"
    and fresh: "inv s \<Longrightarrow> deep k \<Longrightarrow> txid k \<notin> seen s \<Longrightarrow>
      seen (step s k) = insert (txid k) (seen s) \<and> count (step s k) = min slots (Suc (count s))"
    and keeps: "inv s \<Longrightarrow> inv (step s k)"
begin

definition tallied :: "'s \<Rightarrow> bool" where
  "tallied s = (inv s \<and> finite (seen s) \<and> count s = min slots (card (seen s)))"

lemma tallied_step: "tallied s \<Longrightarrow> tallied (step s k)"
  unfolding tallied_def
  by (cases "\<not> deep k \<or> txid k \<in> seen s") (auto simp: skip fresh keeps card_insert_if min_def)

lemma scan:
  assumes "tallied s"
  shows "tallied (foldl step s ks) \<and> seen (foldl step s ks) = seen s \<union> txid ` {k \<in> set ks. deep k}"
  using assms
proof (induction ks arbitrary: s)
  case (Cons k ks)
  have "seen (step s k) = seen s \<union> txid ` {x \<in> {k}. deep x}"
    using Cons.prems by (cases "\<not> deep k \<or> txid k \<in> seen s") (auto simp: skip fresh tallied_def)
  with Cons.IH [OF tallied_step [OF Cons.prems]] show ?case by auto
qed simp

lemma scan_count:
  assumes "tallied s" "seen s = {}"
  shows "count (foldl step s ks) = min slots (card (txid ` {k \<in> set ks. deep k}))"
  using scan [OF assms(1)] assms(2) by (simp add: tallied_def)

end

definition deepKey :: "int \<Rightarrow> string \<Rightarrow> bool" where
  "deepKey tip k = (hex64 (keyTxid k) \<and>
     (case keyField 3 k of None \<Rightarrow> False | Some h \<Rightarrow> \<not> tip - h + 1 < PMINT_CONFIRMATION_DEPTH))"

definition mintedKey :: "string \<Rightarrow> int \<Rightarrow> string \<Rightarrow> bool" where
  "mintedKey orphanPrefix tip k = (\<not> startsWith k orphanPrefix \<and> keyField 2 k \<noteq> None \<and> deepKey tip k)"

definition mintSlots :: "int \<Rightarrow> int \<Rightarrow> nat" where
  "mintSlots cap lim = nat (cap div lim)"

lemma slot_left: "0 < lim \<Longrightarrow> 0 \<le> cap \<Longrightarrow> (lim * int n + lim > cap) = (mintSlots cap lim \<le> n)"
proof -
  assume l: "0 < lim" and c: "0 \<le> cap"
  have "(lim * int n + lim > cap) = (cap < (int n + 1) * lim)" by (simp add: algebra_simps)
  also have "\<dots> = (cap div lim < int n + 1)"
  proof
    assume "cap < (int n + 1) * lim"
    then have "cap div lim * lim < (int n + 1) * lim" using div_times_le [OF l, of cap] by linarith
    then show "cap div lim < int n + 1" using l by (simp only: mult_less_cancel_right)
  next
    assume "cap div lim < int n + 1"
    then have "(cap div lim + 1) * lim \<le> (int n + 1) * lim" using l by (intro mult_right_mono) auto
    moreover have "cap < (cap div lim + 1) * lim" using tdiv_gt [OF c l] tdiv_eq_div [OF c l] by simp
    ultimately show "cap < (int n + 1) * lim" by linarith
  qed
  finally show ?thesis
    using l c by (auto simp: mintSlots_def pos_imp_zdiv_nonneg_iff nat_le_iff)
qed

definition petchInv :: "int \<Rightarrow> int \<Rightarrow> petchScan \<Rightarrow> bool" where
  "petchInv cap lim st = (0 < lim \<and> 0 \<le> cap \<and> rf_creditedAmount st = lim * int (rf_creditedCount st) \<and>
     rf_creditedCount st \<le> mintSlots cap lim)"

lemmas refresh_simps = refreshStep_def mintedKey_def deepKey_def petchInv_def Let_def PMINT_CONFIRMATION_DEPTH_def

interpretation petchTally: capped_scan "\<lambda>st k. fst (refreshStep tip (Some cap) (Some lim) orphanPrefix st k)"
    "mintedKey orphanPrefix tip" keyTxid "\<lambda>st. set (rf_seen st)" rf_creditedCount "mintSlots cap lim" "petchInv cap lim"
  for tip cap lim orphanPrefix
proof
  fix s :: petchScan and k
  let ?st = "fst (refreshStep tip (Some cap) (Some lim) orphanPrefix s k)"
  show "set (rf_seen ?st) = set (rf_seen s) \<and> rf_creditedCount ?st = rf_creditedCount s"
    if "\<not> mintedKey orphanPrefix tip k \<or> keyTxid k \<in> set (rf_seen s)"
    using that by (auto simp: refresh_simps split: option.splits)
  show "set (rf_seen ?st) = insert (keyTxid k) (set (rf_seen s)) \<and>
      rf_creditedCount ?st = min (mintSlots cap lim) (Suc (rf_creditedCount s))"
    if "petchInv cap lim s" "mintedKey orphanPrefix tip k" "keyTxid k \<notin> set (rf_seen s)"
    using that slot_left [of lim cap "rf_creditedCount s"] by (auto simp: refresh_simps split: option.splits)
  show "petchInv cap lim ?st" if "petchInv cap lim s"
    using that slot_left [of lim cap "rf_creditedCount s"]
    by (auto simp: refresh_simps algebra_simps split: option.splits)
qed

subsection \<open>The snapshot of a fair launch\<close>

abbreviation petchFold :: "int \<Rightarrow> int option \<Rightarrow> int option \<Rightarrow> string \<Rightarrow> petchScan \<Rightarrow> string list \<Rightarrow> petchScan" where
  "petchFold tip cap lim orphanPrefix \<equiv> foldl (\<lambda>st k. fst (refreshStep tip cap lim orphanPrefix st k))"

lemma refreshKeys_prefix:
  "\<exists>n. fst (refreshKeys tip cap lim orp st ks) = petchFold tip cap lim orp st (take n ks) \<and>
     (\<not> snd (refreshKeys tip cap lim orp st ks) \<longrightarrow> n = length ks)"
proof (induction ks arbitrary: st)
  case (Cons k ks)
  obtain st' c where s: "refreshStep tip cap lim orp st k = (st', c)" by fastforce
  show ?case
  proof (cases "c \<and> rf_canonicalCount st' \<ge> PETCH_REFRESH_SAFETY_CAP")
    case True
    then show ?thesis using s by (intro exI [of _ 1]) simp
  next
    case False
    obtain n where "fst (refreshKeys tip cap lim orp st' ks) = petchFold tip cap lim orp st' (take n ks)"
      "\<not> snd (refreshKeys tip cap lim orp st' ks) \<longrightarrow> n = length ks"
      using Cons.IH [of st'] by blast
    then show ?thesis using s False by (intro exI [of _ "Suc n"]) auto
  qed
qed simp

lemma kvKeys_stop:
  "kp_complete (kv c) \<or> kp_cursor (kv c) = None \<Longrightarrow> kvKeys (Suc n) kv c = kp_keys (kv c)"
  by (auto split: option.splits)

lemma kvKeys_next:
  "\<not> kp_complete (kv c) \<Longrightarrow> kp_cursor (kv c) = Some c' \<Longrightarrow>
     kvKeys (Suc n) kv c = kp_keys (kv c) @ kvKeys n kv (Some c')"
  by simp

declare kvKeys.simps(2) [simp del]

text \<open>Every scan is a fold over a beginning of the listing, and over all of it when it is reported complete.\<close>

lemma refreshPages_prefix:
  "\<exists>m. fst (refreshPages n kv tip cap lim orp c st) = petchFold tip cap lim orp st (take m (kvKeys n kv c)) \<and>
     (snd (snd (refreshPages n kv tip cap lim orp c st)) \<longrightarrow>
       \<not> fst (snd (refreshPages n kv tip cap lim orp c st)) \<and> m = length (kvKeys n kv c) \<and>
       (\<forall>d. kvKeys (n + d) kv c = kvKeys n kv c))"
proof (induction n arbitrary: c st)
  case 0
  show ?case by simp
next
  case (Suc n)
  obtain st' t where r: "refreshKeys tip cap lim orp st (kp_keys (kv c)) = (st', t)" by fastforce
  obtain m where m: "st' = petchFold tip cap lim orp st (take m (kp_keys (kv c)))"
    "\<not> t \<longrightarrow> m = length (kp_keys (kv c))"
    using refreshKeys_prefix [of tip cap lim orp st "kp_keys (kv c)"] r by auto
  consider (cut) "t" | (stop) "\<not> t" "kp_complete (kv c) \<or> kp_cursor (kv c) = None"
    | (more) c' where "\<not> t" "\<not> kp_complete (kv c)" "kp_cursor (kv c) = Some c'" by auto
  then show ?case
  proof cases
    case cut
    obtain rest where "kvKeys (Suc n) kv c = kp_keys (kv c) @ rest" by (simp add: kvKeys.simps(2))
    then show ?thesis using r m cut
      by (intro exI [of _ "min m (length (kp_keys (kv c)))"]) (auto simp: Let_def min_def)
  next
    case stop
    then show ?thesis using r m
      by (intro exI [of _ m]) (auto simp: Let_def kvKeys_stop split: option.splits)
  next
    case (more c')
    have eq: "refreshPages (Suc n) kv tip cap lim orp c st = refreshPages n kv tip cap lim orp (Some c') st'"
      using r more by (simp add: Let_def)
    obtain k where k: "fst (refreshPages n kv tip cap lim orp (Some c') st') =
        petchFold tip cap lim orp st' (take k (kvKeys n kv (Some c')))"
      "snd (snd (refreshPages n kv tip cap lim orp (Some c') st')) \<longrightarrow>
        \<not> fst (snd (refreshPages n kv tip cap lim orp (Some c') st')) \<and> k = length (kvKeys n kv (Some c')) \<and>
        (\<forall>d. kvKeys (n + d) kv (Some c') = kvKeys n kv (Some c'))"
      using Suc.IH [of "Some c'" st'] by blast
    have next_keys: "kvKeys (Suc N) kv c = kp_keys (kv c) @ kvKeys N kv (Some c')" for N
      using more by (simp add: kvKeys_next)
    show ?thesis
      unfolding eq using m more(1) k
      by (intro exI [of _ "length (kp_keys (kv c)) + k"]) (auto simp: next_keys)
  qed
qed

lemma freshScan_tallied:
  "0 < lim \<Longrightarrow> 0 \<le> cap \<Longrightarrow> petchTally.tallied cap lim freshScan \<and> set (rf_seen freshScan) = {}"
  by (simp add: petchTally.tallied_def petchInv_def freshScan_def)

lemma petchFold_count:
  assumes "0 < lim" "0 \<le> cap"
  shows "rf_creditedCount (petchFold tip (Some cap) (Some lim) orp freshScan ks) =
      min (mintSlots cap lim) (card (keyTxid ` {k \<in> set ks. mintedKey orp tip k}))"
    "rf_creditedAmount (petchFold tip (Some cap) (Some lim) orp freshScan ks) =
      lim * int (rf_creditedCount (petchFold tip (Some cap) (Some lim) orp freshScan ks))"
proof -
  have t: "petchTally.tallied cap lim freshScan" "set (rf_seen freshScan) = {}"
    using freshScan_tallied [OF assms] by auto
  show "rf_creditedCount (petchFold tip (Some cap) (Some lim) orp freshScan ks) =
      min (mintSlots cap lim) (card (keyTxid ` {k \<in> set ks. mintedKey orp tip k}))"
    by (rule petchTally.scan_count [OF t])
  have "petchInv cap lim (petchFold tip (Some cap) (Some lim) orp freshScan ks)"
    using petchTally.scan [OF t(1)] unfolding petchTally.tallied_def by blast
  then show "rf_creditedAmount (petchFold tip (Some cap) (Some lim) orp freshScan ks) =
      lim * int (rf_creditedCount (petchFold tip (Some cap) (Some lim) orp freshScan ks))"
    unfolding petchInv_def by blast
qed

definition distinctMints :: "(string \<Rightarrow> 'c option \<Rightarrow> 'c kvPage) \<Rightarrow> string \<Rightarrow> string \<Rightarrow> int \<Rightarrow> nat \<Rightarrow> string set" where
  "distinctMints kv network aid tip n = keyTxid ` {k \<in> set (kvKeys n (kv (pmintPrefix network aid)) None).
     mintedKey (pmintPrefix network aid @ ''0000000000:'') tip k}"

lemma refresh_snapshot:
  assumes "refreshPetchProgress kv sc network aid (Some tip) (Some pt) = Some snap"
    and "pc_cap_amount pt = Some cap" "pc_mint_limit pt = Some lim" "0 < lim" "0 \<le> cap"
  shows "pp_credited_amount snap = lim * int (pp_credited_count snap)"
    and "pp_credited_count snap \<le> mintSlots cap lim"
    and "\<not> pp_truncated snap \<Longrightarrow> PETCH_REFRESH_MAX_PAGES \<le> n \<Longrightarrow>
      pp_credited_count snap = min (mintSlots cap lim) (card (distinctMints kv network aid tip n))"
proof -
  let ?pre = "pmintPrefix network aid"
  let ?orp = "?pre @ ''0000000000:''"
  obtain st cut fin where p: "refreshPages PETCH_REFRESH_MAX_PAGES (kv ?pre) tip (Some cap) (Some lim) ?orp None freshScan
      = (st, cut, fin)" by (metis prod_cases3)
  have snap: "pp_credited_count snap = rf_creditedCount st" "pp_credited_amount snap = rf_creditedAmount st"
    "pp_truncated snap = (cut \<or> \<not> fin)"
    using assms(1-3) p by (auto simp: refreshPetchProgress_def Let_def split: prod.splits)
  obtain m where m: "st = petchFold tip (Some cap) (Some lim) ?orp freshScan
        (take m (kvKeys PETCH_REFRESH_MAX_PAGES (kv ?pre) None))"
    "fin \<longrightarrow> m = length (kvKeys PETCH_REFRESH_MAX_PAGES (kv ?pre) None) \<and>
       (\<forall>d. kvKeys (PETCH_REFRESH_MAX_PAGES + d) (kv ?pre) None = kvKeys PETCH_REFRESH_MAX_PAGES (kv ?pre) None)"
    using refreshPages_prefix [of PETCH_REFRESH_MAX_PAGES "kv ?pre" tip "Some cap" "Some lim" ?orp None freshScan] p
    by auto
  note count = petchFold_count [OF assms(4,5), of tip ?orp]
  show "pp_credited_amount snap = lim * int (pp_credited_count snap)"
    and "pp_credited_count snap \<le> mintSlots cap lim"
    unfolding snap m(1) by (rule count(2)) (simp add: count(1))
  assume "\<not> pp_truncated snap" "PETCH_REFRESH_MAX_PAGES \<le> n"
  then have "fin" and "kvKeys n (kv ?pre) None = kvKeys PETCH_REFRESH_MAX_PAGES (kv ?pre) None"
    using snap(3) m(2) by (auto dest: le_Suc_ex)
  then show "pp_credited_count snap = min (mintSlots cap lim) (card (distinctMints kv network aid tip n))"
    unfolding snap(1) m(1) using m(2) by (simp add: count(1) distinctMints_def)
qed

lemma slots_amount: "0 < lim \<Longrightarrow> 0 \<le> cap \<Longrightarrow> n \<le> mintSlots cap lim \<Longrightarrow> lim * int n \<le> cap"
proof -
  assume a: "0 < lim" "0 \<le> cap" "n \<le> mintSlots cap lim"
  have "0 \<le> cap div lim" using a(1,2) by (simp add: pos_imp_zdiv_nonneg_iff)
  then have "int n \<le> cap div lim" using a(3) by (simp add: mintSlots_def le_nat_iff)
  then have "int n * lim \<le> cap div lim * lim" using a(1) by (intro mult_right_mono) auto
  then show ?thesis using div_times_le [OF a(1), of cap] by (simp add: mult.commute)
qed

lemma mintedKey_later: "mintedKey orp tip k \<Longrightarrow> tip \<le> tip' \<Longrightarrow> mintedKey orp tip' k"
  by (auto simp: mintedKey_def deepKey_def split: option.splits)

lemma finite_distinctMints [simp]: "finite (distinctMints kv network aid tip n)"
  by (simp add: distinctMints_def)

text \<open>
  Later looks at the store: the keys that were listed are still listed (under the same prefix), and the tip has
  not moved back.
\<close>

definition keepsKeys :: "(string \<Rightarrow> 'c option \<Rightarrow> 'c kvPage) \<Rightarrow> (string \<Rightarrow> 'c option \<Rightarrow> 'c kvPage) \<Rightarrow> string \<Rightarrow> nat \<Rightarrow> bool" where
  "keepsKeys kv kv' pre n = (set (kvKeys n (kv pre) None) \<subseteq> set (kvKeys n (kv' pre) None))"

lemma distinctMints_grow:
  "keepsKeys kv kv' (pmintPrefix network aid) n \<Longrightarrow> tip \<le> tip' \<Longrightarrow>
     distinctMints kv network aid tip n \<subseteq> distinctMints kv' network aid tip' n"
  unfolding distinctMints_def keepsKeys_def using mintedKey_later by blast

lemma full_stays_full:
  assumes "refreshPetchProgress kv sc network aid (Some tip) (Some pt) = Some snap"
    and "refreshPetchProgress kv' sc' network aid (Some tip') (Some pt) = Some snap'"
    and "pc_cap_amount pt = Some cap" "pc_mint_limit pt = Some lim" "0 < lim" "0 \<le> cap" "cap mod lim = 0"
    and "\<not> pp_truncated snap" "\<not> pp_truncated snap'" "pp_credited_amount snap = cap" "tip \<le> tip'"
    and "keepsKeys kv kv' (pmintPrefix network aid) PETCH_REFRESH_MAX_PAGES"
  shows "pp_credited_amount snap' = cap \<and> pp_credited_count snap' = pp_credited_count snap"
proof -
  note a = refresh_snapshot [OF assms(1,3-6)] and b = refresh_snapshot [OF assms(2,3-6)]
  have "lim * int (pp_credited_count snap) = cap" using a(1) assms(10) by simp
  then have "int (pp_credited_count snap) = cap div lim" using assms(5) by auto
  then have full: "pp_credited_count snap = mintSlots cap lim" by (simp add: mintSlots_def)
  then have "mintSlots cap lim \<le> card (distinctMints kv network aid tip PETCH_REFRESH_MAX_PAGES)"
    using a(3) [OF assms(8) le_refl] by simp
  also have "\<dots> \<le> card (distinctMints kv' network aid tip' PETCH_REFRESH_MAX_PAGES)"
    by (intro card_mono distinctMints_grow assms) simp
  finally have "pp_credited_count snap' = mintSlots cap lim" using b(3) [OF assms(9) le_refl] by simp
  with full a(1) b(1) assms(10) show ?thesis by simp
qed

subsection \<open>The mint list agrees with the snapshot\<close>

text \<open>The value the scanner stores under a mint key: the height and the transaction id are those of the key.\<close>

definition eventOf :: "string \<Rightarrow> mintEvent" where
  "eventOf k = \<lparr>me_pending = False, me_minted_at_height = keyField 3 k, me_mint_txid = Some (keyTxid k)\<rparr>"

definition tallyInv :: "int \<Rightarrow> int \<Rightarrow> mintTally \<Rightarrow> bool" where
  "tallyInv cap lim s = (0 < lim \<and> 0 \<le> cap \<and> 0 \<le> mt_creditedCount s \<and> mt_creditedAmount s = lim * mt_creditedCount s \<and>
     nat (mt_creditedCount s) \<le> mintSlots cap lim)"

definition deepHeight :: "int \<Rightarrow> string \<Rightarrow> bool" where
  "deepHeight tip k = (case keyField 3 k of None \<Rightarrow> False | Some h \<Rightarrow> \<not> tip - h + 1 < PMINT_CONFIRMATION_DEPTH)"

lemmas annotate_simps = annotateMint_def eventOf_def seenBefore_def markSeen_def tallyInv_def deepHeight_def Let_def
  PMINT_CONFIRMATION_DEPTH_def

lemma slot_left_int:
  "tallyInv cap lim s \<Longrightarrow> (mt_creditedAmount s + lim > cap) = (mintSlots cap lim \<le> nat (mt_creditedCount s))"
  using slot_left [of lim cap "nat (mt_creditedCount s)"] by (auto simp: tallyInv_def)

interpretation mintTally: capped_scan "\<lambda>s k. fst (annotateMint (Some tip) (Some cap) (Some lim) s (eventOf k))"
    "deepHeight tip" keyTxid "\<lambda>s. set (mt_seen s)" "\<lambda>s. nat (mt_creditedCount s)" "mintSlots cap lim" "tallyInv cap lim"
  for tip cap lim
proof
  fix s :: mintTally and k
  let ?s = "fst (annotateMint (Some tip) (Some cap) (Some lim) s (eventOf k))"
  show "set (mt_seen ?s) = set (mt_seen s) \<and> nat (mt_creditedCount ?s) = nat (mt_creditedCount s)"
    if "\<not> deepHeight tip k \<or> keyTxid k \<in> set (mt_seen s)"
    using that by (auto simp: annotate_simps split: option.splits)
  show "set (mt_seen ?s) = insert (keyTxid k) (set (mt_seen s)) \<and>
      nat (mt_creditedCount ?s) = min (mintSlots cap lim) (Suc (nat (mt_creditedCount s)))"
    if "tallyInv cap lim s" "deepHeight tip k" "keyTxid k \<notin> set (mt_seen s)"
    using that slot_left_int [OF that(1)] by (auto simp: annotate_simps nat_add_distrib split: option.splits)
  show "tallyInv cap lim ?s" if "tallyInv cap lim s"
    using that slot_left_int [OF that]
    by (auto simp: annotate_simps nat_add_distrib algebra_simps split: option.splits)
qed

lemma annotateMints_fold: "fst (annotateMints tip cap lim s es) = foldl (\<lambda>s e. fst (annotateMint tip cap lim s e)) s es"
  by (induction es arbitrary: s) (simp_all add: Let_def case_prod_unfold)

lemma annotate_orphan: "me_pending e \<Longrightarrow> fst (annotateMint tip cap lim s e) = s"
  by (auto simp: annotateMint_def split: bool.splits)

lemma foldl_skip: "foldl (\<lambda>s x. s) s xs = s"
  by (induction xs) auto

lemma canonicalPages_complete:
  "canonicalPages n kv orp c ks = (ks', True) \<Longrightarrow>
     ks' = ks @ filter (\<lambda>k. \<not> startsWith k orp) (kvKeys n kv c) \<and> (\<forall>d. kvKeys (n + d) kv c = kvKeys n kv c)"
proof (induction n arbitrary: c ks)
  case (Suc n)
  show ?case
  proof (cases "kp_complete (kv c) \<or> kp_cursor (kv c) = None")
    case True
    then show ?thesis using Suc.prems by (auto simp: Let_def kvKeys_stop split: if_splits option.splits)
  next
    case False
    then obtain c' where c': "\<not> kp_complete (kv c)" "kp_cursor (kv c) = Some c'" by auto
    then show ?thesis
      using Suc.prems Suc.IH [of "Some c'" "ks @ filter (\<lambda>k. \<not> startsWith k orp) (kp_keys (kv c))"]
      by (auto simp: Let_def kvKeys_next split: if_splits)
  qed
qed simp

text \<open>
  The store is as the scanner leaves it: behind every listed mint key that is not an orphan hint, a confirmed
  event with the height and transaction id of the key, in well-formed keys.
\<close>

definition scannerStore ::
  "(string \<Rightarrow> 'c option \<Rightarrow> 'c kvPage) \<Rightarrow> (string \<Rightarrow> mintEvent option) \<Rightarrow> string \<Rightarrow> string \<Rightarrow> nat \<Rightarrow> bool" where
  "scannerStore kv get network aid n =
     (\<forall>k \<in> set (kvKeys n (kv (pmintPrefix network aid)) None).
        \<not> startsWith k (pmintPrefix network aid @ ''0000000000:'') \<longrightarrow>
          get k = Some (eventOf k) \<and> hex64 (keyTxid k) \<and> keyField 2 k \<noteq> None)"

lemma map_filter_all: "(\<And>x. x \<in> set xs \<Longrightarrow> f x = Some (g x)) \<Longrightarrow> List.map_filter f xs = map g xs"
  by (induction xs) (auto simp: List.map_filter_simps)

lemma load_count:
  assumes "\<not> lm_canonical_truncated (loadCanonicalPmints kv get network aid (Some tip) (Some cap) (Some lim))"
    and "0 < lim" "0 \<le> cap" "scannerStore kv get network aid 60" "60 \<le> n"
  defines "r \<equiv> loadCanonicalPmints kv get network aid (Some tip) (Some cap) (Some lim)"
  shows "nat (lm_credited_count r) = min (mintSlots cap lim) (card (distinctMints kv network aid tip n))"
    and "lm_cumulative_minted r = lim * lm_credited_count r" "0 \<le> lm_credited_count r"
proof -
  let ?pre = "pmintPrefix network aid"
  let ?orp = "?pre @ ''0000000000:''"
  let ?s0 = "\<lparr>mt_creditedCount = 0, mt_creditedAmount = 0, mt_seen = []\<rparr>"
  let ?ks = "filter (\<lambda>k. \<not> startsWith k ?orp) (kvKeys 60 (kv ?pre) None)"
  let ?step = "\<lambda>s k. fst (annotateMint (Some tip) (Some cap) (Some lim) s (eventOf k))"
  obtain ks where c: "canonicalPages 60 (kv ?pre) ?orp None [] = (ks, True)"
    using assms(1) by (auto simp: loadCanonicalPmints_def Let_def split: prod.splits)
  note keys = canonicalPages_complete [OF c]
  have evs: "List.map_filter get ?ks = map eventOf ?ks"
    using assms(4) by (intro map_filter_all) (auto simp: scannerStore_def)
  have r: "lm_credited_count r = mt_creditedCount (foldl ?step ?s0 ?ks)"
    "lm_cumulative_minted r = mt_creditedAmount (foldl ?step ?s0 ?ks)"
    unfolding r_def loadCanonicalPmints_def Let_def case_prod_unfold c
    by (simp_all add: keys evs annotateMints_fold annotate_orphan foldl_skip foldl_map)
  have t: "mintTally.tallied cap lim ?s0" "set (mt_seen ?s0) = {}"
    using assms(2,3) by (simp_all add: mintTally.tallied_def tallyInv_def)
  have same: "{k \<in> set ?ks. deepHeight tip k} = {k \<in> set (kvKeys n (kv ?pre) None). mintedKey ?orp tip k}"
  proof -
    have "kvKeys n (kv ?pre) None = kvKeys 60 (kv ?pre) None" using keys assms(5) by (auto dest: le_Suc_ex)
    then show ?thesis
      using assms(4) by (auto simp: scannerStore_def mintedKey_def deepKey_def deepHeight_def split: option.splits)
  qed
  show "nat (lm_credited_count r) = min (mintSlots cap lim) (card (distinctMints kv network aid tip n))"
    unfolding r(1) using mintTally.scan_count [OF t, of tip ?ks] by (simp only: same distinctMints_def)
  have "tallyInv cap lim (foldl ?step ?s0 ?ks)"
    using mintTally.scan [OF t(1), of tip ?ks] unfolding mintTally.tallied_def by blast
  then show "lm_cumulative_minted r = lim * lm_credited_count r" "0 \<le> lm_credited_count r"
    unfolding r tallyInv_def by blast+
qed

subsection \<open>The credited claims\<close>

text \<open>The first occurrence of each transaction, in listing order.\<close>

fun firsts :: "string set \<Rightarrow> string list \<Rightarrow> string list" where
  "firsts seen [] = []"
| "firsts seen (x # xs) = (if x \<in> seen then firsts seen xs else x # firsts (insert x seen) xs)"

lemma firsts_append: "firsts seen (xs @ ys) = firsts seen xs @ firsts (seen \<union> set xs) ys"
  by (induction seen xs rule: firsts.induct) (auto simp: insert_absorb)

lemma firsts_props: "distinct (firsts seen xs) \<and> set (firsts seen xs) = set xs - seen"
  by (induction seen xs rule: firsts.induct) auto

definition deepTxids :: "int \<Rightarrow> string list \<Rightarrow> string list" where
  "deepTxids tip ks = map keyTxid (filter (deepKey tip) ks)"

lemma deepTxids_append: "deepTxids tip (xs @ ys) = deepTxids tip xs @ deepTxids tip ys"
  by (simp add: deepTxids_def)

definition claimInv :: "int \<Rightarrow> int \<Rightarrow> string list \<Rightarrow> claimScan \<Rightarrow> bool" where
  "claimInv tip maxClaims ks st =
     (set (cl_seen st) = set (deepTxids tip ks) \<and> cl_credited st = take (nat maxClaims) (firsts {} (deepTxids tip ks)) \<and>
      cl_creditedBig st = int (length (cl_credited st)) \<and> (cl_capReached st \<longrightarrow> cl_creditedBig st \<ge> maxClaims))"

lemma claimInv_step:
  assumes "claimInv tip maxClaims ks st"
  shows "claimInv tip maxClaims (ks @ [k]) (claimStep tip maxClaims st k)"
proof (cases "deepKey tip k \<and> keyTxid k \<notin> set (cl_seen st)")
  case False
  then have same: "claimStep tip maxClaims st k = st"
    by (auto simp: claimStep_def deepKey_def Let_def split: option.splits)
  have "set (deepTxids tip (ks @ [k])) = set (deepTxids tip ks)"
    "firsts {} (deepTxids tip (ks @ [k])) = firsts {} (deepTxids tip ks)"
    using False assms by (auto simp: deepTxids_def firsts_append claimInv_def)
  with assms show ?thesis unfolding same claimInv_def by metis
next
  case True
  let ?n = "length (firsts {} (deepTxids tip ks))"
  have fr: "firsts {} (deepTxids tip (ks @ [k])) = firsts {} (deepTxids tip ks) @ [keyTxid k]"
    using True assms by (simp add: deepTxids_def firsts_append claimInv_def)
  have len: "length (cl_credited st) = min ?n (nat maxClaims)" using assms by (simp add: claimInv_def)
  have full: "(cl_creditedBig st \<ge> maxClaims) = (nat maxClaims \<le> ?n)"
    using assms len by (auto simp: claimInv_def nat_le_iff min_def)
  have step: "claimStep tip maxClaims st k =
      (if cl_creditedBig st \<ge> maxClaims then st\<lparr>cl_seen := keyTxid k # cl_seen st, cl_capReached := True\<rparr>
       else st\<lparr>cl_seen := keyTxid k # cl_seen st, cl_creditedBig := cl_creditedBig st + 1,
         cl_credited := cl_credited st @ [keyTxid k]\<rparr>)"
    using True by (auto simp: claimStep_def deepKey_def Let_def split: option.splits)
  have seen: "set (deepTxids tip (ks @ [k])) = insert (keyTxid k) (set (cl_seen st))"
    using True assms by (auto simp: deepTxids_def claimInv_def)
  show ?thesis
  proof (cases "cl_creditedBig st \<ge> maxClaims")
    case at_cap: True
    with full fr have "take (nat maxClaims) (firsts {} (deepTxids tip (ks @ [k])))
        = take (nat maxClaims) (firsts {} (deepTxids tip ks))" by simp
    with at_cap assms step seen show ?thesis unfolding claimInv_def by simp
  next
    case False
    with full fr have "take (nat maxClaims) (firsts {} (deepTxids tip (ks @ [k])))
        = take (nat maxClaims) (firsts {} (deepTxids tip ks)) @ [keyTxid k]" by simp
    moreover have "\<not> cl_capReached st" "cl_credited st = firsts {} (deepTxids tip ks)"
      "cl_creditedBig st = int (length (firsts {} (deepTxids tip ks)))"
      using False full assms by (auto simp: claimInv_def)
    ultimately show ?thesis using False full step seen unfolding claimInv_def by simp
  qed
qed

lemma claimInv_fold: "claimInv tip m ks st \<Longrightarrow> claimInv tip m (ks @ ks') (foldl (claimStep tip m) st ks')"
proof (induction ks' arbitrary: ks st)
  case (Cons k ks')
  from Cons.IH [OF claimInv_step [OF Cons.prems, of k]] show ?case by simp
qed simp

text \<open>Once the cap is full, nothing behind it changes the credited list.\<close>

lemma claim_cap_full:
  "cl_creditedBig st \<ge> m \<Longrightarrow> claimInv tip m ks st \<Longrightarrow>
     cl_credited st = take (nat m) (firsts {} (deepTxids tip (ks @ later)))"
  by (auto simp: claimInv_def deepTxids_append firsts_append)

lemma claimPages_spec:
  assumes "claimInv tip m ks st" "claimPages n kv tip m c st = (st', fin)" "fin \<or> cl_capReached st'"
  shows "cl_credited st' = take (nat m) (firsts {} (deepTxids tip (ks @ kvKeys (n + d) kv c)))"
  using assms
proof (induction n arbitrary: c st ks)
  case 0
  then show ?case using claim_cap_full [of m st tip ks] by (auto simp: claimInv_def)
next
  case (Suc n)
  let ?st = "foldl (claimStep tip m) st (kp_keys (kv c))"
  have i: "claimInv tip m (ks @ kp_keys (kv c)) ?st" by (rule claimInv_fold [OF Suc.prems(1)])
  consider "kp_complete (kv c) \<or> kp_cursor (kv c) = None" "st' = ?st \<or> st' = ?st\<lparr>cl_capReached := True\<rparr>"
    | "\<not> kp_complete (kv c)" "cl_creditedBig ?st \<ge> m" "st' = ?st\<lparr>cl_capReached := True\<rparr>"
    | c' where "\<not> kp_complete (kv c)" "kp_cursor (kv c) = Some c'" "claimPages n kv tip m (Some c') ?st = (st', fin)"
    using Suc.prems(2) by (auto simp: Let_def split: if_splits option.splits)
  then show ?case
  proof cases
    case 1
    then show ?thesis using i by (auto simp: claimInv_def kvKeys_stop)
  next
    case 2
    obtain later where "kvKeys (Suc n + d) kv c = kp_keys (kv c) @ later" by (simp add: kvKeys.simps(2))
    then show ?thesis using 2 claim_cap_full [OF 2(2) i, of later] by simp
  next
    case 3
    then show ?thesis using Suc.IH [OF i 3(3) Suc.prems(3)] by (simp add: kvKeys_next)
  qed
qed

text \<open>The distinct deep claims of a drop in listing order, from \<open>n\<close> pages of the store.\<close>

definition claimsInOrder :: "(string \<Rightarrow> 'c option \<Rightarrow> 'c kvPage) \<Rightarrow> string \<Rightarrow> string \<Rightarrow> int \<Rightarrow> nat \<Rightarrow> string list" where
  "claimsInOrder kv network dropId tip n = firsts {} (deepTxids tip (kvKeys n (kv (dclaimPrefix network dropId)) None))"

lemma distinct_claimsInOrder: "distinct (claimsInOrder kv network dropId tip n)"
  using firsts_props by (simp add: claimsInOrder_def)

lemma credited_claims:
  assumes "maxClaimsOf cap per = Some m"
    and "cc_resolvable (loadCreditedDclaims kv network dropId (Some tip) cap per)"
    and "DCLAIM_CREDIT_PAGE_GUARD \<le> n"
  shows "cc_credited_txids (loadCreditedDclaims kv network dropId (Some tip) cap per)
    = take (nat m) (claimsInOrder kv network dropId tip n)"
proof -
  let ?s0 = "\<lparr>cl_credited = [], cl_seen = [], cl_creditedBig = 0, cl_capReached = False\<rparr>"
  obtain st fin where p: "claimPages DCLAIM_CREDIT_PAGE_GUARD (kv (dclaimPrefix network dropId)) tip m None ?s0 = (st, fin)"
    by fastforce
  have r: "fin \<or> cl_capReached st" using assms(1,2) p by (simp add: loadCreditedDclaims_def)
  have i: "claimInv tip m [] ?s0" by (simp add: claimInv_def deepTxids_def)
  obtain d where n: "n = DCLAIM_CREDIT_PAGE_GUARD + d" using assms(3) le_Suc_ex by blast
  from claimPages_spec [OF i p r, of d] show ?thesis
    using assms(1) p by (simp add: loadCreditedDclaims_def claimsInOrder_def n)
qed

text \<open>What is never credited: nothing without a resolvable cap and tip.\<close>

lemma credited_none:
  "maxClaimsOf cap per = None \<or> tip = None \<Longrightarrow>
     loadCreditedDclaims kv network dropId tip cap per = \<lparr>cc_credited_txids = [], cc_list_complete = False, cc_resolvable = False\<rparr>"
  by (auto simp: loadCreditedDclaims_def split: option.splits)

end
