(* ===== verification/Script_Envelope.thy ===== *)
theory Script_Envelope
  imports Tacit_Prelude
begin

text \<open>
  The Taproot leaf script that carries a payload on Bitcoin: \<open>_encodePush\<close>, \<open>encodeEnvelopeScript\<close> and
  \<open>decodeEnvelopeScript\<close> of \<open>dapp/tacit.js\<close>, with the decoders of the indexer (\<open>worker/src/index.js\<close>) and of
  the relay (\<open>worker-relay/src/lib/btc-pool-chain.js\<close>). The push loop runs over the rest of the script
  instead of an index into it: \<open>p + n > script.length\<close> is a test on the length of the rest.
\<close>

definition OP_FALSE :: nat where "OP_FALSE = 0x00"
definition OP_PUSHDATA1 :: nat where "OP_PUSHDATA1 = 0x4c"
definition OP_PUSHDATA2 :: nat where "OP_PUSHDATA2 = 0x4d"
definition OP_IF :: nat where "OP_IF = 0x63"
definition OP_ENDIF :: nat where "OP_ENDIF = 0x68"
definition OP_CHECKSIG :: nat where "OP_CHECKSIG = 0xac"
definition ENVELOPE_MAGIC :: bytes where "ENVELOPE_MAGIC = [0x54, 0x41, 0x43, 0x49, 0x54]"
definition ENVELOPE_VERSION :: nat where "ENVELOPE_VERSION = 1"
definition MAX_SCRIPT_PUSH :: nat where "MAX_SCRIPT_PUSH = 520"

lemmas script_consts = OP_FALSE_def OP_PUSHDATA1_def OP_PUSHDATA2_def OP_IF_def OP_ENDIF_def OP_CHECKSIG_def
  ENVELOPE_MAGIC_def ENVELOPE_VERSION_def MAX_SCRIPT_PUSH_def

subsection \<open>Writing\<close>

definition encodePush :: "bytes \<Rightarrow> bytes res" where
  "encodePush d =
     (if length d = 0 then Inr [byte_of OP_FALSE]
      else if length d \<le> 75 then Inr ([byte_of (length d)] @ d)
      else if length d \<le> 255 then Inr ([byte_of OP_PUSHDATA1, byte_of (length d)] @ d)
      else if length d \<le> 65535 then Inr ([byte_of OP_PUSHDATA2] @ le_bytes 2 (int (length d)) @ d)
      else Inl (Err ''push data too large''))"

function payloadChunks :: "bytes \<Rightarrow> nat \<Rightarrow> bytes list" where
  "payloadChunks payload i =
     (if i < length payload
      then slice payload i (min (i + MAX_SCRIPT_PUSH) (length payload)) # payloadChunks payload (i + MAX_SCRIPT_PUSH)
      else [])"
  by pat_completeness auto
termination
  by (relation "measure (\<lambda>(payload, i). length payload - i)") (auto simp: MAX_SCRIPT_PUSH_def)

declare payloadChunks.simps [simp del]

definition encodeEnvelopeScript :: "bytes \<Rightarrow> bytes \<Rightarrow> bytes res" where
  "encodeEnvelopeScript signingPubXonly payload =
     (if length signingPubXonly \<noteq> 32 then Inl (Err ''signing pubkey must be 32 bytes (x-only)'')
      else concatParts
        ([encodePush signingPubXonly, Inr [byte_of OP_CHECKSIG], Inr [byte_of OP_FALSE, byte_of OP_IF]]
         @ map encodePush ([ENVELOPE_MAGIC, [byte_of ENVELOPE_VERSION]] @ payloadChunks payload 0)
         @ [Inr [byte_of OP_ENDIF]]))"

subsection \<open>Reading\<close>

definition takeData :: "nat \<Rightarrow> bytes \<Rightarrow> (bytes \<times> bytes) option" where
  "takeData n rest = (if n > length rest then None else Some (take n rest, drop n rest))"

text \<open>One push: the data and what follows it. \<open>op\<close> has been read already.\<close>

definition readPush :: "nat \<Rightarrow> bytes \<Rightarrow> (bytes \<times> bytes) option" where
  "readPush op rest =
     (if op \<ge> 1 \<and> op \<le> 75 then takeData op rest
      else if op = OP_PUSHDATA1 then
        (if length rest < 1 then None else takeData (u8 rest 0) (drop 1 rest))
      else if op = OP_PUSHDATA2 then
        (if length rest < 2 then None else takeData (u8 rest 0 + 256 * u8 rest 1) (drop 2 rest))
      else if op = OP_FALSE then Some ([], rest)
      else None)"

lemma readPush_shorter: "readPush op rest = Some (d, rest') \<Longrightarrow> length rest' \<le> length rest"
  by (auto simp: readPush_def takeData_def split: if_splits)

text \<open>The pushes up to \<open>OP_ENDIF\<close> and the bytes behind it; \<open>None\<close> when a push is cut short or \<open>OP_ENDIF\<close> is missing.\<close>

function parsePushes :: "bytes \<Rightarrow> (bytes list \<times> bytes) option" where
  "parsePushes [] = None"
| "parsePushes (b # rest) =
     (if unat b = OP_ENDIF then Some ([], rest)
      else (case readPush (unat b) rest of None \<Rightarrow> None
        | Some (d, rest') \<Rightarrow> (case parsePushes rest' of None \<Rightarrow> None
          | Some (ds, fin) \<Rightarrow> Some (d # ds, fin))))"
  by pat_completeness auto
termination
  by (relation "measure length") (auto dest: readPush_shorter)

record envelope =
  signingPubXonly :: bytes
  env_opcode :: nat
  env_payload :: bytes

definition decodeEnvelopeScript :: "bytes \<Rightarrow> envelope option" where
  "decodeEnvelopeScript script = do {
     require (length script \<ge> 36);
     require (u8 script 0 = 32);
     require (1 + 32 \<le> length script);
     let pub = slice script 1 33;
     require (33 + 1 \<le> length script \<and> u8 script 33 = OP_CHECKSIG);
     require (34 + 2 \<le> length script \<and> u8 script 34 = OP_FALSE \<and> u8 script 35 = OP_IF);
     (pushes, fin) \<leftarrow> parsePushes (drop 36 script);
     require (fin = []);
     require (length pushes \<ge> 3);
     require (length (pushes ! 0) = length ENVELOPE_MAGIC);
     require (pushes ! 0 = ENVELOPE_MAGIC);
     require (length (pushes ! 1) = 1 \<and> u8 (pushes ! 1) 0 = ENVELOPE_VERSION);
     let payload = concat (drop 2 pushes);
     require (length payload \<ge> 1);
     Some \<lparr>signingPubXonly = pub, env_opcode = u8 payload 0, env_payload = payload\<rparr>
   }"

definition decodeEnvelopeScript_worker :: "bytes \<Rightarrow> envelope option" where
  "decodeEnvelopeScript_worker script = do {
     require (length script \<ge> 36);
     require (u8 script 0 = 32);
     require (1 + 32 \<le> length script);
     let pub = slice script 1 33;
     require (33 + 1 \<le> length script \<and> u8 script 33 = 0xac);
     require (34 + 2 \<le> length script \<and> u8 script 34 = 0x00 \<and> u8 script 35 = 0x63);
     (pushes, fin) \<leftarrow> parsePushes (drop 36 script);
     require (fin = [] \<and> length pushes \<ge> 3);
     require (length (pushes ! 0) = 5);
     require (pushes ! 0 = ENVELOPE_MAGIC);
     require (length (pushes ! 1) = 1 \<and> u8 (pushes ! 1) 0 = 0x01);
     let payload = concat (drop 2 pushes);
     require (length payload \<ge> 1);
     Some \<lparr>signingPubXonly = pub, env_opcode = u8 payload 0, env_payload = payload\<rparr>
   }"

text \<open>The relay's loop finds the length first and makes one bounds check for every kind of push.\<close>

definition pushLength :: "nat \<Rightarrow> bytes \<Rightarrow> (nat \<times> bytes) option" where
  "pushLength op rest =
     (if op \<ge> 1 \<and> op \<le> 75 then Some (op, rest)
      else if op = 0x4c then (if length rest < 1 then None else Some (u8 rest 0, drop 1 rest))
      else if op = 0x4d then (if length rest < 2 then None else Some (u8 rest 0 + 256 * u8 rest 1, drop 2 rest))
      else if op = 0x00 then Some (0, rest)
      else None)"

lemma pushLength_shorter: "pushLength op rest = Some (n, rest') \<Longrightarrow> length rest' \<le> length rest"
  by (auto simp: pushLength_def split: if_splits)

function relayPushes :: "bytes \<Rightarrow> (bytes list \<times> bytes) option" where
  "relayPushes [] = None"
| "relayPushes (b # rest) =
     (if unat b = 0x68 then Some ([], rest)
      else (case pushLength (unat b) rest of None \<Rightarrow> None
        | Some (n, rest') \<Rightarrow>
            if n > length rest' then None
            else (case relayPushes (drop n rest') of None \<Rightarrow> None
              | Some (ds, fin) \<Rightarrow> Some (take n rest' # ds, fin))))"
  by pat_completeness auto
termination
  by (relation "measure length") (auto dest: pushLength_shorter)

definition decodeEnvelopeScript_relay :: "bytes \<Rightarrow> (nat \<times> bytes) option" where
  "decodeEnvelopeScript_relay script = do {
     require (length script \<ge> 36);
     require (u8 script 0 = 32);
     require (33 + 1 \<le> length script \<and> u8 script 33 = 0xac);
     require (34 + 2 \<le> length script \<and> u8 script 34 = 0x00 \<and> u8 script 35 = 0x63);
     (pushes, fin) \<leftarrow> relayPushes (drop 36 script);
     require (fin = [] \<and> length pushes \<ge> 3);
     require (length (pushes ! 0) = 5 \<and> pushes ! 0 = ENVELOPE_MAGIC);
     require (length (pushes ! 1) = 1 \<and> u8 (pushes ! 1) 0 = 0x01);
     let payload = concat (drop 2 pushes);
     require (length payload \<noteq> 0);
     Some (u8 payload 0, payload)
   }"

subsection \<open>The three readers agree\<close>

lemma readPush_pushLength:
  "readPush op rest = (case pushLength op rest of None \<Rightarrow> None | Some (n, rest') \<Rightarrow> takeData n rest')"
  by (auto simp: readPush_def pushLength_def takeData_def script_consts)

lemma relayPushes_eq: "relayPushes s = parsePushes s"
  by (induction s rule: relayPushes.induct)
    (auto simp: readPush_pushLength takeData_def script_consts split: option.splits)

lemma worker_script_eq: "decodeEnvelopeScript_worker = decodeEnvelopeScript"
  by (rule ext) (auto simp: decodeEnvelopeScript_worker_def decodeEnvelopeScript_def script_consts
      split: option.splits intro!: Option.bind_cong)

lemma relay_script_eq:
  "decodeEnvelopeScript_relay s = map_option (\<lambda>e. (env_opcode e, env_payload e)) (decodeEnvelopeScript s)"
  by (cases "parsePushes (drop 36 s)")
    (auto simp: decodeEnvelopeScript_relay_def decodeEnvelopeScript_def relayPushes_eq script_consts Let_def
      Suc_le_eq)

subsection \<open>What is written is read back\<close>

lemma unat_word_of_mod: "unat (word_of_int (int n mod 256) :: byte) = n mod 256"
  unfolding unat_eq_nat_uint uint_byte_of_mod by (simp add: nat_mod_distrib)

lemma u8_le_bytes_2: "n < 65536 \<Longrightarrow> u8 (le_bytes 2 (int n) @ r) 0 + 256 * u8 (le_bytes 2 (int n) @ r) (Suc 0) = n"
proof -
  assume "n < 65536"
  moreover have "int n div 256 = int (n div 256)" by simp
  then have "u8 (le_bytes 2 (int n) @ r) 0 = n mod 256" "u8 (le_bytes 2 (int n) @ r) (Suc 0) = n div 256 mod 256"
    by (simp_all only: le_bytes_2 u8_def append_Cons nth_Cons_0 nth_Cons_Suc unat_word_of_mod)
  ultimately show ?thesis by simp
qed

lemma parsePushes_push:
  assumes "encodePush d = Inr e"
  shows "parsePushes (e @ r) = map_option (\<lambda>(ds, fin). (d # ds, fin)) (parsePushes r)"
  using assms u8_le_bytes_2 [of "length d" "d @ r"]
  by (auto simp: encodePush_def readPush_def takeData_def script_consts u8_Cons Suc_le_eq split: if_splits option.splits)

lemma parsePushes_map:
  "concatParts (map encodePush ds @ [Inr [byte_of OP_ENDIF]]) = Inr q \<Longrightarrow> parsePushes q = Some (ds, [])"
  by (induction ds arbitrary: q) (auto simp: wire_simps parsePushes_push script_consts)

lemma payloadChunks_concat: "concat (payloadChunks payload i) = drop i payload"
proof (induction payload i rule: payloadChunks.induct)
  case (1 payload i)
  show ?case
  proof (cases "i < length payload")
    case True
    have "slice payload i (min (i + 520) (length payload)) @ drop (i + 520) payload = drop i payload"
    proof (cases "i + 520 \<le> length payload")
      case le: True
      have "take 520 (drop i payload) @ drop 520 (drop i payload) = drop i payload"
        by (rule append_take_drop_id)
      with le show ?thesis by (simp add: slice_def min_def add.commute)
    qed (simp add: slice_def)
    then show ?thesis
      using 1 True by (simp add: payloadChunks.simps [of payload i] MAX_SCRIPT_PUSH_def)
  next
    case False
    then show ?thesis by (simp add: payloadChunks.simps [of payload i])
  qed
qed

lemma payloadChunks_Nil: "(payloadChunks payload 0 = []) = (payload = [])"
  by (simp add: payloadChunks.simps [of payload 0])

lemma decode_encode_script:
  assumes "encodeEnvelopeScript pub payload = Inr s" "payload \<noteq> []"
  shows "decodeEnvelopeScript s = Some \<lparr>signingPubXonly = pub, env_opcode = u8 payload 0, env_payload = payload\<rparr>"
proof -
  obtain q where pub: "length pub = 32"
    and q: "concatParts (map encodePush ([ENVELOPE_MAGIC, [byte_of ENVELOPE_VERSION]] @ payloadChunks payload 0)
              @ [Inr [byte_of OP_ENDIF]]) = Inr q"
    and s: "s = byte_of 32 # pub @ [byte_of OP_CHECKSIG, byte_of OP_FALSE, byte_of OP_IF] @ q"
    using assms(1)
    by (auto simp: encodeEnvelopeScript_def encodePush_def [of pub] wire_simps split: if_splits)
  have "parsePushes q = Some ([ENVELOPE_MAGIC, [byte_of ENVELOPE_VERSION]] @ payloadChunks payload 0, [])"
    by (rule parsePushes_map [OF q])
  moreover have "drop 36 s = q" using s pub by simp
  moreover have "payloadChunks payload 0 \<noteq> []" "concat (payloadChunks payload 0) = payload"
    using assms(2) payloadChunks_concat [of payload 0] by (simp_all add: payloadChunks_Nil)
  ultimately show ?thesis
    using s pub assms(2)
    by (cases payload; cases "payloadChunks payload 0")
      (auto simp: decodeEnvelopeScript_def script_consts wire_simps Let_def)
qed

text \<open>A script is built for every payload: the pieces are at most 520 bytes, which a push can hold.\<close>

lemma payloadChunks_small: "c \<in> set (payloadChunks payload i) \<Longrightarrow> length c \<le> 520"
  by (induction payload i rule: payloadChunks.induct)
    (subst (asm) (2) payloadChunks.simps, auto simp: MAX_SCRIPT_PUSH_def split: if_splits)

lemma concatParts_pushes:
  "(\<And>d. d \<in> set ds \<Longrightarrow> length d \<le> 520) \<Longrightarrow> \<exists>q. concatParts (map encodePush ds @ [Inr e]) = Inr q"
proof (induction ds)
  case (Cons d ds)
  then obtain q where "concatParts (map encodePush ds @ [Inr e]) = Inr q" by auto
  moreover have "length d \<le> 520" using Cons.prems by simp
  then obtain p where "encodePush d = Inr p" by (cases "encodePush d") (auto simp: encodePush_def split: if_splits)
  ultimately show ?case by (simp add: concatParts.simps)
qed (simp add: concatParts.simps)

lemma encode_script_total:
  assumes "length pub = 32"
  shows "\<exists>s. encodeEnvelopeScript pub payload = Inr s"
proof -
  obtain q where "concatParts (map encodePush ([ENVELOPE_MAGIC, [byte_of ENVELOPE_VERSION]] @ payloadChunks payload 0)
       @ [Inr [byte_of OP_ENDIF]]) = Inr q"
    using concatParts_pushes [of "[ENVELOPE_MAGIC, [byte_of ENVELOPE_VERSION]] @ payloadChunks payload 0"]
      payloadChunks_small by (fastforce simp: script_consts)
  then show ?thesis
    using assms by (simp add: encodeEnvelopeScript_def encodePush_def [of pub] concatParts.simps)
qed

end
