(* ===== verification/Registry_Scan.thy ===== *)
theory Registry_Scan
  imports Script_Envelope Token_Readers Token_Etch Token_Drop Kv_Keys
begin

text \<open>
  The indexer's block scan (\<open>scanForEtches\<close> in \<open>worker/src/index.js\<close>) on the token opcodes: etches, mints, burns,
  fair-launch deployments and mints, drops, reclaims and claims. A transaction is turned into the list of store
  writes its branch makes, in order, so that a scan that dies between two writes is the application of a prefix.

  The store is a record with one map per key prefix. Identifiers and transaction ids are byte strings, in hex where
  they are part of a key. The Pedersen opening check and the chain lookup of a funding witness are parameters. Block
  times, the archive copy of a transaction and the branches of the other opcodes are left out: they write under other
  prefixes, except for the holder counters, which are bumped by the same function.
\<close>

subsection \<open>Keys\<close>

definition hexDigitOf :: "nat \<Rightarrow> char" where
  "hexDigitOf n = (if n < 10 then char_of (48 + n) else char_of (87 + n))"

primrec bytesToHex :: "bytes \<Rightarrow> string" where
  "bytesToHex [] = []"
| "bytesToHex (b # bs) = hexDigitOf (unat b div 16) # hexDigitOf (unat b mod 16) # bytesToHex bs"

definition netKey :: "string \<Rightarrow> string \<Rightarrow> string \<Rightarrow> string" where
  "netKey kind network rest =
     (if network = ''signet'' then kind @ '':'' @ rest else kind @ '':'' @ network @ '':'' @ rest)"

definition assetKey :: "string \<Rightarrow> string \<Rightarrow> string" where
  "assetKey network aid = netKey ''asset'' network aid"

definition petchKey :: "string \<Rightarrow> string \<Rightarrow> string" where
  "petchKey network aid = netKey ''petch'' network aid"

definition mintKeyFor :: "string \<Rightarrow> string \<Rightarrow> string \<Rightarrow> string" where
  "mintKeyFor network aid txid = netKey ''mint'' network (aid @ '':'' @ txid)"

definition burnKeyFor :: "string \<Rightarrow> string \<Rightarrow> string \<Rightarrow> string" where
  "burnKeyFor network aid txid = netKey ''burn'' network (aid @ '':'' @ txid)"

definition dropKey :: "string \<Rightarrow> string \<Rightarrow> string" where
  "dropKey network dropId = netKey ''drop'' network dropId"

definition dropReclaimKey :: "string \<Rightarrow> string \<Rightarrow> string" where
  "dropReclaimKey network dropId = netKey ''drop-reclaim'' network dropId"

definition holderCountKey :: "string \<Rightarrow> string \<Rightarrow> string" where
  "holderCountKey network aid = netKey ''holdercnt'' network aid"

definition holderSeenKey :: "string \<Rightarrow> string \<Rightarrow> string \<Rightarrow> string" where
  "holderSeenKey network aid spk = netKey ''holderseen'' network (aid @ '':'' @ spk)"

definition assetIdFor :: "(bytes \<Rightarrow> bytes) \<Rightarrow> bytes \<Rightarrow> int \<Rightarrow> bytes" where
  "assetIdFor sha256 etchTxid etchVout = sha256 (rev etchTxid @ le_bytes 4 etchVout)"

text \<open>The key of the first funding input, from its witness element as the chain API spells it.\<close>

definition hexDigitAnyCase :: "char \<Rightarrow> bool" where
  "hexDigitAnyCase c = (hexDigit c \<or> (65 \<le> (of_char c :: nat) \<and> (of_char c :: nat) \<le> 70))"

definition toLower :: "char \<Rightarrow> char" where
  "toLower c = (if 65 \<le> (of_char c :: nat) \<and> (of_char c :: nat) \<le> 90 then char_of ((of_char c :: nat) + 32) else c)"

definition dropDepositorXonly :: "string option \<Rightarrow> string option" where
  "dropDepositorXonly w = (case w of None \<Rightarrow> None
     | Some s \<Rightarrow> if length s = 66 \<and> s ! 0 = CHR ''0'' \<and> (s ! 1 = CHR ''2'' \<or> s ! 1 = CHR ''3'') \<and>
           list_all hexDigitAnyCase (drop 2 s) then Some (map toLower (drop 2 s)) else None)"

subsection \<open>What is stored\<close>

record etchMeta =
  em_asset_id :: bytes
  em_etch :: indexedEtch
  em_etch_txid :: bytes
  em_etched_at_height :: nat
  em_tx_index :: nat

record issuedMeta =
  is_mint :: indexedMint
  is_mint_txid :: bytes
  is_minted_at_height :: nat

record burnMeta =
  bu_asset_id :: bytes
  bu_burned_amount :: int
  bu_burn_txid :: bytes
  bu_burned_at_height :: nat

record petchMeta =
  pe_asset_id :: bytes
  pe_petch :: petched
  pe_etch_txid :: bytes
  pe_etched_at_height :: nat

record mintMeta =
  mm_asset_id :: bytes
  mm_pmint :: pmint
  mm_mint_txid :: bytes
  mm_minted_at_height :: nat
  mm_tx_index :: nat

record dropMeta =
  dm_drop_id :: bytes
  dm_drop_reveal_txid :: bytes
  dm_drop :: cdrop
  dm_depositor_xonly :: "string option"
  dm_drop_at_height :: nat

record reclaimMeta =
  rm_reclaim :: dropReclaim
  rm_reclaim_txid :: bytes
  rm_reclaim_at_height :: nat

record leafMeta =
  lf_drop_id :: bytes
  lf_leaf_index :: int
  lf_eth_address :: bytes
  lf_claim_txid :: bytes
  lf_claimed_at_height :: nat

record claimMeta =
  cm_drop_id :: bytes
  cm_claim :: dclaim
  cm_claim_txid :: bytes
  cm_tx_index :: nat
  cm_claimed_at_height :: nat

record registry =
  rg_asset :: "string \<rightharpoonup> etchMeta"
  rg_mint :: "string \<rightharpoonup> issuedMeta"
  rg_burn :: "string \<rightharpoonup> burnMeta"
  rg_petch :: "string \<rightharpoonup> petchMeta"
  rg_pmint :: "string \<rightharpoonup> mintMeta"
  rg_drop :: "string \<rightharpoonup> dropMeta"
  rg_reclaim :: "string \<rightharpoonup> reclaimMeta"
  rg_leaf :: "string \<rightharpoonup> leafMeta"
  rg_dclaim :: "string \<rightharpoonup> claimMeta"
  rg_holderCount :: "string \<rightharpoonup> nat"
  rg_holderSeen :: "string \<rightharpoonup> unit"

definition emptyRegistry :: registry where
  "emptyRegistry = \<lparr>rg_asset = Map.empty, rg_mint = Map.empty, rg_burn = Map.empty, rg_petch = Map.empty,
     rg_pmint = Map.empty, rg_drop = Map.empty, rg_reclaim = Map.empty, rg_leaf = Map.empty, rg_dclaim = Map.empty,
     rg_holderCount = Map.empty, rg_holderSeen = Map.empty\<rparr>"

datatype kvWrite =
    PutAsset string etchMeta | PutMint string issuedMeta | PutBurn string burnMeta | PutPetch string petchMeta
  | PutPmint string mintMeta | PutDrop string dropMeta | PutReclaim string reclaimMeta | PutLeaf string leafMeta
  | PutClaim string claimMeta | PutHolderCount string nat | PutHolderSeen string

primrec applyWrite :: "registry \<Rightarrow> kvWrite \<Rightarrow> registry" where
  "applyWrite kv (PutAsset k v) = kv\<lparr>rg_asset := (rg_asset kv)(k \<mapsto> v)\<rparr>"
| "applyWrite kv (PutMint k v) = kv\<lparr>rg_mint := (rg_mint kv)(k \<mapsto> v)\<rparr>"
| "applyWrite kv (PutBurn k v) = kv\<lparr>rg_burn := (rg_burn kv)(k \<mapsto> v)\<rparr>"
| "applyWrite kv (PutPetch k v) = kv\<lparr>rg_petch := (rg_petch kv)(k \<mapsto> v)\<rparr>"
| "applyWrite kv (PutPmint k v) = kv\<lparr>rg_pmint := (rg_pmint kv)(k \<mapsto> v)\<rparr>"
| "applyWrite kv (PutDrop k v) = kv\<lparr>rg_drop := (rg_drop kv)(k \<mapsto> v)\<rparr>"
| "applyWrite kv (PutReclaim k v) = kv\<lparr>rg_reclaim := (rg_reclaim kv)(k \<mapsto> v)\<rparr>"
| "applyWrite kv (PutLeaf k v) = kv\<lparr>rg_leaf := (rg_leaf kv)(k \<mapsto> v)\<rparr>"
| "applyWrite kv (PutClaim k v) = kv\<lparr>rg_dclaim := (rg_dclaim kv)(k \<mapsto> v)\<rparr>"
| "applyWrite kv (PutHolderCount k v) = kv\<lparr>rg_holderCount := (rg_holderCount kv)(k \<mapsto> v)\<rparr>"
| "applyWrite kv (PutHolderSeen k) = kv\<lparr>rg_holderSeen := (rg_holderSeen kv)(k \<mapsto> ())\<rparr>"

subsection \<open>One transaction\<close>

record scanEnv =
  se_network :: string
  se_sha256 :: "bytes \<Rightarrow> bytes"
  se_commitmentOpens :: "int \<Rightarrow> bytes \<Rightarrow> bytes \<Rightarrow> bool"
  se_apiFundingWitness :: "bytes \<Rightarrow> string option"

record scanTx =
  sx_txid :: bytes
  sx_witness :: "bytes list"
  sx_fundingWitness :: "string option"
  sx_spk :: "string option"

record scanTick =
  tk_petchCache :: "string \<rightharpoonup> petchMeta option"
  tk_holderBumped :: "(string \<times> string) list"
  tk_dirtyPetchAids :: "bytes list"
  tk_dirtyDropIds :: "bytes list"
  tk_found :: nat

definition freshTick :: scanTick where
  "freshTick = \<lparr>tk_petchCache = Map.empty, tk_holderBumped = [], tk_dirtyPetchAids = [], tk_dirtyDropIds = [], tk_found = 0\<rparr>"

definition isSpkHex :: "string \<Rightarrow> bool" where
  "isSpkHex s = (s \<noteq> [] \<and> list_all hexDigit s)"

definition bumpHolderCount :: "scanEnv \<Rightarrow> registry \<Rightarrow> string \<Rightarrow> string \<Rightarrow> kvWrite list" where
  "bumpHolderCount e kv aid spk =
     (if \<not> isSpkHex spk then []
      else let seenKey = holderSeenKey (se_network e) aid spk in
      if rg_holderSeen kv seenKey \<noteq> None then []
      else let cntKey = holderCountKey (se_network e) aid;
               cur = (case rg_holderCount kv cntKey of None \<Rightarrow> 0 | Some n \<Rightarrow> n)
           in [PutHolderCount cntKey (cur + 1), PutHolderSeen seenKey])"

definition bumpHolderOnce :: "scanEnv \<Rightarrow> registry \<Rightarrow> scanTick \<Rightarrow> string \<Rightarrow> string option \<Rightarrow> kvWrite list \<times> scanTick" where
  "bumpHolderOnce e kv tk aid spk =
     (case spk of None \<Rightarrow> ([], tk)
      | Some s \<Rightarrow> let s = map toLower s in
          if \<not> isSpkHex s then ([], tk)
          else if (aid, s) \<in> set (tk_holderBumped tk) then ([], tk)
          else (bumpHolderCount e kv aid s, tk\<lparr>tk_holderBumped := (aid, s) # tk_holderBumped tk\<rparr>))"

definition countFound :: "scanTick \<Rightarrow> scanTick" where
  "countFound tk = tk\<lparr>tk_found := tk_found tk + 1\<rparr>"

definition scanEtch :: "scanEnv \<Rightarrow> registry \<Rightarrow> scanTick \<Rightarrow> nat \<Rightarrow> nat \<Rightarrow> scanTx \<Rightarrow> bytes \<Rightarrow> kvWrite list \<times> scanTick" where
  "scanEtch e kv tk h txIndex tx payload =
     (case decodeCEtchPayload_worker payload of None \<Rightarrow> ([], tk)
      | Some ce \<Rightarrow>
          (let aid = assetIdFor (se_sha256 e) (sx_txid tx) 0;
               meta = \<lparr>em_asset_id = aid, em_etch = ce, em_etch_txid = sx_txid tx, em_etched_at_height = h,
                 em_tx_index = txIndex\<rparr>;
               (bumps, tk) = bumpHolderOnce e kv tk (bytesToHex aid) (sx_spk tx)
           in (PutAsset (assetKey (se_network e) (bytesToHex aid)) meta # bumps, countFound tk)))"

definition scanMint :: "scanEnv \<Rightarrow> registry \<Rightarrow> scanTick \<Rightarrow> nat \<Rightarrow> scanTx \<Rightarrow> bytes \<Rightarrow> kvWrite list \<times> scanTick" where
  "scanMint e kv tk h tx payload =
     (case decodeCMintPayload_worker payload of None \<Rightarrow> ([], tk)
      | Some cm \<Rightarrow>
          (let aid = bytesToHex (im_assetId cm);
               meta = \<lparr>is_mint = cm, is_mint_txid = sx_txid tx, is_minted_at_height = h\<rparr>;
               (bumps, tk) = bumpHolderOnce e kv tk aid (sx_spk tx)
           in (PutMint (mintKeyFor (se_network e) aid (bytesToHex (sx_txid tx))) meta # bumps, countFound tk)))"

definition scanBurn :: "scanEnv \<Rightarrow> scanTick \<Rightarrow> nat \<Rightarrow> scanTx \<Rightarrow> bytes \<Rightarrow> kvWrite list \<times> scanTick" where
  "scanBurn e tk h tx payload =
     (case decodeCBurnPayload_worker payload of None \<Rightarrow> ([], tk)
      | Some cb \<Rightarrow>
          ([PutBurn (burnKeyFor (se_network e) (bytesToHex (ix_assetId cb)) (bytesToHex (sx_txid tx)))
             \<lparr>bu_asset_id = ix_assetId cb, bu_burned_amount = ib_burnedAmount cb, bu_burn_txid = sx_txid tx,
               bu_burned_at_height = h\<rparr>], countFound tk))"

text \<open>Fair-launch deployment: a start height at or before the etch's own block is refused.\<close>

definition scanPetch :: "scanEnv \<Rightarrow> scanTick \<Rightarrow> nat \<Rightarrow> scanTx \<Rightarrow> bytes \<Rightarrow> kvWrite list \<times> scanTick" where
  "scanPetch e tk h tx payload =
     (case decodeCPetchPayload_worker payload of None \<Rightarrow> ([], tk)
      | Some cp \<Rightarrow>
          if pd_mintStartHeight cp \<noteq> 0 \<and> pd_mintStartHeight cp < int h + 1 then ([], tk)
          else let aid = assetIdFor (se_sha256 e) (sx_txid tx) 0;
                   meta = \<lparr>pe_asset_id = aid, pe_petch = cp, pe_etch_txid = sx_txid tx, pe_etched_at_height = h\<rparr>
               in ([PutPetch (petchKey (se_network e) (bytesToHex aid)) meta], countFound tk))"

definition petchLookup :: "scanEnv \<Rightarrow> registry \<Rightarrow> scanTick \<Rightarrow> string \<Rightarrow> petchMeta option \<times> scanTick" where
  "petchLookup e kv tk aid =
     (case tk_petchCache tk aid of Some v \<Rightarrow> (v, tk)
      | None \<Rightarrow> (let v = rg_petch kv (petchKey (se_network e) aid)
                 in (v, tk\<lparr>tk_petchCache := (tk_petchCache tk)(aid \<mapsto> v)\<rparr>)))"

definition inMintWindow :: "petchMeta \<Rightarrow> nat \<Rightarrow> bool" where
  "inMintWindow petch h =
     (let startH = pd_mintStartHeight (pe_petch petch); endH = pd_mintEndHeight (pe_petch petch);
          effectiveStart = (if startH \<noteq> 0 then startH else int (pe_etched_at_height petch) + 1)
      in \<not> int h < effectiveStart \<and> \<not> (endH \<noteq> 0 \<and> int h > endH))"

definition scanPmint :: "scanEnv \<Rightarrow> registry \<Rightarrow> scanTick \<Rightarrow> nat \<Rightarrow> nat \<Rightarrow> scanTx \<Rightarrow> bytes \<Rightarrow> kvWrite list \<times> scanTick" where
  "scanPmint e kv tk h txIndex tx payload =
     (case decodeCPmintPayload_worker payload of None \<Rightarrow> ([], tk)
      | Some cm \<Rightarrow>
          (let expectedAid = assetIdFor (se_sha256 e) (pm_etchTxid cm) 0 in
           if expectedAid \<noteq> pm_assetId cm then ([], tk)
           else let aid = bytesToHex expectedAid; (found, tk) = petchLookup e kv tk aid in
           case found of None \<Rightarrow> ([], tk)
           | Some petch \<Rightarrow>
               if pm_amount cm \<noteq> pd_mintLimit (pe_petch petch) then ([], tk)
               else if \<not> inMintWindow petch h then ([], tk)
               else if \<not> se_commitmentOpens e (pm_amount cm) (pm_blinding cm) (pm_commitment cm) then ([], tk)
               else let mintMeta = \<lparr>mm_asset_id = expectedAid, mm_pmint = cm, mm_mint_txid = sx_txid tx,
                          mm_minted_at_height = h, mm_tx_index = txIndex\<rparr>;
                        pmk = pmintKeyFor (se_network e) aid h txIndex (bytesToHex (sx_txid tx));
                        bumps = (case sx_spk tx of None \<Rightarrow> [] | Some s \<Rightarrow> bumpHolderCount e kv aid (map toLower s))
                    in (PutPmint pmk mintMeta # bumps,
                        countFound (tk\<lparr>tk_dirtyPetchAids := List.insert expectedAid (tk_dirtyPetchAids tk)\<rparr>))))"

subsection \<open>Drops, reclaims and claims\<close>

text \<open>Which of two reclaims of one drop is recorded: whether an earlier record keeps its place.\<close>

definition priorReclaimStays :: "reclaimMeta \<Rightarrow> reclaimMeta \<Rightarrow> bool" where
  "priorReclaimStays prior meta =
     (rm_reclaim_txid prior \<noteq> rm_reclaim_txid meta \<and>
      (let ph = rm_reclaim_at_height prior; mh = rm_reclaim_at_height meta;
           priorFirst = (ph > 0 \<and> (mh = 0 \<or> ph < mh \<or>
             (ph = mh \<and> bytesToHex (rm_reclaim_txid prior) < bytesToHex (rm_reclaim_txid meta))))
       in priorFirst \<or> (ph = 0 \<and> mh = 0)))"

definition putDropReclaim :: "scanEnv \<Rightarrow> registry \<Rightarrow> reclaimMeta \<Rightarrow> bytes \<Rightarrow> kvWrite list" where
  "putDropReclaim e kv meta signingPub =
     (let dropId = bytesToHex (rc_reclaimDropId (rm_reclaim meta)) in
      case rg_drop kv (dropKey (se_network e) dropId) of None \<Rightarrow> []
      | Some dropRec \<Rightarrow>
          (let depositor = (case dm_depositor_xonly dropRec of Some d \<Rightarrow> Some d
                 | None \<Rightarrow> dropDepositorXonly (se_apiFundingWitness e (dm_drop_reveal_txid dropRec)))
           in if depositor \<noteq> Some (bytesToHex signingPub) then []
              else let key = dropReclaimKey (se_network e) dropId in
              if (case rg_reclaim kv key of None \<Rightarrow> False | Some prior \<Rightarrow> priorReclaimStays prior meta) then []
              else [PutReclaim key meta]))"

definition scanDrop :: "scanEnv \<Rightarrow> registry \<Rightarrow> scanTick \<Rightarrow> nat \<Rightarrow> scanTx \<Rightarrow> bytes \<Rightarrow> bytes \<Rightarrow> kvWrite list \<times> scanTick" where
  "scanDrop e kv tk h tx payload signingPub =
     (case decodeCDropPayload_worker payload of None \<Rightarrow> ([], tk)
      | Some (Drop cd) \<Rightarrow>
          (let dropId = dropIdFromRevealTxid (se_sha256 e) (sx_txid tx);
               meta = \<lparr>dm_drop_id = dropId, dm_drop_reveal_txid = sx_txid tx, dm_drop = cd,
                 dm_depositor_xonly = dropDepositorXonly (sx_fundingWitness tx), dm_drop_at_height = h\<rparr>
           in ([PutDrop (dropKey (se_network e) (bytesToHex dropId)) meta], countFound tk))
      | Some (Reclaim cd) \<Rightarrow>
          (let ws = putDropReclaim e kv \<lparr>rm_reclaim = cd, rm_reclaim_txid = sx_txid tx, rm_reclaim_at_height = h\<rparr> signingPub
           in (ws, if ws = [] then tk else countFound tk)))"

text \<open>The eligibility gate of a claim: \<open>None\<close> where the claim is skipped, else the writes of the leaf record.\<close>

definition claimGate :: "scanEnv \<Rightarrow> registry \<Rightarrow> dropMeta \<Rightarrow> dclaim \<Rightarrow> bytes \<Rightarrow> bytes \<Rightarrow> nat \<Rightarrow> kvWrite list option" where
  "claimGate e kv dropRec cdc dropId txid h =
     (if all_zero (dr_merkleRoot (dm_drop dropRec)) then
        (case dc_witness cdc of None \<Rightarrow> Some [] | Some w \<Rightarrow> None)
      else case dc_witness cdc of None \<Rightarrow> None
        | Some w \<Rightarrow>
            (let leafKey = dclaimLeafKey (se_network e) (bytesToHex dropId) (nat (cw_leafIndex w)) in
             if rg_leaf kv leafKey \<noteq> None then None
             else Some [PutLeaf leafKey \<lparr>lf_drop_id = dropId, lf_leaf_index = cw_leafIndex w,
               lf_eth_address = cw_ethAddress w, lf_claim_txid = txid, lf_claimed_at_height = h\<rparr>]))"

definition scanClaim :: "scanEnv \<Rightarrow> registry \<Rightarrow> scanTick \<Rightarrow> nat \<Rightarrow> nat \<Rightarrow> scanTx \<Rightarrow> bytes \<Rightarrow> kvWrite list \<times> scanTick" where
  "scanClaim e kv tk h txIndex tx payload =
     (case decodeCDClaimPayload_worker payload of None \<Rightarrow> ([], tk)
      | Some cdc \<Rightarrow>
          (let dropId = dropIdFromRevealTxid (se_sha256 e) (dc_dropRevealTxid cdc) in
           case rg_drop kv (dropKey (se_network e) (bytesToHex dropId)) of None \<Rightarrow> ([], tk)
           | Some dropRec \<Rightarrow>
               if dc_amount cdc \<noteq> dr_perClaim (dm_drop dropRec) then ([], tk)
               else if dr_expiryHeight (dm_drop dropRec) \<noteq> 0 \<and> int h > dr_expiryHeight (dm_drop dropRec) then ([], tk)
               else if \<not> se_commitmentOpens e (dc_amount cdc) (dc_blinding cdc) (dc_commitment cdc) then ([], tk)
               else case claimGate e kv dropRec cdc dropId (sx_txid tx) h of None \<Rightarrow> ([], tk)
               | Some leafWrites \<Rightarrow>
                   (let dck = dclaimKeyFor (se_network e) (bytesToHex dropId) h txIndex (bytesToHex (sx_txid tx));
                        claimMeta = \<lparr>cm_drop_id = dropId, cm_claim = cdc, cm_claim_txid = sx_txid tx,
                          cm_tx_index = txIndex, cm_claimed_at_height = h\<rparr>
                    in (leafWrites @ [PutClaim dck claimMeta],
                        countFound (tk\<lparr>tk_dirtyDropIds := List.insert dropId (tk_dirtyDropIds tk)\<rparr>)))))"

subsection \<open>The scan\<close>

definition envelopeOf :: "scanTx \<Rightarrow> envelope option" where
  "envelopeOf tx = (if length (sx_witness tx) \<ge> 3 then decodeEnvelopeScript_worker (sx_witness tx ! 1) else None)"

definition tokenOp :: "scanEnv \<Rightarrow> registry \<Rightarrow> scanTick \<Rightarrow> nat \<Rightarrow> nat \<Rightarrow> scanTx \<Rightarrow> kvWrite list \<times> scanTick" where
  "tokenOp e kv tk h txIndex tx =
     (case envelopeOf tx of
        None \<Rightarrow> ([], tk)
      | Some decoded \<Rightarrow>
          (let opcode = env_opcode decoded; payload = env_payload decoded in
           if opcode = T_CETCH then scanEtch e kv tk h txIndex tx payload
           else if opcode = T_MINT then scanMint e kv tk h tx payload
           else if opcode = T_BURN then scanBurn e tk h tx payload
           else if opcode = T_PETCH then scanPetch e tk h tx payload
           else if opcode = T_PMINT then scanPmint e kv tk h txIndex tx payload
           else if opcode = T_DROP then scanDrop e kv tk h tx payload (signingPubXonly decoded)
           else if opcode = T_DCLAIM then scanClaim e kv tk h txIndex tx payload
           else ([], tk)))"

definition scanTxStep :: "scanEnv \<Rightarrow> registry \<times> scanTick \<Rightarrow> nat \<Rightarrow> nat \<Rightarrow> scanTx \<Rightarrow> registry \<times> scanTick" where
  "scanTxStep e s h txIndex tx =
     (let (ws, tk) = tokenOp e (fst s) (snd s) h txIndex tx in (foldl applyWrite (fst s) ws, tk))"

primrec scanTxs :: "scanEnv \<Rightarrow> registry \<times> scanTick \<Rightarrow> nat \<Rightarrow> nat \<Rightarrow> scanTx list \<Rightarrow> registry \<times> scanTick" where
  "scanTxs e s h txIndex [] = s"
| "scanTxs e s h txIndex (tx # txs) = scanTxs e (scanTxStep e s h txIndex tx) h (Suc txIndex) txs"

primrec scanBlocks :: "scanEnv \<Rightarrow> registry \<times> scanTick \<Rightarrow> nat \<Rightarrow> scanTx list list \<Rightarrow> registry \<times> scanTick" where
  "scanBlocks e s h [] = s"
| "scanBlocks e s h (txs # blocks) = scanBlocks e (scanTxs e s h 0 txs) (Suc h) blocks"

subsection \<open>Keys are unambiguous\<close>

lemma hexDigitOf_inj:
  assumes "m < 16" "n < 16" "hexDigitOf m = hexDigitOf n"
  shows "m = n"
proof -
  have val: "(of_char (hexDigitOf k) :: nat) = (if k < 10 then 48 + k else 87 + k)" if "k < 16" for k
    using that by (simp add: hexDigitOf_def)
  have "(if m < 10 then 48 + m else 87 + m) = (if n < 10 then 48 + n else 87 + n)"
    by (simp only: val [OF assms(1), symmetric] val [OF assms(2), symmetric] assms(3))
  then show ?thesis by (auto split: if_splits)
qed

lemma bytesToHex_inj [simp]: "(bytesToHex a = bytesToHex b) = (a = b)"
proof (induction a arbitrary: b)
  case Nil
  then show ?case by (cases b) auto
next
  case (Cons x xs)
  show ?case
  proof (cases b)
    case (Cons y ys)
    have "x = y" if "hexDigitOf (unat x div 16) = hexDigitOf (unat y div 16)"
      "hexDigitOf (unat x mod 16) = hexDigitOf (unat y mod 16)"
    proof -
      have "unat x < 256" "unat y < 256" using unsigned_less [of x, where ?'a = nat] unsigned_less [of y, where ?'a = nat] by simp_all
      then have "unat x div 16 = unat y div 16" "unat x mod 16 = unat y mod 16"
        using that hexDigitOf_inj [of "unat x div 16" "unat y div 16"]
          hexDigitOf_inj [of "unat x mod 16" "unat y mod 16"] by auto
      then show "x = y" by (metis div_mult_mod_eq word_unat_eq_iff)
    qed
    then show ?thesis using Cons.IH Cons by auto
  qed simp
qed

lemma netKey_inj [simp]: "(netKey kind network a = netKey kind network b) = (a = b)"
  by (simp add: netKey_def)

lemma leafKey_inj:
  assumes "i < 10 ^ 10" "j < 10 ^ 10"
  shows "(dclaimLeafKey network d i = dclaimLeafKey network d j) = (i = j)"
  using assms by (auto simp: dclaimLeafKey_def Let_def padStart_stringOf digitsOf_eq)

subsection \<open>Reachable registries\<close>

text \<open>
  \<open>chain h i\<close> is the transaction at position \<open>i\<close> of block \<open>h\<close>. A scan may visit transactions in any order and
  any number of times (rescans, rewinds), may start a new tick at any point, and may die between two writes.
\<close>

inductive scanned :: "scanEnv \<Rightarrow> (nat \<Rightarrow> nat \<Rightarrow> scanTx option) \<Rightarrow> registry \<times> scanTick \<Rightarrow> bool"
  for e :: scanEnv and chain :: "nat \<Rightarrow> nat \<Rightarrow> scanTx option" where
  start: "scanned e chain (emptyRegistry, freshTick)"
| tx: "scanned e chain s \<Longrightarrow> chain h i = Some tx \<Longrightarrow> scanned e chain (scanTxStep e s h i tx)"
| crash: "scanned e chain (kv, tk) \<Longrightarrow> chain h i = Some tx \<Longrightarrow>
    scanned e chain (foldl applyWrite kv (take n (fst (tokenOp e kv tk h i tx))), freshTick)"
| tick: "scanned e chain (kv, tk) \<Longrightarrow> scanned e chain (kv, freshTick)"

text \<open>A transaction id is in one place of the chain, and no two of its transactions collide under the hash.\<close>

definition oneTxid :: "(nat \<Rightarrow> nat \<Rightarrow> scanTx option) \<Rightarrow> bool" where
  "oneTxid chain = (\<forall>h i tx h' i' tx'. chain h i = Some tx \<longrightarrow> chain h' i' = Some tx' \<longrightarrow> sx_txid tx = sx_txid tx' \<longrightarrow>
     h = h' \<and> i = i' \<and> tx = tx')"

definition txidsHashApart :: "scanEnv \<Rightarrow> (nat \<Rightarrow> nat \<Rightarrow> scanTx option) \<Rightarrow> bool" where
  "txidsHashApart e chain = (\<forall>h i tx h' i' tx'. chain h i = Some tx \<longrightarrow> chain h' i' = Some tx' \<longrightarrow>
     \<not> collision (se_sha256 e) (rev (sx_txid tx) @ zeros 4) (rev (sx_txid tx') @ zeros 4))"

lemma le_bytes_4_0: "le_bytes 4 0 = zeros 4"
  by (simp add: zeros_def numeral_eq_Suc)

lemma assetIdFor_drop: "assetIdFor sha256 t 0 = dropIdFromRevealTxid sha256 t"
  by (simp add: assetIdFor_def dropIdFromRevealTxid_def le_bytes_4_0)

lemma one_place:
  assumes "oneTxid chain" "txidsHashApart e chain" "chain h i = Some tx" "chain h' i' = Some tx'"
    and "dropIdFromRevealTxid (se_sha256 e) (sx_txid tx) = dropIdFromRevealTxid (se_sha256 e) (sx_txid tx')"
  shows "h = h' \<and> tx = tx'"
proof -
  have "sx_txid tx = sx_txid tx'"
    using assms unfolding txidsHashApart_def collision_def dropIdFromRevealTxid_def by fastforce
  then show ?thesis using assms(1,3,4) unfolding oneTxid_def by blast
qed

text \<open>What a stored deployment, mint, drop and claim have been checked for.\<close>

definition petchOrigin :: "scanEnv \<Rightarrow> (nat \<Rightarrow> nat \<Rightarrow> scanTx option) \<Rightarrow> string \<Rightarrow> petchMeta \<Rightarrow> bool" where
  "petchOrigin e chain k pe = (\<exists>h i tx env tk. chain h i = Some tx \<and> envelopeOf tx = Some env \<and>
     fst (scanPetch e tk h tx (env_payload env)) = [PutPetch k pe])"

definition dropOrigin :: "scanEnv \<Rightarrow> (nat \<Rightarrow> nat \<Rightarrow> scanTx option) \<Rightarrow> string \<Rightarrow> dropMeta \<Rightarrow> bool" where
  "dropOrigin e chain k d = (\<exists>h i tx env kv tk. chain h i = Some tx \<and> envelopeOf tx = Some env \<and>
     fst (scanDrop e kv tk h tx (env_payload env) (signingPubXonly env)) = [PutDrop k d])"

definition mintValid :: "scanEnv \<Rightarrow> registry \<Rightarrow> string \<Rightarrow> mintMeta \<Rightarrow> bool" where
  "mintValid e kv k m = (\<exists>pe. rg_petch kv (petchKey (se_network e) (bytesToHex (mm_asset_id m))) = Some pe \<and>
     pm_amount (mm_pmint m) = pd_mintLimit (pe_petch pe) \<and> inMintWindow pe (mm_minted_at_height m) \<and>
     se_commitmentOpens e (pm_amount (mm_pmint m)) (pm_blinding (mm_pmint m)) (pm_commitment (mm_pmint m)) \<and>
     k = pmintKeyFor (se_network e) (bytesToHex (mm_asset_id m)) (mm_minted_at_height m) (mm_tx_index m)
       (bytesToHex (mm_mint_txid m)))"

definition leafTaken :: "scanEnv \<Rightarrow> registry \<Rightarrow> claimMeta \<Rightarrow> bool" where
  "leafTaken e kv c = (case dc_witness (cm_claim c) of None \<Rightarrow> True
     | Some w \<Rightarrow> \<exists>lf. rg_leaf kv (dclaimLeafKey (se_network e) (bytesToHex (cm_drop_id c)) (nat (cw_leafIndex w))) = Some lf \<and>
         lf_claim_txid lf = cm_claim_txid c)"

definition claimValid :: "scanEnv \<Rightarrow> registry \<Rightarrow> claimMeta \<Rightarrow> bool" where
  "claimValid e kv c = (leafTaken e kv c \<and>
     (\<exists>d. rg_drop kv (dropKey (se_network e) (bytesToHex (cm_drop_id c))) = Some d \<and>
       dc_amount (cm_claim c) = dr_perClaim (dm_drop d) \<and>
       \<not> (dr_expiryHeight (dm_drop d) \<noteq> 0 \<and> int (cm_claimed_at_height c) > dr_expiryHeight (dm_drop d)) \<and>
       (all_zero (dr_merkleRoot (dm_drop d)) = (dc_witness (cm_claim c) = None)) \<and>
       se_commitmentOpens e (dc_amount (cm_claim c)) (dc_blinding (cm_claim c)) (dc_commitment (cm_claim c))))"

definition registryInv :: "scanEnv \<Rightarrow> (nat \<Rightarrow> nat \<Rightarrow> scanTx option) \<Rightarrow> registry \<Rightarrow> bool" where
  "registryInv e chain kv =
     ((\<forall>k pe. rg_petch kv k = Some pe \<longrightarrow> petchOrigin e chain k pe) \<and>
      (\<forall>k d. rg_drop kv k = Some d \<longrightarrow> dropOrigin e chain k d) \<and>
      (\<forall>k m. rg_pmint kv k = Some m \<longrightarrow> mintValid e kv k m) \<and>
      (\<forall>k c. rg_dclaim kv k = Some c \<longrightarrow> claimValid e kv c))"

definition cacheInv :: "scanEnv \<Rightarrow> registry \<Rightarrow> scanTick \<Rightarrow> bool" where
  "cacheInv e kv tk = (\<forall>aid pe. tk_petchCache tk aid = Some (Some pe) \<longrightarrow> rg_petch kv (petchKey (se_network e) aid) = Some pe)"

subsection \<open>Every write keeps the invariant\<close>

lemma scanPetch_write:
  assumes "fst (scanPetch e tk h tx payload) = [PutPetch k pe]"
  obtains cp where "decodeCPetchPayload_worker payload = Some cp"
    "\<not> (pd_mintStartHeight cp \<noteq> 0 \<and> pd_mintStartHeight cp < int h + 1)"
    "pe = \<lparr>pe_asset_id = assetIdFor (se_sha256 e) (sx_txid tx) 0, pe_petch = cp, pe_etch_txid = sx_txid tx,
       pe_etched_at_height = h\<rparr>"
    "k = petchKey (se_network e) (bytesToHex (assetIdFor (se_sha256 e) (sx_txid tx) 0))"
  using assms by (auto simp: scanPetch_def Let_def split: option.splits if_splits)

lemma scanDrop_write:
  assumes "fst (scanDrop e kv tk h tx payload pub) = [PutDrop k d]"
  obtains cd where "decodeCDropPayload_worker payload = Some (Drop cd)"
    "d = \<lparr>dm_drop_id = dropIdFromRevealTxid (se_sha256 e) (sx_txid tx), dm_drop_reveal_txid = sx_txid tx, dm_drop = cd,
       dm_depositor_xonly = dropDepositorXonly (sx_fundingWitness tx), dm_drop_at_height = h\<rparr>"
    "k = dropKey (se_network e) (bytesToHex (dropIdFromRevealTxid (se_sha256 e) (sx_txid tx)))"
  using assms
  by (auto simp: scanDrop_def putDropReclaim_def Let_def split: option.splits if_splits dropPayload.splits)

lemma petchOrigin_unique:
  assumes "oneTxid chain" "txidsHashApart e chain" "petchOrigin e chain k pe" "petchOrigin e chain k pe'"
  shows "pe = pe'"
proof -
  obtain h i tx env tk where a: "chain h i = Some tx" "envelopeOf tx = Some env"
    "fst (scanPetch e tk h tx (env_payload env)) = [PutPetch k pe]"
    using assms(3) unfolding petchOrigin_def by blast
  obtain h' i' tx' env' tk' where b: "chain h' i' = Some tx'" "envelopeOf tx' = Some env'"
    "fst (scanPetch e tk' h' tx' (env_payload env')) = [PutPetch k pe']"
    using assms(4) unfolding petchOrigin_def by blast
  have "h = h' \<and> tx = tx'"
    by (rule one_place [OF assms(1,2) a(1) b(1)], rule scanPetch_write [OF a(3)], rule scanPetch_write [OF b(3)])
      (simp add: petchKey_def assetIdFor_drop)
  then show ?thesis using a(2) b(2) scanPetch_write [OF a(3)] scanPetch_write [OF b(3)] by (metis option.inject)
qed

lemma dropOrigin_unique:
  assumes "oneTxid chain" "txidsHashApart e chain" "dropOrigin e chain k d" "dropOrigin e chain k d'"
  shows "d = d'"
proof -
  obtain h i tx env kv tk where a: "chain h i = Some tx" "envelopeOf tx = Some env"
    "fst (scanDrop e kv tk h tx (env_payload env) (signingPubXonly env)) = [PutDrop k d]"
    using assms(3) unfolding dropOrigin_def by blast
  obtain h' i' tx' env' kv' tk' where b: "chain h' i' = Some tx'" "envelopeOf tx' = Some env'"
    "fst (scanDrop e kv' tk' h' tx' (env_payload env') (signingPubXonly env')) = [PutDrop k d']"
    using assms(4) unfolding dropOrigin_def by blast
  have "h = h' \<and> tx = tx'"
    by (rule one_place [OF assms(1,2) a(1) b(1)], rule scanDrop_write [OF a(3)], rule scanDrop_write [OF b(3)])
      (simp add: dropKey_def)
  then show ?thesis using a(2) b(2) scanDrop_write [OF a(3)] scanDrop_write [OF b(3)]
    by (metis option.inject dropPayload.inject(1))
qed

primrec goodWrite :: "scanEnv \<Rightarrow> (nat \<Rightarrow> nat \<Rightarrow> scanTx option) \<Rightarrow> registry \<Rightarrow> kvWrite \<Rightarrow> bool" where
  "goodWrite e chain kv (PutAsset k v) = True"
| "goodWrite e chain kv (PutMint k v) = True"
| "goodWrite e chain kv (PutBurn k v) = True"
| "goodWrite e chain kv (PutPetch k v) = petchOrigin e chain k v"
| "goodWrite e chain kv (PutPmint k v) = mintValid e kv k v"
| "goodWrite e chain kv (PutDrop k v) = dropOrigin e chain k v"
| "goodWrite e chain kv (PutReclaim k v) = True"
| "goodWrite e chain kv (PutLeaf k v) = (rg_leaf kv k = None)"
| "goodWrite e chain kv (PutClaim k v) = claimValid e kv v"
| "goodWrite e chain kv (PutHolderCount k v) = True"
| "goodWrite e chain kv (PutHolderSeen k) = True"

primrec goodWrites :: "scanEnv \<Rightarrow> (nat \<Rightarrow> nat \<Rightarrow> scanTx option) \<Rightarrow> registry \<Rightarrow> kvWrite list \<Rightarrow> bool" where
  "goodWrites e chain kv [] = True"
| "goodWrites e chain kv (w # ws) = (goodWrite e chain kv w \<and> goodWrites e chain (applyWrite kv w) ws)"

lemma goodWrites_take: "goodWrites e chain kv ws \<Longrightarrow> goodWrites e chain kv (take n ws)"
  by (induction ws arbitrary: kv n) (auto simp: take_Cons split: nat.splits)

text \<open>Deployments, drops and taken leaves stay as they are.\<close>

definition keepsRecords :: "registry \<Rightarrow> registry \<Rightarrow> bool" where
  "keepsRecords kv kv' = (rg_petch kv \<subseteq>\<^sub>m rg_petch kv' \<and> rg_drop kv \<subseteq>\<^sub>m rg_drop kv' \<and> rg_leaf kv \<subseteq>\<^sub>m rg_leaf kv')"

lemma keepsRecords_trans: "keepsRecords a b \<Longrightarrow> keepsRecords b c \<Longrightarrow> keepsRecords a c"
  unfolding keepsRecords_def by (meson map_le_trans)

lemma map_leD: "m \<subseteq>\<^sub>m n \<Longrightarrow> m k = Some v \<Longrightarrow> n k = Some v"
  by (metis domI map_le_def)

lemma mintValid_later: "keepsRecords kv kv' \<Longrightarrow> mintValid e kv k m \<Longrightarrow> mintValid e kv' k m"
  unfolding keepsRecords_def mintValid_def by (blast dest: map_leD)

lemma leafTaken_later: "keepsRecords kv kv' \<Longrightarrow> leafTaken e kv c \<Longrightarrow> leafTaken e kv' c"
  unfolding keepsRecords_def leafTaken_def by (cases "dc_witness (cm_claim c)") (auto dest: map_leD)

lemma claimValid_later:
  assumes "keepsRecords kv kv'" "claimValid e kv c"
  shows "claimValid e kv' c"
proof -
  obtain d where d: "rg_drop kv (dropKey (se_network e) (bytesToHex (cm_drop_id c))) = Some d"
    using assms(2) unfolding claimValid_def by blast
  moreover have "rg_drop kv' (dropKey (se_network e) (bytesToHex (cm_drop_id c))) = Some d"
    using assms(1) d unfolding keepsRecords_def by (blast dest: map_leD)
  ultimately show ?thesis using assms(2) leafTaken_later [OF assms(1), of e c] unfolding claimValid_def by auto
qed

lemma cacheInv_later: "keepsRecords kv kv' \<Longrightarrow> cacheInv e kv tk \<Longrightarrow> cacheInv e kv' tk"
  unfolding keepsRecords_def cacheInv_def by (blast dest: map_leD)

lemma goodWrite_keeps:
  assumes "oneTxid chain" "txidsHashApart e chain" "registryInv e chain kv" "goodWrite e chain kv w"
  shows "keepsRecords kv (applyWrite kv w)"
proof (cases w)
  case (PutPetch k v)
  have "pe = v" if "rg_petch kv k = Some pe" for pe
    using petchOrigin_unique [OF assms(1,2), of k pe v] assms(3,4) that PutPetch by (simp add: registryInv_def)
  then show ?thesis using PutPetch by (auto simp: keepsRecords_def map_le_def)
next
  case (PutDrop k v)
  have "d = v" if "rg_drop kv k = Some d" for d
    using dropOrigin_unique [OF assms(1,2), of k d v] assms(3,4) that PutDrop by (simp add: registryInv_def)
  then show ?thesis using PutDrop by (auto simp: keepsRecords_def map_le_def)
qed (use assms(4) in \<open>auto simp: keepsRecords_def map_le_def\<close>)

lemma goodWrite_inv:
  assumes "oneTxid chain" "txidsHashApart e chain" "registryInv e chain kv" "goodWrite e chain kv w"
  shows "registryInv e chain (applyWrite kv w)"
proof -
  note k = goodWrite_keeps [OF assms]
  have "mintValid e (applyWrite kv w) x m" if "rg_pmint (applyWrite kv w) x = Some m" for x m
    using that assms(3,4) mintValid_later [OF k, of e x m]
    by (cases w) (auto simp: registryInv_def split: if_splits)
  moreover have "claimValid e (applyWrite kv w) c" if "rg_dclaim (applyWrite kv w) x = Some c" for x c
    using that assms(3,4) claimValid_later [OF k, of e c]
    by (cases w) (auto simp: registryInv_def split: if_splits)
  moreover have "petchOrigin e chain x pe" if "rg_petch (applyWrite kv w) x = Some pe" for x pe
    using that assms(3,4) by (cases w) (auto simp: registryInv_def split: if_splits)
  moreover have "dropOrigin e chain x d" if "rg_drop (applyWrite kv w) x = Some d" for x d
    using that assms(3,4) by (cases w) (auto simp: registryInv_def split: if_splits)
  ultimately show ?thesis unfolding registryInv_def by blast
qed

lemma goodWrites_inv:
  assumes "oneTxid chain" "txidsHashApart e chain"
  shows "registryInv e chain kv \<Longrightarrow> goodWrites e chain kv ws \<Longrightarrow>
    registryInv e chain (foldl applyWrite kv ws) \<and> keepsRecords kv (foldl applyWrite kv ws)"
proof (induction ws arbitrary: kv)
  case (Cons w ws)
  then have "registryInv e chain (applyWrite kv w)" "keepsRecords kv (applyWrite kv w)"
    using goodWrite_inv [OF assms] goodWrite_keeps [OF assms] by auto
  with Cons show ?case by (auto intro: keepsRecords_trans)
qed (simp add: keepsRecords_def)

subsection \<open>Every transaction makes good writes\<close>

lemma bumps_good [simp]: "goodWrites e chain kv (bumpHolderCount e' kv' aid spk)"
  by (simp add: bumpHolderCount_def Let_def)

lemma bumpOnce_good [simp]: "goodWrites e chain kv (fst (bumpHolderOnce e' kv' tk aid spk))"
  by (auto simp: bumpHolderOnce_def Let_def split: option.splits)

lemma bumpOnce_cache [simp]: "tk_petchCache (snd (bumpHolderOnce e kv tk aid spk)) = tk_petchCache tk"
  by (auto simp: bumpHolderOnce_def Let_def split: option.splits)

lemma countFound_cache [simp]: "tk_petchCache (countFound tk) = tk_petchCache tk"
  by (simp add: countFound_def)

lemma petchLookup_sound:
  assumes "cacheInv e kv tk" "petchLookup e kv tk aid = (found, tk')"
  shows "cacheInv e kv tk' \<and> (\<forall>pe. found = Some pe \<longrightarrow> rg_petch kv (petchKey (se_network e) aid) = Some pe)"
  using assms by (auto simp: petchLookup_def cacheInv_def Let_def split: option.splits if_splits)

lemma scanPmint_good:
  assumes "cacheInv e kv tk"
  shows "goodWrites e chain kv (fst (scanPmint e kv tk h i tx payload)) \<and> cacheInv e kv (snd (scanPmint e kv tk h i tx payload))"
proof (cases "decodeCPmintPayload_worker payload")
  case None
  then show ?thesis using assms by (simp add: scanPmint_def)
next
  case (Some cm)
  let ?aid = "assetIdFor (se_sha256 e) (pm_etchTxid cm) 0"
  obtain found tk' where l: "petchLookup e kv tk (bytesToHex ?aid) = (found, tk')" by fastforce
  from petchLookup_sound [OF assms l] have c: "cacheInv e kv tk'"
    and f: "\<And>pe. found = Some pe \<Longrightarrow> rg_petch kv (petchKey (se_network e) (bytesToHex ?aid)) = Some pe" by auto
  have c': "cacheInv e kv (countFound (tk'\<lparr>tk_dirtyPetchAids := x\<rparr>))" for x using c by (simp add: cacheInv_def)
  show ?thesis
    using assms c c' f Some l
    by (auto simp: scanPmint_def mintValid_def Let_def split: option.splits)
qed

lemma claimGate_good:
  assumes "claimGate e kv d cdc dropId txid h = Some ws"
  shows "goodWrites e chain kv ws \<and> leafTaken e (foldl applyWrite kv ws)
      \<lparr>cm_drop_id = dropId, cm_claim = cdc, cm_claim_txid = txid, cm_tx_index = i, cm_claimed_at_height = h\<rparr> \<and>
    rg_drop (foldl applyWrite kv ws) = rg_drop kv \<and>
    all_zero (dr_merkleRoot (dm_drop d)) = (dc_witness cdc = None)"
  using assms by (auto simp: claimGate_def leafTaken_def Let_def split: option.splits if_splits)

lemma goodWrites_append:
  "goodWrites e chain kv (ws @ ws') = (goodWrites e chain kv ws \<and> goodWrites e chain (foldl applyWrite kv ws) ws')"
  by (induction ws arbitrary: kv) auto

lemma scanClaim_good: "goodWrites e chain kv (fst (scanClaim e kv tk h i tx payload))"
proof (cases "decodeCDClaimPayload_worker payload")
  case (Some cdc)
  let ?id = "dropIdFromRevealTxid (se_sha256 e) (dc_dropRevealTxid cdc)"
  show ?thesis
  proof (cases "rg_drop kv (dropKey (se_network e) (bytesToHex ?id))")
    case None
    then show ?thesis using Some by (simp add: scanClaim_def)
  next
    case d: (Some d)
    show ?thesis
    proof (cases "claimGate e kv d cdc ?id (sx_txid tx) h")
      case None
      then show ?thesis using Some d by (simp add: scanClaim_def Let_def)
    next
      case g: (Some ws)
      then show ?thesis using Some d claimGate_good [OF g]
        by (auto simp: scanClaim_def goodWrites_append claimValid_def Let_def)
    qed
  qed
qed (simp add: scanClaim_def)

lemma scanClaim_cache: "tk_petchCache (snd (scanClaim e kv tk h i tx payload)) = tk_petchCache tk"
  by (auto simp: scanClaim_def Let_def split: option.splits)

lemma scanDrop_good:
  assumes "chain h i = Some tx" "envelopeOf tx = Some env"
  shows "goodWrites e chain kv (fst (scanDrop e kv tk h tx (env_payload env) (signingPubXonly env))) \<and>
    tk_petchCache (snd (scanDrop e kv tk h tx (env_payload env) (signingPubXonly env))) = tk_petchCache tk"
proof (cases "decodeCDropPayload_worker (env_payload env)")
  case (Some a)
  show ?thesis
  proof (cases a)
    case (Drop cd)
    have "fst (scanDrop e kv tk h tx (env_payload env) (signingPubXonly env)) = [PutDrop k d] \<Longrightarrow> dropOrigin e chain k d" for k d
      unfolding dropOrigin_def using assms by blast
    then show ?thesis using Some Drop by (auto simp: scanDrop_def Let_def)
  next
    case (Reclaim cd)
    then show ?thesis using Some by (auto simp: scanDrop_def putDropReclaim_def Let_def split: option.splits)
  qed
qed (simp add: scanDrop_def)

lemma scanPetch_good:
  assumes "chain h i = Some tx" "envelopeOf tx = Some env"
  shows "goodWrites e chain kv (fst (scanPetch e tk h tx (env_payload env))) \<and>
    tk_petchCache (snd (scanPetch e tk h tx (env_payload env))) = tk_petchCache tk"
proof -
  have "fst (scanPetch e tk h tx (env_payload env)) = [PutPetch k pe] \<Longrightarrow> petchOrigin e chain k pe" for k pe
    unfolding petchOrigin_def using assms by blast
  then show ?thesis by (auto simp: scanPetch_def Let_def split: option.splits)
qed

lemma tokenOp_good:
  assumes "cacheInv e kv tk" "chain h i = Some tx"
  shows "goodWrites e chain kv (fst (tokenOp e kv tk h i tx)) \<and> cacheInv e kv (snd (tokenOp e kv tk h i tx))"
proof (cases "envelopeOf tx")
  case None
  then show ?thesis using assms by (simp add: tokenOp_def)
next
  case (Some env)
  have same: "cacheInv e kv tk'" if "tk_petchCache tk' = tk_petchCache tk" for tk' :: scanTick
    using assms(1) that by (simp add: cacheInv_def)
  have "goodWrites e chain kv (fst (scanEtch e kv tk h i tx p)) \<and>
      tk_petchCache (snd (scanEtch e kv tk h i tx p)) = tk_petchCache tk"
    "goodWrites e chain kv (fst (scanMint e kv tk h tx p)) \<and>
      tk_petchCache (snd (scanMint e kv tk h tx p)) = tk_petchCache tk"
    "goodWrites e chain kv (fst (scanBurn e tk h tx p)) \<and> tk_petchCache (snd (scanBurn e tk h tx p)) = tk_petchCache tk" for p
    by (auto simp: scanEtch_def scanMint_def scanBurn_def case_prod_unfold Let_def split: option.splits)
  then show ?thesis
    using Some assms same scanPmint_good [OF assms(1)] scanClaim_good scanClaim_cache scanDrop_good [of chain h i tx env, OF assms(2) Some]
      scanPetch_good [of chain h i tx env, OF assms(2) Some]
    unfolding tokenOp_def Let_def by simp
qed

lemma scanned_inv:
  assumes "oneTxid chain" "txidsHashApart e chain" "scanned e chain s"
  shows "registryInv e chain (fst s) \<and> cacheInv e (fst s) (snd s)"
  using assms(3)
proof (induction rule: scanned.induct)
  case start
  show ?case by (simp add: registryInv_def cacheInv_def emptyRegistry_def freshTick_def)
next
  case (tx s h i t)
  obtain ws tk where op: "tokenOp e (fst s) (snd s) h i t = (ws, tk)" by fastforce
  from tokenOp_good [of e "fst s" "snd s" chain h i t] tx op
  have g: "goodWrites e chain (fst s) ws" "cacheInv e (fst s) tk" by auto
  from goodWrites_inv [OF assms(1,2) _ g(1)] tx.IH show ?case
    using op cacheInv_later g(2) by (auto simp: scanTxStep_def)
next
  case (crash kv tk h i t n)
  then have "goodWrites e chain kv (take n (fst (tokenOp e kv tk h i t)))"
    using tokenOp_good [of e kv tk chain h i t] goodWrites_take by auto
  from goodWrites_inv [OF assms(1,2) _ this] crash.IH show ?case by (simp add: cacheInv_def freshTick_def)
next
  case (tick kv tk)
  then show ?case by (simp add: cacheInv_def freshTick_def)
qed

text \<open>A scan of blocks is a path of the relation.\<close>

lemma scanTxs_scanned:
  "scanned e chain s \<Longrightarrow> (\<And>j. j < length txs \<Longrightarrow> chain h (i + j) = Some (txs ! j)) \<Longrightarrow> scanned e chain (scanTxs e s h i txs)"
proof (induction txs arbitrary: s i)
  case (Cons t txs)
  have "chain h i = Some t" using Cons.prems(2) [of 0] by simp
  moreover have "chain h (Suc i + j) = Some (txs ! j)" if "j < length txs" for j
    using Cons.prems(2) [of "Suc j"] that by simp
  ultimately show ?case using Cons.IH [OF scanned.tx [OF Cons.prems(1)]] by simp
qed simp

lemma scanBlocks_scanned:
  "scanned e chain s \<Longrightarrow>
     (\<And>b j. b < length blocks \<Longrightarrow> j < length (blocks ! b) \<Longrightarrow> chain (h + b) j = Some (blocks ! b ! j)) \<Longrightarrow>
     scanned e chain (scanBlocks e s h blocks)"
proof (induction blocks arbitrary: s h)
  case (Cons txs blocks)
  have "scanned e chain (scanTxs e s h 0 txs)"
    using Cons.prems(2) [of 0] by (intro scanTxs_scanned [OF Cons.prems(1)]) simp
  moreover have "chain (Suc h + b) j = Some (blocks ! b ! j)" if "b < length blocks" "j < length (blocks ! b)" for b j
    using Cons.prems(2) [of "Suc b" j] that by simp
  ultimately show ?case using Cons.IH [of _ "Suc h"] by simp
qed simp

subsection \<open>What the stored records guarantee\<close>

lemma petchOrigin_start:
  "petchOrigin e chain k pe \<Longrightarrow> pd_mintStartHeight (pe_petch pe) = 0 \<or> int (pe_etched_at_height pe) < pd_mintStartHeight (pe_petch pe)"
  unfolding petchOrigin_def by (auto elim!: scanPetch_write)

lemma stored_mint:
  assumes "oneTxid chain" "txidsHashApart e chain" "scanned e chain (kv, tk)" "rg_pmint kv k = Some m"
  shows "\<exists>pe. rg_petch kv (petchKey (se_network e) (bytesToHex (mm_asset_id m))) = Some pe \<and>
    pm_amount (mm_pmint m) = pd_mintLimit (pe_petch pe) \<and> pe_etched_at_height pe < mm_minted_at_height m \<and>
    inMintWindow pe (mm_minted_at_height m) \<and>
    k = pmintKeyFor (se_network e) (bytesToHex (mm_asset_id m)) (mm_minted_at_height m) (mm_tx_index m)
      (bytesToHex (mm_mint_txid m))"
proof -
  have inv: "registryInv e chain kv" using scanned_inv [OF assms(1-3)] by simp
  then have "mintValid e kv k m" using assms(4) by (simp add: registryInv_def)
  then obtain pe where pe: "rg_petch kv (petchKey (se_network e) (bytesToHex (mm_asset_id m))) = Some pe"
    "pm_amount (mm_pmint m) = pd_mintLimit (pe_petch pe)" "inMintWindow pe (mm_minted_at_height m)"
    "k = pmintKeyFor (se_network e) (bytesToHex (mm_asset_id m)) (mm_minted_at_height m) (mm_tx_index m)
      (bytesToHex (mm_mint_txid m))"
    unfolding mintValid_def by blast
  from pe(1) inv have "petchOrigin e chain (petchKey (se_network e) (bytesToHex (mm_asset_id m))) pe"
    by (simp add: registryInv_def)
  from petchOrigin_start [OF this] pe(3) have "pe_etched_at_height pe < mm_minted_at_height m"
    by (auto simp: inMintWindow_def Let_def split: if_splits)
  with pe show ?thesis by blast
qed

lemma stored_claims:
  assumes "oneTxid chain" "txidsHashApart e chain" "scanned e chain (kv, tk)"
    and "rg_dclaim kv k = Some c" "rg_dclaim kv k' = Some c'" "cm_drop_id c = cm_drop_id c'"
    and "dc_witness (cm_claim c) = Some w" "dc_witness (cm_claim c') = Some w'" "cw_leafIndex w = cw_leafIndex w'"
  shows "cm_claim_txid c = cm_claim_txid c'"
proof -
  have "registryInv e chain kv" using scanned_inv [OF assms(1-3)] by simp
  then have "leafTaken e kv c" "leafTaken e kv c'"
    using assms(4,5) by (simp_all add: registryInv_def claimValid_def)
  then show ?thesis using assms(6-9) by (simp add: leafTaken_def) (metis option.inject)
qed

subsection \<open>Claims and mints that are never stored\<close>

lemma tokenOp_dispatch:
  "envelopeOf tx = Some env \<Longrightarrow> env_opcode env = T_PMINT \<Longrightarrow> tokenOp e kv tk h i tx = scanPmint e kv tk h i tx (env_payload env)"
  "envelopeOf tx = Some env \<Longrightarrow> env_opcode env = T_PETCH \<Longrightarrow> tokenOp e kv tk h i tx = scanPetch e tk h tx (env_payload env)"
  "envelopeOf tx = Some env \<Longrightarrow> env_opcode env = T_DCLAIM \<Longrightarrow> tokenOp e kv tk h i tx = scanClaim e kv tk h i tx (env_payload env)"
  "envelopeOf tx = Some env \<Longrightarrow> env_opcode env = T_DROP \<Longrightarrow>
     tokenOp e kv tk h i tx = scanDrop e kv tk h tx (env_payload env) (signingPubXonly env)"
  by (simp_all add: tokenOp_def Let_def transfer_consts drop_consts etch_consts)

text \<open>A leaf that is taken blocks every claim on it, whoever took it and whether or not the taker's proof was right.\<close>

lemma taken_leaf_blocks:
  assumes "envelopeOf tx = Some env" "env_opcode env = T_DCLAIM" "decodeCDClaimPayload_worker (env_payload env) = Some cdc"
    and "dc_witness cdc = Some w"
    and "rg_leaf kv (dclaimLeafKey (se_network e)
      (bytesToHex (dropIdFromRevealTxid (se_sha256 e) (dc_dropRevealTxid cdc))) (nat (cw_leafIndex w))) \<noteq> None"
  shows "tokenOp e kv tk h i tx = ([], tk)"
proof -
  have "claimGate e kv d cdc (dropIdFromRevealTxid (se_sha256 e) (dc_dropRevealTxid cdc)) (sx_txid tx) h = None" for d
    using assms(4,5) by (simp add: claimGate_def Let_def)
  then show ?thesis
    using assms by (auto simp: tokenOp_dispatch scanClaim_def Let_def split: option.splits)
qed

text \<open>A claim whose scan died right after its leaf record is skipped by every later scan of the same transaction.\<close>

lemma gated_claim_writes:
  assumes "envelopeOf tx = Some env" "env_opcode env = T_DCLAIM" "decodeCDClaimPayload_worker (env_payload env) = Some cdc"
    and "dc_witness cdc = Some w" "fst (tokenOp e kv tk h i tx) \<noteq> []"
  obtains lf c where "fst (tokenOp e kv tk h i tx) =
    [PutLeaf (dclaimLeafKey (se_network e) (bytesToHex (dropIdFromRevealTxid (se_sha256 e) (dc_dropRevealTxid cdc)))
        (nat (cw_leafIndex w))) lf,
     PutClaim (dclaimKeyFor (se_network e) (bytesToHex (dropIdFromRevealTxid (se_sha256 e) (dc_dropRevealTxid cdc))) h i
        (bytesToHex (sx_txid tx))) c]"
  using assms
  by (auto simp: tokenOp_dispatch scanClaim_def claimGate_def Let_def split: option.splits if_splits)

lemma leaf_stays_taken:
  assumes "envelopeOf b = Some eb" "env_opcode eb = T_DCLAIM" "decodeCDClaimPayload_worker (env_payload eb) = Some cb"
    and "dc_witness cb = Some wb" "fst (tokenOp e kv tk h i b) \<noteq> []" "0 < n"
    and "keepsRecords (foldl applyWrite kv (take n (fst (tokenOp e kv tk h i b)))) kv'"
    and "envelopeOf c = Some ec" "env_opcode ec = T_DCLAIM" "decodeCDClaimPayload_worker (env_payload ec) = Some cc"
    and "dc_witness cc = Some wc" "dc_dropRevealTxid cc = dc_dropRevealTxid cb" "cw_leafIndex wc = cw_leafIndex wb"
  shows "tokenOp e kv' tk' h' i' c = ([], tk')"
proof -
  let ?leaf = "dclaimLeafKey (se_network e) (bytesToHex (dropIdFromRevealTxid (se_sha256 e) (dc_dropRevealTxid cb)))
    (nat (cw_leafIndex wb))"
  obtain lf k v where ws: "fst (tokenOp e kv tk h i b) = [PutLeaf ?leaf lf, PutClaim k v]"
    by (rule gated_claim_writes [OF assms(1-5)])
  have "rg_leaf (foldl applyWrite kv (take n (fst (tokenOp e kv tk h i b)))) ?leaf = Some lf"
    using ws assms(6) by (cases n; cases "n - 1") auto
  then have "rg_leaf kv' ?leaf = Some lf" using assms(7) map_leD unfolding keepsRecords_def by metis
  then show ?thesis using assms(8-13) by (intro taken_leaf_blocks [where cdc = cc and w = wc]) simp_all
qed

text \<open>A deployment that the tick has looked up in vain stays missing for the rest of the tick.\<close>

lemma missing_stays_cached:
  assumes "envelopeOf b = Some eb" "env_opcode eb = T_PMINT" "decodeCPmintPayload_worker (env_payload eb) = Some cb"
    and "pm_assetId cb = assetIdFor (se_sha256 e) (pm_etchTxid cb) 0" "aid = bytesToHex (pm_assetId cb)"
    and "rg_petch kv (petchKey (se_network e) aid) = None" "tk_petchCache tk aid = None"
  shows "tokenOp e kv tk h i b = ([], tk\<lparr>tk_petchCache := (tk_petchCache tk)(aid \<mapsto> None)\<rparr>)"
  using assms by (auto simp: tokenOp_dispatch scanPmint_def petchLookup_def Let_def)

lemma cached_miss_skips:
  assumes "envelopeOf m = Some em" "env_opcode em = T_PMINT" "decodeCPmintPayload_worker (env_payload em) = Some cm"
    and "tk_petchCache tk (bytesToHex (assetIdFor (se_sha256 e) (pm_etchTxid cm) 0)) = Some None"
  shows "tokenOp e kv tk h i m = ([], tk)"
  using assms by (auto simp: tokenOp_dispatch scanPmint_def petchLookup_def Let_def)

lemma mint_stored:
  assumes "envelopeOf m = Some em" "env_opcode em = T_PMINT" "decodeCPmintPayload_worker (env_payload em) = Some cm"
    and "pm_assetId cm = assetIdFor (se_sha256 e) (pm_etchTxid cm) 0" "aid = bytesToHex (pm_assetId cm)"
    and "rg_petch kv (petchKey (se_network e) aid) = Some pe" "pm_amount cm = pd_mintLimit (pe_petch pe)"
    and "inMintWindow pe h" "se_commitmentOpens e (pm_amount cm) (pm_blinding cm) (pm_commitment cm)"
  shows "rg_pmint (fst (scanTxStep e (kv, freshTick) h i m)) (pmintKeyFor (se_network e) aid h i (bytesToHex (sx_txid m))) \<noteq> None"
proof -
  have hold: "rg_pmint (foldl applyWrite kv' (bumpHolderCount e kv aid s)) = rg_pmint kv'" for kv' s
    by (simp add: bumpHolderCount_def Let_def)
  show ?thesis
    using assms hold
    by (cases "sx_spk m") (auto simp: scanTxStep_def tokenOp_dispatch scanPmint_def petchLookup_def freshTick_def Let_def)
qed

subsection \<open>One reclaim per drop\<close>

definition reclaimAll :: "scanEnv \<Rightarrow> bytes \<Rightarrow> registry \<Rightarrow> reclaimMeta list \<Rightarrow> registry" where
  "reclaimAll e pub = foldl (\<lambda>kv m. foldl applyWrite kv (putDropReclaim e kv m pub))"

definition reclaimPlace :: "reclaimMeta \<Rightarrow> nat \<times> string" where
  "reclaimPlace m = (rm_reclaim_at_height m, bytesToHex (rm_reclaim_txid m))"

definition signedByDepositor :: "scanEnv \<Rightarrow> registry \<Rightarrow> bytes \<Rightarrow> bytes \<Rightarrow> bool" where
  "signedByDepositor e kv dropId pub = (\<exists>d. rg_drop kv (dropKey (se_network e) (bytesToHex dropId)) = Some d \<and>
     (case dm_depositor_xonly d of Some x \<Rightarrow> Some x
      | None \<Rightarrow> dropDepositorXonly (se_apiFundingWitness e (dm_drop_reveal_txid d))) = Some (bytesToHex pub))"

lemma reclaim_step:
  assumes "signedByDepositor e kv dropId pub" "rc_reclaimDropId (rm_reclaim m) = dropId"
  shows "foldl applyWrite kv (putDropReclaim e kv m pub) =
    (case rg_reclaim kv (dropReclaimKey (se_network e) (bytesToHex dropId)) of
       Some prior \<Rightarrow> if priorReclaimStays prior m then kv
         else kv\<lparr>rg_reclaim := (rg_reclaim kv)(dropReclaimKey (se_network e) (bytesToHex dropId) \<mapsto> m)\<rparr>
     | None \<Rightarrow> kv\<lparr>rg_reclaim := (rg_reclaim kv)(dropReclaimKey (se_network e) (bytesToHex dropId) \<mapsto> m)\<rparr>)"
  using assms by (auto simp: signedByDepositor_def putDropReclaim_def Let_def split: option.splits)

lemma stays_earlier:
  assumes "rm_reclaim_at_height p > 0" "rm_reclaim_at_height m > 0" "rm_reclaim_txid p \<noteq> rm_reclaim_txid m"
  shows "priorReclaimStays p m = (reclaimPlace p < reclaimPlace m)"
  using assms by (auto simp: priorReclaimStays_def reclaimPlace_def less_prod_def' Let_def)

lemma reclaims_first:
  assumes "signedByDepositor e kv dropId pub" "rg_reclaim kv (dropReclaimKey (se_network e) (bytesToHex dropId)) = None"
    and "ms \<noteq> []"
    and "\<And>m. m \<in> set ms \<Longrightarrow> rc_reclaimDropId (rm_reclaim m) = dropId \<and> rm_reclaim_at_height m > 0"
    and "\<And>m m'. m \<in> set ms \<Longrightarrow> m' \<in> set ms \<Longrightarrow> rm_reclaim_txid m = rm_reclaim_txid m' \<Longrightarrow> m = m'"
  shows "\<exists>m\<in>set ms. rg_reclaim (reclaimAll e pub kv ms) (dropReclaimKey (se_network e) (bytesToHex dropId)) = Some m \<and>
    (\<forall>m'\<in>set ms. reclaimPlace m \<le> reclaimPlace m') \<and> rg_drop (reclaimAll e pub kv ms) = rg_drop kv"
  using assms(3-5)
proof (induction ms rule: rev_induct)
  case (snoc x ms)
  let ?key = "dropReclaimKey (se_network e) (bytesToHex dropId)"
  let ?kv = "reclaimAll e pub kv ms"
  have x: "rc_reclaimDropId (rm_reclaim x) = dropId" "rm_reclaim_at_height x > 0" using snoc.prems(2) by auto
  have split: "reclaimAll e pub kv (ms @ [x]) = foldl applyWrite ?kv (putDropReclaim e ?kv x pub)"
    by (simp add: reclaimAll_def)
  show ?case
  proof (cases "ms = []")
    case True
    then show ?thesis using reclaim_step [OF assms(1) x(1)] assms(2) by (simp add: reclaimAll_def)
  next
    case False
    then obtain m where m: "m \<in> set ms" "rg_reclaim ?kv ?key = Some m" "\<forall>m'\<in>set ms. reclaimPlace m \<le> reclaimPlace m'"
      and d: "rg_drop ?kv = rg_drop kv" using snoc by auto
    have mx: "rm_reclaim_at_height m > 0" using snoc.prems(2) m(1) by auto
    have s: "signedByDepositor e ?kv dropId pub" using assms(1) d by (simp add: signedByDepositor_def)
    show ?thesis
    proof (cases "rm_reclaim_txid m = rm_reclaim_txid x")
      case True
      then have "m = x" using snoc.prems(3) m(1) by auto
      then show ?thesis unfolding split reclaim_step [OF s x(1)] using m d by (auto simp: priorReclaimStays_def)
    next
      case False
      have "rg_reclaim (reclaimAll e pub kv (ms @ [x])) ?key = Some (if reclaimPlace m < reclaimPlace x then m else x)"
        unfolding split reclaim_step [OF s x(1)] using m(2) stays_earlier [OF mx x(2) False] by simp
      moreover have "rg_drop (reclaimAll e pub kv (ms @ [x])) = rg_drop kv"
        unfolding split reclaim_step [OF s x(1)] using m(2) d by simp
      ultimately show ?thesis using m(1,3) by (auto simp: not_less intro: order_trans)
    qed
  qed
qed simp

lemma scanTxStep_keeps:
  assumes "oneTxid chain" "txidsHashApart e chain" "scanned e chain s" "chain h i = Some tx"
  shows "keepsRecords (fst s) (fst (scanTxStep e s h i tx))"
  using goodWrites_inv [OF assms(1,2)] scanned_inv [OF assms(1-3)] tokenOp_good [of e "fst s" "snd s" chain h i tx] assms(4)
  by (auto simp: scanTxStep_def case_prod_unfold Let_def)

text \<open>A mint that is scanned before its deployment: the rest of the tick, whatever it scans, keeps the miss.\<close>

definition scanRest :: "scanEnv \<Rightarrow> registry \<times> scanTick \<Rightarrow> (nat \<times> nat \<times> scanTx) list \<Rightarrow> registry \<times> scanTick" where
  "scanRest e = foldl (\<lambda>s (h, i, tx). scanTxStep e s h i tx)"

lemma tokenOp_cache: "tk_petchCache tk aid = Some v \<Longrightarrow> tk_petchCache (snd (tokenOp e kv tk h i tx)) aid = Some v"
proof (cases "envelopeOf tx")
  case (Some env)
  assume hit: "tk_petchCache tk aid = Some v"
  have lookup: "tk_petchCache (snd (petchLookup e kv tk a)) aid = Some v" for a
    using hit by (auto simp: petchLookup_def Let_def split: option.splits)
  have "tk_petchCache (snd (scanPmint e kv tk h i tx p)) aid = Some v" for p
    using hit lookup by (auto simp: scanPmint_def case_prod_unfold Let_def split: option.splits)
  moreover have "tk_petchCache (snd (scanEtch e kv tk h i tx p)) = tk_petchCache tk" "tk_petchCache (snd (scanMint e kv tk h tx p)) = tk_petchCache tk"
    "tk_petchCache (snd (scanBurn e tk h tx p)) = tk_petchCache tk" "tk_petchCache (snd (scanPetch e tk h tx p)) = tk_petchCache tk"
    "tk_petchCache (snd (scanDrop e kv tk h tx p q)) = tk_petchCache tk" for p q
    by (auto simp: scanEtch_def scanMint_def scanBurn_def scanPetch_def scanDrop_def putDropReclaim_def case_prod_unfold Let_def
        split: option.splits dropPayload.splits)
  ultimately show ?thesis using Some hit scanClaim_cache unfolding tokenOp_def Let_def by simp
qed (simp add: tokenOp_def)

lemma scanRest_cache: "tk_petchCache (snd s) aid = Some v \<Longrightarrow> tk_petchCache (snd (scanRest e s rest)) aid = Some v"
proof (induction rest arbitrary: s)
  case (Cons t rest)
  obtain h i tx where t: "t = (h, i, tx)" by (metis prod_cases3)
  have "tk_petchCache (snd (scanTxStep e s h i tx)) aid = Some v"
    using tokenOp_cache [OF Cons.prems] by (simp add: scanTxStep_def case_prod_unfold Let_def)
  from Cons.IH [OF this] show ?case by (simp add: scanRest_def t)
qed (simp add: scanRest_def)

lemma stale_lookup:
  assumes "envelopeOf b = Some eb" "env_opcode eb = T_PMINT" "decodeCPmintPayload_worker (env_payload eb) = Some cb"
    and "pm_assetId cb = assetIdFor (se_sha256 e) (pm_etchTxid cb) 0" "aid = bytesToHex (pm_assetId cb)"
    and "rg_petch kv (petchKey (se_network e) aid) = None" "tk_petchCache tk aid = None"
    and "envelopeOf m = Some em" "env_opcode em = T_PMINT" "decodeCPmintPayload_worker (env_payload em) = Some cm"
    and "pm_assetId cm = assetIdFor (se_sha256 e) (pm_etchTxid cm) 0" "bytesToHex (pm_assetId cm) = aid"
  shows "scanTxStep e (scanRest e (scanTxStep e (kv, tk) h i b) rest) h' i' m = scanRest e (scanTxStep e (kv, tk) h i b) rest"
proof -
  have "tk_petchCache (snd (scanTxStep e (kv, tk) h i b)) aid = Some None"
    using missing_stays_cached [OF assms(1-7), of h i] by (simp add: scanTxStep_def)
  from scanRest_cache [OF this] cached_miss_skips [OF assms(8-10)] assms(11,12) show ?thesis by (simp add: scanTxStep_def)
qed

end
