(* ===== verification/Examples_Registry.thy ===== *)
theory Examples_Registry
  imports Examples_Token Fair_Mint Registry_Scan
begin

text \<open>Concrete blocks for the scan (a fair launch with its mints, a gated drop with a claim) and a concrete mint store.\<close>

definition exScan :: scanEnv where
  "exScan = \<lparr>se_network = ''signet'', se_sha256 = take 32, se_commitmentOpens = (\<lambda>_ _ _. True),
     se_apiFundingWitness = (\<lambda>_. None)\<rparr>"

definition exTx :: "byte \<Rightarrow> bytes \<Rightarrow> scanTx" where
  "exTx b script = \<lparr>sx_txid = replicate 32 b, sx_witness = [[], script, []], sx_fundingWitness = None, sx_spk = Some ''00''\<rparr>"

definition exPmint :: pmint where
  "exPmint = \<lparr>pm_assetId = zeros 32, pm_etchTxid = zeros 32, pm_commitment = zeros 33, pm_amount = 100,
     pm_blinding = 1 # zeros 31\<rparr>"

definition exGated :: cdrop where
  "exGated = exDrop\<lparr>dr_merkleRoot := 1 # zeros 31\<rparr>"

definition exWitness :: claimWitness where
  "exWitness = \<lparr>cw_recipientPub = 2 # zeros 32, cw_leafIndex = 7, cw_ethAddress = zeros 20, cw_ethSig = zeros 65,
     cw_proofPath = []\<rparr>"

lemma exTx_simps [simp]: "sx_txid (exTx b s) = replicate 32 b" "envelopeOf (exTx b s) = decodeEnvelopeScript_worker s"
  "sx_fundingWitness (exTx b s) = None"
  by (simp_all add: exTx_def envelopeOf_def)

lemma exScan_simps [simp]: "se_network exScan = ''signet''" "se_sha256 exScan = take 32"
  "se_commitmentOpens exScan a b c" by (simp_all add: exScan_def)

lemma ex_script_of: "p \<noteq> [] \<Longrightarrow> \<exists>s env. decodeEnvelopeScript_worker s = Some env \<and> env_opcode env = u8 p 0 \<and> env_payload env = p"
  unfolding worker_script_eq
  using encode_script_total [of "zeros 32" p] decode_encode_script [of "zeros 32" p] by fastforce

lemma ex_pmint_script:
  "\<exists>s env. decodeEnvelopeScript_worker s = Some env \<and> env_opcode env = T_PMINT \<and>
     decodeCPmintPayload_worker (env_payload env) = Some exPmint"
proof -
  have "\<exists>p. encodeCPmintPayload exPmint = Inr p"
    by (simp add: exPmint_def encodeCPmintPayload_def concatParts.simps throw_unless_def all_zero_def)
  then obtain p where p: "decodeCPmintPayload p = Some exPmint" using pmint_codec by blast
  then have "decodeCPmintPayload_worker p = Some exPmint" by (simp add: worker_pmint)
  moreover have "u8 p 0 = T_PMINT" "p \<noteq> []" using p by (auto simp: decodeCPmintPayload_def)
  ultimately show ?thesis using ex_script_of [of p] by metis
qed

lemma ex_petch_script:
  "\<exists>s env. decodeEnvelopeScript_worker s = Some env \<and> env_opcode env = T_PETCH \<and>
     decodeCPetchPayload_worker (env_payload env) = Some (petchView exPetch)"
proof -
  obtain p where p: "encodeCPetchPayload exPetch = Inr p" using ex_etch by blast
  have d: "decodeCPetchPayload p = Some (petchView exPetch)"
    using petchWire.decode_encode [OF p] ex_etch_text by blast
  then have "decodeCPetchPayload_worker p = Some (petchView exPetch)" by (simp add: worker_petch)
  moreover have "u8 p 0 = T_PETCH" "p \<noteq> []" using d by (auto simp: decodeCPetchPayload_def)
  ultimately show ?thesis using ex_script_of [of p] by metis
qed

subsection \<open>A fair launch\<close>

definition exLaunch :: "bytes \<Rightarrow> bytes \<Rightarrow> nat \<Rightarrow> nat \<Rightarrow> scanTx option" where
  "exLaunch sp sm h i = (if h = 100 \<and> i = 1 then Some (exTx 0 sp) else if h = 101 \<and> i = 0 then Some (exTx 1 sm) else None)"

lemma exLaunch_chain: "oneTxid (exLaunch sp sm)" "txidsHashApart exScan (exLaunch sp sm)"
  by (auto simp: oneTxid_def txidsHashApart_def exLaunch_def collision_def split: if_splits)

definition exPetchMeta :: petchMeta where
  "exPetchMeta = \<lparr>pe_asset_id = zeros 32, pe_petch = petchView exPetch, pe_etch_txid = zeros 32, pe_etched_at_height = 100\<rparr>"

definition exAid :: string where
  "exAid = bytesToHex (zeros 32)"

lemma ex_assetId: "assetIdFor (take 32) (replicate 32 (0::byte)) 0 = zeros 32" "assetIdFor (take 32) (zeros 32) 0 = zeros 32"
  by (simp_all add: assetIdFor_def zeros_def)

lemma ex_petch_step:
  assumes "decodeEnvelopeScript_worker s = Some env" "env_opcode env = T_PETCH"
    "decodeCPetchPayload_worker (env_payload env) = Some (petchView exPetch)"
  shows "scanTxStep exScan (kv, tk) 100 i (exTx 0 s) =
    (kv\<lparr>rg_petch := (rg_petch kv)(petchKey ''signet'' exAid \<mapsto> exPetchMeta)\<rparr>, countFound tk)"
proof -
  have "pd_mintStartHeight (petchView exPetch) = 0" by (simp add: petchView_def exPetch_def)
  then show ?thesis
    using assms by (simp add: scanTxStep_def tokenOp_dispatch scanPetch_def exAid_def exPetchMeta_def ex_assetId
        Let_def zeros_def)
qed

lemma ex_pmint_rules: "pm_assetId exPmint = assetIdFor (take 32) (pm_etchTxid exPmint) 0" "exAid = bytesToHex (pm_assetId exPmint)"
  "pm_amount exPmint = pd_mintLimit (pe_petch exPetchMeta)" "inMintWindow exPetchMeta 101"
  by (simp_all add: exPmint_def ex_assetId exAid_def exPetchMeta_def petchView_def exPetch_def inMintWindow_def)

lemma ex_launch:
  "\<exists>sp sm kv tk k m. scanned exScan (exLaunch sp sm) (kv, tk) \<and> rg_pmint kv k = Some m"
proof -
  obtain sp ep where p: "decodeEnvelopeScript_worker sp = Some ep" "env_opcode ep = T_PETCH"
    "decodeCPetchPayload_worker (env_payload ep) = Some (petchView exPetch)" using ex_petch_script by blast
  obtain sm em where m: "decodeEnvelopeScript_worker sm = Some em" "env_opcode em = T_PMINT"
    "decodeCPmintPayload_worker (env_payload em) = Some exPmint" using ex_pmint_script by blast
  let ?kv = "emptyRegistry\<lparr>rg_petch := (rg_petch emptyRegistry)(petchKey ''signet'' exAid \<mapsto> exPetchMeta)\<rparr>"
  have "scanned exScan (exLaunch sp sm) (?kv, countFound freshTick)"
    using scanned.tx [OF scanned.start, of "exLaunch sp sm" 100 1 "exTx 0 sp" exScan] ex_petch_step [OF p]
    by (simp add: exLaunch_def)
  then have "scanned exScan (exLaunch sp sm) (?kv, freshTick)" by (rule scanned.tick)
  then have "scanned exScan (exLaunch sp sm) (scanTxStep exScan (?kv, freshTick) 101 0 (exTx 1 sm))"
    by (rule scanned.tx) (simp add: exLaunch_def)
  moreover have "rg_pmint (fst (scanTxStep exScan (?kv, freshTick) 101 0 (exTx 1 sm)))
      (pmintKeyFor ''signet'' exAid 101 0 (bytesToHex (replicate 32 1))) \<noteq> None"
    using mint_stored [of "exTx 1 sm" em exPmint exScan exAid ?kv exPetchMeta 101 0] m ex_pmint_rules by simp
  ultimately show ?thesis by (metis not_None_eq prod.collapse)
qed

subsection \<open>A gated drop\<close>

lemma ex_drop_script:
  "\<exists>s env. decodeEnvelopeScript_worker s = Some env \<and> env_opcode env = T_DROP \<and>
     decodeCDropPayload_worker (env_payload env) = Some (Drop exGated)"
proof -
  obtain p where p: "encodeCDropPayload exGated = Inr p"
    by (auto simp: exGated_def exDrop_def encodeCDropPayload_def Let_def concatParts.simps throw_unless_def)
  have d: "decodeCDropPayload p = Some (Drop exGated)"
    by (rule drop_round_trip [OF p]) (simp add: exGated_def exDrop_def plain_text_ascii)
  moreover have "u8 p 0 = T_DROP" "p \<noteq> []" using d by (auto simp: decodeCDropPayload_def)
  ultimately show ?thesis using ex_script_of [of p] worker_drop by metis
qed

lemma ex_claim_script:
  "\<exists>s env cdc. decodeEnvelopeScript_worker s = Some env \<and> env_opcode env = T_DCLAIM \<and>
     decodeCDClaimPayload_worker (env_payload env) = Some cdc \<and> dc_witness cdc = Some exWitness \<and>
     dc_dropRevealTxid cdc = zeros 32 \<and> dc_amount cdc = 100"
proof -
  obtain b where b: "encodeCDClaimWitness exWitness = Inr b" "length b = 123"
    by (auto simp: exWitness_def encodeCDClaimWitness_def concatParts.simps throw_unless_def u8_Cons)
  let ?a = "exClaimArgs\<lparr>ca_witness := b\<rparr>"
  obtain p where p: "encodeCDClaimPayload ?a = Inr p"
    using b(2) by (auto simp: exClaimArgs_def encodeCDClaimPayload_def concatParts.simps throw_unless_def all_zero_def)
  have "b \<noteq> []" using b(2) by auto
  then have d: "decodeCDClaimPayload p = Some (claimView ?a (Some exWitness))"
    using claim_codec [OF p] b(1) witness_codec [of b exWitness] by simp
  moreover have "u8 p 0 = T_DCLAIM" "p \<noteq> []" using d by (auto simp: decodeCDClaimPayload_def)
  moreover have "dc_dropRevealTxid (claimView ?a (Some exWitness)) = zeros 32" "dc_amount (claimView ?a (Some exWitness)) = 100"
    "dc_witness (claimView ?a (Some exWitness)) = Some exWitness"
    by (simp_all add: claimView_def exClaimArgs_def)
  ultimately show ?thesis using ex_script_of [of p] worker_claim by metis
qed

definition exDropMeta :: dropMeta where
  "exDropMeta = \<lparr>dm_drop_id = zeros 32, dm_drop_reveal_txid = zeros 32, dm_drop = exGated, dm_depositor_xonly = None,
     dm_drop_at_height = 100\<rparr>"

definition exDropped :: registry where
  "exDropped = emptyRegistry\<lparr>rg_drop := (rg_drop emptyRegistry)(dropKey ''signet'' exAid \<mapsto> exDropMeta)\<rparr>"

lemma ex_dropId: "dropIdFromRevealTxid (take 32) (replicate 32 (0::byte)) = zeros 32" "dropIdFromRevealTxid (take 32) (zeros 32) = zeros 32"
  by (simp_all add: dropIdFromRevealTxid_def zeros_def)

lemma ex_drop_step:
  assumes "decodeEnvelopeScript_worker s = Some env" "env_opcode env = T_DROP"
    "decodeCDropPayload_worker (env_payload env) = Some (Drop exGated)"
  shows "fst (scanTxStep exScan (emptyRegistry, freshTick) 100 1 (exTx 0 s)) = exDropped"
  using assms by (simp add: scanTxStep_def tokenOp_dispatch scanDrop_def exDropped_def exDropMeta_def ex_dropId exAid_def
      dropDepositorXonly_def zeros_def Let_def)

lemma ex_gated_claim:
  assumes "decodeEnvelopeScript_worker s = Some env" "env_opcode env = T_DCLAIM"
    "decodeCDClaimPayload_worker (env_payload env) = Some cdc" "dc_witness cdc = Some exWitness"
    "dc_dropRevealTxid cdc = zeros 32" "dc_amount cdc = 100"
  shows "fst (tokenOp exScan exDropped tk 101 0 (exTx 1 s)) =
    [PutLeaf (dclaimLeafKey ''signet'' exAid 7) \<lparr>lf_drop_id = zeros 32, lf_leaf_index = 7, lf_eth_address = zeros 20,
       lf_claim_txid = replicate 32 1, lf_claimed_at_height = 101\<rparr>,
     PutClaim (dclaimKeyFor ''signet'' exAid 101 0 (bytesToHex (replicate 32 1)))
       \<lparr>cm_drop_id = zeros 32, cm_claim = cdc, cm_claim_txid = replicate 32 1, cm_tx_index = 0, cm_claimed_at_height = 101\<rparr>]"
proof -
  have "\<not> all_zero (1 # zeros 31 :: bytes)" by (simp add: all_zero_def)
  then show ?thesis
    using assms by (simp add: tokenOp_dispatch scanClaim_def claimGate_def exDropped_def exDropMeta_def exGated_def exDrop_def
        emptyRegistry_def ex_dropId exWitness_def exAid_def Let_def)
qed

definition exDropChain :: "bytes \<Rightarrow> bytes \<Rightarrow> nat \<Rightarrow> nat \<Rightarrow> scanTx option" where
  "exDropChain sd sc = exLaunch sd sc"

lemma ex_claimed:
  "\<exists>sd sc kv tk k c. scanned exScan (exDropChain sd sc) (kv, tk) \<and> rg_dclaim kv k = Some c \<and>
     dc_witness (cm_claim c) = Some exWitness"
proof -
  obtain sd ed where d: "decodeEnvelopeScript_worker sd = Some ed" "env_opcode ed = T_DROP"
    "decodeCDropPayload_worker (env_payload ed) = Some (Drop exGated)" using ex_drop_script by blast
  obtain sc ec cdc where c: "decodeEnvelopeScript_worker sc = Some ec" "env_opcode ec = T_DCLAIM"
    "decodeCDClaimPayload_worker (env_payload ec) = Some cdc" "dc_witness cdc = Some exWitness"
    "dc_dropRevealTxid cdc = zeros 32" "dc_amount cdc = 100" using ex_claim_script by blast
  obtain tk where "scanned exScan (exDropChain sd sc) (exDropped, tk)"
    using scanned.tx [OF scanned.start, of "exDropChain sd sc" 100 1 "exTx 0 sd" exScan] ex_drop_step [OF d]
    by (simp add: exDropChain_def exLaunch_def) (metis prod.collapse)
  then have "scanned exScan (exDropChain sd sc) (scanTxStep exScan (exDropped, tk) 101 0 (exTx 1 sc))"
    by (rule scanned.tx) (simp add: exDropChain_def exLaunch_def)
  moreover have "rg_dclaim (fst (scanTxStep exScan (exDropped, tk) 101 0 (exTx 1 sc)))
      (dclaimKeyFor ''signet'' exAid 101 0 (bytesToHex (replicate 32 1))) =
      Some \<lparr>cm_drop_id = zeros 32, cm_claim = cdc, cm_claim_txid = replicate 32 1, cm_tx_index = 0, cm_claimed_at_height = 101\<rparr>"
    using ex_gated_claim [OF c, of tk] by (simp add: scanTxStep_def case_prod_unfold)
  ultimately show ?thesis using c(4) by (metis claimMeta.select_convs(2) prod.collapse)
qed

subsection \<open>A mint store\<close>

definition exTxid :: "nat \<Rightarrow> string" where "exTxid d = replicate 64 (digit d)"

definition exMintKey :: "nat \<Rightarrow> string" where "exMintKey d = pmintKeyFor ''signet'' ''aa'' (100 + d) d (exTxid d)"

definition exMintKv :: "string \<Rightarrow> unit option \<Rightarrow> unit kvPage" where
  "exMintKv prefix c = \<lparr>kp_keys = (if prefix = ''pmint:aa:'' then [exMintKey 1, exMintKey 2, exMintKey 3] else []),
     kp_complete = True, kp_cursor = None\<rparr>"

definition exMintGet :: "string \<Rightarrow> mintEvent option" where
  "exMintGet k = Some (eventOf k)"

definition exCaps :: petchCaps where
  "exCaps = \<lparr>pc_cap_amount = Some 200, pc_mint_limit = Some 100, pc_mint_end_height = None\<rparr>"

lemma exTxid_ok: "d < 10 \<Longrightarrow> hex64 (exTxid d) \<and> CHR '':'' \<notin> set (exTxid d)"
  using digit_props [of d] by (auto simp: exTxid_def hex64_def hexDigit_def list_all_iff)

lemma exMintKey_read:
  assumes "d < 10"
  shows "keyTxid (exMintKey d) = exTxid d" "keyField 2 (exMintKey d) = Some (int d)" "keyField 3 (exMintKey d) = Some (100 + int d)"
proof -
  have k: "exMintKey d = ''pmint:aa'' @ '':'' @ keyTail (100 + d) d (exTxid d)"
    by (simp add: exMintKey_def pmintKey_tail pmintPrefix_def)
  show "keyTxid (exMintKey d) = exTxid d" "keyField 2 (exMintKey d) = Some (int d)"
    "keyField 3 (exMintKey d) = Some (100 + int d)"
    unfolding k using read_key [of "100 + d" d "exTxid d" "''pmint:aa''"] exTxid_ok [OF assms] assms by simp_all
qed

lemma startsWithD: "startsWith s p \<Longrightarrow> \<exists>r. s = p @ r"
  unfolding startsWith_def by (metis append_take_drop_id)

lemma exMintKey_canonical: "d < 10 \<Longrightarrow> \<not> startsWith (exMintKey d) (''pmint:aa:'' @ ''0000000000:'')"
proof -
  assume d: "d < 10"
  let ?rest = "CHR '':'' # digitsOf 6 d @ CHR '':'' # exTxid d"
  have key: "exMintKey d = ''pmint:aa:'' @ digitsOf 10 (100 + d) @ ?rest"
    using d by (simp add: exMintKey_def pmintKey_tail pmintPrefix_def keyTail_def padStart_stringOf)
  have zeros: "''0000000000'' = digitsOf 10 0" unfolding digitsOf_zero by (simp add: eval_nat_numeral)
  show ?thesis
  proof
    assume "startsWith (exMintKey d) (''pmint:aa:'' @ ''0000000000:'')"
    from startsWithD [OF this] obtain r where "exMintKey d = (''pmint:aa:'' @ ''0000000000:'') @ r" by blast
    then have "digitsOf 10 (100 + d) @ ?rest = ''0000000000'' @ CHR '':'' # r" using key by simp
    then have "digitsOf 10 (100 + d) = digitsOf 10 0" unfolding zeros by (subst (asm) append_eq_append_conv) auto
    then show False using digitsOf_eq [of "100 + d" 10 0] d by simp
  qed
qed

lemma ex_refresh:
  "\<exists>snap. refreshPetchProgress exMintKv None ''signet'' ''aa'' (Some 110) (Some exCaps) = Some snap \<and> \<not> pp_truncated snap \<and>
     pp_credited_count snap = 2 \<and> pp_credited_amount snap = 200"
proof -
  have pages: "refreshPages PETCH_REFRESH_MAX_PAGES kv tip cap lim orp None st =
      (let (st', cut) = refreshKeys tip cap lim orp st (kp_keys (kv None)) in (st', cut, \<not> cut))"
    if "kp_complete (kv None)" for kv :: "unit option \<Rightarrow> unit kvPage" and tip cap lim orp st
  proof -
    obtain n where pages: "PETCH_REFRESH_MAX_PAGES = Suc n" by (simp add: PETCH_REFRESH_MAX_PAGES_def numeral_eq_Suc)
    show ?thesis unfolding pages using that by (simp add: Let_def split: prod.splits)
  qed
  have txids: "exTxid 1 \<noteq> exTxid 2" "exTxid 1 \<noteq> exTxid 3" "exTxid 2 \<noteq> exTxid 3"
    using digit_eq [of 1 2] digit_eq [of 1 3] digit_eq [of 2 3] by (simp_all add: exTxid_def)
  show ?thesis
    using exMintKey_canonical [of 1] exMintKey_canonical [of 2] exMintKey_canonical [of 3] txids
      exTxid_ok [of 1] exTxid_ok [of 2] exTxid_ok [of 3]
    by (simp add: refreshPetchProgress_def pages exMintKv_def pmintPrefix_def refreshStep_def exMintKey_read exCaps_def
        freshScan_def PMINT_CONFIRMATION_DEPTH_def PETCH_REFRESH_SAFETY_CAP_def Let_def split: prod.splits)
qed

lemma ex_load: "\<not> lm_canonical_truncated (loadCanonicalPmints exMintKv exMintGet ''signet'' ''aa'' (Some 110) (Some 200) (Some 100))"
proof -
  obtain n where pages: "(60::nat) = Suc n" by (simp add: numeral_eq_Suc)
  have "snd (canonicalPages 60 (exMintKv p) orp None ks)" for p orp ks
    unfolding pages by (simp add: exMintKv_def Let_def)
  then show ?thesis by (simp add: loadCanonicalPmints_def Let_def case_prod_unfold)
qed

lemma ex_keys: "0 < n \<Longrightarrow> kvKeys n (exMintKv ''pmint:aa:'') None = [exMintKey 1, exMintKey 2, exMintKey 3]"
  by (cases n) (simp_all add: kvKeys_stop exMintKv_def)

lemma ex_scanner_store: "0 < n \<Longrightarrow> scannerStore exMintKv exMintGet ''signet'' ''aa'' n"
  using exTxid_ok by (simp add: scannerStore_def pmintPrefix_def ex_keys exMintGet_def exMintKey_read)

definition exClaimKv :: "string \<Rightarrow> unit option \<Rightarrow> unit kvPage" where
  "exClaimKv prefix c = \<lparr>kp_keys = [dclaimKeyFor ''signet'' ''aa'' 100 0 (exTxid 1)], kp_complete = True, kp_cursor = None\<rparr>"

lemma ex_claims_resolved: "cc_resolvable (loadCreditedDclaims exClaimKv ''signet'' ''aa'' (Some 110) (Some 200) (Some 100))"
  "maxClaimsOf (Some 200) (Some 100) = Some 2"
proof -
  obtain n where pages: "DCLAIM_CREDIT_PAGE_GUARD = Suc n" by (simp add: DCLAIM_CREDIT_PAGE_GUARD_def numeral_eq_Suc)
  show m: "maxClaimsOf (Some 200) (Some 100) = Some 2" by (simp add: maxClaimsOf_def tdiv_def)
  show "cc_resolvable (loadCreditedDclaims exClaimKv ''signet'' ''aa'' (Some 110) (Some 200) (Some 100))"
    unfolding loadCreditedDclaims_def m pages by (simp add: exClaimKv_def Let_def)
qed

subsection \<open>Two reclaims of one drop\<close>

definition exKey :: bytes where "exKey = replicate 32 3"

definition exFunded :: registry where
  "exFunded = emptyRegistry\<lparr>rg_drop := (rg_drop emptyRegistry)(dropKey ''signet'' exAid \<mapsto>
     exDropMeta\<lparr>dm_depositor_xonly := Some (bytesToHex exKey)\<rparr>)\<rparr>"

definition exReclaims :: "reclaimMeta list" where
  "exReclaims = [\<lparr>rm_reclaim = exReclaim, rm_reclaim_txid = [2], rm_reclaim_at_height = 120\<rparr>,
     \<lparr>rm_reclaim = exReclaim, rm_reclaim_txid = [1], rm_reclaim_at_height = 110\<rparr>]"

lemma ex_reclaims:
  "signedByDepositor exScan exFunded (zeros 32) exKey" "rg_reclaim exFunded k = None" "exReclaims \<noteq> []"
  "m \<in> set exReclaims \<Longrightarrow> rc_reclaimDropId (rm_reclaim m) = zeros 32 \<and> 0 < rm_reclaim_at_height m"
  "m \<in> set exReclaims \<Longrightarrow> m' \<in> set exReclaims \<Longrightarrow> rm_reclaim_txid m = rm_reclaim_txid m' \<Longrightarrow> m = m'"
  by (auto simp: signedByDepositor_def exFunded_def exAid_def exReclaims_def exReclaim_def emptyRegistry_def)

end
