(* ===== verification/Amm_Math.thy ===== *)
theory Amm_Math
  imports Tacit_Prelude
begin

text \<open>
  The integer arithmetic of the Bitcoin-side AMM: Newton's integer square root, the founder's shares and the
  locked minimum liquidity (\<open>dapp/amm-min-liq.js\<close>), the constant-product curve and the proportional share
  formulas (\<open>dapp/tacit.js\<close>), and the lazily minted protocol fee (\<open>dapp/amm-replay.js\<close>). \<open>BigInt\<close>
  division truncates; every quotient here is of non-negative numbers, where that is \<open>div\<close>.
\<close>

subsection \<open>Integer square root\<close>

text \<open>
  The loop \<open>while (y < x) { x = y; y = (x + v / x) >> 1n; }\<close> on non-negative numbers: \<open>x\<close> strictly decreases.
  The divisor stays positive (\<open>isqrt_loop_step\<close>), so the division by zero of \<open>BigInt\<close> is not reached.
\<close>

function isqrt_loop :: "nat \<Rightarrow> nat \<Rightarrow> nat \<Rightarrow> nat" where
  "isqrt_loop v x y = (if y < x then isqrt_loop v y ((y + v div y) div 2) else x)"
  by pat_completeness auto
termination
  by (relation "measure (\<lambda>(v, x, y). x)") auto

declare isqrt_loop.simps [simp del]

definition isqrtBig :: "int \<Rightarrow> int res" where
  "isqrtBig v =
     (if v < 0 then Inl (Err ''isqrt of negative'')
      else if v < 2 then Inr v
      else Inr (int (isqrt_loop (nat v) (nat v) ((nat v + 1) div 2))))"

lemma newton_upper:
  fixes v x :: nat
  assumes "0 < x"
  shows "v < ((x + v div x) div 2 + 1)\<^sup>2"
proof -
  define q where "q = v div x"
  define m where "m = (x + q) div 2"
  have "v < x * (q + 1)"
    using assms by (simp add: q_def dividend_less_times_div)
  then have "4 * v < 4 * (x * (q + 1))" by simp
  also have "\<dots> \<le> (x + (q + 1))\<^sup>2"
  proof -
    have "0 \<le> (int x - int (q + 1))\<^sup>2" by simp
    then have "int (4 * (x * (q + 1))) \<le> int ((x + (q + 1))\<^sup>2)"
      by (simp add: power2_eq_square algebra_simps)
    then show ?thesis by (simp only: of_nat_le_iff)
  qed
  also have "\<dots> \<le> (2 * (m + 1))\<^sup>2"
    by (rule power_mono) (auto simp: m_def)
  finally have "4 * v < 4 * (m + 1)\<^sup>2"
    by (simp add: power2_eq_square algebra_simps)
  then show ?thesis by (simp add: m_def q_def)
qed

lemma isqrt_loop_step:
  fixes v x :: nat
  assumes "0 < x" "0 < v"
  shows "0 < (x + v div x) div 2"
proof (rule ccontr)
  assume "\<not> 0 < (x + v div x) div 2"
  then have "x + v div x < 2" by simp
  with assms(1) have "x = 1" and "v div x = 0" by linarith+
  with assms(2) show False by simp
qed

lemma isqrt_loop_correct:
  assumes "0 < x" "0 < v" "v < (x + 1)\<^sup>2" "y = (x + v div x) div 2"
  shows "(isqrt_loop v x y)\<^sup>2 \<le> v \<and> v < (isqrt_loop v x y + 1)\<^sup>2"
  using assms
proof (induction v x y rule: isqrt_loop.induct)
  case (1 v x y)
  show ?case
  proof (cases "y < x")
    case True
    have "0 < y" using 1 True isqrt_loop_step [of x v] by simp
    moreover have "v < (y + 1)\<^sup>2" using newton_upper [of x v] 1(2,5) by simp
    ultimately show ?thesis
      using 1(1) [OF True] 1(3) True by (simp add: isqrt_loop.simps [of v x y])
  next
    case False
    then have "x \<le> v div x" using 1(5) by simp
    then have "x * x \<le> x * (v div x)" by simp
    also have "\<dots> \<le> v" by simp
    finally show ?thesis
      using False 1(4) by (simp add: isqrt_loop.simps [of v x y] power2_eq_square)
  qed
qed

lemma isqrt_loop_start:
  assumes "2 \<le> v"
  shows "(isqrt_loop v v ((v + 1) div 2))\<^sup>2 \<le> v \<and> v < (isqrt_loop v v ((v + 1) div 2) + 1)\<^sup>2"
proof (rule isqrt_loop_correct)
  show "v < (v + 1)\<^sup>2" by (simp add: power2_eq_square)
  show "(v + 1) div 2 = (v + v div v) div 2" using assms by simp
qed (use assms in auto)

text \<open>The loop returns the floor of the square root.\<close>

lemma isqrtBig_spec:
  assumes "isqrtBig n = Inr r"
  shows "0 \<le> r \<and> r * r \<le> n \<and> n < (r + 1) * (r + 1)"
proof -
  have pos: "0 \<le> n" using assms by (simp add: isqrtBig_def split: if_splits)
  show ?thesis
  proof (cases "n < 2")
    case True
    with pos assms have "r = n" and "n = 0 \<or> n = 1" by (auto simp: isqrtBig_def)
    then show ?thesis by auto
  next
    case False
    with pos assms have 2: "2 \<le> n" "r = int (isqrt_loop (nat n) (nat n) ((nat n + 1) div 2))"
      by (simp_all add: isqrtBig_def)
    define s where "s = isqrt_loop (nat n) (nat n) ((nat n + 1) div 2)"
    have "s\<^sup>2 \<le> nat n \<and> nat n < (s + 1)\<^sup>2"
      unfolding s_def by (rule isqrt_loop_start) (use 2 in simp)
    then have "int (s\<^sup>2) \<le> int (nat n) \<and> int (nat n) < int ((s + 1)\<^sup>2)"
      by (simp only: of_nat_le_iff of_nat_less_iff)
    with 2 show ?thesis
      by (simp add: s_def power2_eq_square algebra_simps)
  qed
qed

lemma isqrtBig_total: "0 \<le> n \<Longrightarrow> \<exists>r. isqrtBig n = Inr r"
  by (auto simp: isqrtBig_def)

lemma isqrtBig_mono:
  assumes "isqrtBig a = Inr r" "isqrtBig b = Inr s" "a \<le> b"
  shows "r \<le> s"
proof (rule ccontr)
  assume "\<not> r \<le> s"
  then have "s + 1 \<le> r" by simp
  moreover have "0 \<le> s + 1" using isqrtBig_spec [OF assms(2)] by simp
  ultimately have "(s + 1) * (s + 1) \<le> r * r" by (simp add: mult_mono)
  with isqrtBig_spec [OF assms(1)] isqrtBig_spec [OF assms(2)] assms(3) show False by linarith
qed

subsection \<open>Founder shares and the locked minimum\<close>

definition MINIMUM_LIQUIDITY :: int where "MINIMUM_LIQUIDITY = 1000"
definition MIN_LIQ_LOCK_BPS_WARN :: int where "MIN_LIQ_LOCK_BPS_WARN = 100"
definition MIN_LIQ_LOCK_BPS_HIGH :: int where "MIN_LIQ_LOCK_BPS_HIGH = 1000"

text \<open>\<open>isqrt\<close> of \<open>amm-min-liq.js\<close> has the body of \<open>isqrtBig\<close>.\<close>

definition isqrt :: "int \<Rightarrow> int res" where
  "isqrt n =
     (if n < 0 then Inl (Err ''isqrt of negative'')
      else if n < 2 then Inr n
      else Inr (int (isqrt_loop (nat n) (nat n) ((nat n + 1) div 2))))"

lemma isqrt_eq: "isqrt = isqrtBig"
  by (rule ext) (simp add: isqrt_def isqrtBig_def)

record initShares =
  total_shares :: int
  locked_shares :: int
  founder_shares :: int

definition lpInitShares :: "int \<Rightarrow> int \<Rightarrow> initShares res" where
  "lpInitShares da db =
     (if da \<le> 0 \<or> db \<le> 0 then Inl (Err ''deltaA and deltaB must be positive'')
      else (case isqrt (da * db) of Inl e \<Rightarrow> Inl e
        | Inr tot \<Rightarrow>
            if tot \<le> MINIMUM_LIQUIDITY then Inl (Err ''initial liquidity below MINIMUM_LIQUIDITY'')
            else Inr \<lparr>total_shares = tot, locked_shares = MINIMUM_LIQUIDITY,
                      founder_shares = tot - MINIMUM_LIQUIDITY\<rparr>))"

datatype severity = reject | high | warn | ok_sev

record lockAssessment = initShares +
  locked_bps :: int
  lock_severity :: severity

definition assessMinLiqLockFraction :: "int \<Rightarrow> int \<Rightarrow> lockAssessment res" where
  "assessMinLiqLockFraction da db =
     (if da \<le> 0 \<or> db \<le> 0 then Inl (Err ''deltaA and deltaB must be positive'')
      else (case isqrt (da * db) of Inl e \<Rightarrow> Inl e
        | Inr tot \<Rightarrow>
            if tot \<le> MINIMUM_LIQUIDITY
            then Inr \<lparr>total_shares = tot, locked_shares = MINIMUM_LIQUIDITY, founder_shares = 0,
                      locked_bps = 10000, lock_severity = reject\<rparr>
            else
              (let founder = tot - MINIMUM_LIQUIDITY;
                   lockedBps = tdiv (10000 * MINIMUM_LIQUIDITY) tot;
                   sev = (if lockedBps \<ge> MIN_LIQ_LOCK_BPS_HIGH then high
                          else if lockedBps \<ge> MIN_LIQ_LOCK_BPS_WARN then warn
                          else ok_sev)
               in Inr \<lparr>total_shares = tot, locked_shares = MINIMUM_LIQUIDITY, founder_shares = founder,
                       locked_bps = lockedBps, lock_severity = sev\<rparr>)))"

text \<open>The warning the founder sees and the shares the founder gets agree on which pools can open.\<close>

lemma assess_agrees_with_init:
  assumes "0 < da" "0 < db"
  shows "\<exists>a. assessMinLiqLockFraction da db = Inr a \<and>
      ((lock_severity a = reject) = (\<exists>e. lpInitShares da db = Inl e)) \<and>
      (lock_severity a \<noteq> reject \<longrightarrow> (\<exists>s. lpInitShares da db = Inr s \<and> founder_shares s = founder_shares a))"
  using isqrtBig_total [of "da * db"] assms
  by (auto simp: assessMinLiqLockFraction_def lpInitShares_def isqrt_eq Let_def MINIMUM_LIQUIDITY_def)

subsection \<open>The constant-product curve\<close>

record curveOut =
  deltaOut :: int
  raPost :: int
  rbPost :: int

definition swapVarCurveDeltaOut :: "int \<Rightarrow> int \<Rightarrow> int \<Rightarrow> int \<Rightarrow> int \<Rightarrow> curveOut res" where
  "swapVarCurveDeltaOut direction ra rb din fbps =
     (if ra \<le> 0 \<or> rb \<le> 0 then Inl (Err ''reserves must be > 0'')
      else if din \<le> 0 then Inl (Err ''delta_in must be > 0'')
      else if fbps < 0 \<or> fbps > 1000 then Inl (Err ''fee_bps out of range'')
      else if ra \<ge> 2 ^ 64 \<or> rb \<ge> 2 ^ 64 \<or> din \<ge> 2 ^ 64 then Inl (Err ''values must fit u64'')
      else if direction \<noteq> 0 \<and> direction \<noteq> 1 then Inl (Err ''direction must be 0 or 1'')
      else
        (let gNum = 10000 - fbps; gDen = 10000;
             num = (if direction = 0 then rb * gNum * din else ra * gNum * din);
             den = (if direction = 0 then ra * gDen + gNum * din else rb * gDen + gNum * din);
             dOut = tdiv num den;
             raP = (if direction = 0 then ra + din else ra - dOut);
             rbP = (if direction = 0 then rb - dOut else rb + din)
         in if dOut \<ge> 2 ^ 64 then Inl (Err ''delta_out overflows u64'')
            else if raP \<le> 0 \<or> rbP \<le> 0 then Inl (Err ''post-reserve non-positive'')
            else if raP \<ge> 2 ^ 64 then Inl (Err ''post-reserve_A overflows u64'')
            else if rbP \<ge> 2 ^ 64 then Inl (Err ''post-reserve_B overflows u64'')
            else Inr \<lparr>deltaOut = dOut, raPost = raP, rbPost = rbP\<rparr>))"

text \<open>
  The inequality every accepted trade satisfies, whether the output is computed (a swap) or declared and
  checked (a route hop), keeps the product of the reserves from falling.
\<close>

lemma curve_floor_keeps_k:
  fixes rIn rOut dIn dOut gNum gDen :: int
  assumes pos: "0 < rIn" "0 \<le> dOut" "0 \<le> dIn" and g: "0 < gNum" "gNum \<le> gDen"
    and floor: "dOut * (rIn * gDen + gNum * dIn) \<le> rOut * gNum * dIn"
  shows "rIn * rOut \<le> (rIn + dIn) * (rOut - dOut)"
proof -
  have "gNum * (dOut * (rIn + dIn)) = dOut * (rIn * gNum + gNum * dIn)"
    by (simp add: algebra_simps)
  also have "\<dots> \<le> dOut * (rIn * gDen + gNum * dIn)"
    using pos g by (intro mult_left_mono add_right_mono) simp_all
  also have "\<dots> \<le> gNum * (rOut * dIn)"
    using floor by (simp add: algebra_simps)
  finally have "dOut * (rIn + dIn) \<le> rOut * dIn"
    using g by simp
  then show ?thesis by (simp add: algebra_simps)
qed

lemma curve_floor_strict:
  fixes rIn rOut dIn dOut gNum gDen :: int
  assumes "0 < rIn" "0 < rOut" "0 \<le> dIn" "0 < gNum" "0 < gDen"
    and floor: "dOut * (rIn * gDen + gNum * dIn) \<le> rOut * gNum * dIn"
  shows "dOut < rOut"
proof (rule ccontr)
  assume "\<not> dOut < rOut"
  then have "rOut * (rIn * gDen + gNum * dIn) \<le> dOut * (rIn * gDen + gNum * dIn)"
    using assms by (intro mult_right_mono) auto
  with floor have "rOut * (rIn * gDen) \<le> 0" by (simp add: algebra_simps)
  with assms show False by (simp add: mult_le_0_iff)
qed

text \<open>The accepted results of the curve, by direction.\<close>

lemma swapVarCurve_cases:
  assumes "swapVarCurveDeltaOut direction ra rb din fbps = Inr r"
  shows "0 < ra" "0 < rb" "0 < din" "0 \<le> fbps" "fbps \<le> 1000" "direction = 0 \<or> direction = 1"
    "0 \<le> deltaOut r" "0 < raPost r" "0 < rbPost r" "raPost r < 2 ^ 64" "rbPost r < 2 ^ 64"
    "direction = 0 \<Longrightarrow> raPost r = ra + din \<and> rbPost r = rb - deltaOut r \<and>
       deltaOut r * (ra * 10000 + (10000 - fbps) * din) \<le> rb * (10000 - fbps) * din"
    "direction = 1 \<Longrightarrow> rbPost r = rb + din \<and> raPost r = ra - deltaOut r \<and>
       deltaOut r * (rb * 10000 + (10000 - fbps) * din) \<le> ra * (10000 - fbps) * din"
  using assms
  by (auto simp: swapVarCurveDeltaOut_def Let_def add_pos_pos tdiv_nonneg tdiv_times_le
      split: if_splits)

lemma swapVarCurve_k:
  assumes "swapVarCurveDeltaOut direction ra rb din fbps = Inr r"
  shows "ra * rb \<le> raPost r * rbPost r"
proof -
  note c = swapVarCurve_cases [OF assms]
  have g: "0 < 10000 - fbps" "10000 - fbps \<le> 10000" using c by auto
  from c(6) show ?thesis
  proof
    assume d: "direction = 0"
    show ?thesis
      using curve_floor_keeps_k [OF c(1) c(7) _ g, of din rb] c(3,12) d by simp
  next
    assume d: "direction = 1"
    show ?thesis
      using curve_floor_keeps_k [OF c(2) c(7) _ g, of din ra] c(3,13) d by (simp add: mult.commute)
  qed
qed

lemma swapVarCurve_total:
  assumes "0 < ra" "0 < rb" "0 < din" "0 \<le> fbps" "fbps \<le> 1000" "ra < 2 ^ 64" "rb < 2 ^ 64"
    and d: "direction = 0 \<and> ra + din < 2 ^ 64 \<or> direction = 1 \<and> rb + din < 2 ^ 64"
  shows "\<exists>r. swapVarCurveDeltaOut direction ra rb din fbps = Inr r"
proof -
  have A: "0 \<le> tdiv (rOut * g * din) (rIn * 10000 + g * din) \<and> tdiv (rOut * g * din) (rIn * 10000 + g * din) < rOut"
    if "0 < rIn" "0 < rOut" "g = 10000 - fbps" for rIn rOut g :: int
  proof -
    have g: "0 < g" using that assms by simp
    have den: "0 < rIn * 10000 + g * din" using g that assms by (simp add: add_pos_pos)
    have num: "0 \<le> rOut * g * din" using g that assms by simp
    have "tdiv (rOut * g * din) (rIn * 10000 + g * din) < rOut"
      by (rule curve_floor_strict [OF that(1,2) _ g _ tdiv_times_le [OF num den]])
        (use assms(3) in simp_all)
    with tdiv_nonneg [OF num den] show ?thesis by simp
  qed
  from d show ?thesis
  proof (elim disjE conjE)
    assume d0: "direction = 0" "ra + din < 2 ^ 64"
    define q where "q = tdiv (rb * (10000 - fbps) * din) (ra * 10000 + (10000 - fbps) * din)"
    have q: "0 \<le> q" "q < rb" using A [OF assms(1,2) refl] by (auto simp: q_def)
    show ?thesis
      using q d0 assms(1-7) unfolding swapVarCurveDeltaOut_def Let_def by (simp add: q_def [symmetric])
  next
    assume d1: "direction = 1" "rb + din < 2 ^ 64"
    define q where "q = tdiv (ra * (10000 - fbps) * din) (rb * 10000 + (10000 - fbps) * din)"
    have q: "0 \<le> q" "q < ra" using A [OF assms(2,1) refl] by (auto simp: q_def)
    show ?thesis
      using q d1 assms(1-7) unfolding swapVarCurveDeltaOut_def Let_def by (simp add: q_def [symmetric])
  qed
qed

text \<open>
  Selling the output of a swap straight back never returns more than was put in: the second swap starts from
  reserves whose product is at least the first one's, and it restores the other side exactly.
\<close>

lemma swap_back_no_gain:
  assumes fwd: "swapVarCurveDeltaOut direction ra rb din fbps = Inr r"
    and bwd: "swapVarCurveDeltaOut (1 - direction) (raPost r) (rbPost r) (deltaOut r) fbps' = Inr s"
  shows "deltaOut s \<le> din"
proof -
  note f = swapVarCurve_cases [OF fwd] and b = swapVarCurve_cases [OF bwd]
  have k: "ra * rb \<le> raPost s * rbPost s"
    using swapVarCurve_k [OF fwd] swapVarCurve_k [OF bwd] by simp
  from f(6) show ?thesis
  proof
    assume "direction = 0"
    then have "raPost s * rbPost s = (ra + din - deltaOut s) * rb" using f(12) b(13) by simp
    then have "ra \<le> ra + din - deltaOut s" using k f(2) by (metis mult.commute mult_le_cancel_left_pos)
    then show ?thesis by simp
  next
    assume "direction = 1"
    then have "raPost s * rbPost s = ra * (rb + din - deltaOut s)" using f(13) b(12) by simp
    then have "rb \<le> rb + din - deltaOut s" using k f(1) by (metis mult_le_cancel_left_pos)
    then show ?thesis by simp
  qed
qed

subsection \<open>Proportional shares\<close>

definition lpAddSharesProportional :: "int \<Rightarrow> int \<Rightarrow> int \<Rightarrow> int \<Rightarrow> int \<Rightarrow> int res" where
  "lpAddSharesProportional da db ra rb s =
     (if s = 0 then Inl (Err ''use POOL_INIT (variant 1) for empty pools'')
      else if ra = 0 \<or> rb = 0 then Inl (Err ''cannot add to a pool with zero reserves'')
      else let a = tdiv (da * s) ra; b = tdiv (db * s) rb in Inr (if a < b then a else b))"

record removeOut =
  outA :: int
  outB :: int

definition lpRemoveOutputsProportional :: "int \<Rightarrow> int \<Rightarrow> int \<Rightarrow> int \<Rightarrow> removeOut res" where
  "lpRemoveOutputsProportional sa ra rb s =
     (if s = 0 then Inl (Err ''cannot remove from empty pool'')
      else if sa > s then Inl (Err ''shareAmount exceeds total shares'')
      else Inr \<lparr>outA = tdiv (ra * sa) s, outB = tdiv (rb * sa) s\<rparr>)"

lemma lpAddShares_bound:
  assumes "lpAddSharesProportional da db ra rb s = Inr sh" "0 < ra" "0 < rb" "0 \<le> da" "0 \<le> db" "0 \<le> s"
  shows "sh * ra \<le> da * s \<and> sh * rb \<le> db * s \<and> 0 \<le> sh"
proof -
  have q: "0 \<le> da * s" "0 \<le> db * s" using assms by simp_all
  have "sh \<le> tdiv (da * s) ra" "sh \<le> tdiv (db * s) rb"
    using assms(1) by (auto simp: lpAddSharesProportional_def Let_def split: if_splits)
  then have "sh * ra \<le> tdiv (da * s) ra * ra" "sh * rb \<le> tdiv (db * s) rb * rb"
    using assms(2,3) by (simp_all add: mult_right_mono)
  moreover have "0 \<le> sh"
    using assms(1) tdiv_nonneg [OF q(1) assms(2)] tdiv_nonneg [OF q(2) assms(3)]
    by (auto simp: lpAddSharesProportional_def Let_def split: if_splits)
  ultimately show ?thesis
    using tdiv_times_le [OF q(1) assms(2)] tdiv_times_le [OF q(2) assms(3)] by linarith
qed

lemma lpRemoveOutputs_bound:
  assumes "lpRemoveOutputsProportional sa ra rb s = Inr w" "0 < s" "0 \<le> sa" "0 \<le> ra" "0 \<le> rb"
  shows "outA w * s \<le> ra * sa" "outB w * s \<le> rb * sa" "0 \<le> outA w" "0 \<le> outB w" "sa \<le> s"
  using assms
  by (auto simp: lpRemoveOutputsProportional_def tdiv_times_le tdiv_nonneg split: if_splits)

text \<open>Adding liquidity and removing the shares it minted, at once, returns at most what was added.\<close>

lemma add_then_remove_no_gain:
  assumes add: "lpAddSharesProportional da db ra rb s = Inr sh"
    and rm: "lpRemoveOutputsProportional sh (ra + da) (rb + db) (s + sh) = Inr w"
    and pos: "0 < ra" "0 < rb" "0 < s" "0 \<le> da" "0 \<le> db"
  shows "outA w \<le> da \<and> outB w \<le> db"
proof -
  have b: "sh * ra \<le> da * s" "sh * rb \<le> db * s" "0 \<le> sh"
    using lpAddShares_bound [OF add pos(1,2,4,5)] pos by auto
  have S: "0 < s + sh" using pos b by simp
  note r = lpRemoveOutputs_bound [OF rm S b(3)]
  have A: "x \<le> d" if "x * (s + sh) \<le> (res + d) * sh" "sh * res \<le> d * s" for x d res :: int
  proof -
    have "x * (s + sh) \<le> d * (s + sh)" using that by (simp add: algebra_simps)
    then show ?thesis using S by simp
  qed
  show ?thesis
    using A [OF r(1)] A [OF r(2)] b pos by simp
qed

subsection \<open>The lazily minted protocol fee\<close>

definition computeProtocolShares :: "int \<Rightarrow> int \<Rightarrow> int \<Rightarrow> int \<Rightarrow> int res" where
  "computeProtocolShares S kPre kNow bps =
     (if bps \<le> 0 then Inr 0
      else if kNow \<le> kPre then Inr 0
      else if S = 0 then Inr 0
      else (case isqrtBig kPre of Inl e \<Rightarrow> Inl e
        | Inr rootPre \<Rightarrow> (case isqrtBig kNow of Inl e \<Rightarrow> Inl e
          | Inr rootNow \<Rightarrow>
              if rootNow \<le> rootPre then Inr 0
              else
                (let numerator = S * bps * (rootNow - rootPre);
                     denominator = (10000 - bps) * rootNow + bps * rootPre
                 in if denominator = 0 then Inr 0 else Inr (tdiv numerator denominator)))))"

lemma computeProtocolShares_total: "0 \<le> kPre \<Longrightarrow> \<exists>p. computeProtocolShares S kPre kNow bps = Inr p"
  using isqrtBig_total [of kPre] isqrtBig_total [of kNow]
  by (auto simp: computeProtocolShares_def Let_def)

lemma computeProtocolShares_cases:
  assumes "computeProtocolShares S kPre kNow bps = Inr p" "0 \<le> S" "bps < 10000"
    "isqrtBig kPre = Inr a" "isqrtBig kNow = Inr b"
  shows "p = 0 \<or> 0 \<le> p \<and> a < b \<and> 0 < bps \<and> p * ((10000 - bps) * b + bps * a) \<le> S * bps * (b - a)"
proof (cases "p = 0")
  case False
  then have p: "p = tdiv (S * bps * (b - a)) ((10000 - bps) * b + bps * a)" and ab: "a < b" "0 < bps"
    using assms by (auto simp: computeProtocolShares_def Let_def split: if_splits)
  have "0 \<le> a" using isqrtBig_spec [OF assms(4)] by simp
  then have "0 < (10000 - bps) * b + bps * a" "0 \<le> S * bps * (b - a)"
    using ab assms(2,3) by (simp_all add: add_pos_nonneg)
  then show ?thesis
    using ab tdiv_nonneg [of "S * bps * (b - a)" "(10000 - bps) * b + bps * a"]
      tdiv_times_le [of "S * bps * (b - a)" "(10000 - bps) * b + bps * a"] unfolding p by blast
qed simp

lemma computeProtocolShares_nonneg:
  assumes "computeProtocolShares S kPre kNow bps = Inr p" "0 \<le> S" "bps < 10000" "0 \<le> kPre"
  shows "0 \<le> p"
proof (cases "p = 0")
  case False
  then have "kPre < kNow"
    using assms(1) by (auto simp: computeProtocolShares_def split: if_splits)
  then obtain a b where "isqrtBig kPre = Inr a" "isqrtBig kNow = Inr b"
    using isqrtBig_total [OF assms(4)] isqrtBig_total [of kNow] assms(4) by auto
  with computeProtocolShares_cases [OF assms(1-3)] show ?thesis by auto
qed simp

text \<open>
  The protocol's cut: of the growth of the root of \<open>k\<close> the new shares own at most \<open>bps\<close> ten-thousandths,
  so the liquidity providers keep at least the rest of it, and never fall below where they stood.
\<close>

lemma computeProtocolShares_cut:
  assumes "computeProtocolShares S kPre kNow bps = Inr p" "0 \<le> S" "bps < 10000"
    "isqrtBig kPre = Inr a" "isqrtBig kNow = Inr b" "kPre \<le> kNow" "0 \<le> bps"
  shows "(S + p) * (10000 * a + (10000 - bps) * (b - a)) \<le> S * (10000 * b)"
  using computeProtocolShares_cases [OF assms(1-5)]
proof
  assume p: "p = 0"
  have "a \<le> b" by (rule isqrtBig_mono [OF assms(4,5,6)])
  then have "bps * a \<le> bps * b" using assms(7) by (rule mult_left_mono)
  then have "10000 * a + (10000 - bps) * (b - a) \<le> 10000 * b" by (simp add: algebra_simps)
  with p assms(2) show ?thesis by (simp add: mult_left_mono)
qed (simp add: algebra_simps)

end
