(* ===== verification/Amm_Asset.thy ===== *)
theory Amm_Asset
  imports Amm_Envelope
begin

text \<open>
  Asset and pool identity: \<open>dapp/amm-asset.js\<close>, and the copies of it in \<open>dapp/tacit.js\<close> and
  \<open>worker/src/index.js\<close>. The copies are modelled one by one and shown to agree. \<open>sha256\<close> is a parameter;
  identifiers are given as \<open>Uint8Array\<close>s (their hex spelling is converted before anything else happens).
\<close>

definition CAPABILITY_FLAGS_MAX :: int where "CAPABILITY_FLAGS_MAX = 255"
definition DOMAIN_POOL_ID :: bytes where "DOMAIN_POOL_ID = ascii ''tacit-amm-pool-v1''"
definition DOMAIN_LP_ASSET :: bytes where "DOMAIN_LP_ASSET = ascii ''tacit-amm-lp-v1''"

definition deriveAssetIdFromReveal :: "(bytes \<Rightarrow> bytes) \<Rightarrow> bytes \<Rightarrow> int \<Rightarrow> bytes" where
  "deriveAssetIdFromReveal sha256 revealTxid revealVout =
     sha256 (rev revealTxid @ le_bytes 4 (revealVout mod 2 ^ 32))"

subsection \<open>The canonical order of a pair\<close>

text \<open>The comparison loop: \<open>None\<close> when it runs through, else whether the first byte string is the smaller.\<close>

fun pairLoop :: "bytes \<Rightarrow> bytes \<Rightarrow> bool option" where
  "pairLoop (x # xs) (y # ys) = (if x < y then Some True else if x > y then Some False else pairLoop xs ys)"
| "pairLoop xs ys = None"

definition canonicalAssetPair :: "bytes \<Rightarrow> bytes \<Rightarrow> (bytes \<times> bytes) res" where
  "canonicalAssetPair a b =
     (if length a \<noteq> 32 \<or> length b \<noteq> 32 then Inl (Err ''asset_id must be 32 bytes'')
      else (case pairLoop a b of
          Some True \<Rightarrow> Inr (a, b)
        | Some False \<Rightarrow> Inr (b, a)
        | None \<Rightarrow> Inl (Err ''canonicalAssetPair: identical asset_ids'')))"

lemma pairLoop_swap: "pairLoop b a = map_option Not (pairLoop a b)"
  by (induction a b rule: pairLoop.induct) (auto simp: not_less_iff_gr_or_eq)

lemma pairLoop_None: "length a = length b \<Longrightarrow> (pairLoop a b = None) = (a = b)"
  by (induction a b rule: pairLoop.induct) (auto simp: not_less_iff_gr_or_eq)

lemma canonicalAssetPair_commute: "canonicalAssetPair a b = canonicalAssetPair b a"
  by (auto simp: canonicalAssetPair_def pairLoop_swap [of a b] split: option.split bool.split)

lemma canonicalAssetPair_Inr:
  assumes "canonicalAssetPair a b = Inr (l, h)"
  shows "length l = 32" "length h = 32" "l \<noteq> h" "{l, h} = {a, b}"
  using assms pairLoop_None [of a b]
  by (auto simp: canonicalAssetPair_def split: option.splits bool.splits if_splits)

lemma canonicalAssetPair_eq: "canonicalAssetPair a b = Inr (l, h) \<Longrightarrow> {a, b} = {a', b'} \<Longrightarrow>
    canonicalAssetPair a' b' = Inr (l, h)"
  using canonicalAssetPair_commute by (metis doubleton_eq_iff)

subsection \<open>Pool and LP-asset identifiers\<close>

definition isZeroProtocolFeeAddress :: "bytes \<Rightarrow> bool" where
  "isZeroProtocolFeeAddress b = all_zero b"

definition pfAddrOf :: "bytes option \<Rightarrow> bytes res" where
  "pfAddrOf pa = (case pa of None \<Rightarrow> Inr (zeros 33)
     | Some a \<Rightarrow> if length a \<noteq> 33 then Inl (BadLength ''protocol_fee_address'' 33) else Inr a)"

definition pfBpsOf :: "int option \<Rightarrow> int" where
  "pfBpsOf pb = (case pb of None \<Rightarrow> 0 | Some b \<Rightarrow> b)"

definition derivePoolId ::
  "(bytes \<Rightarrow> bytes) \<Rightarrow> bytes \<Rightarrow> bytes \<Rightarrow> int \<Rightarrow> int \<Rightarrow> bytes option \<Rightarrow> int option \<Rightarrow> bytes res" where
  "derivePoolId sha256 idA idB feeBps capabilityFlags protocolFeeAddress protocolFeeBps =
     (case canonicalAssetPair idA idB of Inl e \<Rightarrow> Inl e
      | Inr (low, high) \<Rightarrow>
        if feeBps < 0 \<or> feeBps > FEE_BPS_MAX then Inl (Err ''fee_bps must be integer in [0, 1000]'')
        else if capabilityFlags < 0 \<or> capabilityFlags > CAPABILITY_FLAGS_MAX
        then Inl (Err ''capability_flags must be u8 in [0, 255]'')
        else
          (let feeBpsLE = le_bytes 2 feeBps; flagsByte = [word_of_int capabilityFlags];
               pfBps = pfBpsOf protocolFeeBps in
           if pfBps < 0 \<or> pfBps > PROTOCOL_FEE_BPS_MAX
           then Inl (Err ''protocol_fee_bps must be integer in [0, 1000]'')
           else (case pfAddrOf protocolFeeAddress of Inl e \<Rightarrow> Inl e
             | Inr pfAddr \<Rightarrow>
               if (pfBps = 0) \<noteq> isZeroProtocolFeeAddress pfAddr
               then Inl (Err ''protocol_fee_address and protocol_fee_bps must be joint-zero or joint-non-zero'')
               else if pfBps = 0
               then Inr (sha256 (DOMAIN_POOL_ID @ low @ high @ feeBpsLE @ flagsByte))
               else Inr (sha256 (DOMAIN_POOL_ID @ low @ high @ feeBpsLE @ flagsByte @ pfAddr @
                     le_bytes 2 pfBps)))))"

definition deriveLpAssetId :: "(bytes \<Rightarrow> bytes) \<Rightarrow> bytes \<Rightarrow> bytes res" where
  "deriveLpAssetId sha256 poolId =
     (if length poolId \<noteq> 32 then Inl (Err ''pool_id must be 32 bytes'')
      else Inr (sha256 (DOMAIN_LP_ASSET @ poolId)))"

subsection \<open>The copies in the wallet and in the indexer\<close>

definition lexCanonicalAssetPair :: "bytes \<Rightarrow> bytes \<Rightarrow> (bytes \<times> bytes) res" where
  "lexCanonicalAssetPair a b =
     (if length a \<noteq> 32 \<or> length b \<noteq> 32 then Inl (Err ''asset_id must be 32 bytes'')
      else (case pairLoop a b of
          Some True \<Rightarrow> Inr (a, b)
        | Some False \<Rightarrow> Inr (b, a)
        | None \<Rightarrow> Inl (Err ''canonical pair: identical asset_ids'')))"

definition ammDerivePoolIdDapp ::
  "(bytes \<Rightarrow> bytes) \<Rightarrow> bytes \<Rightarrow> bytes \<Rightarrow> int \<Rightarrow> int \<Rightarrow> bytes option \<Rightarrow> int option \<Rightarrow> bytes res" where
  "ammDerivePoolIdDapp sha256 idA idB feeBps capabilityFlags protocolFeeAddress protocolFeeBps =
     (case lexCanonicalAssetPair idA idB of Inl e \<Rightarrow> Inl e
      | Inr (low, high) \<Rightarrow>
        if feeBps < 0 \<or> feeBps > 1000 then Inl (Err ''fee_bps out of range [0, 1000]'')
        else if capabilityFlags < 0 \<or> capabilityFlags > 255 then Inl (Err ''capability_flags out of range u8'')
        else
          (let feeBpsLE = le_bytes 2 feeBps; flagsByte = [word_of_int capabilityFlags];
               pfBps = pfBpsOf protocolFeeBps in
           if pfBps < 0 \<or> pfBps > 1000 then Inl (Err ''protocol_fee_bps out of range [0, 1000]'')
           else (case pfAddrOf protocolFeeAddress of Inl e \<Rightarrow> Inl e
             | Inr pfAddr \<Rightarrow>
               if (pfBps = 0) \<noteq> all_zero pfAddr
               then Inl (Err ''protocol_fee_address and protocol_fee_bps must be joint-zero or joint-non-zero'')
               else if pfBps = 0
               then Inr (sha256 (ascii ''tacit-amm-pool-v1'' @ low @ high @ feeBpsLE @ flagsByte))
               else Inr (sha256 (ascii ''tacit-amm-pool-v1'' @ low @ high @ feeBpsLE @ flagsByte @ pfAddr @
                     le_bytes 2 pfBps)))))"

definition AMM_FEE_BPS_MAX :: int where "AMM_FEE_BPS_MAX = 1000"
definition AMM_CAPABILITY_FLAGS_MAX :: int where "AMM_CAPABILITY_FLAGS_MAX = 255"
definition AMM_PROTOCOL_FEE_BPS_MAX :: int where "AMM_PROTOCOL_FEE_BPS_MAX = 1000"

definition ammCanonicalAssetPair :: "bytes \<Rightarrow> bytes \<Rightarrow> (bytes \<times> bytes) res" where
  "ammCanonicalAssetPair a b =
     (if length a \<noteq> 32 \<or> length b \<noteq> 32 then Inl (Err ''asset_id must be 32 bytes'')
      else (case pairLoop a b of
          Some True \<Rightarrow> Inr (a, b)
        | Some False \<Rightarrow> Inr (b, a)
        | None \<Rightarrow> Inl (Err ''canonical pair: identical asset_ids'')))"

definition ammDerivePoolId ::
  "(bytes \<Rightarrow> bytes) \<Rightarrow> bytes \<Rightarrow> bytes \<Rightarrow> int \<Rightarrow> int \<Rightarrow> bytes option \<Rightarrow> int option \<Rightarrow> bytes res" where
  "ammDerivePoolId sha256 idA idB feeBps capabilityFlags protocolFeeAddress protocolFeeBps =
     (case ammCanonicalAssetPair idA idB of Inl e \<Rightarrow> Inl e
      | Inr (low, high) \<Rightarrow>
        if feeBps < 0 \<or> feeBps > AMM_FEE_BPS_MAX then Inl (Err ''fee_bps out of range [0, 1000]'')
        else if capabilityFlags < 0 \<or> capabilityFlags > AMM_CAPABILITY_FLAGS_MAX
        then Inl (Err ''capability_flags out of range u8'')
        else
          (let feeBpsLE = le_bytes 2 feeBps; flagsByte = [word_of_int capabilityFlags];
               pfBps = pfBpsOf protocolFeeBps in
           if pfBps < 0 \<or> pfBps > AMM_PROTOCOL_FEE_BPS_MAX
           then Inl (Err ''protocol_fee_bps out of range [0, 1000]'')
           else (case pfAddrOf protocolFeeAddress of Inl e \<Rightarrow> Inl e
             | Inr pfAddr \<Rightarrow>
               if (pfBps = 0) \<noteq> all_zero pfAddr
               then Inl (Err ''protocol_fee_address and protocol_fee_bps must be joint-zero or joint-non-zero'')
               else if pfBps = 0
               then Inr (sha256 (ascii ''tacit-amm-pool-v1'' @ low @ high @ feeBpsLE @ flagsByte))
               else Inr (sha256 (ascii ''tacit-amm-pool-v1'' @ low @ high @ feeBpsLE @ flagsByte @ pfAddr @
                     le_bytes 2 pfBps)))))"

definition ammDeriveLpAssetId :: "(bytes \<Rightarrow> bytes) \<Rightarrow> bytes \<Rightarrow> bytes res" where
  "ammDeriveLpAssetId sha256 poolId =
     (if length poolId \<noteq> 32 then Inl (Err ''pool_id must be 32 bytes'')
      else Inr (sha256 (ascii ''tacit-amm-lp-v1'' @ poolId)))"

lemmas poolId_consts = FEE_BPS_MAX_def PROTOCOL_FEE_BPS_MAX_def CAPABILITY_FLAGS_MAX_def AMM_FEE_BPS_MAX_def
  AMM_CAPABILITY_FLAGS_MAX_def AMM_PROTOCOL_FEE_BPS_MAX_def DOMAIN_POOL_ID_def isZeroProtocolFeeAddress_def

lemmas poolId_defs = derivePoolId_def ammDerivePoolIdDapp_def ammDerivePoolId_def

lemma pair_copies_agree:
  "ok_of (lexCanonicalAssetPair a b) = ok_of (canonicalAssetPair a b)"
  "ok_of (ammCanonicalAssetPair a b) = ok_of (canonicalAssetPair a b)"
  by (auto simp: lexCanonicalAssetPair_def ammCanonicalAssetPair_def canonicalAssetPair_def
      split: option.split bool.split)

lemma dapp_poolId_agrees: "ok_of (ammDerivePoolIdDapp h a b f c pa pb) = ok_of (derivePoolId h a b f c pa pb)"
  using pair_copies_agree(1) [of a b]
  by (cases "lexCanonicalAssetPair a b"; cases "canonicalAssetPair a b")
    (auto simp: poolId_defs poolId_consts Let_def split: sum.split)

lemma worker_poolId_agrees: "ok_of (ammDerivePoolId h a b f c pa pb) = ok_of (derivePoolId h a b f c pa pb)"
  using pair_copies_agree(2) [of a b]
  by (cases "ammCanonicalAssetPair a b"; cases "canonicalAssetPair a b")
    (auto simp: poolId_defs poolId_consts Let_def split: sum.split)

subsection \<open>What an identifier determines\<close>

record poolParams =
  pp_idA :: bytes
  pp_idB :: bytes
  pp_feeBps :: int
  pp_capabilityFlags :: int
  pp_protocolFeeAddress :: "bytes option"
  pp_protocolFeeBps :: "int option"

definition poolIdOf :: "(bytes \<Rightarrow> bytes) \<Rightarrow> poolParams \<Rightarrow> bytes res" where
  "poolIdOf h m = derivePoolId h (pp_idA m) (pp_idB m) (pp_feeBps m) (pp_capabilityFlags m)
     (pp_protocolFeeAddress m) (pp_protocolFeeBps m)"

text \<open>The configuration a pool has: the unordered pair, the fee, the flags and the protocol fee with its defaults.\<close>

definition poolConfig :: "poolParams \<Rightarrow> bytes set \<times> int \<times> int \<times> bytes \<times> int" where
  "poolConfig m = ({pp_idA m, pp_idB m}, pp_feeBps m, pp_capabilityFlags m,
     (case pp_protocolFeeAddress m of None \<Rightarrow> zeros 33 | Some a \<Rightarrow> a), pfBpsOf (pp_protocolFeeBps m))"

definition poolPreimage :: "poolParams \<Rightarrow> bytes" where
  "poolPreimage m =
     (case canonicalAssetPair (pp_idA m) (pp_idB m) of Inl _ \<Rightarrow> []
      | Inr (low, high) \<Rightarrow>
        DOMAIN_POOL_ID @ low @ high @ le_bytes 2 (pp_feeBps m) @ [word_of_int (pp_capabilityFlags m)] @
        (if pfBpsOf (pp_protocolFeeBps m) = 0 then []
         else (case pp_protocolFeeAddress m of None \<Rightarrow> zeros 33 | Some a \<Rightarrow> a) @
              le_bytes 2 (pfBpsOf (pp_protocolFeeBps m))))"

lemma poolIdOf_Inr:
  assumes "poolIdOf h m = Inr d"
  shows "d = h (poolPreimage m)"
    and "\<exists>l hi. canonicalAssetPair (pp_idA m) (pp_idB m) = Inr (l, hi)"
    and "0 \<le> pp_feeBps m" "pp_feeBps m \<le> 1000" "0 \<le> pp_capabilityFlags m" "pp_capabilityFlags m \<le> 255"
    and "0 \<le> pfBpsOf (pp_protocolFeeBps m)" "pfBpsOf (pp_protocolFeeBps m) \<le> 1000"
    and "length (case pp_protocolFeeAddress m of None \<Rightarrow> zeros 33 | Some a \<Rightarrow> a) = 33"
    and "(pfBpsOf (pp_protocolFeeBps m) = 0) = all_zero (case pp_protocolFeeAddress m of None \<Rightarrow> zeros 33 | Some a \<Rightarrow> a)"
  using assms
  by (auto simp: poolIdOf_def derivePoolId_def poolPreimage_def poolId_consts Let_def pfAddrOf_def
      split: sum.splits prod.splits option.splits if_splits)

lemma flagsByte_inj:
  "0 \<le> (a::int) \<Longrightarrow> a \<le> 255 \<Longrightarrow> 0 \<le> b \<Longrightarrow> b \<le> 255 \<Longrightarrow> (word_of_int a :: byte) = word_of_int b \<Longrightarrow> a = b"
  using le_bytes_inj [of 1 a b] by simp

lemma poolPreimage_config:
  assumes m: "poolIdOf h m = Inr d" and m': "poolIdOf h m' = Inr d'" and eq: "poolPreimage m = poolPreimage m'"
  shows "poolConfig m = poolConfig m'"
proof -
  note a = poolIdOf_Inr [OF m] and b = poolIdOf_Inr [OF m']
  obtain l hi where c: "canonicalAssetPair (pp_idA m) (pp_idB m) = Inr (l, hi)" using a(2) by blast
  obtain l' hi' where c': "canonicalAssetPair (pp_idA m') (pp_idB m') = Inr (l', hi')" using b(2) by blast
  note p = canonicalAssetPair_Inr [OF c] and p' = canonicalAssetPair_Inr [OF c']
  define ad where "ad = (case pp_protocolFeeAddress m of None \<Rightarrow> zeros 33 | Some a \<Rightarrow> a)"
  define ad' where "ad' = (case pp_protocolFeeAddress m' of None \<Rightarrow> zeros 33 | Some a \<Rightarrow> a)"
  define bp where "bp = pfBpsOf (pp_protocolFeeBps m)"
  define bp' where "bp' = pfBpsOf (pp_protocolFeeBps m')"
  have E: "l = l' \<and> hi = hi' \<and> le_bytes 2 (pp_feeBps m) = le_bytes 2 (pp_feeBps m') \<and>
      (word_of_int (pp_capabilityFlags m) :: byte) = word_of_int (pp_capabilityFlags m') \<and>
      (if bp = 0 then [] else ad @ le_bytes 2 bp) = (if bp' = 0 then [] else ad' @ le_bytes 2 bp')"
    using eq p(1,2) p'(1,2)
    unfolding poolPreimage_def c c' ad_def ad'_def bp_def bp'_def by (simp split del: if_split)
  have "pp_feeBps m = pp_feeBps m'" "pp_capabilityFlags m = pp_capabilityFlags m'"
    using E le16.enc_inj [of "pp_feeBps m" "pp_feeBps m'"] flagsByte_inj a(3-6) b(3-6) by auto
  moreover have lens: "length ad = 33" "length ad' = 33" "0 \<le> bp" "bp \<le> 1000" "0 \<le> bp'" "bp' \<le> 1000"
    using a(7-9) b(7-9) by (simp_all add: ad_def ad'_def bp_def bp'_def)
  moreover have "ad = ad' \<and> bp = bp'"
  proof (cases "bp = 0 \<or> bp' = 0")
    case True
    with E lens have "bp = 0 \<and> bp' = 0" by (auto split: if_splits)
    moreover from this have "all_zero ad \<and> all_zero ad'"
      using a(10) b(10) by (simp add: ad_def ad'_def bp_def bp'_def)
    ultimately show ?thesis using lens by (simp add: all_zero_iff)
  next
    case False
    with E lens have "ad = ad'" "le_bytes 2 bp = le_bytes 2 bp'" by simp_all
    then show ?thesis using le16.enc_inj [of bp bp'] lens by simp
  qed
  ultimately show ?thesis
    using E p(4) p'(4) by (simp add: poolConfig_def ad_def ad'_def bp_def bp'_def)
qed

interpretation poolIds: hash_binding poolIdOf poolPreimage poolConfig "\<lambda>_. True"
  using poolIdOf_Inr(1) poolPreimage_config by unfold_locales blast+

lemma config_same_id:
  assumes "poolIdOf h m = Inr d" "poolIdOf h m' = Inr d'" "poolConfig m = poolConfig m'"
  shows "d = d'"
proof -
  obtain l hi where c: "canonicalAssetPair (pp_idA m) (pp_idB m) = Inr (l, hi)"
    using poolIdOf_Inr(2) [OF assms(1)] by blast
  moreover have "{pp_idA m, pp_idB m} = {pp_idA m', pp_idB m'}"
    using assms(3) by (simp add: poolConfig_def)
  ultimately have "canonicalAssetPair (pp_idA m') (pp_idB m') = Inr (l, hi)"
    by (rule canonicalAssetPair_eq)
  with c assms(3) have "poolPreimage m = poolPreimage m'"
    by (simp add: poolConfig_def poolPreimage_def)
  then show ?thesis using poolIdOf_Inr(1) [OF assms(1)] poolIdOf_Inr(1) [OF assms(2)] by simp
qed

lemma derivePoolId_commute: "derivePoolId h a b f c pa pb = derivePoolId h b a f c pa pb"
  by (simp add: derivePoolId_def canonicalAssetPair_commute [of a b])

end
