(* ===== verification/Amm_Replay.thy ===== *)
theory Amm_Replay
  imports Amm_Math Amm_Asset Swap_Envelope "HOL-Library.Product_Lexorder"
begin

text \<open>
  Replaying a pool from its confirmed envelopes: \<open>dapp/amm-replay.js\<close>. \<open>replayAmmPoolState\<close> folds the pool
  operations over the pool's state; \<open>deriveAmmPoolState\<close> fetches the operations a (distrusted) index lists,
  checks and orders them, and replays them. The pool mathematics is handed to the code as \<open>deps\<close>; the locale
  \<open>pool_math\<close> states what the replay relies on, and its interpretation is on the functions
  \<open>deriveAmmPoolStateLive\<close> of \<open>dapp/tacit.js\<close> passes. The index \<open>[i]\<close> the error messages carry is left out.
\<close>

subsection \<open>State and operations\<close>

record poolState =
  reserveA :: int
  reserveB :: int
  totalShares :: int
  initialized :: bool
  poolFeeBps :: int
  kLast :: int

record replayHop =
  rh_direction :: int
  rh_feeBps :: int
  rh_rAPre :: int
  rh_rBPre :: int
  rh_deltaAMag :: int
  rh_deltaBMag :: int

text \<open>\<open>None\<close> is a declared amount that is absent (\<open>== null\<close>), and so not compared.\<close>

datatype replayOp =
    PoolInit int int "int option" int
  | LpAdd int int "int option"
  | SwapVar int int "int option"
  | SwapRoute "replayHop list"
  | LpRemove int "int option" "int option"
  | FeeClaim int
  | SwapBatch
  | UnknownOp string

record poolDeps =
  curveDeltaOut :: "int \<Rightarrow> int \<Rightarrow> int \<Rightarrow> int \<Rightarrow> int \<Rightarrow> curveOut res"
  lpAddShares :: "int \<Rightarrow> int \<Rightarrow> int \<Rightarrow> int \<Rightarrow> int \<Rightarrow> int res"
  removeOutputs :: "int \<Rightarrow> int \<Rightarrow> int \<Rightarrow> int \<Rightarrow> removeOut res"
  MIN_LIQ :: int
  computeProtoShares :: "int \<Rightarrow> int \<Rightarrow> int \<Rightarrow> int \<Rightarrow> int res"
  protoFeeBps :: int
  protocolFeeEnabled :: bool

definition protoFeeOn :: "poolDeps \<Rightarrow> bool" where
  "protoFeeOn d = (protocolFeeEnabled d \<and> protoFeeBps d > 0)"

definition freshPool :: poolState where
  "freshPool = \<lparr>reserveA = 0, reserveB = 0, totalShares = 0, initialized = False, poolFeeBps = 0, kLast = 0\<rparr>"

definition declared :: "int option \<Rightarrow> int \<Rightarrow> bool" where
  "declared x v = (case x of None \<Rightarrow> True | Some y \<Rightarrow> y = v)"

subsection \<open>One operation at a time\<close>

definition crystallize :: "poolDeps \<Rightarrow> poolState \<Rightarrow> poolState res" where
  "crystallize d st =
     (let kNow = reserveA st * reserveB st in
      if protoFeeOn d
      then (case computeProtoShares d (totalShares st) (kLast st) kNow (protoFeeBps d) of Inl e \<Rightarrow> Inl e
        | Inr minted \<Rightarrow>
            Inr (st\<lparr>totalShares := (if minted > 0 then totalShares st + minted else totalShares st), kLast := kNow\<rparr>))
      else Inr (st\<lparr>kLast := kNow\<rparr>))"

definition poolInitStep :: "poolDeps \<Rightarrow> poolState \<Rightarrow> int \<Rightarrow> int \<Rightarrow> int option \<Rightarrow> int \<Rightarrow> poolState res" where
  "poolInitStep d st da db share fee =
     (if initialized st then Inl (Err ''pool_init after pool already initialized'')
      else if da \<le> 0 \<or> db \<le> 0 then Inl (Err ''pool_init non-positive deltas'')
      else (case isqrtBig (da * db) of Inl e \<Rightarrow> Inl e
        | Inr tot \<Rightarrow>
            if tot \<le> MIN_LIQ d then Inl (Err ''pool_init total <= MINIMUM_LIQUIDITY'')
            else if \<not> declared share (tot - MIN_LIQ d) then Inl (Err ''pool_init founder-share mismatch'')
            else Inr (st\<lparr>reserveA := da, reserveB := db, totalShares := tot, initialized := True,
                        poolFeeBps := fee, kLast := da * db\<rparr>)))"

definition lpAddStep :: "poolDeps \<Rightarrow> poolState \<Rightarrow> int \<Rightarrow> int \<Rightarrow> int option \<Rightarrow> poolState res" where
  "lpAddStep d st0 da db share =
     (case crystallize d st0 of Inl e \<Rightarrow> Inl e
      | Inr st \<Rightarrow>
        if da \<le> 0 \<or> db \<le> 0 then Inl (Err ''lp_add non-positive deltas'')
        else (case lpAddShares d da db (reserveA st) (reserveB st) (totalShares st) of Inl e \<Rightarrow> Inl e
          | Inr shares \<Rightarrow>
              if shares \<le> 0 then Inl (Err ''lp_add yields zero shares (dust add)'')
              else if \<not> declared share shares then Inl (Err ''lp_add share mismatch'')
              else Inr (st\<lparr>reserveA := reserveA st + da, reserveB := reserveB st + db,
                          totalShares := totalShares st + shares,
                          kLast := (reserveA st + da) * (reserveB st + db)\<rparr>)))"

definition swapVarStep :: "poolDeps \<Rightarrow> poolState \<Rightarrow> int \<Rightarrow> int \<Rightarrow> int option \<Rightarrow> poolState res" where
  "swapVarStep d st direction din minOut =
     (if din \<le> 0 then Inl (Err ''swap non-positive deltaIn'')
      else (case curveDeltaOut d (toInt32 direction) (reserveA st) (reserveB st) din (poolFeeBps st) of Inl e \<Rightarrow> Inl e
        | Inr r \<Rightarrow>
            (let floor = (case minOut of Some m \<Rightarrow> if m > 1 then m else 1 | None \<Rightarrow> 1) in
             if deltaOut r < floor then Inr st
             else Inr (st\<lparr>reserveA := raPost r, reserveB := rbPost r\<rparr>))))"

definition routeHopStep :: "poolState \<Rightarrow> replayHop \<Rightarrow> poolState res" where
  "routeHopStep st hop =
     (let gDen = 10000; gNum = gDen - poolFeeBps st; dir = toInt32 (rh_direction hop) in
      if rh_feeBps hop \<noteq> poolFeeBps st then Inl (Err ''swap_route hop fee_bps != pool'')
      else if rh_rAPre hop \<noteq> reserveA st then Inl (Err ''swap_route hop R_A_pre != replayed'')
      else if rh_rBPre hop \<noteq> reserveB st then Inl (Err ''swap_route hop R_B_pre != replayed'')
      else if dir \<noteq> 0 \<and> dir \<noteq> 1 then Inl (Err ''swap_route hop bad direction'')
      else
        (let rIn = (if dir = 0 then reserveA st else reserveB st);
             rOut = (if dir = 0 then reserveB st else reserveA st);
             dIn = (if dir = 0 then rh_deltaAMag hop else rh_deltaBMag hop);
             dOut = (if dir = 0 then rh_deltaBMag hop else rh_deltaAMag hop) in
         if dIn \<le> 0 \<or> dOut \<le> 0 then Inl (Err ''swap_route hop non-positive delta'')
         else if rOut < dOut then Inl (Err ''swap_route hop R_out < delta_out'')
         else if dOut * (rIn * gDen + gNum * dIn) > rOut * gNum * dIn
         then Inl (Err ''swap_route hop violates CFMM curve floor'')
         else if dir = 0 then Inr (st\<lparr>reserveA := rIn + dIn, reserveB := rOut - dOut\<rparr>)
         else Inr (st\<lparr>reserveB := rIn + dIn, reserveA := rOut - dOut\<rparr>)))"

definition swapRouteStep :: "poolState \<Rightarrow> replayHop list \<Rightarrow> poolState res" where
  "swapRouteStep st hops =
     (if hops = [] then Inl (Err ''swap_route with no hops for this pool'')
      else foldRes routeHopStep st hops)"

definition lpRemoveStep :: "poolDeps \<Rightarrow> poolState \<Rightarrow> int \<Rightarrow> int option \<Rightarrow> int option \<Rightarrow> poolState res" where
  "lpRemoveStep d st0 burned oa ob =
     (case crystallize d st0 of Inl e \<Rightarrow> Inl e
      | Inr st \<Rightarrow>
        if burned \<le> 0 \<or> burned > totalShares st - MIN_LIQ d then Inl (Err ''lp_remove invalid burn'')
        else (case removeOutputs d burned (reserveA st) (reserveB st) (totalShares st) of Inl e \<Rightarrow> Inl e
          | Inr w \<Rightarrow>
              if \<not> declared oa (outA w) then Inl (Err ''lp_remove outA mismatch'')
              else if \<not> declared ob (outB w) then Inl (Err ''lp_remove outB mismatch'')
              else Inr (st\<lparr>reserveA := reserveA st - outA w, reserveB := reserveB st - outB w,
                          totalShares := totalShares st - burned,
                          kLast := (reserveA st - outA w) * (reserveB st - outB w)\<rparr>)))"

definition replayStep :: "poolDeps \<Rightarrow> poolState \<Rightarrow> replayOp \<Rightarrow> poolState res" where
  "replayStep d st p =
     (case p of
        PoolInit da db share fee \<Rightarrow> poolInitStep d st da db share fee
      | _ \<Rightarrow>
        if \<not> initialized st then Inl (Err ''op before pool_init'')
        else (case p of
            LpAdd da db share \<Rightarrow> lpAddStep d st da db share
          | SwapVar direction din minOut \<Rightarrow> swapVarStep d st direction din minOut
          | SwapRoute hops \<Rightarrow> swapRouteStep st hops
          | LpRemove burned oa ob \<Rightarrow> lpRemoveStep d st burned oa ob
          | FeeClaim amount \<Rightarrow> crystallize d st
          | SwapBatch \<Rightarrow> Inl (Err ''swap_batch requires Groth16 verification against reserves_before (not yet wired)'')
          | _ \<Rightarrow> Inl (Err ''unknown op kind'')))"

record derivedState =
  ds_reserveA :: int
  ds_reserveB :: int
  ds_totalShares :: int

definition replayAmmPoolState :: "replayOp list \<Rightarrow> poolDeps \<Rightarrow> derivedState res" where
  "replayAmmPoolState ops d =
     (if ops = [] then Inl (Err ''replay: no ops'')
      else (case foldRes (replayStep d) freshPool ops of Inl e \<Rightarrow> Inl e
        | Inr st \<Rightarrow> Inr \<lparr>ds_reserveA = reserveA st, ds_reserveB = reserveB st, ds_totalShares = totalShares st\<rparr>))"

subsection \<open>What the replay relies on\<close>

definition poolInv :: "poolDeps \<Rightarrow> poolState \<Rightarrow> bool" where
  "poolInv d st = (initialized st \<longrightarrow>
     0 < reserveA st \<and> 0 < reserveB st \<and> MIN_LIQ d \<le> totalShares st \<and> 0 \<le> kLast st \<and>
     kLast st \<le> reserveA st * reserveB st \<and> 0 \<le> poolFeeBps st \<and> poolFeeBps st < 10000)"

text \<open>A pool-opening operation carries a fee below 100 percent (the envelope decoders allow up to 1000).\<close>

fun feeOk :: "replayOp \<Rightarrow> bool" where
  "feeOk (PoolInit da db share fee) = (0 \<le> fee \<and> fee < 10000)"
| "feeOk p = True"

text \<open>
  The value a share stands for does not fall: the reserves' product per squared share (an integer form of
  \<open>sqrt (reserveA * reserveB) / totalShares\<close>) is at least what it was.
\<close>

definition keepsValue :: "poolState \<Rightarrow> poolState \<Rightarrow> bool" where
  "keepsValue st st' = (initialized st \<longrightarrow>
     reserveA st * reserveB st * (totalShares st')\<^sup>2 \<le> reserveA st' * reserveB st' * (totalShares st)\<^sup>2)"

lemma keepsValue_trans:
  assumes "keepsValue u v" "keepsValue v w" "initialized v" "0 < totalShares v"
  shows "keepsValue u w"
  unfolding keepsValue_def
proof
  assume "initialized u"
  then have 1: "reserveA u * reserveB u * (totalShares v)\<^sup>2 \<le> reserveA v * reserveB v * (totalShares u)\<^sup>2"
    and 2: "reserveA v * reserveB v * (totalShares w)\<^sup>2 \<le> reserveA w * reserveB w * (totalShares v)\<^sup>2"
    using assms by (auto simp: keepsValue_def)
  have "(totalShares v)\<^sup>2 * (reserveA u * reserveB u * (totalShares w)\<^sup>2)
      = reserveA u * reserveB u * (totalShares v)\<^sup>2 * (totalShares w)\<^sup>2"
    by (simp add: algebra_simps)
  also have "\<dots> \<le> reserveA v * reserveB v * (totalShares u)\<^sup>2 * (totalShares w)\<^sup>2"
    using 1 by (rule mult_right_mono) simp
  also have "\<dots> = reserveA v * reserveB v * (totalShares w)\<^sup>2 * (totalShares u)\<^sup>2"
    by (simp add: algebra_simps)
  also have "\<dots> \<le> reserveA w * reserveB w * (totalShares v)\<^sup>2 * (totalShares u)\<^sup>2"
    using 2 by (rule mult_right_mono) simp
  also have "\<dots> = (totalShares v)\<^sup>2 * (reserveA w * reserveB w * (totalShares u)\<^sup>2)"
    by (simp add: algebra_simps)
  finally show "reserveA u * reserveB u * (totalShares w)\<^sup>2 \<le> reserveA w * reserveB w * (totalShares u)\<^sup>2"
    using assms(4) by simp
qed

lemma keepsValue_sides:
  assumes "reserveA st * totalShares st' \<le> reserveA st' * totalShares st"
    "reserveB st * totalShares st' \<le> reserveB st' * totalShares st"
    "0 \<le> reserveA st" "0 \<le> reserveB st" "0 \<le> totalShares st'" "0 \<le> totalShares st" "0 \<le> reserveA st'"
  shows "keepsValue st st'"
proof -
  have "(reserveA st * totalShares st') * (reserveB st * totalShares st')
      \<le> (reserveA st' * totalShares st) * (reserveB st' * totalShares st)"
    by (rule mult_mono [OF assms(1,2)]) (use assms in auto)
  then show ?thesis by (simp add: keepsValue_def power2_eq_square algebra_simps)
qed

lemma routeHopStep_cases:
  assumes "routeHopStep st hop = Inr st'" "0 < reserveA st" "0 < reserveB st" "0 \<le> poolFeeBps st" "poolFeeBps st < 10000"
  shows "0 < reserveA st' \<and> 0 < reserveB st' \<and> reserveA st * reserveB st \<le> reserveA st' * reserveB st' \<and>
    totalShares st' = totalShares st \<and> initialized st' = initialized st \<and> poolFeeBps st' = poolFeeBps st \<and>
    kLast st' = kLast st"
proof -
  define g where "g = 10000 - poolFeeBps st"
  have g: "0 < g" "g \<le> 10000" using assms(4,5) by (simp_all add: g_def)
  have floor: "dOut < rOut \<and> rIn * rOut \<le> (rIn + dIn) * (rOut - dOut)"
    if "\<not> rOut * g * dIn < dOut * (rIn * 10000 + g * dIn)" "0 < rIn" "0 < rOut" "0 < dIn" "0 < dOut"
    for rIn rOut dIn dOut
    using curve_floor_strict [of rIn rOut dIn g 10000 dOut] curve_floor_keeps_k [of rIn dOut dIn g 10000 rOut] that g
    by simp
  show ?thesis
    using assms(1-3) floor [of "reserveB st" "rh_deltaAMag hop" "rh_deltaBMag hop" "reserveA st"]
      floor [of "reserveA st" "rh_deltaBMag hop" "rh_deltaAMag hop" "reserveB st"]
    by (auto simp: routeHopStep_def Let_def g_def [symmetric] mult.commute split: if_splits)
qed

lemma replayStep_initialized: "replayStep d st p = Inr st' \<Longrightarrow> initialized st'"
proof (cases p)
  case (SwapRoute hops)
  assume a: "replayStep d st p = Inr st'"
  then have i: "initialized st" and f: "foldRes routeHopStep st hops = Inr st'"
    using SwapRoute by (auto simp: replayStep_def swapRouteStep_def split: if_splits)
  show ?thesis
    by (rule foldRes_invariant [OF f, where P = initialized])
      (use i in \<open>auto simp: routeHopStep_def Let_def split: if_splits\<close>)
qed (auto simp: replayStep_def poolInitStep_def lpAddStep_def swapVarStep_def lpRemoveStep_def crystallize_def
    Let_def split: if_splits sum.splits)

lemma replay_initialized: "foldRes (replayStep d) st (p # ps) = Inr st' \<Longrightarrow> initialized st'"
  by (induction ps arbitrary: st p) (auto dest: replayStep_initialized split: sum.splits)

locale pool_math =
  fixes d :: poolDeps
  assumes min_liq: "0 < MIN_LIQ d"
    and curve_law: "curveDeltaOut d dir ra rb din fee = Inr r \<Longrightarrow> 0 < ra \<Longrightarrow> 0 < rb \<Longrightarrow>
      0 < raPost r \<and> 0 < rbPost r \<and> ra * rb \<le> raPost r * rbPost r"
    and add_law: "lpAddShares d da db ra rb s = Inr sh \<Longrightarrow> 0 < da \<Longrightarrow> 0 < db \<Longrightarrow> 0 < ra \<Longrightarrow> 0 < rb \<Longrightarrow> 0 < s \<Longrightarrow>
      sh * ra \<le> da * s \<and> sh * rb \<le> db * s"
    and remove_law: "removeOutputs d b ra rb s = Inr w \<Longrightarrow> 0 < b \<Longrightarrow> b \<le> s \<Longrightarrow> 0 < ra \<Longrightarrow> 0 < rb \<Longrightarrow>
      0 \<le> outA w \<and> 0 \<le> outB w \<and> outA w * s \<le> ra * b \<and> outB w * s \<le> rb * b"
begin

lemma crystallize_inv:
  "crystallize d st = Inr st' \<Longrightarrow> poolInv d st \<Longrightarrow> initialized st \<Longrightarrow>
   poolInv d st' \<and> initialized st' \<and> reserveA st' = reserveA st \<and> reserveB st' = reserveB st \<and>
   (\<not> protoFeeOn d \<longrightarrow> totalShares st' = totalShares st)"
  by (auto simp: crystallize_def poolInv_def Let_def split: if_splits sum.splits)

lemma lpAdd_inv:
  assumes "lpAddStep d st da db share = Inr st'" "poolInv d st" "initialized st"
  shows "poolInv d st' \<and> (\<not> protoFeeOn d \<longrightarrow> keepsValue st st')"
proof -
  obtain c where c: "crystallize d st = Inr c" using assms(1) by (auto simp: lpAddStep_def split: sum.splits)
  obtain sh where sh: "lpAddShares d da db (reserveA c) (reserveB c) (totalShares c) = Inr sh" "0 < sh" "0 < da" "0 < db"
    and st': "st' = c\<lparr>reserveA := reserveA c + da, reserveB := reserveB c + db, totalShares := totalShares c + sh,
      kLast := (reserveA c + da) * (reserveB c + db)\<rparr>"
    using assms(1) c by (auto simp: lpAddStep_def split: sum.splits if_splits)
  note ci = crystallize_inv [OF c assms(2,3)]
  have pos: "0 < reserveA c" "0 < reserveB c" "0 < totalShares c"
    using ci min_liq by (auto simp: poolInv_def)
  have law: "sh * reserveA c \<le> da * totalShares c" "sh * reserveB c \<le> db * totalShares c"
    using add_law [OF sh(1,3,4) pos] by auto
  have "poolInv d st'" using ci sh st' by (auto simp: poolInv_def)
  moreover have "keepsValue st st'" if "\<not> protoFeeOn d"
    by (rule keepsValue_sides) (use ci that pos law sh st' in \<open>auto simp: algebra_simps\<close>)
  ultimately show ?thesis by blast
qed

lemma lpRemove_inv:
  assumes "lpRemoveStep d st burned oa ob = Inr st'" "poolInv d st" "initialized st"
  shows "poolInv d st' \<and> (\<not> protoFeeOn d \<longrightarrow> keepsValue st st')"
proof -
  obtain c where c: "crystallize d st = Inr c" using assms(1) by (auto simp: lpRemoveStep_def split: sum.splits)
  obtain w where w: "removeOutputs d burned (reserveA c) (reserveB c) (totalShares c) = Inr w"
    and b: "0 < burned" "burned \<le> totalShares c - MIN_LIQ d"
    and st': "st' = c\<lparr>reserveA := reserveA c - outA w, reserveB := reserveB c - outB w,
      totalShares := totalShares c - burned, kLast := (reserveA c - outA w) * (reserveB c - outB w)\<rparr>"
    using assms(1) c by (auto simp: lpRemoveStep_def split: sum.splits if_splits)
  note ci = crystallize_inv [OF c assms(2,3)]
  have pos: "0 < reserveA c" "0 < reserveB c" using ci by (auto simp: poolInv_def)
  have lt: "burned < totalShares c" using b min_liq by simp
  have law: "0 \<le> outA w" "0 \<le> outB w" "outA w * totalShares c \<le> reserveA c * burned"
    "outB w * totalShares c \<le> reserveB c * burned"
    using remove_law [OF w b(1) _ pos] lt by auto
  have small: "x < r" if "x * totalShares c \<le> r * burned" "0 < r" for x r
  proof -
    have "x * totalShares c < r * totalShares c" using that lt by (meson le_less_trans mult_strict_left_mono)
    then show ?thesis using lt b by simp
  qed
  have "poolInv d st'"
    using ci st' small [OF law(3) pos(1)] small [OF law(4) pos(2)] b by (auto simp: poolInv_def)
  moreover have "keepsValue st st'" if "\<not> protoFeeOn d"
    by (rule keepsValue_sides)
      (use ci that pos law st' lt b small [OF law(3) pos(1)] in \<open>auto simp: algebra_simps\<close>)
  ultimately show ?thesis by blast
qed

lemma swapVar_inv:
  assumes "swapVarStep d st dir din m = Inr st'" "poolInv d st" "initialized st"
  shows "poolInv d st' \<and> keepsValue st st'"
proof -
  have pos: "0 < reserveA st" "0 < reserveB st" using assms by (auto simp: poolInv_def)
  show ?thesis
    using assms curve_law [OF _ pos]
    by (fastforce simp: swapVarStep_def poolInv_def keepsValue_def Let_def mult_right_mono split: sum.splits if_splits)
qed

lemma swapRoute_inv:
  assumes "swapRouteStep st hops = Inr st'" "poolInv d st" "initialized st"
  shows "poolInv d st' \<and> keepsValue st st'"
proof -
  have f: "foldRes routeHopStep st hops = Inr st'"
    using assms(1) by (simp add: swapRouteStep_def split: if_splits)
  have "(poolInv d st' \<and> initialized st') \<and>
      (reserveA st * reserveB st \<le> reserveA st' * reserveB st' \<and> totalShares st' = totalShares st)"
  proof (rule foldRes_trans [OF f, where P = "\<lambda>st. poolInv d st \<and> initialized st"
        and R = "\<lambda>u v. reserveA u * reserveB u \<le> reserveA v * reserveB v \<and> totalShares v = totalShares u"])
    show "(poolInv d u' \<and> initialized u') \<and>
        (reserveA u * reserveB u \<le> reserveA u' * reserveB u' \<and> totalShares u' = totalShares u)"
      if "poolInv d u \<and> initialized u" "routeHopStep u x = Inr u'" for u x u'
      using routeHopStep_cases [OF that(2)] that(1) by (auto simp: poolInv_def)
  qed (use assms in auto)
  then show ?thesis by (auto simp: keepsValue_def mult_right_mono)
qed

lemma step_inv:
  assumes "replayStep d st p = Inr st'" "poolInv d st" "feeOk p"
  shows "poolInv d st' \<and> (\<not> protoFeeOn d \<longrightarrow> keepsValue st st')"
proof (cases p)
  case (PoolInit da db share fee)
  then have i: "poolInitStep d st da db share fee = Inr st'" using assms(1) by (simp add: replayStep_def)
  then have "\<not> initialized st" by (auto simp: poolInitStep_def)
  with i PoolInit assms(3) show ?thesis
    by (auto simp: poolInitStep_def poolInv_def keepsValue_def split: sum.splits if_splits)
next
  case (LpAdd da db share)
  with assms lpAdd_inv show ?thesis by (auto simp: replayStep_def split: if_splits)
next
  case (SwapVar dir din m)
  with assms swapVar_inv show ?thesis by (auto simp: replayStep_def split: if_splits)
next
  case (SwapRoute hops)
  with assms swapRoute_inv show ?thesis by (auto simp: replayStep_def split: if_splits)
next
  case (LpRemove burned oa ob)
  with assms lpRemove_inv show ?thesis by (auto simp: replayStep_def split: if_splits)
next
  case (FeeClaim a)
  with assms have "crystallize d st = Inr st'" "initialized st" by (auto simp: replayStep_def split: if_splits)
  with crystallize_inv assms(2) show ?thesis by (auto simp: keepsValue_def)
qed (use assms(1) in \<open>auto simp: replayStep_def split: if_splits\<close>)

lemma replay_inv:
  assumes "foldRes (replayStep d) st ops = Inr st'" "poolInv d st" "list_all feeOk ops"
  shows "poolInv d st'"
  by (rule foldRes_invariant [OF assms(1), where P = "poolInv d"])
    (use assms step_inv in \<open>auto simp: list_all_iff\<close>)

lemma replay_value:
  assumes "foldRes (replayStep d) st ops = Inr st'" "poolInv d st" "initialized st" "list_all feeOk ops" "\<not> protoFeeOn d"
  shows "keepsValue st st'"
proof -
  have "(poolInv d st' \<and> initialized st') \<and> keepsValue st st'"
  proof (rule foldRes_trans [OF assms(1), where P = "\<lambda>st. poolInv d st \<and> initialized st" and R = keepsValue])
    show "keepsValue u u" for u :: poolState by (simp add: keepsValue_def)
    show "keepsValue u w" if "poolInv d v \<and> initialized v" "keepsValue u v" "keepsValue v w" for u v w :: poolState
      using keepsValue_trans [OF that(2,3)] that(1) min_liq by (auto simp: poolInv_def)
    show "(poolInv d u' \<and> initialized u') \<and> keepsValue u u'"
      if "x \<in> set ops" "poolInv d u \<and> initialized u" "replayStep d u x = Inr u'" for u x u'
      using step_inv [OF that(3)] replayStep_initialized [OF that(3)] that(1,2) assms(4,5) by (auto simp: list_all_iff)
  qed (use assms in auto)
  then show ?thesis by blast
qed

end

subsection \<open>The mathematics the wallet passes\<close>

definition AMM_MIN_LIQUIDITY_DAPP :: int where "AMM_MIN_LIQUIDITY_DAPP = 1000"

definition liveDeps :: "int \<Rightarrow> bool \<Rightarrow> poolDeps" where
  "liveDeps bps enabled = \<lparr>curveDeltaOut = swapVarCurveDeltaOut, lpAddShares = lpAddSharesProportional,
     removeOutputs = lpRemoveOutputsProportional, MIN_LIQ = AMM_MIN_LIQUIDITY_DAPP,
     computeProtoShares = computeProtocolShares, protoFeeBps = bps, protocolFeeEnabled = enabled\<rparr>"

interpretation live: pool_math "liveDeps bps enabled" for bps enabled
proof
  show "0 < MIN_LIQ (liveDeps bps enabled)" by (simp add: liveDeps_def AMM_MIN_LIQUIDITY_DAPP_def)
  show "0 < raPost r \<and> 0 < rbPost r \<and> ra * rb \<le> raPost r * rbPost r"
    if "curveDeltaOut (liveDeps bps enabled) dir ra rb din fee = Inr r" for dir ra rb din fee r
    using swapVarCurve_cases(8,9) swapVarCurve_k that by (simp add: liveDeps_def)
  show "sh * ra \<le> da * s \<and> sh * rb \<le> db * s"
    if "lpAddShares (liveDeps bps enabled) da db ra rb s = Inr sh" "0 < da" "0 < db" "0 < ra" "0 < rb" "0 < s"
    for da db ra rb s sh
    using lpAddShares_bound [of da db ra rb s sh] that by (simp add: liveDeps_def)
  show "0 \<le> outA w \<and> 0 \<le> outB w \<and> outA w * s \<le> ra * b \<and> outB w * s \<le> rb * b"
    if "removeOutputs (liveDeps bps enabled) b ra rb s = Inr w" "0 < b" "b \<le> s" "0 < ra" "0 < rb" for b ra rb s w
    using lpRemoveOutputs_bound [of b ra rb s w] that by (simp add: liveDeps_def)
qed

text \<open>Crystallizing never throws on a pool in a good state, and never takes shares away.\<close>

lemma crystallize_live:
  assumes "poolInv (liveDeps bps enabled) st" "initialized st"
  shows "\<exists>st'. crystallize (liveDeps bps enabled) st = Inr st' \<and> totalShares st \<le> totalShares st'"
  using assms computeProtocolShares_total [of "kLast st" "totalShares st" "reserveA st * reserveB st" bps]
  by (auto simp: crystallize_def Let_def poolInv_def liveDeps_def)

subsection \<open>From decoded envelopes to operations\<close>

text \<open>
  What \<open>decodeForOpcode\<close> returns. The constructor is the opcode, so the dispatch on the opcode in
  \<open>replayOpFromDecoded\<close> is a case distinction. Asset identifiers are compared as bytes: on lowercase hex of
  equal length the string order is the order of the bytes.
\<close>

datatype decodedOp =
    DecLpAdd lpAddDecoded
  | DecLpRemove lpRemove
  | DecSwapVar swapVar
  | DecSwapRoute swapRoute
  | DecFeeClaim protocolFeeClaim

definition pairSwapped :: "bytes \<Rightarrow> bytes \<Rightarrow> bool res" where
  "pairSwapped a b =
     (if length a \<noteq> 32 \<or> length b \<noteq> 32 then Inl (Err ''replay: LP op without a 32-byte asset pair'')
      else if a = b then Inl (Err ''replay: LP op with identical assets'')
      else Inr (pairLoop b a = Some True))"

definition hopForReplay :: "routeHop \<Rightarrow> replayHop" where
  "hopForReplay hp = \<lparr>rh_direction = hop_direction hp, rh_feeBps = hop_feeBps hp, rh_rAPre = hop_R_A_pre hp,
     rh_rBPre = hop_R_B_pre hp, rh_deltaAMag = hop_deltaANetMag hp, rh_deltaBMag = hop_deltaBNetMag hp\<rparr>"

definition replayOpFromDecoded :: "decodedOp \<Rightarrow> bytes option \<Rightarrow> replayOp option res" where
  "replayOpFromDecoded dec poolId =
     (case dec of
        DecLpAdd a \<Rightarrow>
          if ld_variant a \<noteq> 0 \<and> ld_variant a \<noteq> 1 then Inr None
          else (case pairSwapped (ld_assetA a) (ld_assetB a) of Inl e \<Rightarrow> Inl e
            | Inr sw \<Rightarrow>
                (let da = (if sw then ld_deltaB a else ld_deltaA a); db = (if sw then ld_deltaA a else ld_deltaB a) in
                 if ld_variant a = 1
                 then Inr (Some (PoolInit da db (Some (ld_shareAmount a))
                        (case ld_init a of Some i \<Rightarrow> di_feeBps i | None \<Rightarrow> 0)))
                 else Inr (Some (LpAdd da db (Some (ld_shareAmount a))))))
      | DecSwapVar a \<Rightarrow> Inr (Some (SwapVar (sv_direction a) (sv_deltaIn a) (Some (sv_minOut a))))
      | DecSwapRoute a \<Rightarrow>
          (let mine = map hopForReplay (filter (\<lambda>hp. poolId = None \<or> poolId = Some (hop_poolId hp)) (sr_hops a)) in
           if mine = [] then Inr None else Inr (Some (SwapRoute mine)))
      | DecLpRemove a \<Rightarrow>
          (case pairSwapped (lr_assetA a) (lr_assetB a) of Inl e \<Rightarrow> Inl e
           | Inr sw \<Rightarrow> Inr (Some (LpRemove (lr_shareAmount a)
               (Some (if sw then lr_deltaB a else lr_deltaA a)) (Some (if sw then lr_deltaA a else lr_deltaB a)))))
      | DecFeeClaim a \<Rightarrow> Inr (Some (FeeClaim (fc_claimAmount a))))"

subsection \<open>Deriving the state from the chain\<close>

record opItem =
  it_txid :: string
  it_txIndex :: "int option"

record txInfo =
  tx_confirmed :: bool
  tx_blockHeight :: "int option"
  tx_blockHash :: "string option"
  tx_witness :: "bytes list option"

text \<open>
  The environment: the chain API (\<open>fetchTx\<close>, \<open>blockTxids\<close>) and the decoders. \<open>blockTxids = None\<close> is a caller
  that passes none; \<open>poolIdForOp\<close> returns the pools an operation touches (none for \<open>null\<close>).
\<close>

record deriveEnv =
  fetchTx :: "string \<Rightarrow> txInfo option"
  decodeEnvelope :: "bytes \<Rightarrow> (nat \<times> bytes) option"
  decodeForOpcode :: "nat \<Rightarrow> bytes \<Rightarrow> decodedOp option"
  poolIdForOp :: "decodedOp \<Rightarrow> bytes list"
  blockTxids :: "(string \<Rightarrow> string list option) option"
  tipHeight :: int
  confirmations :: int

record fetchedOp =
  f_txid :: string
  f_tx :: txInfo
  f_h :: int
  f_pos :: "int option"

fun fetchOps :: "deriveEnv \<Rightarrow> string list \<Rightarrow> opItem list \<Rightarrow> fetchedOp list res" where
  "fetchOps env seen [] = Inr []"
| "fetchOps env seen (item # its) =
     (if it_txid item \<in> set seen then fetchOps env seen its
      else (case fetchTx env (it_txid item) of None \<Rightarrow> Inl (Err ''op unfetchable (halt: set incomplete)'')
        | Some tx \<Rightarrow>
            if \<not> tx_confirmed tx then Inl (Err ''op unconfirmed'')
            else (case tx_blockHeight tx of None \<Rightarrow> Inl (Err ''op has no block height'')
              | Some h \<Rightarrow>
                  if tipHeight env - h + 1 < confirmations env then Inl (Err ''op below confirmation depth'')
                  else (case fetchOps env (it_txid item # seen) its of Inl e \<Rightarrow> Inl e
                    | Inr fs \<Rightarrow> Inr (\<lparr>f_txid = it_txid item, f_tx = tx, f_h = h, f_pos = it_txIndex item\<rparr> # fs)))))"

definition perHeight :: "fetchedOp list \<Rightarrow> int \<Rightarrow> nat" where
  "perHeight fs h = length (filter (\<lambda>f. f_h f = h) fs)"

fun indexOf :: "'a \<Rightarrow> 'a list \<Rightarrow> int" where
  "indexOf x [] = -1"
| "indexOf x (y # ys) = (if x = y then 0 else let i = indexOf x ys in if i < 0 then -1 else i + 1)"

definition placeInBlock :: "(string \<Rightarrow> string list option) \<Rightarrow> fetchedOp list \<Rightarrow> fetchedOp \<Rightarrow> fetchedOp res" where
  "placeInBlock bt fs f =
     (if perHeight fs (f_h f) < 2 then Inr f
      else (case tx_blockHash (f_tx f) of None \<Rightarrow> Inl (Err ''op has no block hash'')
        | Some hash \<Rightarrow>
            if hash = [] then Inl (Err ''op has no block hash'')
            else (let pos = (case bt hash of Some ids \<Rightarrow> indexOf (f_txid f) ids | None \<Rightarrow> -1) in
                  if pos < 0 then Inl (Err ''op not found in block'') else Inr (f\<lparr>f_pos := Some pos\<rparr>))))"

definition placeOps :: "deriveEnv \<Rightarrow> fetchedOp list \<Rightarrow> fetchedOp list res" where
  "placeOps env fs =
     (case (case blockTxids env of None \<Rightarrow> Inr fs | Some bt \<Rightarrow> mapRes (placeInBlock bt fs) fs) of Inl e \<Rightarrow> Inl e
      | Inr placed \<Rightarrow>
          if list_ex (\<lambda>f. perHeight fs (f_h f) > 1 \<and> f_pos f = None) placed
          then Inl (Err ''op has no position in its block'')
          else Inr placed)"

definition chainOrder :: "fetchedOp list \<Rightarrow> fetchedOp list" where
  "chainOrder fs = sort_key (\<lambda>f. (f_h f, case f_pos f of None \<Rightarrow> 0 | Some p \<Rightarrow> p)) fs"

definition opOfTx :: "deriveEnv \<Rightarrow> bytes \<Rightarrow> txInfo \<Rightarrow> replayOp res" where
  "opOfTx env poolId tx =
     (case tx_witness tx of None \<Rightarrow> Inl (Err ''op carries no envelope'')
      | Some wit \<Rightarrow>
        if length wit < 3 then Inl (Err ''op carries no envelope'')
        else (case decodeEnvelope env (wit ! 1) of None \<Rightarrow> Inl (Err ''op envelope decode failed'')
          | Some (opcode, payload) \<Rightarrow>
            (case decodeForOpcode env opcode payload of None \<Rightarrow> Inl (Err ''op payload decode failed'')
             | Some dec \<Rightarrow>
               if poolId \<notin> set (poolIdForOp env dec) then Inl (Err ''op is for another pool'')
               else (case replayOpFromDecoded dec (Some poolId) of Inl e \<Rightarrow> Inl e
                 | Inr None \<Rightarrow> Inl (Err ''op is not a pool op'')
                 | Inr (Some rop) \<Rightarrow> Inr rop))))"

definition deriveAmmPoolState :: "deriveEnv \<Rightarrow> poolDeps \<Rightarrow> bytes \<Rightarrow> opItem list \<Rightarrow> derivedState res" where
  "deriveAmmPoolState env d poolId listed =
     (case fetchOps env [] listed of Inl e \<Rightarrow> Inl e
      | Inr fs \<Rightarrow> (case placeOps env fs of Inl e \<Rightarrow> Inl e
        | Inr placed \<Rightarrow> (case mapRes (\<lambda>f. opOfTx env poolId (f_tx f)) (chainOrder placed) of Inl e \<Rightarrow> Inl e
          | Inr ops \<Rightarrow> replayAmmPoolState ops d)))"

subsection \<open>Comparing with the indexer\<close>

definition compareAmmReserves :: "derivedState \<Rightarrow> derivedState \<Rightarrow> bool \<times> string list" where
  "compareAmmReserves a w =
     (let diffs = (if ds_reserveA a \<noteq> ds_reserveA w then [''reserveA''] else [])
                @ (if ds_reserveB a \<noteq> ds_reserveB w then [''reserveB''] else [])
                @ (if ds_totalShares a \<noteq> ds_totalShares w then [''totalShares''] else [])
      in (length diffs = 0, diffs))"

lemma compare_match: "fst (compareAmmReserves a w) = (a = w)"
  by (cases a; cases w) (auto simp: compareAmmReserves_def Let_def)

subsection \<open>The index cannot choose the order\<close>

text \<open>
  The list of operations comes from a server. Its order, its repetitions and the positions it claims have no
  influence: a run is determined by the set of transaction ids and by the chain.
\<close>

definition goodTx :: "deriveEnv \<Rightarrow> string \<Rightarrow> bool" where
  "goodTx env t = (case fetchTx env t of None \<Rightarrow> False
     | Some tx \<Rightarrow> tx_confirmed tx \<and> (case tx_blockHeight tx of None \<Rightarrow> False
       | Some h \<Rightarrow> \<not> tipHeight env - h + 1 < confirmations env))"

definition txOf :: "deriveEnv \<Rightarrow> string \<Rightarrow> txInfo" where
  "txOf env t = the (fetchTx env t)"

definition heightOf :: "deriveEnv \<Rightarrow> string \<Rightarrow> int" where
  "heightOf env t = the (tx_blockHeight (txOf env t))"

definition describes :: "deriveEnv \<Rightarrow> string set \<Rightarrow> fetchedOp list \<Rightarrow> bool" where
  "describes env T fs = (distinct (map f_txid fs) \<and> set (map f_txid fs) = T \<and>
     (\<forall>f \<in> set fs. f_tx f = txOf env (f_txid f) \<and> f_h f = heightOf env (f_txid f)))"

lemma fetchOps_Inr:
  "fetchOps env seen its = Inr fs \<Longrightarrow>
   describes env (set (map it_txid its) - set seen) fs \<and> (\<forall>t \<in> set (map it_txid its) - set seen. goodTx env t)"
proof (induction env seen its arbitrary: fs rule: fetchOps.induct)
  case (2 env seen item its)
  show ?case
  proof (cases "it_txid item \<in> set seen")
    case True
    moreover have "set (map it_txid (item # its)) - set seen = set (map it_txid its) - set seen" using True by auto
    ultimately show ?thesis using 2 by simp
  next
    case False
    then obtain tx h fs' where tx: "fetchTx env (it_txid item) = Some tx" "tx_confirmed tx"
        "tx_blockHeight tx = Some h" "\<not> tipHeight env - h + 1 < confirmations env"
      and fs': "fetchOps env (it_txid item # seen) its = Inr fs'"
      and fs: "fs = \<lparr>f_txid = it_txid item, f_tx = tx, f_h = h, f_pos = it_txIndex item\<rparr> # fs'"
      using 2(3) by (auto split: option.splits if_splits sum.splits)
    have IH: "describes env (set (map it_txid its) - set (it_txid item # seen)) fs'"
      "\<forall>t \<in> set (map it_txid its) - set (it_txid item # seen). goodTx env t"
      using 2(2) [OF False tx(1) _ tx(3,4) fs'] tx(2) by simp_all
    have S: "set (map it_txid (item # its)) - set seen
        = insert (it_txid item) (set (map it_txid its) - set (it_txid item # seen))"
      using False by auto
    have "goodTx env (it_txid item)" using tx by (simp add: goodTx_def)
    moreover have "describes env (set (map it_txid (item # its)) - set seen) fs"
      unfolding S using IH(1) fs tx by (auto simp: describes_def txOf_def heightOf_def)
    ultimately show ?thesis using IH(2) unfolding S by blast
  qed
qed (simp add: describes_def)

lemma fetchOps_total:
  "\<forall>t \<in> set (map it_txid its) - set seen. goodTx env t \<Longrightarrow> \<exists>fs. fetchOps env seen its = Inr fs"
proof (induction its arbitrary: seen)
  case (Cons item its)
  show ?case
  proof (cases "it_txid item \<in> set seen")
    case False
    with Cons.prems have "goodTx env (it_txid item)" by simp
    moreover obtain fs where "fetchOps env (it_txid item # seen) its = Inr fs"
      using Cons.IH [of "it_txid item # seen"] Cons.prems by auto
    ultimately show ?thesis using False by (auto simp: goodTx_def split: option.splits)
  qed (use Cons in auto)
qed simp

lemma perHeight_set: "describes env T fs \<Longrightarrow> perHeight fs h = card {t \<in> T. heightOf env t = h}"
proof -
  assume a: "describes env T fs"
  then have inj: "inj_on f_txid (set (filter (\<lambda>f. f_h f = h) fs))" and d: "distinct fs"
    by (auto simp: describes_def distinct_map intro: inj_on_subset)
  have "perHeight fs h = card (set (filter (\<lambda>f. f_h f = h) fs))"
    unfolding perHeight_def using d by (simp add: distinct_card [symmetric] del: set_filter)
  also have "\<dots> = card (f_txid ` set (filter (\<lambda>f. f_h f = h) fs))"
    using card_image [OF inj] by simp
  also have "f_txid ` set (filter (\<lambda>f. f_h f = h) fs) = {t \<in> T. heightOf env t = h}"
    using a by (auto simp: describes_def)
  finally show ?thesis .
qed

lemma describes_map:
  assumes "describes env T fs" "list_all2 (\<lambda>f g. f_txid g = f_txid f \<and> f_tx g = f_tx f \<and> f_h g = f_h f) fs gs"
  shows "describes env T gs"
proof -
  have m: "map f_txid gs = map f_txid fs"
    using assms(2) by (induction rule: list_all2_induct) auto
  have "\<forall>g \<in> set gs. \<exists>f \<in> set fs. f_txid g = f_txid f \<and> f_tx g = f_tx f \<and> f_h g = f_h f"
    using assms(2) by (induction rule: list_all2_induct) auto
  then have "\<forall>g \<in> set gs. f_tx g = txOf env (f_txid g) \<and> f_h g = heightOf env (f_txid g)"
    using assms(1) unfolding describes_def by metis
  then show ?thesis using assms(1) m unfolding describes_def by (metis set_map)
qed

lemma indexOf_bound: "- 1 \<le> indexOf x ys"
  by (induction ys) (auto simp: Let_def)

lemma indexOf_inj: "indexOf x ys = indexOf y ys \<Longrightarrow> 0 \<le> indexOf x ys \<Longrightarrow> x = y"
proof (induction ys)
  case (Cons z zs)
  then show ?case
    using indexOf_bound [of x zs] indexOf_bound [of y zs] by (auto simp: Let_def split: if_splits)
qed simp

lemma indexOf_inj': "indexOf x ys = indexOf y ys \<Longrightarrow> 0 \<le> indexOf y ys \<Longrightarrow> x = y"
  using indexOf_inj [of y ys x] by simp

text \<open>
  The position of an operation on the chain: its height and, where several operations of the pool share that
  height, its index in the block.
\<close>

definition blockIndex :: "deriveEnv \<Rightarrow> (string \<Rightarrow> string list option) \<Rightarrow> string \<Rightarrow> int" where
  "blockIndex env bt t = (case tx_blockHash (txOf env t) of None \<Rightarrow> -1
     | Some hash \<Rightarrow> if hash = [] then -1 else (case bt hash of Some ids \<Rightarrow> indexOf t ids | None \<Rightarrow> -1))"

definition shared :: "deriveEnv \<Rightarrow> string set \<Rightarrow> string \<Rightarrow> bool" where
  "shared env T t = (2 \<le> card {u \<in> T. heightOf env u = heightOf env t})"

definition chainKey :: "deriveEnv \<Rightarrow> (string \<Rightarrow> string list option) \<Rightarrow> string set \<Rightarrow> string \<Rightarrow> int \<times> int" where
  "chainKey env bt T t = (heightOf env t, if shared env T t then blockIndex env bt t else 0)"

lemma placeInBlock_iff:
  assumes "describes env T fs" "f \<in> set fs"
  shows "placeInBlock bt fs f = Inr g \<longleftrightarrow>
    (if shared env T (f_txid f) then 0 \<le> blockIndex env bt (f_txid f) \<and> g = f\<lparr>f_pos := Some (blockIndex env bt (f_txid f))\<rparr>
     else g = f)"
proof -
  have "f_tx f = txOf env (f_txid f)" "f_h f = heightOf env (f_txid f)"
    using assms by (auto simp: describes_def)
  moreover have "(perHeight fs (f_h f) < 2) = (\<not> shared env T (f_txid f))"
    using perHeight_set [OF assms(1)] calculation(2) by (auto simp: shared_def not_le)
  ultimately show ?thesis
    by (auto simp: placeInBlock_def blockIndex_def Let_def split: option.splits)
qed

lemma placeOps_Inr:
  assumes "blockTxids env = Some bt" "describes env T fs"
  shows "placeOps env fs = Inr gs \<longleftrightarrow>
    (\<forall>t \<in> T. shared env T t \<longrightarrow> 0 \<le> blockIndex env bt t) \<and>
    gs = map (\<lambda>f. if shared env T (f_txid f) then f\<lparr>f_pos := Some (blockIndex env bt (f_txid f))\<rparr> else f) fs"
    (is "_ \<longleftrightarrow> ?ok \<and> gs = map ?g fs")
proof -
  have M: "mapRes (placeInBlock bt fs) fs = Inr gs \<longleftrightarrow> ?ok \<and> gs = map ?g fs" for gs
  proof -
    have T: "T = f_txid ` set fs" using assms(2) by (auto simp: describes_def)
    have "list_all2 (\<lambda>x y. placeInBlock bt fs x = Inr y) xs gs \<longleftrightarrow>
        (\<forall>f \<in> set xs. shared env T (f_txid f) \<longrightarrow> 0 \<le> blockIndex env bt (f_txid f)) \<and> gs = map ?g xs"
      if "set xs \<subseteq> set fs" for xs
      using that
    proof (induction xs arbitrary: gs)
      case (Cons x xs)
      then show ?case
        by (auto simp: list_all2_Cons1 placeInBlock_iff [OF assms(2)] split: if_splits)
    qed auto
    from this [of fs] show ?thesis by (simp add: mapRes_Inr T)
  qed
  have "\<not> list_ex (\<lambda>f. perHeight fs (f_h f) > 1 \<and> f_pos f = None) (map ?g fs)"
  proof -
    have "shared env T (f_txid f)" if "f \<in> set fs" "perHeight fs (f_h f) > 1" for f
      using that perHeight_set [OF assms(2)] assms(2) by (auto simp: shared_def describes_def)
    then show ?thesis by (auto simp: list_ex_iff split: if_splits)
  qed
  then show ?thesis
    using M assms(1) by (auto simp: placeOps_def split: sum.splits)
qed

lemma chainOrder_sorted:
  assumes "describes env T fs"
    and gs: "gs = map (\<lambda>f. if shared env T (f_txid f) then f\<lparr>f_pos := Some (blockIndex env bt (f_txid f))\<rparr> else f) fs"
  shows "sorted (map (chainKey env bt T) (map f_txid (chainOrder gs)))" "distinct (map f_txid (chainOrder gs))"
    "set (map f_txid (chainOrder gs)) = T" "\<forall>f \<in> set (chainOrder gs). f_tx f = txOf env (f_txid f)"
proof -
  let ?key = "\<lambda>f. (f_h f, case f_pos f of None \<Rightarrow> 0 | Some p \<Rightarrow> p)"
  have D: "describes env T gs"
    by (rule describes_map [OF assms(1)]) (simp add: gs list_all2_map2 list.rel_refl)
  have P: "f_pos g = Some (blockIndex env bt (f_txid g))" if "g \<in> set gs" "shared env T (f_txid g)" for g
    using that gs by (auto split: if_splits)
  show d: "distinct (map f_txid (chainOrder gs))"
    using D by (simp add: describes_def chainOrder_def distinct_map)
  show "set (map f_txid (chainOrder gs)) = T" "\<forall>f \<in> set (chainOrder gs). f_tx f = txOf env (f_txid f)"
    using D by (simp_all add: describes_def chainOrder_def)
  have K: "chainKey env bt T (f_txid f) \<le> chainKey env bt T (f_txid g)"
    if fg: "f \<in> set gs" "g \<in> set gs" "f_txid f \<noteq> f_txid g" "?key f \<le> ?key g" for f g
  proof -
    have h: "f_h f = heightOf env (f_txid f)" "f_h g = heightOf env (f_txid g)"
      using D fg by (auto simp: describes_def)
    show ?thesis
    proof (cases "f_h f = f_h g")
      case True
      have "{f_txid f, f_txid g} \<subseteq> {u \<in> T. heightOf env u = f_h f}"
        using D fg h True by (auto simp: describes_def)
      moreover have "finite T" using D by (auto simp: describes_def)
      ultimately have "card {f_txid f, f_txid g} \<le> card {u \<in> T. heightOf env u = f_h f}"
        by (intro card_mono) auto
      then have "shared env T (f_txid f)" "shared env T (f_txid g)"
        using fg(3) h True by (auto simp: shared_def)
      with P fg h True show ?thesis by (simp add: chainKey_def)
    next
      case False
      with fg(4) h show ?thesis by (auto simp: chainKey_def)
    qed
  qed
  have "sorted_wrt (\<lambda>f g. ?key f \<le> ?key g) (chainOrder gs)"
    using sorted_sort_key [of ?key gs] by (simp add: chainOrder_def sorted_map)
  moreover have "sorted_wrt (\<lambda>f g. f_txid f \<noteq> f_txid g) (chainOrder gs)"
    using d by (simp add: distinct_conv_nth sorted_wrt_iff_nth_less)
  ultimately have "sorted_wrt (\<lambda>f g. ?key f \<le> ?key g \<and> f_txid f \<noteq> f_txid g) (chainOrder gs)"
    by (simp add: sorted_wrt_iff_nth_less)
  then have "sorted_wrt (\<lambda>f g. chainKey env bt T (f_txid f) \<le> chainKey env bt T (f_txid g)) (chainOrder gs)"
    by (rule sorted_wrt_mono_rel [rotated]) (use K in \<open>auto simp: chainOrder_def\<close>)
  then show "sorted (map (chainKey env bt T) (map f_txid (chainOrder gs)))"
    by (simp add: sorted_map sorted_wrt_map)
qed

lemma chainKey_inj:
  assumes "\<forall>t \<in> T. shared env T t \<longrightarrow> 0 \<le> blockIndex env bt t" "finite T"
    and chain: "\<And>t u. t \<in> T \<Longrightarrow> u \<in> T \<Longrightarrow> heightOf env t = heightOf env u \<Longrightarrow>
      tx_blockHash (txOf env t) = tx_blockHash (txOf env u)"
  shows "inj_on (chainKey env bt T) T"
proof (rule inj_onI, rule ccontr)
  fix t u assume tu: "t \<in> T" "u \<in> T" "chainKey env bt T t = chainKey env bt T u" "t \<noteq> u"
  then have h: "heightOf env t = heightOf env u" by (simp add: chainKey_def)
  have "card {t, u} \<le> card {v \<in> T. heightOf env v = heightOf env t}"
    using tu h assms(2) by (intro card_mono) auto
  then have sh: "shared env T t" "shared env T u" using tu(4) h by (auto simp: shared_def)
  then have "blockIndex env bt t = blockIndex env bt u" using tu(3) by (simp add: chainKey_def)
  moreover have "0 \<le> blockIndex env bt t" using assms(1) tu sh by auto
  ultimately have "t = u"
    using chain [OF tu(1,2) h]
    by (auto simp: blockIndex_def dest: indexOf_inj' split: option.splits if_splits)
  with tu(4) show False by simp
qed

lemma derive_order:
  assumes bt: "blockTxids env = Some bt" and same: "set (map it_txid l) = set (map it_txid l')"
    and chain: "\<And>t u. t \<in> set (map it_txid l) \<Longrightarrow> u \<in> set (map it_txid l) \<Longrightarrow>
      heightOf env t = heightOf env u \<Longrightarrow> tx_blockHash (txOf env t) = tx_blockHash (txOf env u)"
    and ok: "deriveAmmPoolState env d pid l = Inr s"
  shows "deriveAmmPoolState env d pid l' = Inr s"
proof -
  define T where "T = set (map it_txid l)"
  let ?g = "\<lambda>f. if shared env T (f_txid f) then f\<lparr>f_pos := Some (blockIndex env bt (f_txid f))\<rparr> else f"
  obtain fs gs where fs: "fetchOps env [] l = Inr fs" and gs: "placeOps env fs = Inr gs"
    and run: "(case mapRes (\<lambda>f. opOfTx env pid (f_tx f)) (chainOrder gs) of Inl e \<Rightarrow> Inl e
          | Inr ops \<Rightarrow> replayAmmPoolState ops d) = Inr s"
    using ok by (auto simp: deriveAmmPoolState_def split: sum.splits)
  have D: "describes env T fs" "\<forall>t \<in> T. goodTx env t" using fetchOps_Inr [OF fs] by (simp_all add: T_def)
  obtain fs' where fs': "fetchOps env [] l' = Inr fs'"
    using fetchOps_total [of l' "[]" env] D(2) same unfolding T_def by (metis Diff_empty list.set(1))
  have D': "describes env T fs'" using fetchOps_Inr [OF fs'] same by (simp add: T_def)
  have idx: "\<forall>t \<in> T. shared env T t \<longrightarrow> 0 \<le> blockIndex env bt t" and g: "gs = map ?g fs"
    using gs placeOps_Inr [OF bt D(1)] by auto
  define gs' where "gs' = map ?g fs'"
  have p': "placeOps env fs' = Inr gs'"
    using placeOps_Inr [OF bt D'] idx by (simp add: gs'_def)
  note A = chainOrder_sorted [OF D(1) g] and B = chainOrder_sorted [OF D' gs'_def]
  have inj: "inj_on (chainKey env bt T) T"
    by (rule chainKey_inj [OF idx _ chain [folded T_def]]) (simp_all add: T_def)
  have dist: "distinct (map (chainKey env bt T) xs)" if "distinct xs" "set xs = T" for xs
    using that inj by (simp add: distinct_map)
  have "map f_txid (chainOrder gs) = map f_txid (chainOrder gs')"
  proof (rule map_sorted_distinct_set_unique [OF _ A(1) dist [OF A(2,3)] B(1) dist [OF B(2,3)]])
    show "set (map f_txid (chainOrder gs)) = set (map f_txid (chainOrder gs'))" unfolding A(3) B(3) ..
    show "inj_on (chainKey env bt T) (set (map f_txid (chainOrder gs)) \<union> set (map f_txid (chainOrder gs')))"
      unfolding A(3) B(3) using inj by simp
  qed
  moreover have "map f_tx (chainOrder gs) = map (txOf env) (map f_txid (chainOrder gs))"
    "map f_tx (chainOrder gs') = map (txOf env) (map f_txid (chainOrder gs'))"
    using A(4) B(4) by simp_all
  ultimately have "map f_tx (chainOrder gs) = map f_tx (chainOrder gs')" by simp
  moreover have "mapRes (\<lambda>f. opOfTx env pid (f_tx f)) xs = mapRes (opOfTx env pid) (map f_tx xs)"
    for xs :: "fetchedOp list"
    by (induction xs) (auto split: sum.split)
  ultimately have "mapRes (\<lambda>f. opOfTx env pid (f_tx f)) (chainOrder gs)
      = mapRes (\<lambda>f. opOfTx env pid (f_tx f)) (chainOrder gs')" by simp
  then show ?thesis
    using run fs' p' by (simp add: deriveAmmPoolState_def)
qed

end
