(* ===== verification/Amm_Live.thy ===== *)
theory Amm_Live
  imports Amm_Replay Script_Envelope
begin

text \<open>
  \<open>deriveAmmPoolStateLive\<close> of \<open>dapp/tacit.js\<close>: the replay with the wallet's own decoders and pool mathematics
  plugged in. Only the chain API, the curve test and \<open>sha256\<close> stay parameters.
\<close>

definition decodeForOpcodeLive :: "(bytes \<Rightarrow> bool) \<Rightarrow> nat \<Rightarrow> bytes \<Rightarrow> decodedOp option" where
  "decodeForOpcodeLive onCurve opcode payload =
     (if opcode = OPCODE_T_LP_ADD then map_option DecLpAdd (decodeLpAdd payload)
      else if opcode = T_SWAP_VAR then map_option DecSwapVar (decodeTSwapVarPayload onCurve payload)
      else if opcode = T_SWAP_ROUTE then map_option DecSwapRoute (decodeTSwapRoutePayload onCurve payload)
      else if opcode = OPCODE_T_LP_REMOVE then map_option DecLpRemove (decodeLpRemove payload)
      else if opcode = OPCODE_T_PROTOCOL_FEE_CLAIM then map_option DecFeeClaim (decodeProtocolFeeClaim payload)
      else None)"

record poolSettings =
  ps_feeBps :: int
  ps_capabilityFlags :: int
  ps_protocolFeeAddress :: "bytes option"
  ps_protocolFeeBps :: int

definition idList :: "bytes res \<Rightarrow> bytes list" where
  "idList r = (case r of Inl _ \<Rightarrow> [] | Inr pid \<Rightarrow> [pid])"

definition poolIdForOpLive :: "(bytes \<Rightarrow> bytes) \<Rightarrow> poolSettings \<Rightarrow> decodedOp \<Rightarrow> bytes list" where
  "poolIdForOpLive sha256 ps dec =
     (case dec of
        DecSwapVar a \<Rightarrow> [sv_poolId a]
      | DecFeeClaim a \<Rightarrow> [fc_poolId a]
      | DecSwapRoute a \<Rightarrow> map hop_poolId (sr_hops a)
      | DecLpAdd a \<Rightarrow>
          (case ld_init a of
             Some i \<Rightarrow> idList (ammDerivePoolIdDapp sha256 (ld_assetA a) (ld_assetB a) (di_feeBps i)
                 (int (di_poolCapabilityFlags i)) (Some (di_protocolFeeAddress i)) (Some (di_protocolFeeBps i)))
           | None \<Rightarrow> idList (ammDerivePoolIdDapp sha256 (ld_assetA a) (ld_assetB a) (ps_feeBps ps)
                 (ps_capabilityFlags ps) (ps_protocolFeeAddress ps) (Some (ps_protocolFeeBps ps))))
      | DecLpRemove a \<Rightarrow> idList (ammDerivePoolIdDapp sha256 (lr_assetA a) (lr_assetB a) (ps_feeBps ps)
                 (ps_capabilityFlags ps) (ps_protocolFeeAddress ps) (Some (ps_protocolFeeBps ps))))"

definition protocolFeeEnabledLive :: "poolSettings \<Rightarrow> bool" where
  "protocolFeeEnabledLive ps =
     ((case ps_protocolFeeAddress ps of None \<Rightarrow> False | Some a \<Rightarrow> \<not> all_zero a) \<and> ps_protocolFeeBps ps > 0)"

definition liveEnv ::
  "(bytes \<Rightarrow> bytes) \<Rightarrow> (bytes \<Rightarrow> bool) \<Rightarrow> poolSettings \<Rightarrow> (string \<Rightarrow> txInfo option) \<Rightarrow> (string \<Rightarrow> string list option) \<Rightarrow>
   int \<Rightarrow> int \<Rightarrow> deriveEnv" where
  "liveEnv sha256 onCurve ps getTx blockIds tip conf =
     \<lparr>fetchTx = getTx,
      decodeEnvelope = (\<lambda>w. map_option (\<lambda>e. (env_opcode e, env_payload e)) (decodeEnvelopeScript w)),
      decodeForOpcode = decodeForOpcodeLive onCurve,
      poolIdForOp = poolIdForOpLive sha256 ps,
      blockTxids = Some blockIds,
      tipHeight = tip, confirmations = conf\<rparr>"

definition deriveAmmPoolStateLive ::
  "(bytes \<Rightarrow> bytes) \<Rightarrow> (bytes \<Rightarrow> bool) \<Rightarrow> poolSettings \<Rightarrow> (string \<Rightarrow> txInfo option) \<Rightarrow> (string \<Rightarrow> string list option) \<Rightarrow>
   int \<Rightarrow> int \<Rightarrow> bytes \<Rightarrow> opItem list \<Rightarrow> derivedState res" where
  "deriveAmmPoolStateLive sha256 onCurve ps getTx blockIds tip conf poolId listed =
     deriveAmmPoolState (liveEnv sha256 onCurve ps getTx blockIds tip conf)
       (liveDeps (ps_protocolFeeBps ps) (protocolFeeEnabledLive ps)) poolId listed"

subsection \<open>Every operation read from the chain has a legal fee\<close>

lemma decodeLpAddInit_fee: "decodeLpAddInit p off = Some (i, off') \<Longrightarrow> 0 \<le> di_feeBps i \<and> di_feeBps i \<le> 1000"
  by (auto simp: decodeLpAddInit_def Let_def readU16LE_def FEE_BPS_MAX_def split: if_splits bind_splits)

lemma decodeLpAdd_fee: "decodeLpAdd p = Some a \<Longrightarrow> ld_init a = Some i \<Longrightarrow> 0 \<le> di_feeBps i \<and> di_feeBps i \<le> 1000"
proof -
  assume a: "decodeLpAdd p = Some a" "ld_init a = Some i"
  then obtain off off' where "decodeLpAddInit p off = Some (i, off')"
    by (auto simp: decodeLpAdd_def Let_def split: if_splits bind_splits)
  then show ?thesis by (rule decodeLpAddInit_fee)
qed

lemma replayOp_feeOk:
  assumes "replayOpFromDecoded dec pid = Inr (Some rop)"
    "\<And>a i. dec = DecLpAdd a \<Longrightarrow> ld_init a = Some i \<Longrightarrow> 0 \<le> di_feeBps i \<and> di_feeBps i \<le> 1000"
  shows "feeOk rop"
proof (cases dec)
  case (DecLpAdd a)
  then show ?thesis
    using assms(1) assms(2) [OF DecLpAdd]
    by (cases "ld_init a") (auto simp: replayOpFromDecoded_def Let_def split: if_splits sum.splits)
qed (use assms(1) in \<open>auto simp: replayOpFromDecoded_def Let_def split: if_splits sum.splits\<close>)

lemma decodeForOpcode_LpAdd: "decodeForOpcodeLive onCurve opc p = Some (DecLpAdd a) \<Longrightarrow> decodeLpAdd p = Some a"
  by (auto simp: decodeForOpcodeLive_def split: if_splits)

lemma opOfTx_feeOk:
  assumes "opOfTx (liveEnv h onCurve ps g b tip conf) pid tx = Inr rop"
  shows "feeOk rop"
proof -
  obtain opc p dec where "decodeForOpcodeLive onCurve opc p = Some dec"
      "replayOpFromDecoded dec (Some pid) = Inr (Some rop)"
    using assms by (auto simp: opOfTx_def liveEnv_def split: option.splits if_splits sum.splits prod.splits)
  then show ?thesis
    using replayOp_feeOk decodeForOpcode_LpAdd decodeLpAdd_fee by metis
qed

lemma derive_live_ops:
  assumes "deriveAmmPoolStateLive h onCurve ps g b tip conf pid l = Inr s"
  obtains ops where "list_all feeOk ops"
    "replayAmmPoolState ops (liveDeps (ps_protocolFeeBps ps) (protocolFeeEnabledLive ps)) = Inr s"
proof -
  let ?env = "liveEnv h onCurve ps g b tip conf"
  obtain placed :: "fetchedOp list" and ops where m: "mapRes (\<lambda>f. opOfTx ?env pid (f_tx f)) placed = Inr ops"
    and r: "replayAmmPoolState ops (liveDeps (ps_protocolFeeBps ps) (protocolFeeEnabledLive ps)) = Inr s"
    using assms by (auto simp: deriveAmmPoolStateLive_def deriveAmmPoolState_def split: sum.splits)
  have "list_all2 (\<lambda>f rop. opOfTx ?env pid (f_tx f) = Inr rop) placed ops" using m by (simp add: mapRes_Inr)
  then have "list_all feeOk ops"
    by (induction rule: list_all2_induct) (auto dest: opOfTx_feeOk)
  with r that show thesis by blast
qed

lemma replay_good_state:
  assumes "replayAmmPoolState ops (liveDeps bps en) = Inr s" "list_all feeOk ops"
  shows "0 < ds_reserveA s \<and> 0 < ds_reserveB s \<and> AMM_MIN_LIQUIDITY_DAPP \<le> ds_totalShares s"
proof -
  obtain p ps where ops: "ops = p # ps" using assms(1) by (cases ops) (auto simp: replayAmmPoolState_def)
  obtain st where f: "foldRes (replayStep (liveDeps bps en)) freshPool ops = Inr st"
    and s: "s = \<lparr>ds_reserveA = reserveA st, ds_reserveB = reserveB st, ds_totalShares = totalShares st\<rparr>"
    using assms(1) ops by (auto simp: replayAmmPoolState_def split: sum.splits)
  have "poolInv (liveDeps bps en) freshPool" by (simp add: poolInv_def freshPool_def)
  then have "poolInv (liveDeps bps en) st" by (rule live.replay_inv [OF f _ assms(2)])
  moreover have "initialized st" by (rule replay_initialized [OF f [unfolded ops]])
  ultimately show ?thesis by (simp add: s poolInv_def liveDeps_def)
qed

end
