(* ===== verification/Swap_Messages.thy ===== *)
theory Swap_Messages
  imports Swap_Envelope
begin

text \<open>
  What a trader signs for a route, and what the indexer checks: the intent and kernel messages of
  \<open>dapp/tacit.js\<close> and their reconstruction from a decoded payload in \<open>worker/src/index.js\<close>. The indexer keeps
  decoded fields as hex and decimal strings, which it converts back; the model works on the values.
\<close>

subsection \<open>The wallet's messages\<close>

definition hashSwapRouteHops :: "(bytes \<Rightarrow> bytes) \<Rightarrow> routeHop list \<Rightarrow> bytes res" where
  "hashSwapRouteHops sha256 hops = hashed sha256 (concatParts (map encodeSwapRouteHop hops))"

record routeIntent =
  ri_traderPubkey :: bytes
  ri_traderInputAssetId :: bytes
  ri_traderOutputAssetId :: bytes
  ri_minOut :: int
  ri_expiryHeight :: int
  ri_hops :: "routeHop list"
  ri_cInSecp :: bytes
  ri_rReceipt :: bytes
  ri_receiveScriptPubKey :: bytes
  ri_refundScriptPubKey :: bytes

definition hopShape :: "routeHop \<Rightarrow> bytes" where
  "hopShape h = hop_poolId h @ [word_of_int (hop_direction h)]"

definition routeDeltaIn :: "routeHop \<Rightarrow> int" where
  "routeDeltaIn hop0 = (if hop_direction hop0 = 0 then hop_deltaANetMag hop0 else hop_deltaBNetMag hop0)"

definition buildSwapRouteIntentMsg :: "(bytes \<Rightarrow> bytes) \<Rightarrow> routeIntent \<Rightarrow> bytes res" where
  "buildSwapRouteIntentMsg sha256 a =
     (if length (ri_hops a) < 2 \<or> length (ri_hops a) > SWAP_ROUTE_N_HOPS_MAX then Inl (Err ''hops length must be 2..4'')
      else if length (ri_receiveScriptPubKey a) = 0 then Inl (Err ''receiveScriptPubKey must be the receipt output scriptPubKey'')
      else if length (ri_refundScriptPubKey a) = 0 then Inl (Err ''refundScriptPubKey must be the refund output scriptPubKey'')
      else hashed sha256 (concatParts
        ([Inr (ascii ''tacit-swap-route-v1''),
          Inr (ri_traderPubkey a), Inr (ri_traderInputAssetId a), Inr (ri_traderOutputAssetId a),
          u64LE (routeDeltaIn (ri_hops a ! 0)),
          u64LE (ri_minOut a), u32LE (ri_expiryHeight a),
          Inr [byte_of (length (ri_hops a))]]
         @ map (\<lambda>h. Inr (hopShape h)) (ri_hops a)
         @ [Inr (ri_cInSecp a), Inr (ri_rReceipt a),
            u16LE (int (length (ri_receiveScriptPubKey a))), Inr (ri_receiveScriptPubKey a),
            u16LE (int (length (ri_refundScriptPubKey a))), Inr (ri_refundScriptPubKey a)])))"

definition buildSwapRouteKernelMsg ::
  "(bytes \<Rightarrow> bytes) \<Rightarrow> bytes \<Rightarrow> bytes \<Rightarrow> bytes \<Rightarrow> int \<Rightarrow> int \<Rightarrow> int \<Rightarrow> bytes \<Rightarrow> bytes \<Rightarrow> bytes res" where
  "buildSwapRouteKernelMsg sha256 traderInputAssetId traderOutputAssetId txidBE vout deltaIn0 deltaOutLast
     cReceiptSecp hopsHash = hashed sha256 (concatParts
       [Inr (ascii ''tacit-kernel-v1''),
        Inr traderInputAssetId, Inr traderOutputAssetId,
        Inr [0x01],
        Inr txidBE,
        u32LE vout,
        Inr cReceiptSecp,
        u64LE deltaIn0,
        u64LE deltaOutLast,
        Inr hopsHash])"

subsection \<open>The indexer's reconstruction\<close>

definition srU64LE :: "int \<Rightarrow> bytes" where "srU64LE n = le_bytes 8 n"
definition srU32LE :: "int \<Rightarrow> bytes" where "srU32LE n = le_bytes 4 (n mod 2 ^ 32)"
definition srU16LE :: "int \<Rightarrow> bytes" where "srU16LE n = le_bytes 2 (n mod 2 ^ 16)"

definition srEncodeHopBlock :: "routeHop \<Rightarrow> bytes" where
  "srEncodeHopBlock hop = hop_poolId hop @ [word_of_int (hop_direction hop)] @ srU16LE (hop_feeBps hop) @
     srU64LE (hop_R_A_pre hop) @ srU64LE (hop_R_B_pre hop) @ srU64LE (hop_deltaANetMag hop) @
     srU64LE (hop_deltaBNetMag hop)"

definition srHashHops :: "(bytes \<Rightarrow> bytes) \<Rightarrow> swapRoute \<Rightarrow> bytes" where
  "srHashHops sha256 sr = sha256 (concat (map srEncodeHopBlock (sr_hops sr)))"

definition ammSwapRouteIntentMsg :: "(bytes \<Rightarrow> bytes) \<Rightarrow> swapRoute \<Rightarrow> bytes \<Rightarrow> bytes \<Rightarrow> bytes res" where
  "ammSwapRouteIntentMsg sha256 sr spk rspk =
     (if length rspk = 0 then Inl (Err ''swap-route intent: refund script required'')
      else Inr (sha256 (
        ascii ''tacit-swap-route-v1'' @
        sr_traderPubkey sr @ sr_traderInputAssetId sr @ sr_traderOutputAssetId sr @
        srU64LE (case sr_hops sr of [] \<Rightarrow> 0 | hop0 # _ \<Rightarrow> routeDeltaIn hop0) @
        srU64LE (sr_minOut sr) @ srU32LE (sr_expiryHeight sr) @
        [byte_of (length (sr_hops sr))] @
        concat (map hopShape (sr_hops sr)) @
        sr_cInSecp sr @ sr_rReceipt sr @
        srU16LE (int (length spk)) @ spk @
        srU16LE (int (length rspk)) @ rspk)))"

definition ammSwapRouteHop0KernelMsg :: "(bytes \<Rightarrow> bytes) \<Rightarrow> swapRoute \<Rightarrow> int \<Rightarrow> bytes" where
  "ammSwapRouteHop0KernelMsg sha256 sr deltaIn0 = sha256 (
     ascii ''tacit-kernel-v1'' @ sr_traderInputAssetId sr @ [1] @ sr_traderInputTxidBE sr @
     le_bytes 4 (sr_traderInputVout sr mod 2 ^ 32) @ [1] @ zeros 33 @
     le_bytes 4 (deltaIn0 mod 2 ^ 32) @ le_bytes 4 (deltaIn0 div 2 ^ 32 mod 2 ^ 32))"

definition ammSwapRouteKernelMsg :: "(bytes \<Rightarrow> bytes) \<Rightarrow> swapRoute \<Rightarrow> int \<Rightarrow> int \<Rightarrow> bytes" where
  "ammSwapRouteKernelMsg sha256 sr deltaIn0 deltaOutLast = sha256 (
     ascii ''tacit-kernel-v1'' @ sr_traderInputAssetId sr @ sr_traderOutputAssetId sr @ [0x01] @
     (sr_traderInputTxidBE sr @ srU32LE (sr_traderInputVout sr)) @
     sr_cReceiptSecp sr @ srU64LE deltaIn0 @ srU64LE deltaOutLast @ srHashHops sha256 sr)"

subsection \<open>Both sides build the same message\<close>

lemma sr_writers: "u64LE n = (if n < 0 \<or> n \<ge> 2 ^ 64 then Inl (Err ''u64 overflow'') else Inr (srU64LE n))"
  "u32LE n = Inr (srU32LE n)" "u16LE n = Inr (srU16LE n)"
  by (simp_all add: u64LE_def u32LE_def u16LE_def srU64LE_def srU32LE_def srU16LE_def)

lemma concatParts_map_Inr: "concatParts (map (\<lambda>x. Inr (f x)) xs @ ps) =
    (case concatParts ps of Inl e \<Rightarrow> Inl e | Inr q \<Rightarrow> Inr (concat (map f xs) @ q))"
  by (induction xs) (auto simp: concatParts.simps split: sum.splits)

lemma encodeHop_worker: "encodeSwapRouteHop h = Inr q \<Longrightarrow> q = srEncodeHopBlock h"
  by (auto simp: encodeSwapRouteHop_def srEncodeHopBlock_def sr_writers(3) byte_of_def srU64LE_def
      concatParts_Cons_Inr concatParts_Nil_Inr throw_unless_Inr u64LE_Inr)

lemma hops_worker: "concatParts (map encodeSwapRouteHop hs) = Inr q \<Longrightarrow> q = concat (map srEncodeHopBlock hs)"
  by (induction hs arbitrary: q) (auto simp: concatParts_Cons_Inr concatParts_Nil_Inr dest: encodeHop_worker)

definition intentOf :: "swapRoute \<Rightarrow> bytes \<Rightarrow> bytes \<Rightarrow> routeIntent" where
  "intentOf a spk rspk = \<lparr>ri_traderPubkey = sr_traderPubkey a, ri_traderInputAssetId = sr_traderInputAssetId a,
     ri_traderOutputAssetId = sr_traderOutputAssetId a, ri_minOut = sr_minOut a,
     ri_expiryHeight = sr_expiryHeight a, ri_hops = sr_hops a, ri_cInSecp = sr_cInSecp a,
     ri_rReceipt = sr_rReceipt a, ri_receiveScriptPubKey = spk, ri_refundScriptPubKey = rspk\<rparr>"

text \<open>The facts about a route that its encoding guarantees.\<close>

lemma encodeRoute_facts:
  assumes "encodeTSwapRoutePayload a = Inr p"
  shows "2 \<le> length (sr_hops a)" "length (sr_hops a) \<le> 4" "0 \<le> sr_minOut a" "sr_minOut a < 2 ^ 64"
    "length (sr_traderPubkey a) = 33" "length (sr_traderInputAssetId a) = 32"
    "length (sr_traderOutputAssetId a) = 32" "length (sr_cInSecp a) = 33" "length (sr_rReceipt a) = 32"
    "\<exists>q. concatParts (map encodeSwapRouteHop (sr_hops a)) = Inr q"
  using assms by (auto simp: encodeTSwapRoutePayload_def wire_simps swap_consts)

lemma hops_each: "concatParts (map encodeSwapRouteHop hs) = Inr q \<Longrightarrow> h \<in> set hs \<Longrightarrow>
    length (hop_poolId h) = 32 \<and> (hop_direction h = 0 \<or> hop_direction h = 1) \<and>
    0 \<le> hop_deltaANetMag h \<and> hop_deltaANetMag h < 2 ^ 64 \<and> 0 \<le> hop_deltaBNetMag h \<and> hop_deltaBNetMag h < 2 ^ 64"
  by (induction hs arbitrary: q) (auto simp: wire_simps encodeSwapRouteHop_def)

lemma intent_msgs_agree:
  assumes "encodeTSwapRoutePayload a = Inr p" "spk \<noteq> []"
  shows "ok_of (buildSwapRouteIntentMsg sha256 (intentOf a spk rspk)) = ok_of (ammSwapRouteIntentMsg sha256 a spk rspk)"
proof -
  note f = encodeRoute_facts [OF assms(1)]
  obtain h0 t where hs: "sr_hops a = h0 # t" using f(1) by (cases "sr_hops a") auto
  obtain q where q: "concatParts (map encodeSwapRouteHop (sr_hops a)) = Inr q" using f(10) by blast
  have "0 \<le> routeDeltaIn h0 \<and> routeDeltaIn h0 < 2 ^ 64"
    using hops_each [OF q, of h0] hs by (simp add: routeDeltaIn_def)
  moreover have "t \<noteq> []" using f(1) hs by auto
  ultimately show ?thesis
    using f hs assms(2)
    by (simp add: buildSwapRouteIntentMsg_def ammSwapRouteIntentMsg_def intentOf_def swap_consts hashed_def
        concatParts.simps sr_writers concatParts_map_Inr not_less linorder_not_le)
qed

lemma kernel_msgs_agree:
  assumes "encodeTSwapRoutePayload a = Inr p" "hashSwapRouteHops sha256 (sr_hops a) = Inr hh"
    "buildSwapRouteKernelMsg sha256 (sr_traderInputAssetId a) (sr_traderOutputAssetId a) (sr_traderInputTxidBE a)
       (sr_traderInputVout a) deltaIn0 deltaOutLast (sr_cReceiptSecp a) hh = Inr m"
  shows "m = ammSwapRouteKernelMsg sha256 a deltaIn0 deltaOutLast"
proof -
  have "hh = srHashHops sha256 a"
    using assms(2) hops_worker by (auto simp: hashSwapRouteHops_def srHashHops_def hashed_Inr)
  then show ?thesis
    using assms(3)
    by (auto simp: buildSwapRouteKernelMsg_def ammSwapRouteKernelMsg_def hashed_Inr sr_writers(2) srU64LE_def
        concatParts_Cons_Inr concatParts_Nil_Inr u64LE_Inr)
qed

subsection \<open>What an intent signature binds\<close>

text \<open>
  The trade a trader consents to: the parties, the input amount, the floor, the expiry, the pools with their
  directions and the three destinations. Fee tiers, reserves and magnitudes of later hops are left out on
  purpose: they are taken from the pools when the route is applied.
\<close>

record routeConsent =
  rc_trader :: bytes
  rc_assets :: "bytes \<times> bytes"
  rc_deltaIn :: int
  rc_minOut :: int
  rc_expiry :: int
  rc_shape :: "(bytes \<times> int) list"
  rc_input :: bytes
  rc_blinding :: bytes
  rc_scripts :: "bytes \<times> bytes"

definition consentOf :: "routeIntent \<Rightarrow> routeConsent" where
  "consentOf a = \<lparr>rc_trader = ri_traderPubkey a, rc_assets = (ri_traderInputAssetId a, ri_traderOutputAssetId a),
     rc_deltaIn = routeDeltaIn (ri_hops a ! 0), rc_minOut = ri_minOut a, rc_expiry = ri_expiryHeight a,
     rc_shape = map (\<lambda>h. (hop_poolId h, hop_direction h)) (ri_hops a), rc_input = ri_cInSecp a,
     rc_blinding = ri_rReceipt a, rc_scripts = (ri_receiveScriptPubKey a, ri_refundScriptPubKey a)\<rparr>"

definition intentOk :: "routeIntent \<Rightarrow> bool" where
  "intentOk a =
     (length (ri_traderPubkey a) = 33 \<and> length (ri_traderInputAssetId a) = 32 \<and>
      length (ri_traderOutputAssetId a) = 32 \<and> length (ri_cInSecp a) = 33 \<and> length (ri_rReceipt a) = 32 \<and>
      u32 (ri_expiryHeight a) \<and> length (ri_receiveScriptPubKey a) < 65536 \<and>
      length (ri_refundScriptPubKey a) < 65536 \<and>
      list_all (\<lambda>h. length (hop_poolId h) = 32 \<and> (hop_direction h = 0 \<or> hop_direction h = 1)) (ri_hops a))"

definition intentPreimage :: "routeIntent \<Rightarrow> bytes" where
  "intentPreimage a = ascii ''tacit-swap-route-v1'' @ ri_traderPubkey a @ ri_traderInputAssetId a @
     ri_traderOutputAssetId a @ le_bytes 8 (routeDeltaIn (ri_hops a ! 0)) @ le_bytes 8 (ri_minOut a) @
     le_bytes 4 (ri_expiryHeight a) @ [byte_of (length (ri_hops a))] @ concat (map hopShape (ri_hops a)) @
     ri_cInSecp a @ ri_rReceipt a @
     le_bytes 2 (int (length (ri_receiveScriptPubKey a))) @ ri_receiveScriptPubKey a @
     le_bytes 2 (int (length (ri_refundScriptPubKey a))) @ ri_refundScriptPubKey a"

lemma buildIntent_Inr:
  assumes "buildSwapRouteIntentMsg h a = Inr d"
  shows "d = h (intentPreimage a)" "2 \<le> length (ri_hops a)" "length (ri_hops a) \<le> 4"
    "0 \<le> routeDeltaIn (ri_hops a ! 0)" "routeDeltaIn (ri_hops a ! 0) < 2 ^ 64" "0 \<le> ri_minOut a" "ri_minOut a < 2 ^ 64"
proof -
  have eq: "concatParts (map (\<lambda>h. Inr (hopShape h)) hs) = Inr (concat (map hopShape hs))" for hs
    using concatParts_map_Inr [of hopShape hs "[]"] by (simp add: concatParts.simps)
  show "d = h (intentPreimage a)" "2 \<le> length (ri_hops a)" "length (ri_hops a) \<le> 4"
    "0 \<le> routeDeltaIn (ri_hops a ! 0)" "routeDeltaIn (ri_hops a ! 0) < 2 ^ 64" "0 \<le> ri_minOut a" "ri_minOut a < 2 ^ 64"
    using assms
    by (auto simp: buildSwapRouteIntentMsg_def intentPreimage_def wire_simps eq swap_consts split: if_splits)
qed

lemma hopShapes_inj:
  assumes "concat (map hopShape hs) = concat (map hopShape hs')" "length hs = length hs'"
    "list_all (\<lambda>h. length (hop_poolId h) = 32 \<and> (hop_direction h = 0 \<or> hop_direction h = 1)) hs"
    "list_all (\<lambda>h. length (hop_poolId h) = 32 \<and> (hop_direction h = 0 \<or> hop_direction h = 1)) hs'"
  shows "map (\<lambda>h. (hop_poolId h, hop_direction h)) hs = map (\<lambda>h. (hop_poolId h, hop_direction h)) hs'"
  using assms(2,1,3,4)
proof (induction hs hs' rule: list_induct2)
  case (Cons x xs y ys)
  then show ?case by (auto simp: hopShape_def)
qed simp

lemma length_hopShapes:
  "list_all (\<lambda>h. length (hop_poolId h) = 32 \<and> (hop_direction h = 0 \<or> hop_direction h = 1)) hs \<Longrightarrow>
   length (concat (map hopShape hs)) = 33 * length hs"
  by (induction hs) (auto simp: hopShape_def)

lemma intentPreimage_inj:
  assumes "buildSwapRouteIntentMsg h a = Inr d" "buildSwapRouteIntentMsg h b = Inr d'" "intentOk a" "intentOk b"
    "intentPreimage a = intentPreimage b"
  shows "consentOf a = consentOf b"
proof -
  note A = buildIntent_Inr [OF assms(1)] and B = buildIntent_Inr [OF assms(2)]
  have "byte_of (length (ri_hops a)) = byte_of (length (ri_hops b))"
    using assms(3-5) by (simp add: intentOk_def intentPreimage_def)
  then have n: "length (ri_hops a) = length (ri_hops b)"
    by (rule byte_of_inj) (use A(3) B(3) in auto)
  have sh: "length (concat (map hopShape (ri_hops a))) = length (concat (map hopShape (ri_hops b)))"
    using assms(3,4) n by (simp add: intentOk_def length_hopShapes del: length_concat)
  have "concat (map hopShape (ri_hops a)) = concat (map hopShape (ri_hops b))"
    and eqs: "ri_traderPubkey a = ri_traderPubkey b" "ri_traderInputAssetId a = ri_traderInputAssetId b"
      "ri_traderOutputAssetId a = ri_traderOutputAssetId b" "ri_cInSecp a = ri_cInSecp b"
      "ri_rReceipt a = ri_rReceipt b"
      "le_bytes 8 (routeDeltaIn (ri_hops a ! 0)) = le_bytes 8 (routeDeltaIn (ri_hops b ! 0))"
      "le_bytes 8 (ri_minOut a) = le_bytes 8 (ri_minOut b)"
      "le_bytes 4 (ri_expiryHeight a) = le_bytes 4 (ri_expiryHeight b)"
    and scr: "le_bytes 2 (int (length (ri_receiveScriptPubKey a))) @ ri_receiveScriptPubKey a @
        le_bytes 2 (int (length (ri_refundScriptPubKey a))) @ ri_refundScriptPubKey a
      = le_bytes 2 (int (length (ri_receiveScriptPubKey b))) @ ri_receiveScriptPubKey b @
        le_bytes 2 (int (length (ri_refundScriptPubKey b))) @ ri_refundScriptPubKey b"
    using assms(3-5) sh by (simp_all add: intentOk_def intentPreimage_def del: length_concat)
  moreover have "length (ri_receiveScriptPubKey a) = length (ri_receiveScriptPubKey b)"
    using le16.enc_append_inj [OF _ _ scr] assms(3,4) by (simp add: intentOk_def)
  moreover have "routeDeltaIn (ri_hops a ! 0) = routeDeltaIn (ri_hops b ! 0)"
    by (rule le64.enc_inj [OF _ _ eqs(6)]) (use A(4,5) B(4,5) in auto)
  moreover have "ri_minOut a = ri_minOut b"
    by (rule le64.enc_inj [OF _ _ eqs(7)]) (use A(6,7) B(6,7) in auto)
  moreover have "ri_expiryHeight a = ri_expiryHeight b"
    by (rule le32.enc_inj [OF _ _ eqs(8)]) (use assms(3,4) in \<open>auto simp: intentOk_def\<close>)
  ultimately show ?thesis
    using n assms(3,4) hopShapes_inj [of "ri_hops a" "ri_hops b"]
    by (simp add: consentOf_def intentOk_def)
qed

interpretation routeIntents: hash_binding buildSwapRouteIntentMsg intentPreimage consentOf intentOk
  using buildIntent_Inr(1) intentPreimage_inj by unfold_locales blast+

end
