(* ===== verification/Examples.thy ===== *)
theory Examples
  imports Amm_Live Swap_Messages
begin

text \<open>
  Concrete envelopes and chains: a pool that is opened with 2000 units on each side, and the trades on it.
  The witnesses of the development are evaluated on them.
\<close>

definition assetX :: bytes where "assetX = replicate 32 1"
definition assetY :: bytes where "assetY = replicate 32 2"

definition exInit :: poolInit where
  "exInit = \<lparr>pi_feeBps = 30, pi_vkCid = [118], pi_ceremonyCid = [99], pi_arbiterPubkeys = [],
     pi_arbiterThresholdM = None, pi_launcherSigs = [], pi_protocolFeeAddress = None, pi_protocolFeeBps = 0,
     pi_poolMetaUri = None, pi_poolCapabilityFlags = None\<rparr>"

definition exLpAdd :: lpAdd where
  "exLpAdd = \<lparr>la_variant = 1, la_assetA = assetX, la_assetB = assetY, la_deltaA = 2000, la_deltaB = 2000,
     la_shareAmount = 1000, la_shareCSecp = zeros 33, la_shareCBJJ = zeros 32, la_shareXcurveSigma = zeros 169,
     la_kernelSigA = zeros 64, la_kernelSigB = zeros 64, la_shareR = zeros 32, la_init = exInit,
     la_expiryHeight = 900, la_refundABlinding = zeros 32, la_refundBBlinding = zeros 32\<rparr>"

lemmas ex_fields = exInit_def exLpAdd_def assetX_def assetY_def

lemma ex_encode: "\<exists>p. encodeLpAdd exLpAdd = Inr p"
  by (simp add: ex_fields encodeLpAdd_def encodeLpAddHead_def encodeLpAddInit_def encodeLpAddTail_def
      concatParts.simps asBytes_def u64LE_def u32LE_def u16LE_def throw_unless_def envelope_consts Let_def
      thresholdM_def protoAddr_def metaUri_def capFlags_def isZeroAddress_def)

lemma ex_ok: "lpAddOk exLpAdd"
  by (simp add: ex_fields lpAddOk_def metaUri_def plain_text_ascii)

definition exTopUp :: lpAdd where
  "exTopUp = exLpAdd\<lparr>la_variant := 0, la_shareCSecp := 2 # zeros 32\<rparr>"

lemma ex_top_up: "\<exists>p. encodeLpAdd exTopUp = Inr p" "lpAddOk exTopUp" "la_variant exTopUp = 0"
  by (simp_all add: exTopUp_def ex_fields encodeLpAdd_def encodeLpAddHead_def encodeLpAddTail_def
      concatParts.simps asBytes_def u64LE_def u32LE_def envelope_consts throw_unless_def lpAddOk_def)

lemma ex_isqrt: "isqrtBig 4000000 = Inr 2000"
proof -
  obtain r where r: "isqrtBig 4000000 = Inr r" using isqrtBig_total [of 4000000] by auto
  note s = isqrtBig_spec [OF r]
  have "r \<le> 2000" using s mult_mono [of 2001 r 2001 r] by (rule_tac ccontr) auto
  moreover have "2000 \<le> r" using s mult_mono [of "r + 1" 2000 "r + 1" 2000] by (rule_tac ccontr) auto
  ultimately show ?thesis using r by simp
qed

definition exSettings :: poolSettings where
  "exSettings = \<lparr>ps_feeBps = 30, ps_capabilityFlags = 0, ps_protocolFeeAddress = None, ps_protocolFeeBps = 0\<rparr>"

definition exChain :: "bytes \<Rightarrow> string \<Rightarrow> txInfo option" where
  "exChain script = (\<lambda>_. Some \<lparr>tx_confirmed = True, tx_blockHeight = Some 100, tx_blockHash = Some ''b'',
     tx_witness = Some [[], script, []]\<rparr>)"

definition exDerived :: derivedState where
  "exDerived = \<lparr>ds_reserveA = 2000, ds_reserveB = 2000, ds_totalShares = 2000\<rparr>"

lemma ex_op:
  assumes "decodeEnvelopeScript script = Some e" "env_opcode e = 0x2D" "decodeLpAdd (env_payload e) = Some (lpAddView exLpAdd)"
  shows "opOfTx (liveEnv (\<lambda>_. zeros 32) (\<lambda>_. True) exSettings g b 105 3) (zeros 32)
      \<lparr>tx_confirmed = True, tx_blockHeight = Some 100, tx_blockHash = Some ''b'', tx_witness = Some [[], script, []]\<rparr>
    = Inr (PoolInit 2000 2000 (Some 1000) 30)"
  using assms
  by (simp add: opOfTx_def liveEnv_def decodeForOpcodeLive_def OPCODE_T_LP_ADD_def poolIdForOpLive_def
      replayOpFromDecoded_def lpAddView_def lpAddInitView_def exLpAdd_def exInit_def protoAddr_def capFlags_def
      idList_def ammDerivePoolIdDapp_def lexCanonicalAssetPair_def assetX_def assetY_def pairSwapped_def
      numeral_eq_Suc pfBpsOf_def pfAddrOf_def Let_def)

lemma ex_replay: "replayAmmPoolState [PoolInit 2000 2000 (Some 1000) 30] (liveDeps 0 False) = Inr exDerived"
  by (simp add: replayAmmPoolState_def replayStep_def poolInitStep_def freshPool_def ex_isqrt liveDeps_def
      AMM_MIN_LIQUIDITY_DAPP_def declared_def exDerived_def)

lemma ex_settings_off: "ps_protocolFeeBps exSettings = 0" "protocolFeeEnabledLive exSettings = False"
  by (simp_all add: exSettings_def protocolFeeEnabledLive_def)

definition exClaim :: protocolFeeClaim where
  "exClaim = \<lparr>fc_poolId = zeros 32, fc_claimerPubkey = zeros 33, fc_feeBps = 30, fc_claimAmount = 5,
     fc_claimCSecp = zeros 33, fc_claimBlinding = zeros 32, fc_claimSig = zeros 64\<rparr>"

lemma ex_claim_encode: "\<exists>p. encodeProtocolFeeClaim exClaim = Inr p"
  by (simp add: exClaim_def encodeProtocolFeeClaim_def andThen_def concatParts.simps asBytes_def u64LE_def u32LE_def
      throw_unless_def Let_def)

lemma ex_claim_op:
  assumes "decodeEnvelopeScript script = Some e" "env_opcode e = 0x31" "decodeProtocolFeeClaim (env_payload e) = Some exClaim"
  shows "opOfTx (liveEnv (\<lambda>_. zeros 32) (\<lambda>_. True) exSettings g b 105 3) (zeros 32)
      \<lparr>tx_confirmed = True, tx_blockHeight = Some 100, tx_blockHash = Some ''b'', tx_witness = Some [[], script, []]\<rparr>
    = Inr (FeeClaim 5)"
  using assms
  by (simp add: opOfTx_def liveEnv_def decodeForOpcodeLive_def envelope_consts swap_consts poolIdForOpLive_def
      replayOpFromDecoded_def exClaim_def)

text \<open>A leaf script for each of the two envelopes.\<close>

lemma ex_scripts:
  "\<exists>s e. decodeEnvelopeScript s = Some e \<and> env_opcode e = 0x2D \<and> decodeLpAdd (env_payload e) = Some (lpAddView exLpAdd)"
  "\<exists>s e. decodeEnvelopeScript s = Some e \<and> env_opcode e = 0x31 \<and> decodeProtocolFeeClaim (env_payload e) = Some exClaim"
proof -
  have S: "\<exists>s e. decodeEnvelopeScript s = Some e \<and> env_opcode e = u8 p 0 \<and> env_payload e = p" if "p \<noteq> []" for p
    using encode_script_total [of "zeros 32" p] decode_encode_script [of "zeros 32" p] that by fastforce
  obtain p where p: "encodeLpAdd exLpAdd = Inr p" using ex_encode by blast
  have "decodeLpAdd p = Some (lpAddView exLpAdd)" using lpAddWire.decode_encode [OF p ex_ok] .
  moreover from this have "p \<noteq> []" "u8 p 0 = 0x2D"
    by (auto simp: decodeLpAdd_def OPCODE_T_LP_ADD_def split: if_splits)
  ultimately show "\<exists>s e. decodeEnvelopeScript s = Some e \<and> env_opcode e = 0x2D \<and>
      decodeLpAdd (env_payload e) = Some (lpAddView exLpAdd)" using S [of p] by metis
  obtain q where q: "encodeProtocolFeeClaim exClaim = Inr q" using ex_claim_encode by blast
  have "decodeProtocolFeeClaim q = Some exClaim"
    by (rule decodeProtocolFeeClaim_encode [OF q]) (simp add: exClaim_def)
  moreover from this have "q \<noteq> []" "u8 q 0 = 0x31"
    by (auto simp: decodeProtocolFeeClaim_def OPCODE_T_PROTOCOL_FEE_CLAIM_def split: if_splits)
  ultimately show "\<exists>s e. decodeEnvelopeScript s = Some e \<and> env_opcode e = 0x31 \<and>
      decodeProtocolFeeClaim (env_payload e) = Some exClaim" using S [of q] by metis
qed

lemma ex_live: "\<exists>script. deriveAmmPoolStateLive (\<lambda>_. zeros 32) (\<lambda>_. True) exSettings (exChain script)
      (\<lambda>_. Some [''t'']) 105 3 (zeros 32) [\<lparr>it_txid = ''t'', it_txIndex = Some 4\<rparr>] = Inr exDerived"
proof -
  obtain s e where "decodeEnvelopeScript s = Some e" "env_opcode e = 0x2D"
    "decodeLpAdd (env_payload e) = Some (lpAddView exLpAdd)" using ex_scripts(1) by blast
  note op1 = ex_op [OF this]
  have "deriveAmmPoolStateLive (\<lambda>_. zeros 32) (\<lambda>_. True) exSettings (exChain s)
      (\<lambda>_. Some [''t'']) 105 3 (zeros 32) [\<lparr>it_txid = ''t'', it_txIndex = Some 4\<rparr>] = Inr exDerived"
    unfolding deriveAmmPoolStateLive_def deriveAmmPoolState_def ex_settings_off
    using op1 ex_replay
    by (simp add: liveEnv_def exChain_def placeOps_def placeInBlock_def perHeight_def chainOrder_def)
  then show ?thesis by blast
qed

text \<open>The pool opening and a fee claim in one block, listed in either order.\<close>

definition exChain2 :: "bytes \<Rightarrow> bytes \<Rightarrow> string \<Rightarrow> txInfo option" where
  "exChain2 s1 s2 = (\<lambda>t. Some \<lparr>tx_confirmed = True, tx_blockHeight = Some 100, tx_blockHash = Some ''b'',
     tx_witness = Some [[], if t = ''t'' then s1 else s2, []]\<rparr>)"

lemma ex_replay2: "replayAmmPoolState [PoolInit 2000 2000 (Some 1000) 30, FeeClaim 5] (liveDeps 0 False) = Inr exDerived"
  by (simp add: replayAmmPoolState_def replayStep_def poolInitStep_def freshPool_def ex_isqrt liveDeps_def
      AMM_MIN_LIQUIDITY_DAPP_def declared_def exDerived_def crystallize_def protoFeeOn_def)

lemma ex_live2: "\<exists>s1 s2. deriveAmmPoolStateLive (\<lambda>_. zeros 32) (\<lambda>_. True) exSettings (exChain2 s1 s2)
      (\<lambda>_. Some [''t'', ''u'']) 105 3 (zeros 32)
      [\<lparr>it_txid = ''t'', it_txIndex = Some 4\<rparr>, \<lparr>it_txid = ''u'', it_txIndex = Some 5\<rparr>] = Inr exDerived"
proof -
  obtain s e where "decodeEnvelopeScript s = Some e" "env_opcode e = 0x2D"
    "decodeLpAdd (env_payload e) = Some (lpAddView exLpAdd)" using ex_scripts(1) by blast
  note op1 = ex_op [OF this]
  obtain s' e' where "decodeEnvelopeScript s' = Some e'" "env_opcode e' = 0x31"
    "decodeProtocolFeeClaim (env_payload e') = Some exClaim" using ex_scripts(2) by blast
  note op2 = ex_claim_op [OF this]
  have "deriveAmmPoolStateLive (\<lambda>_. zeros 32) (\<lambda>_. True) exSettings (exChain2 s s')
      (\<lambda>_. Some [''t'', ''u'']) 105 3 (zeros 32)
      [\<lparr>it_txid = ''t'', it_txIndex = Some 4\<rparr>, \<lparr>it_txid = ''u'', it_txIndex = Some 5\<rparr>] = Inr exDerived"
    unfolding deriveAmmPoolStateLive_def deriveAmmPoolState_def ex_settings_off
    using op1 op2 ex_replay2
    by (simp add: liveEnv_def exChain2_def placeOps_def placeInBlock_def perHeight_def chainOrder_def)
  then show ?thesis by blast
qed

definition exPool :: "int \<Rightarrow> int \<Rightarrow> int \<Rightarrow> int \<Rightarrow> poolState" where
  "exPool ra rb s k = \<lparr>reserveA = ra, reserveB = rb, totalShares = s, initialized = True, poolFeeBps = 30, kLast = k\<rparr>"

lemmas ex_step_simps = replayStep_def poolInitStep_def swapVarStep_def lpAddStep_def lpRemoveStep_def crystallize_def
  protoFeeOn_def freshPool_def liveDeps_def AMM_MIN_LIQUIDITY_DAPP_def declared_def exPool_def ex_isqrt toInt32_def
  swapVarCurveDeltaOut_def lpAddSharesProportional_def lpRemoveOutputsProportional_def tdiv_def Let_def

definition exPoint :: bytes where "exPoint = 2 # replicate 32 5"

definition exHop :: "byte \<Rightarrow> routeHop" where
  "exHop b = \<lparr>hop_poolId = replicate 32 b, hop_direction = 0, hop_feeBps = 30, hop_R_A_pre = 2000, hop_R_B_pre = 2000,
     hop_deltaANetMag = 100, hop_deltaBNetMag = 94\<rparr>"

definition exRoute :: swapRoute where
  "exRoute = \<lparr>sr_traderInputAssetId = assetX, sr_traderOutputAssetId = assetY, sr_minOut = 80, sr_expiryHeight = 900,
     sr_traderPubkey = exPoint, sr_hops = [exHop 1, exHop 2], sr_traderInputTxidBE = zeros 32, sr_traderInputVout = 1,
     sr_cInSecp = exPoint, sr_cReceiptSecp = exPoint, sr_rReceipt = zeros 32, sr_rangeProof = [9],
     sr_kernelSig = zeros 64, sr_intentSig = zeros 64\<rparr>"

lemma ex_hop: "\<exists>q. encodeSwapRouteHop (exHop b) = Inr q"
  by (simp add: encodeSwapRouteHop_def exHop_def throw_unless_def concatParts.simps u16LE_def u64LE_def)

lemma ex_route: "\<exists>p. decodeTSwapRoutePayload (\<lambda>_. True) p = Some exRoute"
proof -
  obtain q q' where q: "encodeSwapRouteHop (exHop 1) = Inr q" "encodeSwapRouteHop (exHop 2) = Inr q'"
    using ex_hop by meson
  have "\<exists>p. encodeTSwapRoutePayload exRoute = Inr p"
    using q by (simp add: exRoute_def exPoint_def assetX_def assetY_def encodeTSwapRoutePayload_def andThen_def
        throw_unless_def concatParts.simps u16LE_def u64LE_def u32LE_def swap_consts)
  moreover have "routeOk (\<lambda>_. True) exRoute"
    by (simp add: exRoute_def exPoint_def assetX_def assetY_def routeOk_def bytesToPoint_def u8_Cons)
  ultimately show ?thesis using swapRouteWire.decode_iff by blast
qed

lemma ex_intents: "\<exists>d. buildSwapRouteIntentMsg (take 20) (intentOf exRoute [1] [2]) = Inr d \<and>
    buildSwapRouteIntentMsg (take 20) (intentOf exRoute [1] [3]) = Inr d"
  by (simp add: buildSwapRouteIntentMsg_def intentOf_def exRoute_def exHop_def routeDeltaIn_def swap_consts
      concatParts.simps hashed_def u16LE_def u64LE_def u32LE_def ascii_def exPoint_def)

lemma ex_intent_ok: "intentOk (intentOf exRoute [1] [2])" "intentOk (intentOf exRoute [1] [3])"
  by (simp_all add: intentOk_def intentOf_def exRoute_def exHop_def exPoint_def assetX_def assetY_def)

end
