(* ===== verification/Btc_Tx.thy ===== *)
theory Btc_Tx
  imports Script_Envelope
begin

text \<open>
  Bitcoin transactions on the wire: the wallet's writer (\<open>W\<close>, \<open>serializeTx\<close> and \<open>txid\<close> in \<open>dapp/tacit.js\<close>) and the
  replay service's reader (\<open>varint\<close>, \<open>parseTx\<close>, \<open>txEnvelopes\<close> in \<open>worker-relay/src/lib/btc-pool-chain.js\<close>).

  The reader runs over the rest of the bytes instead of an index into them, and every throw is \<open>None\<close>. A length that is
  cut off at the end of the data throws here at once; the code reads the missing bytes as zero and throws at the next
  field. Transaction ids are in display order.
\<close>

subsection \<open>Writing\<close>

record txInput =
  ti_txid :: bytes
  ti_vout :: int
  ti_scriptSig :: bytes
  ti_sequence :: int
  ti_witness :: "bytes list"

record txOutput =
  to_value :: int
  to_script :: bytes

record walletTx =
  wt_version :: int
  wt_inputs :: "txInput list"
  wt_outputs :: "txOutput list"
  wt_locktime :: int

definition wVarint :: "nat \<Rightarrow> bytes" where
  "wVarint n =
     (if n < 0xfd then [byte_of n]
      else if n < 0x10000 then byte_of 0xfd # le_bytes 2 (int n)
      else if n < 0x100000000 then byte_of 0xfe # le_bytes 4 (int n)
      else byte_of 0xff # le_bytes 8 (int n))"

definition wBytes :: "bytes \<Rightarrow> bytes" where "wBytes b = wVarint (length b) @ b"

definition wInput :: "txInput \<Rightarrow> bytes" where
  "wInput i = rev (ti_txid i) @ le_bytes 4 (ti_vout i) @ wBytes (ti_scriptSig i) @ le_bytes 4 (ti_sequence i)"

definition wOutput :: "txOutput \<Rightarrow> bytes" where
  "wOutput out = le_bytes 8 (to_value out) @ wBytes (to_script out)"

definition wWitness :: "txInput \<Rightarrow> bytes" where
  "wWitness i = wVarint (length (ti_witness i)) @ concat (map wBytes (ti_witness i))"

definition serializeTx :: "walletTx \<Rightarrow> bool \<Rightarrow> bytes" where
  "serializeTx tx withWitness =
     (let hasWit = (withWitness \<and> list_ex (\<lambda>i. ti_witness i \<noteq> []) (wt_inputs tx)) in
      le_bytes 4 (wt_version tx) @ (if hasWit then [byte_of 0, byte_of 1] else [])
      @ wVarint (length (wt_inputs tx)) @ concat (map wInput (wt_inputs tx))
      @ wVarint (length (wt_outputs tx)) @ concat (map wOutput (wt_outputs tx))
      @ (if hasWit then concat (map wWitness (wt_inputs tx)) else [])
      @ le_bytes 4 (wt_locktime tx))"

definition hash256 :: "(bytes \<Rightarrow> bytes) \<Rightarrow> bytes \<Rightarrow> bytes" where
  "hash256 sha256 b = sha256 (sha256 b)"

definition walletTxid :: "(bytes \<Rightarrow> bytes) \<Rightarrow> walletTx \<Rightarrow> bytes" where
  "walletTxid sha256 tx = rev (hash256 sha256 (serializeTx tx False))"

subsection \<open>Reading\<close>

definition readVarint :: "bytes \<Rightarrow> (nat \<times> bytes) option" where
  "readVarint d =
     (case d of [] \<Rightarrow> None
      | f # r \<Rightarrow>
         if unat f < 0xfd then Some (unat f, r)
         else if unat f = 0xfd then map_option (apfst (\<lambda>b. nat (le_val b))) (takeData 2 r)
         else if unat f = 0xfe then map_option (apfst (\<lambda>b. nat (le_val b))) (takeData 4 r)
         else do {
           (b, r) \<leftarrow> takeData 8 r;
           require (le_val b \<le> 2 ^ 53 - 1);
           Some (nat (le_val b), r)
         })"

definition readBytes :: "bytes \<Rightarrow> (bytes \<times> bytes) option" where
  "readBytes d = do { (n, d) \<leftarrow> readVarint d; takeData n d }"

definition readInput :: "bytes \<Rightarrow> ((bytes \<times> nat) \<times> bytes) option" where
  "readInput d = do {
     (txid, d) \<leftarrow> takeData 32 d;
     (vout, d) \<leftarrow> takeData 4 d;
     (n, d) \<leftarrow> readVarint d;
     (scr, d) \<leftarrow> takeData (n + 4) d;
     Some ((rev txid, nat (le_val vout)), d)
   }"

definition readOutput :: "bytes \<Rightarrow> ((int \<times> bytes) \<times> bytes) option" where
  "readOutput d = do {
     (value, d) \<leftarrow> takeData 8 d;
     (scr, d) \<leftarrow> readBytes d;
     Some ((le_val value, scr), d)
   }"

text \<open>\<open>n\<close> items, one after the other.\<close>

primrec readMany :: "(bytes \<Rightarrow> ('a \<times> bytes) option) \<Rightarrow> nat \<Rightarrow> bytes \<Rightarrow> ('a list \<times> bytes) option" where
  "readMany rd 0 d = Some ([], d)"
| "readMany rd (Suc n) d = do {
     (x, d) \<leftarrow> rd d;
     (xs, d) \<leftarrow> readMany rd n d;
     Some (x # xs, d)
   }"

definition readWitness :: "bytes \<Rightarrow> (bytes list \<times> bytes) option" where
  "readWitness d = do { (n, d) \<leftarrow> readVarint d; readMany readBytes n d }"

record rawTx =
  rt_txid :: bytes
  rt_vin :: "(bytes \<times> nat) list"
  rt_witness :: "bytes list list"
  rt_vout :: "(int \<times> bytes) list"
  rt_wtxid :: "bytes option"

definition parseTx :: "(bytes \<Rightarrow> bytes) \<Rightarrow> bytes \<Rightarrow> (rawTx \<times> bytes) option" where
  "parseTx sha256 d = do {
     (ver, d1) \<leftarrow> takeData 4 d;
     let segwit = (length d1 \<ge> 2 \<and> u8 d1 0 = 0x00 \<and> u8 d1 1 = 0x01);
     let d2 = (if segwit then drop 2 d1 else d1);
     (n, d3) \<leftarrow> readVarint d2;
     (vin, d4) \<leftarrow> readMany readInput n d3;
     (m, d5) \<leftarrow> readVarint d4;
     (vout, d6) \<leftarrow> readMany readOutput m d5;
     (wits, d7) \<leftarrow> (if segwit then readMany readWitness (length vin) d6 else Some (map (\<lambda>_. []) vin, d6));
     require (\<not> (segwit \<and> list_all (\<lambda>w. w = []) wits));
     (lock, d8) \<leftarrow> takeData 4 d7;
     let whole = take (length d - length d8) d;
     let stripped = (if segwit then take 4 d @ slice d 6 (length d - length d6) @ lock else whole);
     Some (\<lparr>rt_txid = rev (hash256 sha256 stripped), rt_vin = vin, rt_witness = wits, rt_vout = vout,
       rt_wtxid = (if segwit then Some (hash256 sha256 whole) else None)\<rparr>, d8)
   }"

definition inputEnvelope :: "bytes list \<Rightarrow> (nat \<times> bytes) option" where
  "inputEnvelope w = (if length w < 3 then None else decodeEnvelopeScript_relay (w ! 1))"

definition txEnvelopes :: "rawTx \<Rightarrow> (nat \<times> bytes) option list" where
  "txEnvelopes tx = map inputEnvelope (rt_witness tx)"

subsection \<open>Round trip\<close>

lemma takeData_append [simp]: "n = length a \<Longrightarrow> takeData n (a @ r) = Some (a, r)"
  by (simp add: takeData_def)

lemma readVarint_wVarint [simp]:
  assumes "n < 2 ^ 53"
  shows "readVarint (wVarint n @ r) = Some (n, r)"
proof -
  have td: "takeData k (le_bytes k x @ r) = Some (le_bytes k x, r)" for k x by simp
  show ?thesis using assms by (auto simp: readVarint_def wVarint_def td le_val_le_bytes)
qed

lemma readBytes_wBytes [simp]: "length b < 2 ^ 53 \<Longrightarrow> readBytes (wBytes b @ r) = Some (b, r)"
  by (simp add: readBytes_def wBytes_def)

lemma readMany_map:
  "(\<And>x r. x \<in> set xs \<Longrightarrow> rd (wr x @ r) = Some (f x, r)) \<Longrightarrow> readMany rd (length xs) (concat (map wr xs) @ r) = Some (map f xs, r)"
  by (induction xs) auto

definition inputOk :: "txInput \<Rightarrow> bool" where
  "inputOk i = (length (ti_txid i) = 32 \<and> 0 \<le> ti_vout i \<and> ti_vout i < 2 ^ 32 \<and> length (ti_scriptSig i) < 2 ^ 53
     \<and> length (ti_witness i) < 2 ^ 53 \<and> (\<forall>w\<in>set (ti_witness i). length w < 2 ^ 53))"

definition txOutputOk :: "txOutput \<Rightarrow> bool" where
  "txOutputOk out = (0 \<le> to_value out \<and> to_value out < 2 ^ 64 \<and> length (to_script out) < 2 ^ 53)"

definition txOk :: "walletTx \<Rightarrow> bool" where
  "txOk tx = (wt_inputs tx \<noteq> [] \<and> list_all inputOk (wt_inputs tx) \<and> list_all txOutputOk (wt_outputs tx)
     \<and> length (wt_inputs tx) < 2 ^ 53 \<and> length (wt_outputs tx) < 2 ^ 53)"

lemma readInput_wInput: "inputOk i \<Longrightarrow> readInput (wInput i @ r) = Some ((ti_txid i, nat (ti_vout i)), r)"
proof -
  assume "inputOk i"
  moreover have "takeData (length (ti_scriptSig i) + 4) (ti_scriptSig i @ le_bytes 4 (ti_sequence i) @ r) =
      Some (ti_scriptSig i @ le_bytes 4 (ti_sequence i), r)"
    using takeData_append [of _ "ti_scriptSig i @ le_bytes 4 (ti_sequence i)" r] by simp
  ultimately show ?thesis by (simp add: readInput_def wInput_def wBytes_def inputOk_def le_val_le_bytes)
qed

lemma readOutput_wOutput: "txOutputOk out \<Longrightarrow> readOutput (wOutput out @ r) = Some ((to_value out, to_script out), r)"
  by (simp add: readOutput_def wOutput_def txOutputOk_def le_val_le_bytes)

lemma readWitness_wWitness: "inputOk i \<Longrightarrow> readWitness (wWitness i @ r) = Some (ti_witness i, r)"
  using readMany_map [of "ti_witness i" readBytes wBytes "\<lambda>w. w" r] by (simp add: readWitness_def wWitness_def inputOk_def)

lemma wVarint_first: "0 < n \<Longrightarrow> \<exists>b bs. wVarint n = b # bs \<and> unat b \<noteq> 0"
  by (auto simp: wVarint_def)

definition parsedTx :: "(bytes \<Rightarrow> bytes) \<Rightarrow> walletTx \<Rightarrow> rawTx" where
  "parsedTx sha256 tx = \<lparr>rt_txid = walletTxid sha256 tx, rt_vin = map (\<lambda>i. (ti_txid i, nat (ti_vout i))) (wt_inputs tx),
     rt_witness = map ti_witness (wt_inputs tx), rt_vout = map (\<lambda>out. (to_value out, to_script out)) (wt_outputs tx),
     rt_wtxid = (if list_ex (\<lambda>i. ti_witness i \<noteq> []) (wt_inputs tx) then Some (hash256 sha256 (serializeTx tx True)) else None)\<rparr>"

lemma parse_serialize:
  assumes "txOk tx"
  shows "parseTx sha256 (serializeTx tx True @ r) = Some (parsedTx sha256 tx, r)"
proof -
  define A where "A = le_bytes 4 (wt_version tx)"
  define N where "N = wVarint (length (wt_inputs tx))"
  define I where "I = concat (map wInput (wt_inputs tx))"
  define M where "M = wVarint (length (wt_outputs tx))"
  define O' where "O' = concat (map wOutput (wt_outputs tx))"
  define W where "W = concat (map wWitness (wt_inputs tx))"
  define L where "L = le_bytes 4 (wt_locktime tx)"
  have len: "length A = 4" "length L = 4" by (simp_all add: A_def L_def)
  have ins: "readMany readInput (length (wt_inputs tx)) (I @ q) = Some (map (\<lambda>i. (ti_txid i, nat (ti_vout i))) (wt_inputs tx), q)" for q
    unfolding I_def using assms by (intro readMany_map) (auto simp: txOk_def list_all_iff readInput_wInput)
  have outs: "readMany readOutput (length (wt_outputs tx)) (O' @ q) = Some (map (\<lambda>out. (to_value out, to_script out)) (wt_outputs tx), q)" for q
    unfolding O'_def using assms by (intro readMany_map) (auto simp: txOk_def list_all_iff readOutput_wOutput)
  have wits: "readMany readWitness (length (wt_inputs tx)) (W @ q) = Some (map ti_witness (wt_inputs tx), q)" for q
    unfolding W_def using assms by (intro readMany_map) (auto simp: txOk_def list_all_iff readWitness_wWitness)
  have num: "readVarint (N @ q) = Some (length (wt_inputs tx), q)" "readVarint (M @ q) = Some (length (wt_outputs tx), q)" for q
    using assms by (simp_all add: N_def M_def txOk_def)
  have plain: "serializeTx tx False = A @ N @ I @ M @ O' @ L"
    by (simp add: serializeTx_def A_def N_def I_def M_def O'_def L_def)
  show ?thesis
  proof (cases "list_ex (\<lambda>i. ti_witness i \<noteq> []) (wt_inputs tx)")
    case True
    then have full: "serializeTx tx True = A @ [byte_of 0, byte_of 1] @ N @ I @ M @ O' @ W @ L"
      by (simp add: serializeTx_def A_def N_def I_def M_def O'_def W_def L_def)
    have some: "\<not> list_all (\<lambda>w. w = []) (map ti_witness (wt_inputs tx))" using True by (auto simp: list_all_iff list_ex_iff)
    have "slice (A @ [byte_of 0, byte_of 1] @ (N @ I @ M @ O') @ (W @ L @ r)) 6 (6 + length (N @ I @ M @ O')) = N @ I @ M @ O'"
      using len by (simp add: slice_def)
    moreover have six: "6 + (length N + (length I + (length M + (length O' + length W)))) =
        length (byte_of 0 # byte_of (Suc 0) # N @ I @ M @ O' @ W @ L)" using len by simp
    have "take (6 + (length N + (length I + (length M + (length O' + length W)))))
        (byte_of 0 # byte_of (Suc 0) # N @ I @ M @ O' @ W @ L @ r) = byte_of 0 # byte_of (Suc 0) # N @ I @ M @ O' @ W @ L"
      unfolding six by simp
    ultimately show ?thesis
      using ins outs wits num some True len plain unfolding full parseTx_def
      by (simp add: u8_def parsedTx_def walletTxid_def full)
  next
    case False
    then have full: "serializeTx tx True = A @ N @ I @ M @ O' @ L"
      by (simp add: serializeTx_def A_def N_def I_def M_def O'_def L_def)
    obtain b bs where N: "N = b # bs" "unat b \<noteq> 0" using wVarint_first [of "length (wt_inputs tx)"] assms by (auto simp: N_def txOk_def)
    have none: "map (\<lambda>_. []) (wt_inputs tx) = map ti_witness (wt_inputs tx)" using False by (auto simp: list_ex_iff)
    have seg: "(u8 (N @ q) 0 = 0) = False" for q using N by (simp add: u8_def)
    show ?thesis
      using ins outs num False len none unfolding full parseTx_def
      by (simp add: parsedTx_def walletTxid_def plain comp_def Let_def seg)
  qed
qed

end
