(* ===== verification/Pool_Tree.thy ===== *)
theory Pool_Tree
  imports Tacit_Prelude
begin

text \<open>
  The note tree of the Bitcoin shielded pool (\<open>PoseidonTree\<close> in \<open>worker/src/btc-shielded-pool.js\<close>): an append-only
  Merkle tree of depth 32 that keeps every level as an array, with truncation to an earlier size, authentication
  paths, and paths in an earlier state of the tree. The two-to-one hash (Poseidon, vendored) is a parameter \<open>H2\<close> on
  field elements, which are integers here.

  \<open>node\<close> is the reference: the tree over the leaves padded with zero leaves, computed from scratch.
\<close>

definition TREE_DEPTH :: nat where "TREE_DEPTH = 32"

definition P_FR :: int where
  "P_FR = 21888242871839275222246405745257275088548364400416034343698204186575808495617"

type_synonym hash2 = "int \<Rightarrow> int \<Rightarrow> int"
type_synonym levels = "int list list"

primrec ZEROS_F :: "hash2 \<Rightarrow> nat \<Rightarrow> int" where
  "ZEROS_F H2 0 = 0"
| "ZEROS_F H2 (Suc i) = H2 (ZEROS_F H2 i) (ZEROS_F H2 i)"

definition bytesToBig :: "bytes \<Rightarrow> int" where "bytesToBig b = be_val b"
definition bigTo32 :: "int \<Rightarrow> bytes" where "bigTo32 n = be_bytes 32 n"

definition newTree :: levels where "newTree = replicate (TREE_DEPTH + 1) []"

definition treeSize :: "levels \<Rightarrow> nat" where "treeSize L = length (L ! 0)"

text \<open>Assignment to an array element at or just behind its end.\<close>

definition setAt :: "'a list \<Rightarrow> nat \<Rightarrow> 'a \<Rightarrow> 'a list" where
  "setAt xs k v = (if k < length xs then xs[k := v] else xs @ [v])"

text \<open>\<open>steps\<close> is the number of levels left, \<open>i\<close> the level, \<open>k\<close> the index on it.\<close>

primrec rehash :: "hash2 \<Rightarrow> nat \<Rightarrow> nat \<Rightarrow> nat \<Rightarrow> levels \<Rightarrow> levels" where
  "rehash H2 0 i k L = L"
| "rehash H2 (Suc steps) i k L =
     (let pk = (k mod 2 ^ 32) div 2; lv = L ! i; l = lv ! (2 * pk);
          r = (if 2 * pk + 1 < length lv then lv ! (2 * pk + 1) else ZEROS_F H2 i)
      in rehash H2 steps (Suc i) pk (L[Suc i := setAt (L ! Suc i) pk (H2 l r)]))"

definition appendLeaf :: "hash2 \<Rightarrow> levels \<Rightarrow> bytes \<Rightarrow> (levels \<times> nat) res" where
  "appendLeaf H2 L leaf =
     (let v = bytesToBig leaf in
      if v \<ge> P_FR then Inl (Err ''leaf is not a field element'')
      else let idx = treeSize L; L = L[0 := L ! 0 @ [v]] in Inr (rehash H2 TREE_DEPTH 0 idx L, idx))"

definition ceilDiv :: "nat \<Rightarrow> nat \<Rightarrow> nat" where "ceilDiv n d = (n + d - 1) div d"

definition truncateTree :: "hash2 \<Rightarrow> levels \<Rightarrow> nat \<Rightarrow> levels res" where
  "truncateTree H2 L n =
     (if n > treeSize L then Inl (Err ''truncate beyond size'')
      else let L = map (\<lambda>i. take (ceilDiv n (2 ^ i)) (L ! i)) [0..<TREE_DEPTH + 1]
           in Inr (if n > 0 then rehash H2 TREE_DEPTH 0 (n - 1) L else L))"

definition rootF :: "hash2 \<Rightarrow> levels \<Rightarrow> int" where
  "rootF H2 L = (if treeSize L \<noteq> 0 then L ! TREE_DEPTH ! 0 else ZEROS_F H2 TREE_DEPTH)"

definition treeRoot :: "hash2 \<Rightarrow> levels \<Rightarrow> bytes" where "treeRoot H2 L = bigTo32 (rootF H2 L)"

text \<open>\<open>x ^ 1\<close> in JavaScript: the operands are cut to 32 bits and the result is signed.\<close>

definition sibling :: "nat \<Rightarrow> int" where
  "sibling x = (let u = x mod 2 ^ 32; y = (if even u then u + 1 else u - 1)
     in if y \<ge> 2 ^ 31 then int y - 2 ^ 32 else int y)"

text \<open>A negative index reads \<open>undefined\<close>, which \<open>BigInt\<close> refuses: the call throws.\<close>

definition readLevel :: "int list \<Rightarrow> int \<Rightarrow> int res" where
  "readLevel lv j = (if j < 0 then Inl (Err ''undefined'') else Inr (lv ! nat j))"

definition pathStep :: "hash2 \<Rightarrow> levels \<Rightarrow> nat \<Rightarrow> nat \<Rightarrow> bytes res" where
  "pathStep H2 L index i =
     (let sib = sibling (index div 2 ^ i); lv = L ! i
      in map_sum id bigTo32 (if sib < int (length lv) then readLevel lv sib else Inr (ZEROS_F H2 i)))"

definition rootAndPath :: "hash2 \<Rightarrow> levels \<Rightarrow> nat \<Rightarrow> (bytes \<times> bytes list) res" where
  "rootAndPath H2 L index =
     (case mapRes (pathStep H2 L index) [0..<TREE_DEPTH] of Inl e \<Rightarrow> Inl e | Inr path \<Rightarrow> Inr (treeRoot H2 L, path))"

text \<open>A node of the tree of the first \<open>n\<close> leaves, from the levels of the whole tree.\<close>

primrec nodeAt :: "hash2 \<Rightarrow> levels \<Rightarrow> nat \<Rightarrow> nat \<Rightarrow> int \<Rightarrow> int res" where
  "nodeAt H2 L n 0 j =
     (if j \<ge> int n then Inr (ZEROS_F H2 0) else readLevel (L ! 0) j)"
| "nodeAt H2 L n (Suc i) j =
     (let lo = j * 2 ^ Suc i in
      if lo \<ge> int n then Inr (ZEROS_F H2 (Suc i))
      else if lo + 2 ^ Suc i \<le> int n then readLevel (L ! Suc i) j
      else case nodeAt H2 L n i (2 * j) of Inl e \<Rightarrow> Inl e
        | Inr a \<Rightarrow> (case nodeAt H2 L n i (2 * j + 1) of Inl e \<Rightarrow> Inl e | Inr b \<Rightarrow> Inr (H2 a b)))"

definition rootAndPathAt :: "hash2 \<Rightarrow> levels \<Rightarrow> nat \<Rightarrow> nat \<Rightarrow> (bytes \<times> bytes list) res" where
  "rootAndPathAt H2 L index n =
     (if \<not> (index < n \<and> n \<le> treeSize L) then Inl (Err ''leaf outside the prefix'')
      else case mapRes (\<lambda>i. map_sum id bigTo32 (nodeAt H2 L n i (sibling (index div 2 ^ i)))) [0..<TREE_DEPTH] of
        Inl e \<Rightarrow> Inl e
      | Inr path \<Rightarrow> (case nodeAt H2 L n TREE_DEPTH 0 of Inl e \<Rightarrow> Inl e | Inr r \<Rightarrow> Inr (bigTo32 r, path)))"

primrec foldPath :: "hash2 \<Rightarrow> nat \<Rightarrow> nat \<Rightarrow> bytes list \<Rightarrow> int \<Rightarrow> int" where
  "foldPath H2 index i [] h = h"
| "foldPath H2 index i (p # path) h =
     foldPath H2 index (Suc i) path
       (if (index div 2 ^ i) mod 2 \<noteq> 0 then H2 (bytesToBig p) h else H2 h (bytesToBig p))"

text \<open>The path is read for 32 levels; a shorter one makes the code throw and is \<open>None\<close> here.\<close>

definition rootFromPath :: "hash2 \<Rightarrow> bytes \<Rightarrow> nat \<Rightarrow> bytes list \<Rightarrow> bytes option" where
  "rootFromPath H2 leaf index path =
     (if length path < TREE_DEPTH then None
      else Some (bigTo32 (foldPath H2 index 0 (take TREE_DEPTH path) (bytesToBig leaf))))"

subsection \<open>The reference tree\<close>

primrec node :: "hash2 \<Rightarrow> int list \<Rightarrow> nat \<Rightarrow> nat \<Rightarrow> int" where
  "node H2 xs 0 j = (if j < length xs then xs ! j else 0)"
| "node H2 xs (Suc i) j = H2 (node H2 xs i (2 * j)) (node H2 xs i (2 * j + 1))"

lemma node_cong:
  "(\<And>m. j * 2 ^ i \<le> m \<Longrightarrow> m < (j + 1) * 2 ^ i \<Longrightarrow> node H2 xs 0 m = node H2 ys 0 m) \<Longrightarrow> node H2 xs i j = node H2 ys i j"
proof (induction i arbitrary: j)
  case 0
  then show ?case by (metis le_refl less_add_one mult.right_neutral power_0)
next
  case (Suc i)
  have "node H2 xs i (2 * j) = node H2 ys i (2 * j)" "node H2 xs i (2 * j + 1) = node H2 ys i (2 * j + 1)"
    using Suc.prems by (auto intro!: Suc.IH simp: algebra_simps)
  then show ?case by simp
qed

lemma node_zero: "length xs \<le> j * 2 ^ i \<Longrightarrow> node H2 xs i j = ZEROS_F H2 i"
proof (induction i arbitrary: j)
  case (Suc i)
  then have "length xs \<le> (2 * j) * 2 ^ i" "length xs \<le> (2 * j + 1) * 2 ^ i" by (auto simp: algebra_simps)
  then show ?case using Suc.IH by simp
qed simp

lemma node_take: "n \<le> length xs \<Longrightarrow> (j + 1) * 2 ^ i \<le> n \<Longrightarrow> node H2 (take n xs) i j = node H2 xs i j"
  by (rule node_cong) (auto simp: min_def)

lemma node_snoc: "(j + 1) * 2 ^ i \<le> length xs \<Longrightarrow> node H2 (xs @ ys) i j = node H2 xs i j"
  by (rule node_cong) (auto simp: nth_append)

subsection \<open>The levels hold the reference tree\<close>

definition levelOk :: "hash2 \<Rightarrow> int list \<Rightarrow> nat \<Rightarrow> int list \<Rightarrow> bool" where
  "levelOk H2 xs i lv = (length lv = ceilDiv (length xs) (2 ^ i) \<and> (\<forall>j < length lv. lv ! j = node H2 xs i j))"

definition treeInv :: "hash2 \<Rightarrow> levels \<Rightarrow> int list \<Rightarrow> bool" where
  "treeInv H2 L xs = (length L = TREE_DEPTH + 1 \<and> L ! 0 = xs \<and> length xs \<le> 2 ^ 32 \<and>
     (\<forall>i \<le> TREE_DEPTH. levelOk H2 xs i (L ! i)))"

text \<open>A level all of whose nodes are right, except perhaps the last one, which may also be missing.\<close>

definition levelAlmost :: "hash2 \<Rightarrow> int list \<Rightarrow> nat \<Rightarrow> int list \<Rightarrow> bool" where
  "levelAlmost H2 xs i lv = (let k = (length xs - 1) div 2 ^ i in
     k \<le> length lv \<and> length lv \<le> k + 1 \<and> (\<forall>j < k. lv ! j = node H2 xs i j))"

lemma ceilDiv_pos: "0 < n \<Longrightarrow> 0 < d \<Longrightarrow> ceilDiv n d = (n - 1) div d + 1"
proof -
  assume n: "0 < n" and d: "0 < d"
  then have eq: "n + d - 1 = (n - 1) + d" by simp
  show ?thesis unfolding ceilDiv_def eq using d by (rule div_add_self2 [OF less_imp_neq [symmetric]])
qed

lemma ceilDiv_0 [simp]: "0 < d \<Longrightarrow> ceilDiv 0 d = 0"
  by (simp add: ceilDiv_def)

lemma levelOk_pos:
  "xs \<noteq> [] \<Longrightarrow> levelOk H2 xs i lv = (length lv = (length xs - 1) div 2 ^ i + 1 \<and> (\<forall>j < length lv. lv ! j = node H2 xs i j))"
  by (simp add: levelOk_def ceilDiv_pos)

lemma half_div: "(x::nat) div 2 ^ Suc i = x div 2 ^ i div 2"
  by (metis div_mult2_eq mult.commute power_Suc)

lemma parent_node:
  assumes "xs \<noteq> []" "levelOk H2 xs i lv" "pk = (length xs - 1) div 2 ^ Suc i"
  shows "H2 (lv ! (2 * pk)) (if 2 * pk + 1 < length lv then lv ! (2 * pk + 1) else ZEROS_F H2 i) = node H2 xs (Suc i) pk"
proof -
  let ?k = "(length xs - 1) div 2 ^ i"
  have pk: "pk = ?k div 2" using assms(3) by (simp only: half_div)
  have len: "length lv = ?k + 1" and nodes: "\<And>j. j < length lv \<Longrightarrow> lv ! j = node H2 xs i j"
    using assms(1,2) by (auto simp: levelOk_pos)
  have l: "lv ! (2 * pk) = node H2 xs i (2 * pk)" using nodes len pk by simp
  have "node H2 xs i (2 * pk + 1) = ZEROS_F H2 i" if "\<not> 2 * pk + 1 < length lv"
  proof (rule node_zero)
    have "?k < 2 * pk + 1" using that len by simp
    then have "length xs - 1 < (2 * pk + 1) * 2 ^ i" by (simp add: less_mult_imp_div_less div_less_iff_less_mult)
    then show "length xs \<le> (2 * pk + 1) * 2 ^ i" using assms(1) by simp
  qed
  with l nodes show ?thesis by auto
qed

lemma setAt_ok:
  assumes "xs \<noteq> []" "levelAlmost H2 xs i lv" "v = node H2 xs i ((length xs - 1) div 2 ^ i)"
  shows "levelOk H2 xs i (setAt lv ((length xs - 1) div 2 ^ i) v)"
  using assms by (auto simp: levelOk_pos levelAlmost_def setAt_def Let_def nth_append nth_list_update less_Suc_eq)

lemma rehash_ok:
  assumes "xs \<noteq> []" "length xs \<le> 2 ^ 32"
  shows "i + s = TREE_DEPTH \<Longrightarrow> length L = TREE_DEPTH + 1 \<Longrightarrow> (\<forall>j \<le> i. levelOk H2 xs j (L ! j)) \<Longrightarrow>
    (\<forall>j. i < j \<and> j \<le> TREE_DEPTH \<longrightarrow> levelAlmost H2 xs j (L ! j)) \<Longrightarrow> L ! 0 = xs \<Longrightarrow>
    treeInv H2 (rehash H2 s i ((length xs - 1) div 2 ^ i) L) xs"
proof (induction s arbitrary: i L)
  case 0
  then show ?case using assms(2) by (simp add: treeInv_def)
next
  case (Suc s)
  let ?k = "(length xs - 1) div 2 ^ i"
  let ?pk = "(length xs - 1) div 2 ^ Suc i"
  have "?k \<le> length xs - 1" by (rule div_le_dividend)
  moreover have "length xs - 1 < 2 ^ 32" using assms by (cases xs) auto
  ultimately have "?k < 2 ^ 32" by (rule order.strict_trans1)
  then have pk: "(?k mod 2 ^ 32) div 2 = ?pk" by (simp only: half_div mod_less)
  define v where "v = H2 (L ! i ! (2 * ?pk)) (if 2 * ?pk + 1 < length (L ! i) then L ! i ! (2 * ?pk + 1) else ZEROS_F H2 i)"
  have v: "v = node H2 xs (Suc i) ?pk"
    unfolding v_def using Suc.prems(3) by (intro parent_node [OF assms(1)]) auto
  define L' where "L' = L[Suc i := setAt (L ! Suc i) ?pk v]"
  have "rehash H2 (Suc s) i ?k L = rehash H2 s (Suc i) ?pk L'"
    unfolding rehash.simps(2) Let_def pk v_def L'_def by (rule refl)
  moreover have "treeInv H2 (rehash H2 s (Suc i) ?pk L') xs"
  proof (rule Suc.IH)
    have ok: "levelOk H2 xs (Suc i) (L' ! Suc i)"
      using Suc.prems(1,2,4) v setAt_ok [OF assms(1), of H2 "Suc i" "L ! Suc i" v] by (simp add: L'_def)
    show "\<forall>j\<le>Suc i. levelOk H2 xs j (L' ! j)" using ok Suc.prems(3) by (auto simp: L'_def le_Suc_eq)
    show "\<forall>j. Suc i < j \<and> j \<le> TREE_DEPTH \<longrightarrow> levelAlmost H2 xs j (L' ! j)" using Suc.prems(4) by (simp add: L'_def)
  qed (use Suc.prems in \<open>auto simp: L'_def\<close>)
  ultimately show ?case by simp
qed

subsection \<open>Append and truncate refine the list of leaves\<close>

lemma ceilDiv_bounds: "0 < d \<Longrightarrow> n div d \<le> ceilDiv n d \<and> ceilDiv n d \<le> n div d + 1"
proof (cases "n = 0")
  case False
  assume d: "0 < d"
  have "(n - 1) div d \<le> n div d" by (rule div_le_mono) simp
  moreover have "n div d \<le> (n - 1) div d + 1"
  proof -
    have "n div d \<le> (n - 1 + d) div d" using d False by (intro div_le_mono) simp
    then show ?thesis using d by (simp only: div_add_self2 [OF less_imp_neq [OF d, symmetric]])
  qed
  ultimately show ?thesis using False d by (simp add: ceilDiv_pos)
qed simp

lemma ceilDiv_le: "0 < d \<Longrightarrow> ceilDiv n d \<le> s \<Longrightarrow> n \<le> s * d"
proof (cases "n = 0")
  case False
  assume "0 < d" "ceilDiv n d \<le> s"
  then have "(n - 1) div d < s" using False by (simp add: ceilDiv_pos)
  then have "n - 1 < s * d" using \<open>0 < d\<close> by (simp add: div_less_iff_less_mult)
  then show ?thesis by simp
qed simp

lemma ceilDiv_mono: "m \<le> n \<Longrightarrow> ceilDiv m d \<le> ceilDiv n d"
  unfolding ceilDiv_def by (rule div_le_mono) simp

lemma new_tree: "treeInv H2 newTree []"
  by (simp add: treeInv_def newTree_def levelOk_def del: replicate_Suc)

lemma treeInv_size: "treeInv H2 L xs \<Longrightarrow> treeSize L = length xs"
  by (simp add: treeInv_def treeSize_def)

lemma append_ok:
  assumes "treeInv H2 L xs" "length xs < 2 ^ 32" "bytesToBig leaf < P_FR"
  obtains L' where "appendLeaf H2 L leaf = Inr (L', length xs)" "treeInv H2 L' (xs @ [bytesToBig leaf])"
proof -
  let ?ys = "xs @ [bytesToBig leaf]"
  let ?L = "L[0 := ?ys]"
  have almost: "levelAlmost H2 ?ys j (L ! j)" if "j \<le> TREE_DEPTH" for j
  proof -
    have ok: "levelOk H2 xs j (L ! j)" using assms(1) that by (simp add: treeInv_def)
    have "L ! j ! m = node H2 ?ys j m" if m: "m < length xs div 2 ^ j" for m
    proof -
      have "(m + 1) * 2 ^ j \<le> length xs div 2 ^ j * 2 ^ j" using m by (intro mult_le_mono1) simp
      also have "\<dots> \<le> length xs" by (rule div_times_less_eq_dividend)
      finally have "node H2 ?ys j m = node H2 xs j m" by (rule node_snoc)
      moreover have "m < length (L ! j)" using ok m ceilDiv_bounds [of "2 ^ j" "length xs"] by (simp add: levelOk_def)
      ultimately show ?thesis using ok by (simp add: levelOk_def)
    qed
    then show ?thesis using ok ceilDiv_bounds [of "2 ^ j" "length xs"] by (simp add: levelAlmost_def levelOk_def Let_def)
  qed
  have "treeInv H2 (rehash H2 TREE_DEPTH 0 ((length ?ys - 1) div 2 ^ 0) ?L) ?ys"
  proof (rule rehash_ok)
    show "\<forall>j\<le>0. levelOk H2 ?ys j (?L ! j)"
      using assms(1) by (auto simp: treeInv_def levelOk_def ceilDiv_def)
  qed (use assms almost in \<open>auto simp: treeInv_def\<close>)
  then have "treeInv H2 (rehash H2 TREE_DEPTH 0 (length xs) ?L) ?ys" by simp
  moreover have "appendLeaf H2 L leaf = Inr (rehash H2 TREE_DEPTH 0 (length xs) ?L, length xs)"
    using assms(1,3) treeInv_size [OF assms(1)] by (simp add: appendLeaf_def Let_def treeInv_def)
  ultimately show ?thesis by (intro that)
qed

lemma truncate_ok:
  assumes "treeInv H2 L xs" "n \<le> length xs"
  obtains L' where "truncateTree H2 L n = Inr L'" "treeInv H2 L' (take n xs)"
proof -
  define C where "C = map (\<lambda>i. take (ceilDiv n (2 ^ i)) (L ! i)) [0..<TREE_DEPTH + 1]"
  have C: "C ! i = take (ceilDiv n (2 ^ i)) (L ! i)" if "i \<le> TREE_DEPTH" for i
    using that unfolding C_def by (subst nth_map) (auto simp del: upt_Suc)
  have len: "length (C ! i) = ceilDiv n (2 ^ i)" if "i \<le> TREE_DEPTH" for i
    using C [OF that] assms ceilDiv_mono [OF assms(2)] that by (simp add: treeInv_def levelOk_def)
  have lenC: "length C = TREE_DEPTH + 1" by (simp add: C_def)
  have C0: "C ! 0 = take n xs" using C [of 0] assms by (simp add: treeInv_def ceilDiv_def)
  have res: "truncateTree H2 L n = Inr (if n > 0 then rehash H2 TREE_DEPTH 0 (n - 1) C else C)"
    using assms by (simp add: truncateTree_def treeInv_size C_def Let_def)
  show ?thesis
  proof (cases "n = 0")
    case True
    have "treeInv H2 C (take n xs)"
      using True len lenC C0 by (simp add: treeInv_def levelOk_def)
    with res True show ?thesis by (intro that) auto
  next
    case False
    let ?ys = "take n xs"
    have ys: "length ?ys = n" using assms(2) by simp
    have almost: "levelAlmost H2 ?ys j (C ! j)" if j: "j \<le> TREE_DEPTH" for j
    proof -
      have "C ! j ! m = node H2 ?ys j m" if m: "m < (n - 1) div 2 ^ j" for m
      proof -
        have "(m + 1) * 2 ^ j \<le> (n - 1) div 2 ^ j * 2 ^ j" using m by (intro mult_le_mono1) simp
        also have "\<dots> \<le> n - 1" by (rule div_times_less_eq_dividend)
        finally have "node H2 ?ys j m = node H2 xs j m" using assms(2) by (intro node_take) auto
        moreover have "m < length (C ! j)" using m False len [OF j] by (simp add: ceilDiv_pos)
        ultimately show ?thesis using assms(1) C [OF j] j by (simp add: treeInv_def levelOk_def)
      qed
      then show ?thesis using len [OF j] False ys by (simp add: levelAlmost_def ceilDiv_pos Let_def)
    qed
    have "treeInv H2 (rehash H2 TREE_DEPTH 0 ((length ?ys - 1) div 2 ^ 0) C) ?ys"
    proof (rule rehash_ok)
      show "\<forall>j\<le>0. levelOk H2 ?ys j (C ! j)" using C0 by (simp add: levelOk_def ceilDiv_def)
      show "?ys \<noteq> []" using False ys by fastforce
      show "length ?ys \<le> 2 ^ 32" using assms by (simp add: treeInv_def)
    qed (use almost lenC C0 in auto)
    with res False ys show ?thesis by (intro that) auto
  qed
qed

text \<open>The levels are determined by the leaves, so truncation restores the exact earlier tree.\<close>

lemma treeInv_unique: "treeInv H2 L xs \<Longrightarrow> treeInv H2 L' xs \<Longrightarrow> L = L'"
  by (rule nth_equalityI) (auto simp: treeInv_def levelOk_def list_eq_iff_nth_eq less_Suc_eq_le)

lemma rootF_ok:
  assumes "treeInv H2 L xs"
  shows "rootF H2 L = node H2 xs TREE_DEPTH 0"
proof (cases "xs = []")
  case True
  then show ?thesis using assms node_zero [of "[]" 0 TREE_DEPTH H2] by (simp add: rootF_def treeInv_size)
next
  case False
  have "levelOk H2 xs TREE_DEPTH (L ! TREE_DEPTH)" using assms by (simp add: treeInv_def)
  then show ?thesis using False assms by (simp add: rootF_def treeInv_size levelOk_pos)
qed

subsection \<open>Authentication paths\<close>

definition buddy :: "nat \<Rightarrow> nat" where
  "buddy x = (if even x then x + 1 else x - 1)"

lemma sibling_buddy: "x < 2 ^ 31 \<Longrightarrow> sibling x = int (buddy x)"
proof -
  assume x: "x < 2 ^ 31"
  then have "x mod 2 ^ 32 = x" by simp
  moreover have "buddy x < 2 ^ 31" using x by (auto simp: buddy_def elim!: evenE)
  ultimately show ?thesis by (simp add: sibling_def buddy_def Let_def)
qed

lemma buddy_node: "node H2 xs (Suc i) (x div 2) =
    (if odd x then H2 (node H2 xs i (buddy x)) (node H2 xs i x) else H2 (node H2 xs i x) (node H2 xs i (buddy x)))"
  by (auto simp: buddy_def elim!: evenE oddE)

lemma path_node:
  assumes "treeInv H2 L xs" "i \<le> TREE_DEPTH" "index < 2 ^ 31"
  shows "pathStep H2 L index i = Inr (bigTo32 (node H2 xs i (buddy (index div 2 ^ i))))"
proof -
  have "index div 2 ^ i < 2 ^ 31" using assms(3) div_le_dividend [of index "2 ^ i"] by linarith
  note s = sibling_buddy [OF this]
  have ok: "levelOk H2 xs i (L ! i)" using assms(1,2) by (simp add: treeInv_def)
  show ?thesis
  proof (cases "buddy (index div 2 ^ i) < length (L ! i)")
    case True
    then show ?thesis using ok s by (simp add: pathStep_def readLevel_def levelOk_def Let_def)
  next
    case False
    then have "length xs \<le> buddy (index div 2 ^ i) * 2 ^ i"
      using ok by (intro ceilDiv_le) (auto simp: levelOk_def)
    then show ?thesis using s False by (simp add: pathStep_def node_zero Let_def)
  qed
qed

text \<open>What the hash and the leaves must be: field elements.\<close>

definition fieldHash :: "hash2 \<Rightarrow> bool" where
  "fieldHash H2 = (\<forall>a b. 0 \<le> H2 a b \<and> H2 a b < P_FR)"

definition fieldLeaves :: "int list \<Rightarrow> bool" where
  "fieldLeaves xs = (\<forall>x \<in> set xs. 0 \<le> x \<and> x < P_FR)"

lemma node_field: "fieldHash H2 \<Longrightarrow> fieldLeaves xs \<Longrightarrow> 0 \<le> node H2 xs i j \<and> node H2 xs i j < P_FR"
  by (cases i) (auto simp: fieldHash_def fieldLeaves_def P_FR_def)

lemma big_round_trip: "0 \<le> v \<Longrightarrow> v < P_FR \<Longrightarrow> bytesToBig (bigTo32 v) = v"
  by (simp add: bytesToBig_def bigTo32_def be_val_def be_bytes_def P_FR_def le_val_le_bytes)

text \<open>Every node can be written in 32 bytes.\<close>

definition wordNodes :: "hash2 \<Rightarrow> int list \<Rightarrow> bool" where
  "wordNodes H2 xs = (\<forall>i j. bytesToBig (bigTo32 (node H2 xs i j)) = node H2 xs i j)"

lemma field_wordNodes: "fieldHash H2 \<Longrightarrow> fieldLeaves xs \<Longrightarrow> wordNodes H2 xs"
  by (simp add: wordNodes_def big_round_trip node_field)

lemma foldPath_node:
  assumes "wordNodes H2 xs"
  shows "foldPath H2 index i (map (\<lambda>l. bigTo32 (node H2 xs l (buddy (index div 2 ^ l)))) [i..<i + s]) (node H2 xs i (index div 2 ^ i))
    = node H2 xs (i + s) (index div 2 ^ (i + s))"
proof (induction s arbitrary: i)
  case (Suc s)
  let ?x = "index div 2 ^ i"
  have up: "(if ?x mod 2 \<noteq> 0 then H2 (node H2 xs i (buddy ?x)) (node H2 xs i ?x) else H2 (node H2 xs i ?x) (node H2 xs i (buddy ?x)))
      = node H2 xs (Suc i) (index div 2 ^ Suc i)"
    unfolding half_div buddy_node by (simp add: odd_iff_mod_2_eq_one)
  have seq: "[i..<i + Suc s] = i # [Suc i..<Suc i + s]"
    unfolding add_Suc_right add_Suc by (rule upt_conv_Cons) simp
  have buddy: "bytesToBig (bigTo32 (node H2 xs i (buddy ?x))) = node H2 xs i (buddy ?x)"
    using assms by (simp add: wordNodes_def)
  show ?case
    unfolding seq list.map foldPath.simps(2) buddy up using Suc.IH [of "Suc i"] by (simp only: add_Suc_right add_Suc)
qed simp

text \<open>The path of reference nodes leads from a leaf to the root.\<close>

lemma reference_path:
  assumes "wordNodes H2 xs" "index < length xs" "index < 2 ^ 32" "bytesToBig leaf = xs ! index"
    "path = map (\<lambda>l. bigTo32 (node H2 xs l (buddy (index div 2 ^ l)))) [0..<TREE_DEPTH]"
  shows "rootFromPath H2 leaf index path = Some (bigTo32 (node H2 xs TREE_DEPTH 0))"
proof -
  have "index div 2 ^ TREE_DEPTH = 0" using assms(3) by (simp add: TREE_DEPTH_def)
  moreover have "bytesToBig leaf = node H2 xs 0 index" using assms(2,4) by simp
  ultimately show ?thesis
    using foldPath_node [OF assms(1), of index 0 TREE_DEPTH] unfolding assms(5) rootFromPath_def by (simp del: node.simps)
qed

lemma path_checks:
  assumes "treeInv H2 L xs" "index < length xs" "index < 2 ^ 31" "fieldHash H2" "fieldLeaves xs"
  obtains path where "rootAndPath H2 L index = Inr (treeRoot H2 L, path)" "length path = TREE_DEPTH"
    "rootFromPath H2 (bigTo32 (L ! 0 ! index)) index path = Some (treeRoot H2 L)"
proof -
  define path where "path = map (\<lambda>l. bigTo32 (node H2 xs l (buddy (index div 2 ^ l)))) [0..<TREE_DEPTH]"
  have "mapRes (pathStep H2 L index) [0..<TREE_DEPTH] = Inr path"
    unfolding path_def mapRes_Inr using path_node [OF assms(1) _ assms(3)] by (simp add: list_all2_conv_all_nth)
  then have "rootAndPath H2 L index = Inr (treeRoot H2 L, path)" by (simp add: rootAndPath_def)
  moreover have len: "length path = TREE_DEPTH" by (simp add: path_def)
  moreover have "rootFromPath H2 (bigTo32 (L ! 0 ! index)) index path = Some (treeRoot H2 L)"
  proof -
    have "L ! 0 = xs" using assms(1) by (simp add: treeInv_def)
    moreover have "bytesToBig (bigTo32 (xs ! index)) = xs ! index"
      using assms(2,5) by (intro big_round_trip) (auto simp: fieldLeaves_def)
    ultimately show ?thesis
      using reference_path [OF field_wordNodes [OF assms(4,5)] assms(2) _ _ path_def] assms(3) rootF_ok [OF assms(1)]
      by (simp add: treeRoot_def)
  qed
  ultimately show ?thesis by (rule that)
qed

text \<open>An index in the upper half of the tree makes the code read a negative position.\<close>

lemma path_upper_half:
  assumes "treeInv H2 L xs" "2 ^ 31 \<le> index" "index < length xs"
  shows "\<exists>e. rootAndPath H2 L index = Inl e"
proof -
  have i: "index < 2 ^ 32" using assms(1,3) by (simp add: treeInv_def)
  moreover have "2 ^ 31 \<le> buddy index"
    using assms(2) by (auto simp: buddy_def elim!: oddE)
  ultimately have "sibling index < 0" by (auto simp: sibling_def buddy_def Let_def split: if_splits)
  then have "pathStep H2 L index 0 = Inl (Err ''undefined'')" by (simp add: pathStep_def readLevel_def Let_def)
  then show ?thesis by (simp add: rootAndPath_def TREE_DEPTH_def upt_rec)
qed

subsection \<open>Paths in an earlier tree\<close>

lemma nodeAt_ok:
  assumes "treeInv H2 L xs" "n \<le> length xs"
  shows "i \<le> TREE_DEPTH \<Longrightarrow> nodeAt H2 L n i (int j) = Inr (node H2 (take n xs) i j)"
proof (induction i arbitrary: j)
  case 0
  then show ?case using assms by (auto simp: readLevel_def treeInv_def)
next
  case (Suc i)
  have "int j * 2 ^ Suc i = int (j * 2 ^ Suc i)" "int j * 2 ^ Suc i + 2 ^ Suc i = int ((j + 1) * 2 ^ Suc i)"
    by (simp_all add: algebra_simps)
  then have lo: "(int n \<le> int j * 2 ^ Suc i) = (n \<le> j * 2 ^ Suc i)"
    "(int j * 2 ^ Suc i + 2 ^ Suc i \<le> int n) = ((j + 1) * 2 ^ Suc i \<le> n)"
    by (simp_all only: of_nat_le_iff)
  consider "n \<le> j * 2 ^ Suc i" | "(j + 1) * 2 ^ Suc i \<le> n" | "\<not> n \<le> j * 2 ^ Suc i" "\<not> (j + 1) * 2 ^ Suc i \<le> n" by linarith
  then show ?case
  proof cases
    case 1
    then show ?thesis unfolding nodeAt.simps(2) lo Let_def using assms(2) by (simp add: node_zero del: node.simps power_Suc)
  next
    case 2
    have ok: "levelOk H2 xs (Suc i) (L ! Suc i)" using assms(1) Suc.prems by (simp add: treeInv_def)
    have "j < length (L ! Suc i)"
    proof (rule ccontr)
      assume "\<not> j < length (L ! Suc i)"
      then have "length xs \<le> j * 2 ^ Suc i" using ok by (intro ceilDiv_le) (auto simp: levelOk_def)
      moreover have "j * 2 ^ Suc i < (j + 1) * 2 ^ Suc i" by (intro mult_strict_right_mono) auto
      ultimately show False using 2 assms(2) by linarith
    qed
    moreover have "\<not> n \<le> j * 2 ^ Suc i"
    proof -
      have "j * 2 ^ Suc i < (j + 1) * 2 ^ Suc i" by (intro mult_strict_right_mono) auto
      then show ?thesis using 2 by linarith
    qed
    ultimately show ?thesis
      using ok 2 node_take [OF assms(2), of j "Suc i" H2] unfolding nodeAt.simps(2) lo Let_def
      by (simp add: readLevel_def levelOk_def del: node.simps power_Suc mult_Suc)
  next
    case 3
    have child: "int (2 * j) = 2 * int j" "int (2 * j + 1) = 2 * int j + 1" by simp_all
    have "nodeAt H2 L n (Suc i) (int j) =
        (case nodeAt H2 L n i (int (2 * j)) of Inl e \<Rightarrow> Inl e
         | Inr a \<Rightarrow> (case nodeAt H2 L n i (int (2 * j + 1)) of Inl e \<Rightarrow> Inl e | Inr b \<Rightarrow> Inr (H2 a b)))"
      using 3 unfolding nodeAt.simps(2) lo Let_def child by (simp del: power_Suc mult_Suc)
    moreover have "nodeAt H2 L n i (int m) = Inr (node H2 (take n xs) i m)" for m using Suc by simp
    ultimately show ?thesis by (simp only: sum.case node.simps)
  qed
qed

lemma prefix_path:
  assumes "treeInv H2 L xs" "n \<le> length xs" "index < n" "index < 2 ^ 31" "truncateTree H2 L n = Inr L'"
  shows "rootAndPathAt H2 L index n = rootAndPath H2 L' index"
proof -
  have L': "treeInv H2 L' (take n xs)" using truncate_ok [OF assms(1,2)] assms(5) by auto
  have s: "sibling (index div 2 ^ i) = int (buddy (index div 2 ^ i))" for i
    using assms(4) div_le_dividend [of index "2 ^ i"] by (intro sibling_buddy) linarith
  have "mapRes (\<lambda>i. map_sum id bigTo32 (nodeAt H2 L n i (sibling (index div 2 ^ i)))) [0..<TREE_DEPTH]
      = mapRes (pathStep H2 L' index) [0..<TREE_DEPTH]"
    by (rule mapRes_cong) (simp add: s nodeAt_ok [OF assms(1,2)] path_node [OF L' _ assms(4)])
  moreover have "nodeAt H2 L n TREE_DEPTH 0 = Inr (rootF H2 L')"
    using nodeAt_ok [OF assms(1,2), of TREE_DEPTH 0] rootF_ok [OF L'] by simp
  ultimately show ?thesis
    using assms(1-3) by (auto simp: rootAndPathAt_def rootAndPath_def treeInv_size treeRoot_def split: sum.splits)
qed

end
