(* ===== verification/Pool_Envelope.thy ===== *)
theory Pool_Envelope
  imports Amm_Envelope Btc_Tx Pool_Tree
begin

text \<open>
  The envelopes of the Bitcoin shielded pool: a shield moves transparent notes into the note tree, a spend consumes
  pool notes by their nullifiers and may exit to a transparent output or demand a payment, an aggregate proves several
  spends at once. The indexer's parsers (\<open>worker/src/btc-shielded-pool.js\<close>) and the wallet's encoder and parsers
  (\<open>dapp/btc-shielded-pool.js\<close>). The curve library is a parameter: \<open>fromHex\<close> is \<open>Point.fromHex\<close>, \<open>None\<close> where it
  throws. A spend's bound transaction id is kept in the byte order of the wire reversed, as both parsers return it.
\<close>

definition T_BTC_SHIELD :: nat where "T_BTC_SHIELD = 0x6c"
definition T_BTC_SPEND :: nat where "T_BTC_SPEND = 0x6d"
definition T_BTC_AGG :: nat where "T_BTC_AGG = 0x6e"
definition AGG_WRAP_PLONK :: nat where "AGG_WRAP_PLONK = 1"
definition AGG_WRAP_GROTH16 :: nat where "AGG_WRAP_GROTH16 = 2"
definition AGG_PROOF_MAX :: nat where "AGG_PROOF_MAX = 4096"
definition SHIELD_MAX_IN :: nat where "SHIELD_MAX_IN = 8"
definition SPEND_MAX_IN :: nat where "SPEND_MAX_IN = 2"
definition SPEND_MAX_OUT :: nat where "SPEND_MAX_OUT = 3"
definition PROOF_MAX :: nat where "PROOF_MAX = 4096"
definition CT_NOTE_LEN :: nat where "CT_NOTE_LEN = 24"
definition OUTPUT_LEN :: nat where "OUTPUT_LEN = 32 + 33 + CT_NOTE_LEN"
definition BIND_LEN :: nat where "BIND_LEN = 32 + 4"
definition WANT_LEN :: nat where "WANT_LEN = 4 + 8 + 32"
definition KERNEL_SIG_LEN :: nat where "KERNEL_SIG_LEN = 64"
definition BPP_M1_LEN :: nat where "BPP_M1_LEN = 591"
definition BOUNDARY_LEN :: nat where "BOUNDARY_LEN = 33 + 32 + XCURVE_PROOF_LEN + BPP_M1_LEN"
definition EXIT_LEN :: nat where "EXIT_LEN = 4 + 32 + BOUNDARY_LEN"
definition P_FIELD :: int where
  "P_FIELD = 0xfffffffffffffffffffffffffffffffffffffffffffffffffffffffefffffc2f"

lemmas pool_consts = T_BTC_SHIELD_def T_BTC_SPEND_def T_BTC_AGG_def AGG_WRAP_PLONK_def AGG_WRAP_GROTH16_def
  AGG_PROOF_MAX_def SHIELD_MAX_IN_def SPEND_MAX_IN_def SPEND_MAX_OUT_def PROOF_MAX_def CT_NOTE_LEN_def OUTPUT_LEN_def
  BIND_LEN_def WANT_LEN_def KERNEL_SIG_LEN_def BPP_M1_LEN_def BOUNDARY_LEN_def EXIT_LEN_def XCURVE_PROOF_LEN_def

record poolOutput =
  po_leaf :: bytes
  po_pkEph :: bytes
  po_ctNote :: bytes

record boundary =
  bd_cSecp :: bytes
  bd_cBjj :: bytes
  bd_sigma :: bytes
  bd_bpp :: bytes

record exitClaim =
  xc_exitVout :: nat
  xc_destSpkHash :: bytes
  xc_boundary :: boundary

record wantClaim =
  wc_vout :: nat
  wc_value :: int
  wc_spkHash :: bytes

record shieldEnv =
  sh_asset :: bytes
  sh_nIn :: nat
  sh_outputs :: "poolOutput list"
  sh_boundary :: boundary
  sh_body :: bytes
  sh_kernelSig :: bytes
  sh_proof :: bytes

record spendEnv =
  sp_asset :: bytes
  sp_hAnchor :: int
  sp_bind :: "(bytes \<times> nat) option"
  sp_nullifiers :: "bytes list"
  sp_outputs :: "poolOutput list"
  sp_exit :: "exitClaim option"
  sp_want :: "wantClaim option"
  sp_body :: bytes
  sp_proof :: bytes

record aggEnv =
  ag_wrap :: nat
  ag_n :: nat
  ag_proof :: bytes

datatype poolEnv = Shield shieldEnv | Spend spendEnv | Aggregate aggEnv

subsection \<open>The indexer's parsers\<close>

definition encodeBoundary :: "boundary \<Rightarrow> bytes" where
  "encodeBoundary b = bd_cSecp b @ bd_cBjj b @ bd_sigma b @ bd_bpp b"

definition decodeBoundary :: "bytes \<Rightarrow> boundary option" where
  "decodeBoundary b =
     (if length b \<noteq> BOUNDARY_LEN then None
      else Some \<lparr>bd_cSecp = slice b 0 33, bd_cBjj = slice b 33 65, bd_sigma = slice b 65 (65 + XCURVE_PROOF_LEN),
        bd_bpp = drop (65 + XCURVE_PROOF_LEN) b\<rparr>)"

definition pointFromCompressed :: "(bytes \<Rightarrow> 'p option) \<Rightarrow> bytes \<Rightarrow> 'p option" where
  "pointFromCompressed fromHex b =
     (if length b \<noteq> 33 \<or> (u8 b 0 \<noteq> 2 \<and> u8 b 0 \<noteq> 3) then None
      else if bytesToBig (drop 1 b) \<ge> P_FIELD then None
      else fromHex b)"

definition fieldOk :: "bytes \<Rightarrow> bool" where
  "fieldOk b = (bytesToBig b < P_FR)"

primrec readOutputs :: "(bytes \<Rightarrow> 'p option) \<Rightarrow> bytes \<Rightarrow> nat \<Rightarrow> nat \<Rightarrow> (poolOutput list \<times> nat) option" where
  "readOutputs fromHex e p 0 = Some ([], p)"
| "readOutputs fromHex e p (Suc n) = do {
     let leaf = slice e p (p + 32); let p = p + 32;
     let pkEph = slice e p (p + 33); let p = p + 33;
     let ctNote = slice e p (p + CT_NOTE_LEN); let p = p + CT_NOTE_LEN;
     require (\<not> (\<not> fieldOk leaf \<or> bytesToBig leaf = 0 \<or> pointFromCompressed fromHex pkEph = None));
     (os, p) \<leftarrow> readOutputs fromHex e p n;
     Some (\<lparr>po_leaf = leaf, po_pkEph = pkEph, po_ctNote = ctNote\<rparr> # os, p)
   }"

definition readBoundary :: "(bytes \<Rightarrow> 'p option) \<Rightarrow> bytes \<Rightarrow> nat \<Rightarrow> boundary option" where
  "readBoundary fromHex e p = do {
     bd \<leftarrow> decodeBoundary (slice e p (p + BOUNDARY_LEN));
     require (pointFromCompressed fromHex (bd_cSecp bd) \<noteq> None);
     Some bd
   }"

definition parseShield :: "(bytes \<Rightarrow> 'p option) \<Rightarrow> bytes \<Rightarrow> shieldEnv option" where
  "parseShield fromHex e = do {
     require (\<not> length e < 35 \<and> u8 e 0 = T_BTC_SHIELD); let p = 1;
     let asset = slice e p (p + 32); let p = p + 32;
     let nIn = u8 e p; let p = p + 1;
     require (\<not> (nIn < 1 \<or> nIn > SHIELD_MAX_IN));
     let nOut = u8 e p; let p = p + 1;
     require (\<not> (nOut < 1 \<or> nOut > SPEND_MAX_OUT));
     require (\<not> length e < p + nOut * OUTPUT_LEN + BOUNDARY_LEN + KERNEL_SIG_LEN + 2);
     (outputs, p) \<leftarrow> readOutputs fromHex e p nOut;
     bd \<leftarrow> readBoundary fromHex e p; let p = p + BOUNDARY_LEN;
     let body = slice e 0 p;
     let kernelSig = slice e p (p + KERNEL_SIG_LEN); let p = p + KERNEL_SIG_LEN;
     let proofLen = u16at e p; let p = p + 2;
     require (\<not> (proofLen > PROOF_MAX \<or> length e \<noteq> p + proofLen));
     Some \<lparr>sh_asset = asset, sh_nIn = nIn, sh_outputs = outputs, sh_boundary = bd, sh_body = body,
       sh_kernelSig = kernelSig, sh_proof = drop p e\<rparr>
   }"

definition u32at :: "bytes \<Rightarrow> nat \<Rightarrow> nat" where
  "u32at e p = nat (le_val (slice e p (p + 4)))"

definition u64at :: "bytes \<Rightarrow> nat \<Rightarrow> int" where
  "u64at e p = le_val (slice e p (p + 8))"

definition bindOf :: "bytes \<Rightarrow> (bytes \<times> nat) option" where
  "bindOf b = (if all_zero b then None else Some (rev (slice b 0 32), u32at b 32))"

primrec readNullifiers :: "bytes \<Rightarrow> nat \<Rightarrow> nat \<Rightarrow> (bytes list \<times> nat) option" where
  "readNullifiers e p 0 = Some ([], p)"
| "readNullifiers e p (Suc n) = do {
     let nf = slice e p (p + 32); let p = p + 32;
     require (\<not> (\<not> fieldOk nf \<or> bytesToBig nf = 0));
     (nfs, p) \<leftarrow> readNullifiers e p n;
     Some (nf # nfs, p)
   }"

definition readExit :: "(bytes \<Rightarrow> 'p option) \<Rightarrow> bytes \<Rightarrow> nat \<Rightarrow> nat \<Rightarrow> (exitClaim option \<times> nat) option" where
  "readExit fromHex e p hasExit =
     (if hasExit = 0 then Some (None, p)
      else do {
        require (\<not> length e < p + EXIT_LEN);
        let exitVout = u32at e p; let p = p + 4;
        let destSpkHash = slice e p (p + 32); let p = p + 32;
        bd \<leftarrow> readBoundary fromHex e p; let p = p + BOUNDARY_LEN;
        Some (Some \<lparr>xc_exitVout = exitVout, xc_destSpkHash = destSpkHash, xc_boundary = bd\<rparr>, p)
      })"

definition readWant :: "bytes \<Rightarrow> nat \<Rightarrow> nat \<Rightarrow> (wantClaim option \<times> nat) option" where
  "readWant e p hasWant =
     (if hasWant = 0 then Some (None, p)
      else do {
        require (\<not> length e < p + WANT_LEN);
        Some (Some \<lparr>wc_vout = u32at e p, wc_value = u64at e (p + 4), wc_spkHash = slice e (p + 12) (p + WANT_LEN)\<rparr>,
          p + WANT_LEN)
      })"

definition parseSpend :: "(bytes \<Rightarrow> 'p option) \<Rightarrow> bytes \<Rightarrow> spendEnv option" where
  "parseSpend fromHex e = do {
     require (\<not> length e < 1 + 32 + 4 + BIND_LEN + 1 \<and> u8 e 0 = T_BTC_SPEND); let p = 1;
     let asset = slice e p (p + 32); let p = p + 32;
     let hAnchor = int (u32at e p); let p = p + 4;
     let bind = bindOf (slice e p (p + BIND_LEN)); let p = p + BIND_LEN;
     let nIn = u8 e p; let p = p + 1;
     require (\<not> (nIn < 1 \<or> nIn > SPEND_MAX_IN));
     require (\<not> length e < p + 32 * nIn + 1);
     (nullifiers, p) \<leftarrow> readNullifiers e p nIn;
     let nOut = u8 e p; let p = p + 1;
     require (\<not> nOut > SPEND_MAX_OUT);
     require (\<not> length e < p + nOut * OUTPUT_LEN + 1);
     (outputs, p) \<leftarrow> readOutputs fromHex e p nOut;
     let hasExit = u8 e p; let p = p + 1;
     require (\<not> hasExit > 1);
     (ex, p) \<leftarrow> readExit fromHex e p hasExit;
     require (\<not> length e < p + 1);
     let hasWant = u8 e p; let p = p + 1;
     require (\<not> hasWant > 1);
     (want, p) \<leftarrow> readWant e p hasWant;
     require (\<not> nOut + hasExit < 1);
     let body = slice e 0 p;
     require (\<not> length e < p + 2);
     let proofLen = u16at e p; let p = p + 2;
     require (\<not> proofLen > PROOF_MAX);
     require (length e = p + proofLen);
     Some \<lparr>sp_asset = asset, sp_hAnchor = hAnchor, sp_bind = bind, sp_nullifiers = nullifiers, sp_outputs = outputs,
       sp_exit = ex, sp_want = want, sp_body = body, sp_proof = drop p e\<rparr>
   }"

definition parseAggregate :: "bytes \<Rightarrow> aggEnv option" where
  "parseAggregate e = do {
     require (\<not> length e < 5 \<and> u8 e 0 = T_BTC_AGG);
     let wrap = u8 e 1; let n = u8 e 2;
     require (\<not> (wrap \<noteq> AGG_WRAP_PLONK \<and> wrap \<noteq> AGG_WRAP_GROTH16));
     require (\<not> n < 1);
     let proofLen = u16at e 3;
     require (\<not> (proofLen < 1 \<or> proofLen > AGG_PROOF_MAX \<or> length e \<noteq> 5 + proofLen));
     Some \<lparr>ag_wrap = wrap, ag_n = n, ag_proof = drop 5 e\<rparr>
   }"

definition encodeAggregate :: "aggEnv \<Rightarrow> bytes res" where
  "encodeAggregate a =
     (let pf = ag_proof a in
      if length pf < 1 \<or> length pf > AGG_PROOF_MAX then Inl (Err ''aggregate proof length'')
      else Inr ([byte_of T_BTC_AGG, byte_of (ag_wrap a), byte_of (ag_n a), byte_of (length pf), byte_of (length pf div 256)] @ pf))"

definition parseEnvelope :: "(bytes \<Rightarrow> 'p option) \<Rightarrow> bytes \<Rightarrow> poolEnv option" where
  "parseEnvelope fromHex e =
     (if e = [] then None
      else if u8 e 0 = T_BTC_SHIELD then map_option Shield (parseShield fromHex e)
      else if u8 e 0 = T_BTC_SPEND then map_option Spend (parseSpend fromHex e)
      else if u8 e 0 = T_BTC_AGG then map_option Aggregate (parseAggregate e)
      else None)"

subsection \<open>The wallet's parsers\<close>

text \<open>\<open>take(n)\<close> is \<open>takeData\<close> on the rest of the bytes; every throw is \<open>None\<close>.\<close>

definition pointFromCompressed_wallet :: "(bytes \<Rightarrow> 'p option) \<Rightarrow> bytes \<Rightarrow> 'p option" where
  "pointFromCompressed_wallet fromHex b =
     (if length b \<noteq> 33 then None else if u8 b 0 \<noteq> 2 \<and> u8 b 0 \<noteq> 3 then None else fromHex b)"

definition fieldOk_wallet :: "bytes \<Rightarrow> bool" where
  "fieldOk_wallet b = (let x = bytesToBig b in x < P_FR \<and> x \<noteq> 0)"

definition readOutput_wallet :: "(bytes \<Rightarrow> 'p option) \<Rightarrow> bytes \<Rightarrow> poolOutput option" where
  "readOutput_wallet fromHex b = do {
     let f = \<lparr>po_leaf = slice b 0 32, po_pkEph = slice b 32 65, po_ctNote = slice b 65 (65 + CT_NOTE_LEN)\<rparr>;
     require (fieldOk_wallet (po_leaf f));
     _ \<leftarrow> pointFromCompressed_wallet fromHex (po_pkEph f);
     Some f
   }"

definition takeOutput :: "(bytes \<Rightarrow> 'p option) \<Rightarrow> bytes \<Rightarrow> (poolOutput \<times> bytes) option" where
  "takeOutput fromHex d = do {
     (b, d) \<leftarrow> takeData OUTPUT_LEN d;
     f \<leftarrow> readOutput_wallet fromHex b;
     Some (f, d)
   }"

definition takeBoundary :: "(bytes \<Rightarrow> 'p option) \<Rightarrow> bytes \<Rightarrow> (boundary \<times> bytes) option" where
  "takeBoundary fromHex d = do {
     (b, d) \<leftarrow> takeData BOUNDARY_LEN d;
     bd \<leftarrow> decodeBoundary b;
     _ \<leftarrow> pointFromCompressed_wallet fromHex (bd_cSecp bd);
     Some (bd, d)
   }"

definition takeByte :: "bytes \<Rightarrow> (nat \<times> bytes) option" where
  "takeByte d = do { (b, d) \<leftarrow> takeData 1 d; Some (u8 b 0, d) }"

definition takeNullifier :: "bytes \<Rightarrow> (bytes \<times> bytes) option" where
  "takeNullifier d = do { (nf, d) \<leftarrow> takeData 32 d; require (fieldOk_wallet nf); Some (nf, d) }"

definition takeExit :: "(bytes \<Rightarrow> 'p option) \<Rightarrow> nat \<Rightarrow> bytes \<Rightarrow> (exitClaim option \<times> bytes) option" where
  "takeExit fromHex hasExit d =
     (if hasExit = 0 then Some (None, d)
      else do {
        (v, d) \<leftarrow> takeData 4 d;
        (spk, d) \<leftarrow> takeData 32 d;
        (bd, d) \<leftarrow> takeBoundary fromHex d;
        Some (Some \<lparr>xc_exitVout = nat (le_val v), xc_destSpkHash = spk, xc_boundary = bd\<rparr>, d)
      })"

definition takeWant :: "nat \<Rightarrow> bytes \<Rightarrow> (wantClaim option \<times> bytes) option" where
  "takeWant hasWant d =
     (if hasWant = 0 then Some (None, d)
      else do {
        (v, d) \<leftarrow> takeData 4 d;
        (value, d) \<leftarrow> takeData 8 d;
        (spk, d) \<leftarrow> takeData 32 d;
        Some (Some \<lparr>wc_vout = nat (le_val v), wc_value = le_val value, wc_spkHash = spk\<rparr>, d)
      })"

text \<open>The proof behind a body, in a full payload only.\<close>

definition takeProof :: "bool \<Rightarrow> bytes \<Rightarrow> (bytes \<times> bytes) option" where
  "takeProof full d =
     (if \<not> full then Some ([], d)
      else do {
        (n, d) \<leftarrow> takeData 2 d;
        require (\<not> nat (le_val n) > PROOF_MAX);
        takeData (nat (le_val n)) d
      })"

definition parseSpend_wallet :: "(bytes \<Rightarrow> 'p option) \<Rightarrow> bool \<Rightarrow> bytes \<Rightarrow> spendEnv option" where
  "parseSpend_wallet fromHex full b = do {
     (tag, d) \<leftarrow> takeByte b;
     require (tag = T_BTC_SPEND);
     (asset, d) \<leftarrow> takeData 32 d;
     (anchor, d) \<leftarrow> takeData 4 d;
     (bindRaw, d) \<leftarrow> takeData BIND_LEN d;
     (nIn, d) \<leftarrow> takeByte d;
     require (\<not> (nIn < 1 \<or> nIn > SPEND_MAX_IN));
     (nullifiers, d) \<leftarrow> readMany takeNullifier nIn d;
     require (distinct nullifiers);
     (nOut, d) \<leftarrow> takeByte d;
     require (\<not> nOut > SPEND_MAX_OUT);
     (outputs, d) \<leftarrow> readMany (takeOutput fromHex) nOut d;
     (hasExit, d) \<leftarrow> takeByte d;
     require (\<not> hasExit > 1);
     (ex, d) \<leftarrow> takeExit fromHex hasExit d;
     (hasWant, d) \<leftarrow> takeByte d;
     require (\<not> hasWant > 1);
     (want, d) \<leftarrow> takeWant hasWant d;
     require (\<not> nOut + hasExit < 1);
     let body = take (length b - length d) b;
     (pf, d) \<leftarrow> takeProof full d;
     require (d = []);
     Some \<lparr>sp_asset = asset, sp_hAnchor = le_val anchor, sp_bind = bindOf bindRaw, sp_nullifiers = nullifiers,
       sp_outputs = outputs, sp_exit = ex, sp_want = want, sp_body = body, sp_proof = pf\<rparr>
   }"

definition parseShield_wallet :: "(bytes \<Rightarrow> 'p option) \<Rightarrow> bytes \<Rightarrow> shieldEnv option" where
  "parseShield_wallet fromHex b = do {
     (tag, d) \<leftarrow> takeByte b;
     require (tag = T_BTC_SHIELD);
     (asset, d) \<leftarrow> takeData 32 d;
     (nIn, d) \<leftarrow> takeByte d;
     require (\<not> (nIn < 1 \<or> nIn > SHIELD_MAX_IN));
     (nOut, d) \<leftarrow> takeByte d;
     require (\<not> (nOut < 1 \<or> nOut > SPEND_MAX_OUT));
     (outputs, d) \<leftarrow> readMany (takeOutput fromHex) nOut d;
     (bd, d) \<leftarrow> takeBoundary fromHex d;
     let body = take (length b - length d) b;
     (kernelSig, d) \<leftarrow> takeData KERNEL_SIG_LEN d;
     (pf, d) \<leftarrow> takeProof True d;
     require (d = []);
     Some \<lparr>sh_asset = asset, sh_nIn = nIn, sh_outputs = outputs, sh_boundary = bd, sh_body = body,
       sh_kernelSig = kernelSig, sh_proof = pf\<rparr>
   }"

subsection \<open>The two parsers of a payload\<close>

text \<open>The wallet's cursor is a position of the indexer's.\<close>

definition cursor :: "bytes \<Rightarrow> ('a \<times> nat) option \<Rightarrow> ('a \<times> bytes) option" where
  "cursor e r = map_option (\<lambda>(x, p). (x, drop p e)) r"

lemma cursor_simps [simp]: "cursor e None = None" "cursor e (Some (x, p)) = Some (x, drop p e)"
  by (simp_all add: cursor_def)

lemma takeData_drop: "p \<le> length e \<Longrightarrow> takeData n (drop p e) = (if p + n \<le> length e then Some (slice e p (p + n), drop (p + n) e) else None)"
  by (auto simp: takeData_def slice_def add.commute)

lemma takeByte_drop: "p \<le> length e \<Longrightarrow> takeByte (drop p e) = (if p + 1 \<le> length e then Some (u8 e p, drop (p + 1) e) else None)"
  by (auto simp: takeByte_def takeData_drop u8_def slice_def)

lemma point_wallet:
  assumes "\<And>b. bytesToBig (drop 1 b) \<ge> P_FIELD \<Longrightarrow> fromHex b = None"
  shows "pointFromCompressed_wallet fromHex b = pointFromCompressed fromHex b"
  using assms [of b] by (simp add: pointFromCompressed_wallet_def pointFromCompressed_def)

lemma readNullifiers_pos: "readNullifiers e p n = Some (nfs, q) \<Longrightarrow> q = p + 32 * n"
  by (induction n arbitrary: p nfs) (fastforce simp: Let_def split: Option.bind_splits if_splits)+

lemma takeNullifiers_drop:
  "p \<le> length e \<Longrightarrow> readMany takeNullifier n (drop p e) = (if p + 32 * n \<le> length e then cursor e (readNullifiers e p n) else None)"
proof (induction n arbitrary: p)
  case (Suc n)
  show ?case
  proof (cases "p + 32 \<le> length e")
    case True
    then show ?thesis
      using Suc.IH [of "p + 32"] Suc.prems
      by (auto simp: takeNullifier_def takeData_drop fieldOk_wallet_def fieldOk_def Let_def cursor_def split: Option.bind_splits if_splits)
  next
    case False
    then show ?thesis using Suc.prems by (simp add: takeNullifier_def takeData_drop)
  qed
qed simp

lemma readOutputs_pos: "readOutputs fromHex e p n = Some (os, q) \<Longrightarrow> q = p + n * OUTPUT_LEN"
  by (induction n arbitrary: p os) (fastforce simp: Let_def pool_consts split: Option.bind_splits if_splits)+

definition outputAt :: "bytes \<Rightarrow> nat \<Rightarrow> poolOutput" where
  "outputAt e p = \<lparr>po_leaf = slice e p (p + 32), po_pkEph = slice e (p + 32) (p + 65), po_ctNote = slice e (p + 65) (p + 89)\<rparr>"

definition outputOk2 :: "(bytes \<Rightarrow> 'p option) \<Rightarrow> poolOutput \<Rightarrow> bool" where
  "outputOk2 fromHex out = (fieldOk (po_leaf out) \<and> bytesToBig (po_leaf out) \<noteq> 0 \<and> pointFromCompressed fromHex (po_pkEph out) \<noteq> None)"

lemma readOutputs_Suc: "readOutputs fromHex e p (Suc n) = do {
    require (outputOk2 fromHex (outputAt e p)); (os, q) \<leftarrow> readOutputs fromHex e (p + 89) n; Some (outputAt e p # os, q) }"
  by (auto simp: outputOk2_def outputAt_def Let_def pool_consts add.commute)

lemma slice_slice: "p + b \<le> q \<Longrightarrow> a \<le> b \<Longrightarrow> slice (slice e p q) a b = slice e (p + a) (p + b)"
  by (simp add: slice_def take_drop min_def add.commute)

lemma takeOutput_drop:
  assumes "\<And>b. bytesToBig (drop 1 b) \<ge> P_FIELD \<Longrightarrow> fromHex b = None" "p \<le> length e"
  shows "takeOutput fromHex (drop p e) =
    (if p + 89 \<le> length e then do { require (outputOk2 fromHex (outputAt e p)); Some (outputAt e p, drop (p + 89) e) } else None)"
proof -
  have "readOutput_wallet fromHex (slice e p (p + 89)) = do { require (outputOk2 fromHex (outputAt e p)); Some (outputAt e p) }"
    using point_wallet [OF assms(1)]
    by (auto simp: readOutput_wallet_def outputOk2_def outputAt_def fieldOk_wallet_def fieldOk_def Let_def pool_consts slice_slice
        split: Option.bind_splits if_splits)
  then show ?thesis using assms(2) by (auto simp: takeOutput_def takeData_drop pool_consts)
qed

lemma takeOutputs_drop:
  assumes "\<And>b. bytesToBig (drop 1 b) \<ge> P_FIELD \<Longrightarrow> fromHex b = None"
  shows "p \<le> length e \<Longrightarrow> readMany (takeOutput fromHex) n (drop p e) =
    (if p + n * OUTPUT_LEN \<le> length e then cursor e (readOutputs fromHex e p n) else None)"
proof (induction n arbitrary: p)
  case (Suc n)
  have step: "takeOutput fromHex (drop p e) =
      (if p + 89 \<le> length e then do { require (outputOk2 fromHex (outputAt e p)); Some (outputAt e p, drop (p + 89) e) } else None)"
    by (rule takeOutput_drop) (use assms Suc.prems in auto)
  show ?case
  proof (cases "p + 89 \<le> length e")
    case True
    have "readMany (takeOutput fromHex) n (drop (p + 89) e) =
        (if p + 89 + n * OUTPUT_LEN \<le> length e then cursor e (readOutputs fromHex e (p + 89) n) else None)"
      using True by (intro Suc.IH) simp
    then show ?thesis
      unfolding readMany.simps step readOutputs_Suc using True
      by (cases "readOutputs fromHex e (p + 89) n") (auto simp: pool_consts split: if_splits)
  next
    case False
    then show ?thesis unfolding readMany.simps step by (simp add: pool_consts)
  qed
qed simp

lemma takeBoundary_drop:
  assumes "\<And>b. bytesToBig (drop 1 b) \<ge> P_FIELD \<Longrightarrow> fromHex b = None" "p \<le> length e"
  shows "takeBoundary fromHex (drop p e) =
    (if p + BOUNDARY_LEN \<le> length e then map_option (\<lambda>bd. (bd, drop (p + BOUNDARY_LEN) e)) (readBoundary fromHex e p) else None)"
  using assms(2) point_wallet [OF assms(1)]
  by (auto simp: takeBoundary_def readBoundary_def takeData_drop split: Option.bind_splits if_splits)

lemma takeExit_drop:
  assumes "\<And>b. bytesToBig (drop 1 b) \<ge> P_FIELD \<Longrightarrow> fromHex b = None" "p \<le> length e"
  shows "takeExit fromHex hasExit (drop p e) = cursor e (readExit fromHex e p hasExit)"
proof (cases "hasExit = 0")
  case False
  have bd: "takeBoundary fromHex (drop (p + 36) e) =
      (if p + 36 + BOUNDARY_LEN \<le> length e then map_option (\<lambda>bd. (bd, drop (p + 36 + BOUNDARY_LEN) e)) (readBoundary fromHex e (p + 36)) else None)"
    if "p + 36 \<le> length e" by (rule takeBoundary_drop) (use assms that in auto)
  show ?thesis
  proof (cases "p + 36 \<le> length e")
    case True
    then show ?thesis
      using assms(2) False bd
      by (auto simp: takeExit_def readExit_def takeData_drop EXIT_LEN_def u32at_def Let_def add.assoc map_option_case split: Option.bind_splits option.splits)
  next
    case False
    then show ?thesis
      using assms(2) \<open>hasExit \<noteq> 0\<close> by (auto simp: takeExit_def readExit_def takeData_drop EXIT_LEN_def Let_def)
  qed
qed (simp add: takeExit_def readExit_def)

lemma takeWant_drop: "p \<le> length e \<Longrightarrow> takeWant hasWant (drop p e) = cursor e (readWant e p hasWant)"
  by (auto simp: takeWant_def readWant_def takeData_drop WANT_LEN_def u32at_def u64at_def add.assoc)

lemma readExit_pos: "readExit fromHex e p hasExit = Some (x, q) \<Longrightarrow> p \<le> length e \<Longrightarrow> p \<le> q \<and> q \<le> length e"
  by (auto simp: readExit_def Let_def EXIT_LEN_def split: if_splits Option.bind_splits)

lemma readWant_pos: "readWant e p hasWant = Some (w, q) \<Longrightarrow> p \<le> length e \<Longrightarrow> p \<le> q \<and> q \<le> length e"
  by (auto simp: readWant_def Let_def split: if_splits)

lemma le_val_u16: "p + 2 \<le> length e \<Longrightarrow> nat (le_val (slice e p (p + 2))) = u16at e p"
proof -
  assume "p + 2 \<le> length e"
  then have "le_val (slice e p (p + 2)) = le_val (le_bytes 2 (int (u16at e p)))" by (simp add: le_bytes_u16at)
  also have "\<dots> = int (u16at e p)" using u16at_less [of e p] by (simp add: le_val_le_bytes)
  finally show ?thesis by simp
qed

lemma takeProof_drop:
  assumes "p \<le> length e"
  shows "(do { (pf, d) \<leftarrow> takeProof True (drop p e); require (d = []); Some (f pf) }) =
    (if p + 2 \<le> length e \<and> \<not> u16at e p > PROOF_MAX \<and> length e = p + 2 + u16at e p then Some (f (drop (p + 2) e)) else None)"
proof (cases "p + 2 \<le> length e")
  case True
  then show ?thesis
    using le_val_u16 [OF True] by (auto simp: takeProof_def takeData_drop slice_def)
next
  case False
  then show ?thesis using assms by (simp add: takeProof_def takeData_drop)
qed

text \<open>The wallet's first steps, as positions.\<close>

lemma takeByte_0: "takeByte e = (if 1 \<le> length e then Some (u8 e 0, drop 1 e) else None)"
  using takeByte_drop [of 0 e] by simp

text \<open>What follows the nullifiers: the outputs, the exit, the want and the proof, from a position on.\<close>

definition spendTail :: "(bytes \<Rightarrow> 'p option) \<Rightarrow> bytes \<Rightarrow> bytes list \<Rightarrow> nat \<Rightarrow> spendEnv option" where
  "spendTail fromHex e nullifiers p = do {
     require (p + 1 \<le> length e);
     let nOut = u8 e p; let p = p + 1;
     require (\<not> nOut > SPEND_MAX_OUT);
     require (p + nOut * OUTPUT_LEN + 1 \<le> length e);
     (outputs, p) \<leftarrow> readOutputs fromHex e p nOut;
     let hasExit = u8 e p; let p = p + 1;
     require (\<not> hasExit > 1);
     (ex, p) \<leftarrow> readExit fromHex e p hasExit;
     require (p + 1 \<le> length e);
     let hasWant = u8 e p; let p = p + 1;
     require (\<not> hasWant > 1);
     (want, p) \<leftarrow> readWant e p hasWant;
     require (\<not> nOut + hasExit < 1);
     require (p + 2 \<le> length e \<and> \<not> u16at e p > PROOF_MAX \<and> length e = p + 2 + u16at e p);
     Some \<lparr>sp_asset = slice e 1 33, sp_hAnchor = int (u32at e 33), sp_bind = bindOf (slice e 37 73), sp_nullifiers = nullifiers,
       sp_outputs = outputs, sp_exit = ex, sp_want = want, sp_body = take p e, sp_proof = drop (p + 2) e\<rparr>
   }"

definition spendHead :: "bytes \<Rightarrow> (bytes list \<times> nat) option" where
  "spendHead e = do {
     require (74 \<le> length e \<and> u8 e 0 = T_BTC_SPEND);
     let nIn = u8 e 73;
     require (\<not> (nIn < 1 \<or> nIn > SPEND_MAX_IN));
     require (74 + 32 * nIn \<le> length e);
     readNullifiers e 74 nIn
   }"

lemma spend_indexer: "parseSpend fromHex e = do { (nullifiers, p) \<leftarrow> spendHead e; spendTail fromHex e nullifiers p }"
  unfolding parseSpend_def spendHead_def spendTail_def
  by (auto simp: Let_def pool_consts slice_def split: Option.bind_splits if_splits dest!: readNullifiers_pos)

lemma takeByte_Nil [simp]: "takeByte [] = None"
  by (simp add: takeByte_0)

definition walletRest :: "(bytes \<Rightarrow> 'p option) \<Rightarrow> bytes \<Rightarrow> bytes list \<Rightarrow> nat \<Rightarrow> nat \<Rightarrow> poolOutput list \<Rightarrow> exitClaim option \<Rightarrow> bytes \<Rightarrow> spendEnv option" where
  "walletRest fromHex e nullifiers nOut hasExit outputs ex d = do {
     (hasWant, d) \<leftarrow> takeByte d;
     require (\<not> hasWant > 1);
     (want, d) \<leftarrow> takeWant hasWant d;
     require (\<not> nOut + hasExit < 1);
     let body = take (length e - length d) e;
     (pf, d) \<leftarrow> takeProof True d;
     require (d = []);
     Some \<lparr>sp_asset = slice e 1 33, sp_hAnchor = le_val (slice e 33 37), sp_bind = bindOf (slice e 37 73), sp_nullifiers = nullifiers,
       sp_outputs = outputs, sp_exit = ex, sp_want = want, sp_body = body, sp_proof = pf\<rparr>
   }"

definition indexerRest :: "bytes \<Rightarrow> bytes list \<Rightarrow> nat \<Rightarrow> nat \<Rightarrow> poolOutput list \<Rightarrow> exitClaim option \<Rightarrow> nat \<Rightarrow> spendEnv option" where
  "indexerRest e nullifiers nOut hasExit outputs ex p = do {
     require (p + 1 \<le> length e);
     let hasWant = u8 e p; let p = p + 1;
     require (\<not> hasWant > 1);
     (want, p) \<leftarrow> readWant e p hasWant;
     require (\<not> nOut + hasExit < 1);
     require (p + 2 \<le> length e \<and> \<not> u16at e p > PROOF_MAX \<and> length e = p + 2 + u16at e p);
     Some \<lparr>sp_asset = slice e 1 33, sp_hAnchor = int (u32at e 33), sp_bind = bindOf (slice e 37 73), sp_nullifiers = nullifiers,
       sp_outputs = outputs, sp_exit = ex, sp_want = want, sp_body = take p e, sp_proof = drop (p + 2) e\<rparr>
   }"

lemma rest_eq:
  assumes "p \<le> length e"
  shows "walletRest fromHex e nfs nOut hasExit outputs ex (drop p e) = indexerRest e nfs nOut hasExit outputs ex p"
proof (cases "p + 1 \<le> length e \<and> \<not> u8 e p > 1")
  case False
  then show ?thesis using assms by (auto simp: walletRest_def indexerRest_def takeByte_drop Let_def)
next
  case True
  have le: "le_val (slice e 33 37) = int (u32at e 33)" by (simp add: u32at_def)
  show ?thesis
  proof (cases "readWant e (p + 1) (u8 e p)")
    case None
    then show ?thesis using True assms by (simp add: walletRest_def indexerRest_def takeByte_drop takeWant_drop Let_def)
  next
    case (Some wq)
    obtain w q where wq: "wq = (w, q)" by fastforce
    have q: "q \<le> length e" using readWant_pos [of e "p + 1" "u8 e p" w q] Some wq True by auto
    note pf = takeProof_drop [OF q, where f = "\<lambda>pf. \<lparr>sp_asset = slice e 1 33, sp_hAnchor = int (u32at e 33),
       sp_bind = bindOf (slice e 37 73), sp_nullifiers = nfs, sp_outputs = outputs, sp_exit = ex, sp_want = w, sp_body = take q e, sp_proof = pf\<rparr>"]
    have body: "length e - length (drop q e) = q" using q by simp
    have "walletRest fromHex e nfs nOut hasExit outputs ex (drop p e) = (if nOut + hasExit < 1 then None
        else do { (pf, d) \<leftarrow> takeProof True (drop q e); require (d = []);
          Some \<lparr>sp_asset = slice e 1 33, sp_hAnchor = int (u32at e 33), sp_bind = bindOf (slice e 37 73), sp_nullifiers = nfs,
            sp_outputs = outputs, sp_exit = ex, sp_want = w, sp_body = take q e, sp_proof = pf\<rparr> })"
      using True assms Some wq by (simp add: walletRest_def takeByte_drop takeWant_drop Let_def le del: length_drop, unfold body, simp)
    then show ?thesis
      unfolding pf using True Some wq by (simp add: indexerRest_def Let_def)
  qed
qed

definition walletTail :: "(bytes \<Rightarrow> 'p option) \<Rightarrow> bytes \<Rightarrow> bytes list \<Rightarrow> bytes \<Rightarrow> spendEnv option" where
  "walletTail fromHex e nullifiers d = do {
     (nOut, d) \<leftarrow> takeByte d;
     require (\<not> nOut > SPEND_MAX_OUT);
     (outputs, d) \<leftarrow> readMany (takeOutput fromHex) nOut d;
     (hasExit, d) \<leftarrow> takeByte d;
     require (\<not> hasExit > 1);
     (ex, d) \<leftarrow> takeExit fromHex hasExit d;
     walletRest fromHex e nullifiers nOut hasExit outputs ex d
   }"

lemma tail_eq:
  assumes hex: "\<And>b. bytesToBig (drop 1 b) \<ge> P_FIELD \<Longrightarrow> fromHex b = None" and p: "p \<le> length e"
  shows "walletTail fromHex e nfs (drop p e) = spendTail fromHex e nfs p"
proof (cases "p + 1 \<le> length e \<and> \<not> u8 e p > SPEND_MAX_OUT")
  case False
  then show ?thesis using p by (auto simp: walletTail_def spendTail_def takeByte_drop Let_def)
next
  case True
  define n where "n = u8 e p"
  have outs: "readMany (takeOutput fromHex) n (drop (p + 1) e) =
      (if p + 1 + n * OUTPUT_LEN \<le> length e then cursor e (readOutputs fromHex e (p + 1) n) else None)"
    by (rule takeOutputs_drop) (use hex True in auto)
  show ?thesis
  proof (cases "p + 1 + n * OUTPUT_LEN + 1 \<le> length e \<and> readOutputs fromHex e (p + 1) n \<noteq> None")
    case False
    have "walletTail fromHex e nfs (drop p e) = None"
      using True False p outs readOutputs_pos [of fromHex e "p + 1" n]
      by (cases "readOutputs fromHex e (p + 1) n") (auto simp: walletTail_def takeByte_drop n_def [symmetric] split: if_splits)
    moreover have "spendTail fromHex e nfs p = None"
      using False by (cases "readOutputs fromHex e (p + 1) n") (auto simp: spendTail_def n_def [symmetric] Let_def)
    ultimately show ?thesis by simp
  next
    case oks: True
    then obtain os where os: "readOutputs fromHex e (p + 1) n = Some (os, p + 1 + n * OUTPUT_LEN)"
      using readOutputs_pos [of fromHex e "p + 1" n] by fastforce
    define q where "q = p + 1 + n * OUTPUT_LEN"
    have ex: "takeExit fromHex (u8 e q) (drop (q + 1) e) = cursor e (readExit fromHex e (q + 1) (u8 e q))"
      by (rule takeExit_drop) (use hex oks q_def in auto)
    have wt: "walletTail fromHex e nfs (drop p e) = (if u8 e q > 1 then None
        else do { (ex, d) \<leftarrow> cursor e (readExit fromHex e (q + 1) (u8 e q)); walletRest fromHex e nfs n (u8 e q) os ex d })"
      using True p outs oks os ex by (simp add: walletTail_def takeByte_drop n_def [symmetric] q_def)
    have st: "spendTail fromHex e nfs p = (if u8 e q > 1 then None
        else do { (ex, p) \<leftarrow> readExit fromHex e (q + 1) (u8 e q); indexerRest e nfs n (u8 e q) os ex p })"
      using True oks os by (simp add: spendTail_def indexerRest_def n_def [symmetric] q_def Let_def)
    show ?thesis
    proof (cases "readExit fromHex e (q + 1) (u8 e q)")
      case None
      then show ?thesis by (simp add: wt st)
    next
      case (Some xr)
      obtain x r where xr: "xr = (x, r)" by fastforce
      have "r \<le> length e" using readExit_pos [of fromHex e "q + 1" "u8 e q" x r] Some xr oks q_def by auto
      then show ?thesis using Some xr rest_eq [of r e fromHex nfs n "u8 e q" os x] by (simp add: wt st)
    qed
  qed
qed

lemma spend_wallet:
  assumes hex: "\<And>b. bytesToBig (drop 1 b) \<ge> P_FIELD \<Longrightarrow> fromHex b = None"
  shows "parseSpend_wallet fromHex True e = do { (nullifiers, p) \<leftarrow> spendHead e; require (distinct nullifiers); spendTail fromHex e nullifiers p }"
proof (cases "74 \<le> length e")
  case False
  then show ?thesis
    by (auto simp: parseSpend_wallet_def spendHead_def takeByte_0 [of e] takeByte_drop takeData_drop pool_consts split: if_splits)
next
  case True
  have wl: "parseSpend_wallet fromHex True e = (if u8 e 0 = T_BTC_SPEND \<and> \<not> (u8 e 73 < 1 \<or> u8 e 73 > SPEND_MAX_IN)
      then do { (nfs, d) \<leftarrow> readMany takeNullifier (u8 e 73) (drop 74 e); require (distinct nfs); walletTail fromHex e nfs d } else None)"
    using True by (simp add: parseSpend_wallet_def walletTail_def walletRest_def takeByte_0 [of e] takeByte_drop takeData_drop BIND_LEN_def)
  show ?thesis
  proof (cases "spendHead e")
    case None
    then show ?thesis using True by (auto simp: wl spendHead_def takeNullifiers_drop split: if_splits)
  next
    case (Some np)
    obtain nfs q where np: "np = (nfs, q)" by fastforce
    have ok: "u8 e 0 = T_BTC_SPEND" "\<not> (u8 e 73 < 1 \<or> u8 e 73 > SPEND_MAX_IN)" "74 + 32 * u8 e 73 \<le> length e"
        "readNullifiers e 74 (u8 e 73) = Some (nfs, q)"
      using Some np by (auto simp: spendHead_def Let_def split: if_splits)
    have q: "q \<le> length e" using readNullifiers_pos [OF ok(4)] ok(3) by simp
    have tail: "walletTail fromHex e nfs (drop q e) = spendTail fromHex e nfs q" by (rule tail_eq) (use hex q in auto)
    show ?thesis using True ok Some np tail by (simp add: wl takeNullifiers_drop)
  qed
qed

lemma spend_wallet_distinct:
  assumes "\<And>b. bytesToBig (drop 1 b) \<ge> P_FIELD \<Longrightarrow> fromHex b = None"
  shows "parseSpend_wallet fromHex True e = (case parseSpend fromHex e of None \<Rightarrow> None
    | Some x \<Rightarrow> if distinct (sp_nullifiers x) then Some x else None)"
proof -
  have "sp_nullifiers x = nfs" if "spendTail fromHex e nfs p = Some x" for nfs p x
    using that by (auto simp: spendTail_def Let_def split: Option.bind_splits)
  moreover have "parseSpend_wallet fromHex True e =
      do { (nullifiers, p) \<leftarrow> spendHead e; require (distinct nullifiers); spendTail fromHex e nullifiers p }"
    by (rule spend_wallet) (rule assms)
  ultimately show ?thesis unfolding spend_indexer by (auto split: Option.bind_splits option.splits)
qed

lemma readBoundary_None: "\<not> p + BOUNDARY_LEN \<le> length e \<Longrightarrow> readBoundary fromHex e p = None"
  by (auto simp: readBoundary_def decodeBoundary_def slice_def pool_consts)

lemma shield_wallet:
  assumes hex: "\<And>b. bytesToBig (drop 1 b) \<ge> P_FIELD \<Longrightarrow> fromHex b = None"
  shows "parseShield_wallet fromHex e = parseShield fromHex e"
proof (cases "35 \<le> length e \<and> u8 e 0 = T_BTC_SHIELD \<and> \<not> (u8 e 33 < 1 \<or> u8 e 33 > SHIELD_MAX_IN) \<and> \<not> (u8 e 34 < 1 \<or> u8 e 34 > SPEND_MAX_OUT)")
  case False
  then show ?thesis
    by (auto simp: parseShield_wallet_def parseShield_def takeByte_0 [of e] takeByte_drop takeData_drop Let_def)
next
  case True
  define n where "n = u8 e 34"
  define q where "q = 35 + n * OUTPUT_LEN"
  have outs: "readMany (takeOutput fromHex) n (drop 35 e) = (if q \<le> length e then cursor e (readOutputs fromHex e 35 n) else None)"
    unfolding q_def by (rule takeOutputs_drop) (use hex True in auto)
  define F where "F = (\<lambda>os bd pf. \<lparr>sh_asset = slice e 1 33, sh_nIn = u8 e 33, sh_outputs = os, sh_boundary = bd,
    sh_body = take (q + BOUNDARY_LEN) e, sh_kernelSig = slice e (q + BOUNDARY_LEN) (q + BOUNDARY_LEN + KERNEL_SIG_LEN), sh_proof = pf\<rparr>)"
  have ix: "parseShield fromHex e = (if q + BOUNDARY_LEN + KERNEL_SIG_LEN + 2 \<le> length e then do {
      (os, p) \<leftarrow> readOutputs fromHex e 35 n; bd \<leftarrow> readBoundary fromHex e p;
      require (\<not> (u16at e (p + BOUNDARY_LEN + KERNEL_SIG_LEN) > PROOF_MAX \<or> length e \<noteq> p + BOUNDARY_LEN + KERNEL_SIG_LEN + 2 + u16at e (p + BOUNDARY_LEN + KERNEL_SIG_LEN)));
      Some (F os bd (drop (p + BOUNDARY_LEN + KERNEL_SIG_LEN + 2) e)) } else None)"
    using True readOutputs_pos [of fromHex e 35 n]
    by (cases "readOutputs fromHex e 35 n"; cases "readBoundary fromHex e (35 + n * OUTPUT_LEN)")
      (auto simp: parseShield_def Let_def n_def [symmetric] q_def F_def slice_def not_less)
  have wl: "parseShield_wallet fromHex e = do {
      (os, d) \<leftarrow> readMany (takeOutput fromHex) n (drop 35 e); (bd, d) \<leftarrow> takeBoundary fromHex d;
      let body = take (length e - length d) e;
      (sig, d) \<leftarrow> takeData KERNEL_SIG_LEN d; (pf, d) \<leftarrow> takeProof True d; require (d = []);
      Some \<lparr>sh_asset = slice e 1 33, sh_nIn = u8 e 33, sh_outputs = os, sh_boundary = bd, sh_body = body, sh_kernelSig = sig, sh_proof = pf\<rparr> }"
    using True by (simp add: parseShield_wallet_def takeByte_0 [of e] takeByte_drop takeData_drop n_def [symmetric])
  show ?thesis
  proof (cases "q + BOUNDARY_LEN \<le> length e \<and> readOutputs fromHex e 35 n \<noteq> None \<and> readBoundary fromHex e q \<noteq> None")
    case False
    have "takeBoundary fromHex (drop q e) =
      (if q + BOUNDARY_LEN \<le> length e then map_option (\<lambda>bd. (bd, drop (q + BOUNDARY_LEN) e)) (readBoundary fromHex e q) else None)" if "q \<le> length e"
      by (rule takeBoundary_drop) (use hex that in auto)
    then have "parseShield_wallet fromHex e = None"
      unfolding wl outs using False readOutputs_pos [of fromHex e 35 n] by (cases "readOutputs fromHex e 35 n") (auto simp: q_def)
    moreover have "parseShield fromHex e = None"
      unfolding ix using False readOutputs_pos [of fromHex e 35 n] readBoundary_None [of q e fromHex]
      by (cases "readOutputs fromHex e 35 n") (auto simp: q_def)
    ultimately show ?thesis by simp
  next
    case oks: True
    then obtain os bd where os: "readOutputs fromHex e 35 n = Some (os, q)" and bd: "readBoundary fromHex e q = Some bd"
      using readOutputs_pos [of fromHex e 35 n] by (fastforce simp: q_def)
    define r where "r = q + BOUNDARY_LEN"
    have tb: "takeBoundary fromHex (drop q e) = Some (bd, drop r e)"
      using takeBoundary_drop [of fromHex q e] hex oks bd by (auto simp: r_def)
    have r: "r \<le> length e" using oks by (simp add: r_def)
    then have body: "length e - length (drop r e) = r" by simp
    show ?thesis
    proof (cases "r + KERNEL_SIG_LEN \<le> length e")
      case False
      then show ?thesis unfolding wl outs ix using oks os bd tb r by (auto simp: r_def takeData_drop)
    next
      case sig: True
      have "parseShield_wallet fromHex e = do { (pf, d) \<leftarrow> takeProof True (drop (r + KERNEL_SIG_LEN) e); require (d = []); Some (F os bd pf) }"
        unfolding wl outs using oks os tb r sig
        by (simp add: takeData_drop Let_def F_def r_def [symmetric] del: length_drop, unfold body, simp)
      also have "\<dots> = parseShield fromHex e"
        unfolding takeProof_drop [OF sig] ix using os bd sig by (simp add: r_def)
      finally show ?thesis .
    qed
  qed
qed

end
