(* ===== verification/Pool_State.thy ===== *)
theory Pool_State
  imports "HOL-Library.AList" Pool_Envelope
begin

text \<open>
  The replay state of the Bitcoin shielded pool (\<open>BtcPoolState\<close> in \<open>worker/src/btc-shielded-pool.js\<close>): blocks are
  opened, shields and spends are applied or rejected, blocks are committed with an undo record or aborted, and a reorg
  undoes committed blocks. An operation that throws returns \<open>Inl\<close>; a rejected envelope leaves the state alone.

  The maps the code iterates over (\<open>roots\<close>, \<open>undo\<close>) are association lists in insertion order, the others are maps.
  Parameters, in \<open>poolEnvir\<close>: the curve library, the checks of a boundary proof, the proof verifiers (\<open>None\<close> where
  the caller has none, \<open>Inl\<close> where they throw), the Poseidon and SHA-256 hashes.

  An operation that can throw after it has changed the state returns the state it leaves behind as well.
\<close>

definition ANCHOR_WINDOW :: int where "ANCHOR_WINDOW = 144"
definition UNDO_DEPTH :: int where "UNDO_DEPTH = 288"
definition MAX_LEAVES :: nat where "MAX_LEAVES = 2 ^ TREE_DEPTH"

type_synonym outpoint2 = "bytes \<times> nat"

record 'p curve =
  cv_fromHex :: "bytes \<Rightarrow> 'p option"
  cv_fromAffine :: "int \<Rightarrow> int \<Rightarrow> 'p option"
  cv_zero :: 'p
  cv_base :: 'p
  cv_add :: "'p \<Rightarrow> 'p \<Rightarrow> 'p"
  cv_negate :: "'p \<Rightarrow> 'p"
  cv_multiply :: "'p \<Rightarrow> int \<Rightarrow> 'p"
  cv_affine :: "'p \<Rightarrow> int \<times> int"
  cv_order :: int

record 'p poolEnvir =
  pv_curve :: "'p curve"
  pv_H2 :: hash2
  pv_sha256 :: "bytes \<Rightarrow> bytes"
  pv_unpackPoint :: "bytes \<Rightarrow> (int \<times> int) option"
  pv_verifyXCurve :: "bytes \<Rightarrow> bytes \<Rightarrow> bytes \<Rightarrow> bool"
  pv_bppRangeVerify :: "'p \<Rightarrow> bytes \<Rightarrow> bool"
  pv_verifyProof :: "(bytes \<Rightarrow> int list \<Rightarrow> bool res) option"
  pv_verifyAggregate :: "(nat \<Rightarrow> bytes \<Rightarrow> bytes \<Rightarrow> bool res) option"
  pv_vkDigest :: bytes

subsection \<open>State\<close>

record nfRec =
  nr_height :: int
  nr_txid :: bytes

record exitRec =
  er_asset :: bytes
  er_cx :: bytes
  er_cy :: bytes
  er_height :: int

record fullLeaf =
  fl_output :: poolOutput
  fl_txid :: bytes
  fl_asset :: bytes
  fl_leafIndex :: nat
  fl_height :: int

record pendingBlock =
  pb_height :: int
  pb_leafStart :: nat
  pb_leaves :: "fullLeaf list"
  pb_nullifiers :: "(bytes \<times> nfRec) list"
  pb_exits :: "(outpoint2 \<times> exitRec) list"
  pb_wants :: "outpoint2 list"

record undoRec =
  un_leafStart :: nat
  un_nullifiers :: "bytes list"
  un_exits :: "outpoint2 list"
  un_pruned :: "(int \<times> bytes) list"

record poolSt =
  bp_tree :: levels
  bp_leafHeights :: "int list"
  bp_nullifiers :: "bytes \<rightharpoonup> nfRec"
  bp_exits :: "outpoint2 \<rightharpoonup> exitRec"
  bp_roots :: "(int \<times> bytes) list"
  bp_undo :: "(int \<times> undoRec) list"
  bp_tip :: "int option"
  bp_pending :: "pendingBlock option"
  bp_maxLeaves :: nat

definition newPool :: poolSt where
  "newPool = \<lparr>bp_tree = newTree, bp_leafHeights = [], bp_nullifiers = Map.empty, bp_exits = Map.empty, bp_roots = [],
     bp_undo = [], bp_tip = None, bp_pending = None, bp_maxLeaves = MAX_LEAVES\<rparr>"

text \<open>
  The binary search of \<open>leafCountAt\<close> and of \<open>firstLeafAt\<close> in \<open>restore\<close>, which differ in the test \<open>before\<close>. The middle
  is a signed 32-bit shift, and reading outside the array gives \<open>undefined\<close>, for which both tests fail; nothing bounds
  the loop, so it may fail to end.
\<close>

partial_function (option) leafSearch :: "(int \<Rightarrow> bool) \<Rightarrow> int list \<Rightarrow> int \<Rightarrow> int \<Rightarrow> int option" where
  "leafSearch before xs lo hi =
     (if lo < hi then
        (let m = toInt32 (lo + hi) div 2 in
         if 0 \<le> m \<and> m < int (length xs) \<and> before (xs ! nat m) then leafSearch before xs (m + 1) hi
         else leafSearch before xs lo m)
      else Some lo)"

definition leafCountAt :: "poolSt \<Rightarrow> int \<Rightarrow> int option" where
  "leafCountAt st height =
     leafSearch (\<lambda>x. x \<le> height) (bp_leafHeights st) 0 (int (length (bp_leafHeights st)))"

definition firstLeafAt :: "int list \<Rightarrow> int \<Rightarrow> int option" where
  "firstLeafAt leafHeights h = leafSearch (\<lambda>x. x < h) leafHeights 0 (int (length leafHeights))"

subsection \<open>Blocks\<close>

definition beginBlock :: "poolSt \<Rightarrow> int \<Rightarrow> poolSt res" where
  "beginBlock st height =
     (if bp_pending st \<noteq> None then Inl (Err ''block already open'')
      else if (case bp_tip st of None \<Rightarrow> False | Some t \<Rightarrow> height \<noteq> t + 1) then Inl (Err ''expected another block'')
      else Inr (st\<lparr>bp_pending := Some \<lparr>pb_height = height, pb_leafStart = treeSize (bp_tree st), pb_leaves = [],
        pb_nullifiers = [], pb_exits = [], pb_wants = []\<rparr>\<rparr>))"

definition deleteKeys :: "('k \<rightharpoonup> 'v) \<Rightarrow> 'k list \<Rightarrow> ('k \<rightharpoonup> 'v)" where
  "deleteKeys m ks = foldl (\<lambda>m k. m(k := None)) m ks"

definition abortBlock :: "hash2 \<Rightarrow> poolSt \<Rightarrow> poolSt res" where
  "abortBlock H2 st =
     (case bp_pending st of None \<Rightarrow> Inr st
      | Some b \<Rightarrow> (case truncateTree H2 (bp_tree st) (pb_leafStart b) of Inl e \<Rightarrow> Inl e
        | Inr tree \<Rightarrow> Inr (st\<lparr>bp_tree := tree, bp_leafHeights := take (pb_leafStart b) (bp_leafHeights st),
            bp_nullifiers := deleteKeys (bp_nullifiers st) (map fst (pb_nullifiers b)),
            bp_exits := deleteKeys (bp_exits st) (map fst (pb_exits b)), bp_pending := None\<rparr>)))"

text \<open>One round of the loop of \<open>_appendLeaves\<close>; \<open>b\<close> is the open block.\<close>

definition pushLeaf :: "poolSt \<Rightarrow> levels \<Rightarrow> pendingBlock \<Rightarrow> fullLeaf \<Rightarrow> poolSt" where
  "pushLeaf st tree b full = st\<lparr>bp_tree := tree, bp_leafHeights := bp_leafHeights st @ [pb_height b],
     bp_pending := Some (b\<lparr>pb_leaves := pb_leaves b @ [full]\<rparr>)\<rparr>"

fun appendLeaves :: "hash2 \<Rightarrow> bytes \<Rightarrow> bytes \<Rightarrow> poolSt \<Rightarrow> poolOutput list \<Rightarrow> fullLeaf list res \<times> poolSt" where
  "appendLeaves H2 asset txid st [] = (Inr [], st)"
| "appendLeaves H2 asset txid st (out # outs) =
     (case bp_pending st of None \<Rightarrow> (Inl (Err ''no open block''), st)
      | Some b \<Rightarrow>
       (case appendLeaf H2 (bp_tree st) (po_leaf out) of Inl e \<Rightarrow> (Inl e, st)
        | Inr (tree, leafIndex) \<Rightarrow>
            (let full = \<lparr>fl_output = out, fl_txid = txid, fl_asset = asset, fl_leafIndex = leafIndex, fl_height = pb_height b\<rparr>;
                 st = pushLeaf st tree b full
             in case appendLeaves H2 asset txid st outs of (Inl e, st) \<Rightarrow> (Inl e, st) | (Inr fs, st) \<Rightarrow> (Inr (full # fs), st))))"

subsection \<open>Public inputs\<close>

definition fieldOf :: "(bytes \<Rightarrow> bytes) \<Rightarrow> string \<Rightarrow> bytes \<Rightarrow> int" where
  "fieldOf sha256 tag b = bytesToBig (sha256 (ascii tag @ b)) mod P_FR"

definition padTo :: "int list \<Rightarrow> nat \<Rightarrow> int list" where
  "padTo xs n = xs @ replicate (n - length xs) 0"

definition pairList :: "(int \<times> int) option \<Rightarrow> int list" where
  "pairList c = (case c of None \<Rightarrow> [0, 1] | Some (x, y) \<Rightarrow> [x, y])"

definition spendPublics :: "(bytes \<Rightarrow> bytes) \<Rightarrow> int \<Rightarrow> bytes \<Rightarrow> bytes \<Rightarrow> int list \<Rightarrow> int list \<Rightarrow> (int \<times> int) option
    \<Rightarrow> (int \<times> int) option \<Rightarrow> int list res" where
  "spendPublics sha256 root body asset nullifiers outLeaves exitC depC =
     (if length nullifiers > 2 \<or> length outLeaves > 3 then Inl (Err ''btc-pool-zk: arity'')
      else if length asset \<noteq> 32 then Inl (Err ''btc-pool-zk: asset must be 32 bytes'')
      else Inr ([root, fieldOf sha256 ''tacit-btc-pool-zk-body-v1'' body, fieldOf sha256 ''tacit-btc-pool-zk-asset-v1'' asset]
        @ padTo nullifiers 2 @ padTo outLeaves 3 @ pairList exitC @ pairList depC))"

definition leafFields :: "poolOutput list \<Rightarrow> int list" where
  "leafFields os = map (\<lambda>out. bytesToBig (po_leaf out)) os"

definition shieldPublics :: "(bytes \<Rightarrow> bytes) \<Rightarrow> shieldEnv \<Rightarrow> int \<times> int \<Rightarrow> int list res" where
  "shieldPublics sha256 s boundaryC =
     spendPublics sha256 0 (sh_body s) (sh_asset s) [] (leafFields (sh_outputs s)) None (Some boundaryC)"

definition envelopePublics :: "(bytes \<Rightarrow> bytes) \<Rightarrow> spendEnv \<Rightarrow> bytes \<Rightarrow> (int \<times> int) option \<Rightarrow> int list res" where
  "envelopePublics sha256 s root boundaryC =
     spendPublics sha256 (bytesToBig root) (sp_body s) (sp_asset s) (map bytesToBig (sp_nullifiers s))
       (leafFields (sp_outputs s)) (if sp_exit s \<noteq> None then boundaryC else None) None"

definition u32leBytes :: "nat \<Rightarrow> bytes" where
  "u32leBytes v = le_bytes 4 (int v)"

fun statementParts :: "int list list \<Rightarrow> bytes res" where
  "statementParts [] = Inr []"
| "statementParts (pubs # rest) =
     (if length pubs \<noteq> 12 then Inl (Err ''twelve publics per spend'')
      else map_sum id (\<lambda>bs. concat (map bigTo32 pubs) @ bs) (statementParts rest))"

definition aggregateStatement :: "(bytes \<Rightarrow> bytes) \<Rightarrow> bytes \<Rightarrow> int list list \<Rightarrow> bytes res" where
  "aggregateStatement sha256 vkDigest publicsList =
     map_sum id (\<lambda>bs. sha256 (ascii ''tacit-btc-pool-agg-v1'' @ vkDigest @ u32leBytes (length publicsList) @ bs))
       (statementParts publicsList)"

subsection \<open>Signatures and boundaries\<close>

definition pointFromXY :: "'p curve \<Rightarrow> bytes \<Rightarrow> bytes \<Rightarrow> 'p option" where
  "pointFromXY c cx cy =
     (let x = bytesToBig cx; y = bytesToBig cy
      in if x \<ge> P_FIELD \<or> y \<ge> P_FIELD then None else cv_fromAffine c x y)"

definition liftX :: "'p curve \<Rightarrow> bytes \<Rightarrow> 'p option" where
  "liftX c x32 = (if length x32 \<noteq> 32 then None else pointFromCompressed (cv_fromHex c) (byte_of 2 # x32))"

definition pointXY :: "'p curve \<Rightarrow> 'p \<Rightarrow> bytes \<times> bytes" where
  "pointXY c P = (let (x, y) = cv_affine c P in (bigTo32 x, bigTo32 y))"

definition mulPoint :: "'p curve \<Rightarrow> 'p \<Rightarrow> int \<Rightarrow> 'p" where
  "mulPoint c P k = (let s = k mod cv_order c in if s = 0 then cv_zero c else cv_multiply c P s)"

definition taggedHash :: "(bytes \<Rightarrow> bytes) \<Rightarrow> string \<Rightarrow> bytes \<Rightarrow> bytes" where
  "taggedHash sha256 tag msg = (let t = sha256 (ascii tag) in sha256 (t @ t @ msg))"

definition bip340Verify :: "'p poolEnvir \<Rightarrow> bytes \<Rightarrow> bytes \<Rightarrow> bytes \<Rightarrow> bool" where
  "bip340Verify V sig msg pubX =
     (let c = pv_curve V in
      if length sig \<noteq> 64 \<or> length msg \<noteq> 32 \<or> length pubX \<noteq> 32 then False
      else case liftX c pubX of None \<Rightarrow> False
        | Some P \<Rightarrow>
            (let r = bytesToBig (slice sig 0 32); s = bytesToBig (drop 32 sig)
             in if r \<ge> P_FIELD \<or> s \<ge> cv_order c then False
                else let e = bytesToBig (taggedHash (pv_sha256 V) ''BIP0340/challenge'' (slice sig 0 32 @ pubX @ msg)) mod cv_order c;
                         R = cv_add c (mulPoint c (cv_base c) s) (cv_negate c (mulPoint c P e))
                     in if R = cv_zero c then False
                        else let (x, y) = cv_affine c R in even y \<and> x = r))"

definition outpointBytes :: "outpoint2 \<Rightarrow> bytes" where
  "outpointBytes op = rev (fst op) @ u32leBytes (snd op)"

definition shieldKernelMsg :: "(bytes \<Rightarrow> bytes) \<Rightarrow> bytes \<Rightarrow> outpoint2 list \<Rightarrow> bytes" where
  "shieldKernelMsg sha256 body outpoints =
     sha256 (ascii ''tacit-btc-pool-zk-shield-v1'' @ concat (map outpointBytes outpoints) @ body)"

definition verifyBoundary :: "'p poolEnvir \<Rightarrow> boundary \<Rightarrow> (int \<times> int) option" where
  "verifyBoundary V b =
     (if length (bd_cSecp b) \<noteq> 33 \<or> length (bd_cBjj b) \<noteq> 32 \<or> length (bd_sigma b) \<noteq> XCURVE_PROOF_LEN
         \<or> length (bd_bpp b) \<noteq> BPP_M1_LEN then None
      else case cv_fromHex (pv_curve V) (bd_cSecp b) of None \<Rightarrow> None
        | Some Cs \<Rightarrow> (case pv_unpackPoint V (bd_cBjj b) of None \<Rightarrow> None
          | Some Cb \<Rightarrow>
              if Cb = (0, 1) then None
              else if \<not> pv_verifyXCurve V (bd_sigma b) (bd_cSecp b) (bd_cBjj b) then None
              else if pv_bppRangeVerify V Cs (bd_bpp b) then Some Cb else None))"

subsection \<open>Accepting a shield\<close>

datatype outcome = Rejected string | Accepted

record carrier =
  cr_txid :: bytes
  cr_inputs :: "outpoint2 list"
  cr_outputs :: "(int \<times> bytes) list"
  cr_vin0TacitOp :: bool

text \<open>The sum of the resolved notes, or the first reason to reject one of them.\<close>

fun sumInputs :: "'p curve \<Rightarrow> (outpoint2 \<Rightarrow> bytes \<Rightarrow> (bytes \<times> bytes) option res) \<Rightarrow> bytes \<Rightarrow> outpoint2 list \<Rightarrow> 'p
    \<Rightarrow> (string + 'p) res" where
  "sumInputs c resolveInput asset [] acc = Inr (Inr acc)"
| "sumInputs c resolveInput asset (op # ops) acc =
     (case resolveInput op asset of Inl e \<Rightarrow> Inl e
      | Inr None \<Rightarrow> Inr (Inl ''input is not a valid note of the asset'')
      | Inr (Some (cx, cy)) \<Rightarrow>
         (case pointFromXY c cx cy of None \<Rightarrow> Inr (Inl ''input commitment is not a curve point'')
          | Some C \<Rightarrow> sumInputs c resolveInput asset ops (cv_add c acc C)))"

definition VerifierUnavailableError :: js_error where
  "VerifierUnavailableError = Err ''spend proof verifier unavailable''"

definition checkProof :: "'p poolEnvir \<Rightarrow> bytes \<Rightarrow> int list res \<Rightarrow> bool res" where
  "checkProof V pf publics =
     (case pv_verifyProof V of None \<Rightarrow> Inl VerifierUnavailableError
      | Some verifyProof \<Rightarrow> (case publics of Inl e \<Rightarrow> Inl e | Inr pubs \<Rightarrow> verifyProof pf pubs))"

text \<open>The checks of a shield: a reason to reject it, or nothing.\<close>

definition shieldChecks :: "'p poolEnvir \<Rightarrow> (outpoint2 \<Rightarrow> bytes \<Rightarrow> (bytes \<times> bytes) option res) \<Rightarrow> carrier \<Rightarrow> poolSt
    \<Rightarrow> shieldEnv \<Rightarrow> string option res" where
  "shieldChecks V resolveInput cr st s =
     (let c = pv_curve V in
      if treeSize (bp_tree st) + length (sh_outputs s) > bp_maxLeaves st then Inr (Some ''note tree is full'')
      else if length (cr_inputs cr) < sh_nIn s + 1 then Inr (Some ''carrier has too few inputs'')
      else let outpoints = take (sh_nIn s) (drop 1 (cr_inputs cr)) in
        case sumInputs c resolveInput (sh_asset s) outpoints (cv_zero c) of Inl e \<Rightarrow> Inl e
        | Inr (Inl r) \<Rightarrow> Inr (Some r)
        | Inr (Inr inSum) \<Rightarrow>
          (case pointFromCompressed (cv_fromHex c) (bd_cSecp (sh_boundary s)) of None \<Rightarrow> Inl (Err ''null point'')
           | Some Cpool \<Rightarrow>
             (let E = cv_add c Cpool (cv_negate c inSum) in
              if E = cv_zero c then Inr (Some ''excess is infinity'')
              else if \<not> bip340Verify V (sh_kernelSig s) (shieldKernelMsg (pv_sha256 V) (sh_body s) outpoints) (fst (pointXY c E))
                then Inr (Some ''kernel signature does not verify'')
              else case verifyBoundary V (sh_boundary s) of None \<Rightarrow> Inr (Some ''boundary does not verify'')
                | Some depC \<Rightarrow>
                  (case checkProof V (sh_proof s) (shieldPublics (pv_sha256 V) s depC) of Inl e \<Rightarrow> Inl e
                   | Inr ok \<Rightarrow> Inr (if ok then None else Some ''proof does not verify'')))))"

definition acceptShield :: "'p poolEnvir \<Rightarrow> (outpoint2 \<Rightarrow> bytes \<Rightarrow> (bytes \<times> bytes) option res) \<Rightarrow> carrier \<Rightarrow> poolSt
    \<Rightarrow> shieldEnv \<Rightarrow> outcome res \<times> poolSt" where
  "acceptShield V resolveInput cr st s =
     (case bp_pending st of None \<Rightarrow> (Inl (Err ''no open block''), st)
      | Some b \<Rightarrow>
       (case shieldChecks V resolveInput cr st s of Inl e \<Rightarrow> (Inl e, st)
        | Inr (Some r) \<Rightarrow> (Inr (Rejected r), st)
        | Inr None \<Rightarrow> apfst (map_sum id (\<lambda>_. Accepted)) (appendLeaves (pv_H2 V) (sh_asset s) (cr_txid cr) st (sh_outputs s))))"

subsection \<open>Accepting a spend\<close>

definition inWindow :: "int \<Rightarrow> spendEnv \<Rightarrow> bool" where
  "inWindow height s = (\<not> (sp_hAnchor s < height - ANCHOR_WINDOW \<or> sp_hAnchor s > height - 1))"

definition exitBoundary :: "'p poolEnvir \<Rightarrow> spendEnv \<Rightarrow> (int \<times> int) option option" where
  "exitBoundary V s =
     (case sp_exit s of None \<Rightarrow> Some None
      | Some x \<Rightarrow> (case verifyBoundary V (xc_boundary x) of None \<Rightarrow> None | Some C \<Rightarrow> Some (Some C)))"

definition spendPublicsNow :: "'p poolEnvir \<Rightarrow> poolSt \<Rightarrow> spendEnv \<Rightarrow> int list option res" where
  "spendPublicsNow V st s =
     (case bp_pending st of None \<Rightarrow> Inr None
      | Some b \<Rightarrow>
       (if \<not> inWindow (pb_height b) s then Inr None
        else case map_of (bp_roots st) (sp_hAnchor s) of None \<Rightarrow> Inr None
          | Some root \<Rightarrow>
             (case exitBoundary V s of None \<Rightarrow> Inr None
              | Some exitC \<Rightarrow> map_sum id Some (envelopePublics (pv_sha256 V) s root exitC))))"

text \<open>
  The verdict on a carrier's aggregate. The code keys the publics by the parsed object; equal spends of a carrier have
  equal publics, so keying them by the value reads the same entry.
\<close>

record aggVerdict =
  av_ok :: bool
  av_reason :: string
  av_publics :: "(spendEnv \<times> int list) list"

definition aggNo :: "string \<Rightarrow> aggVerdict option res" where
  "aggNo r = Inr (Some \<lparr>av_ok = False, av_reason = r, av_publics = []\<rparr>)"

definition prooflessSpends :: "poolEnv option list \<Rightarrow> spendEnv list" where
  "prooflessSpends parsed =
     concat (map (\<lambda>e. case e of Some (Spend s) \<Rightarrow> if sp_proof s = [] then [s] else [] | _ \<Rightarrow> []) parsed)"

definition aggregatesOf :: "poolEnv option list \<Rightarrow> aggEnv list" where
  "aggregatesOf parsed = concat (map (\<lambda>e. case e of Some (Aggregate a) \<Rightarrow> [a] | _ \<Rightarrow> []) parsed)"

text \<open>The publics of the covered spends, \<open>None\<close> when one of them has none.\<close>

fun coveredPublics :: "'p poolEnvir \<Rightarrow> poolSt \<Rightarrow> spendEnv list \<Rightarrow> (spendEnv \<times> int list) list option res" where
  "coveredPublics V st [] = Inr (Some [])"
| "coveredPublics V st (s # ss) =
     (case spendPublicsNow V st s of Inl e \<Rightarrow> Inl e
      | Inr None \<Rightarrow> Inr None
      | Inr (Some p) \<Rightarrow> map_sum id (map_option (\<lambda>ps. (s, p) # ps)) (coveredPublics V st ss))"

definition aggregateFor :: "'p poolEnvir \<Rightarrow> poolSt \<Rightarrow> poolEnv option list \<Rightarrow> aggVerdict option res" where
  "aggregateFor V st parsed =
     (let covered = prooflessSpends parsed; aggs = aggregatesOf parsed in
      if covered = [] then Inr None
      else case aggs of [a] \<Rightarrow>
          (if ag_n a \<noteq> length covered then aggNo ''aggregate n differs from the proofless spends''
           else case coveredPublics V st covered of Inl e \<Rightarrow> Inl e
             | Inr None \<Rightarrow> aggNo ''a covered spend has no derivable public inputs''
             | Inr (Some publics) \<Rightarrow>
               (case pv_verifyAggregate V of None \<Rightarrow> Inl VerifierUnavailableError
                | Some verifyAggregate \<Rightarrow>
                  (case aggregateStatement (pv_sha256 V) (pv_vkDigest V) (map snd publics) of Inl e \<Rightarrow> Inl e
                   | Inr statement \<Rightarrow>
                     (case verifyAggregate (ag_wrap a) (ag_proof a) statement of Inl e \<Rightarrow> Inl e
                      | Inr ok \<Rightarrow> if ok then Inr (Some \<lparr>av_ok = True, av_reason = [], av_publics = publics\<rparr>)
                                 else aggNo ''aggregate does not verify''))))
        | [] \<Rightarrow> aggNo ''proofless spend without an aggregate''
        | _ \<Rightarrow> aggNo ''more than one aggregate in the carrier'')"

text \<open>An output already taken by an exit, or by a want of the same block.\<close>

definition claimed :: "poolSt \<Rightarrow> pendingBlock \<Rightarrow> carrier \<Rightarrow> nat \<Rightarrow> bool" where
  "claimed st b cr vout = (bp_exits st (cr_txid cr, vout) \<noteq> None \<or> (cr_txid cr, vout) \<in> set (pb_wants b))"

definition carrierOutput :: "carrier \<Rightarrow> nat \<Rightarrow> (int \<times> bytes) option" where
  "carrierOutput cr vout = (if vout < length (cr_outputs cr) then Some (cr_outputs cr ! vout) else None)"

definition exitChecks :: "'p poolEnvir \<Rightarrow> carrier \<Rightarrow> poolSt \<Rightarrow> pendingBlock \<Rightarrow> exitClaim \<Rightarrow> string option" where
  "exitChecks V cr st b x =
     (if cr_vin0TacitOp cr then Some ''exit in a carrier whose vin[0] holds a transparent Tacit op''
      else case carrierOutput cr (xc_exitVout x) of None \<Rightarrow> Some ''exit_vout is not an output of the carrier''
        | Some (v, spk) \<Rightarrow>
          if claimed st b cr (xc_exitVout x) then Some ''exit_vout already claimed by an earlier exit or want''
          else if pv_sha256 V spk \<noteq> xc_destSpkHash x then Some ''exit scriptPubKey does not match dest_spk_hash''
          else None)"

definition wantChecks :: "'p poolEnvir \<Rightarrow> carrier \<Rightarrow> poolSt \<Rightarrow> pendingBlock \<Rightarrow> exitClaim option \<Rightarrow> wantClaim \<Rightarrow> string option" where
  "wantChecks V cr st b ex w =
     (case carrierOutput cr (wc_vout w) of None \<Rightarrow> Some ''want vout is not an output of the carrier''
      | Some (v, spk) \<Rightarrow>
        if (case ex of None \<Rightarrow> False | Some x \<Rightarrow> xc_exitVout x = wc_vout w) then Some ''want and exit name the same output''
        else if claimed st b cr (wc_vout w) then Some ''want vout already claimed by an earlier exit or want''
        else if v < wc_value w then Some ''want output pays less than the want value''
        else if pv_sha256 V spk \<noteq> wc_spkHash w then Some ''want scriptPubKey does not match spk_hash''
        else None)"

definition proofChecks :: "'p poolEnvir \<Rightarrow> aggVerdict option \<Rightarrow> spendEnv \<Rightarrow> int list res \<Rightarrow> string option res" where
  "proofChecks V agg s publics =
     (if sp_proof s = [] then
        (case publics of Inl e \<Rightarrow> Inl e
         | Inr pubs \<Rightarrow>
          (case agg of None \<Rightarrow> Inr (Some ''no proof and no aggregate'')
           | Some a \<Rightarrow>
              if \<not> av_ok a then Inr (Some (av_reason a))
              else if map_of (av_publics a) s \<noteq> Some pubs then Inr (Some ''spend is not covered by the aggregate'')
              else Inr None))
      else case publics of Inl e \<Rightarrow> Inl e
        | Inr pubs \<Rightarrow> map_sum id (\<lambda>ok. if ok then None else Some ''proof does not verify'')
            (checkProof V (sp_proof s) (Inr pubs)))"

definition spendChecks :: "'p poolEnvir \<Rightarrow> carrier \<Rightarrow> aggVerdict option \<Rightarrow> poolSt \<Rightarrow> pendingBlock \<Rightarrow> spendEnv
    \<Rightarrow> string option res" where
  "spendChecks V cr agg st b s =
     (if \<not> inWindow (pb_height b) s then Inr (Some ''h_anchor outside window'')
      else case map_of (bp_roots st) (sp_hAnchor s) of None \<Rightarrow> Inr (Some ''no root retained for h_anchor'')
      | Some root \<Rightarrow>
       if (case sp_bind s of None \<Rightarrow> False | Some op \<Rightarrow> op \<notin> set (cr_inputs cr)) then
         Inr (Some ''carrier does not spend the bound outpoint'')
       else if \<not> distinct (sp_nullifiers s) then Inr (Some ''duplicate nullifier in body'')
       else if \<exists>nf\<in>set (sp_nullifiers s). bp_nullifiers st nf \<noteq> None then Inr (Some ''nullifier already spent'')
       else case (case sp_exit s of None \<Rightarrow> None | Some x \<Rightarrow> exitChecks V cr st b x) of Some r \<Rightarrow> Inr (Some r)
       | None \<Rightarrow>
        (case (case sp_want s of None \<Rightarrow> None | Some w \<Rightarrow> wantChecks V cr st b (sp_exit s) w) of Some r \<Rightarrow> Inr (Some r)
         | None \<Rightarrow>
           if treeSize (bp_tree st) + length (sp_outputs s) > bp_maxLeaves st then Inr (Some ''note tree is full'')
           else case exitBoundary V s of None \<Rightarrow> Inr (Some ''exit boundary does not verify'')
             | Some exitC \<Rightarrow> proofChecks V agg s (envelopePublics (pv_sha256 V) s root exitC)))"

definition recordNullifier :: "carrier \<Rightarrow> poolSt \<Rightarrow> pendingBlock \<Rightarrow> bytes \<Rightarrow> poolSt" where
  "recordNullifier cr st b nf =
     (let rc = \<lparr>nr_height = pb_height b, nr_txid = cr_txid cr\<rparr>
      in st\<lparr>bp_nullifiers := (bp_nullifiers st)(nf \<mapsto> rc),
           bp_pending := Some (b\<lparr>pb_nullifiers := pb_nullifiers b @ [(nf, rc)]\<rparr>)\<rparr>)"

fun recordNullifiers :: "carrier \<Rightarrow> poolSt \<Rightarrow> bytes list \<Rightarrow> poolSt" where
  "recordNullifiers cr st [] = st"
| "recordNullifiers cr st (nf # nfs) =
     (case bp_pending st of None \<Rightarrow> st | Some b \<Rightarrow> recordNullifiers cr (recordNullifier cr st b nf) nfs)"

definition recordExit :: "'p poolEnvir \<Rightarrow> carrier \<Rightarrow> poolSt \<Rightarrow> pendingBlock \<Rightarrow> bytes \<Rightarrow> exitClaim \<Rightarrow> unit res \<times> poolSt" where
  "recordExit V cr st b asset x =
     (case pointFromCompressed (cv_fromHex (pv_curve V)) (bd_cSecp (xc_boundary x)) of None \<Rightarrow> (Inl (Err ''null point''), st)
      | Some P \<Rightarrow>
         (let (cx, cy) = pointXY (pv_curve V) P; key = (cr_txid cr, xc_exitVout x);
              rc = \<lparr>er_asset = asset, er_cx = cx, er_cy = cy, er_height = pb_height b\<rparr>
          in (Inr (), st\<lparr>bp_exits := (bp_exits st)(key \<mapsto> rc), bp_pending := Some (b\<lparr>pb_exits := pb_exits b @ [(key, rc)]\<rparr>)\<rparr>)))"

definition recordWant :: "carrier \<Rightarrow> poolSt \<Rightarrow> wantClaim option \<Rightarrow> poolSt" where
  "recordWant cr st want =
     (case (bp_pending st, want) of (Some b, Some w) \<Rightarrow>
        st\<lparr>bp_pending := Some (b\<lparr>pb_wants := pb_wants b @ [(cr_txid cr, wc_vout w)]\<rparr>)\<rparr>
      | _ \<Rightarrow> st)"

definition applySpend :: "'p poolEnvir \<Rightarrow> carrier \<Rightarrow> poolSt \<Rightarrow> spendEnv \<Rightarrow> outcome res \<times> poolSt" where
  "applySpend V cr st s =
     (case appendLeaves (pv_H2 V) (sp_asset s) (cr_txid cr) (recordNullifiers cr st (sp_nullifiers s)) (sp_outputs s) of
        (Inl e, st) \<Rightarrow> (Inl e, st)
      | (Inr leaves, st) \<Rightarrow>
         (case (bp_pending st, sp_exit s) of (Some b, Some x) \<Rightarrow>
            (case recordExit V cr st b (sp_asset s) x of (Inl e, st) \<Rightarrow> (Inl e, st)
             | (Inr _, st) \<Rightarrow> (Inr Accepted, recordWant cr st (sp_want s)))
          | _ \<Rightarrow> (Inr Accepted, recordWant cr st (sp_want s))))"

definition acceptSpend :: "'p poolEnvir \<Rightarrow> carrier \<Rightarrow> aggVerdict option \<Rightarrow> poolSt \<Rightarrow> spendEnv \<Rightarrow> outcome res \<times> poolSt" where
  "acceptSpend V cr agg st s =
     (case bp_pending st of None \<Rightarrow> (Inl (Err ''no open block''), st)
      | Some b \<Rightarrow>
       (case spendChecks V cr agg st b s of Inl e \<Rightarrow> (Inl e, st)
        | Inr (Some r) \<Rightarrow> (Inr (Rejected r), st)
        | Inr None \<Rightarrow> applySpend V cr st s))"

subsection \<open>Committing and undoing blocks\<close>

record blockDelta =
  dl_height :: int
  dl_root :: bytes
  dl_leaves :: "fullLeaf list"
  dl_nullifiers :: "(bytes \<times> nfRec) list"
  dl_exits :: "(outpoint2 \<times> exitRec) list"
  dl_pruned :: "(int \<times> bytes) list"

definition endBlock :: "hash2 \<Rightarrow> poolSt \<Rightarrow> (poolSt \<times> blockDelta) res" where
  "endBlock H2 st =
     (case bp_pending st of None \<Rightarrow> Inl (Err ''no open block'')
      | Some b \<Rightarrow>
         (let root = treeRoot H2 (bp_tree st);
              roots = AList.update (pb_height b) root (bp_roots st);
              pruned = filter (\<lambda>(h, r). h < pb_height b + 1 - ANCHOR_WINDOW) roots;
              roots = fold (\<lambda>(h, r) m. AList.delete h m) pruned roots;
              u = \<lparr>un_leafStart = pb_leafStart b, un_nullifiers = map fst (pb_nullifiers b),
                   un_exits = map fst (pb_exits b), un_pruned = pruned\<rparr>;
              undo = filter (\<lambda>(h, u). \<not> h \<le> pb_height b - UNDO_DEPTH) (AList.update (pb_height b) u (bp_undo st))
          in Inr (st\<lparr>bp_roots := roots, bp_undo := undo, bp_tip := Some (pb_height b), bp_pending := None\<rparr>,
               \<lparr>dl_height = pb_height b, dl_root = root, dl_leaves = pb_leaves b, dl_nullifiers = pb_nullifiers b,
                dl_exits = pb_exits b, dl_pruned = pruned\<rparr>)))"

text \<open>
  The heights from the tip down to \<open>height\<close>. The undo loop cannot throw once every undo record is there and no record
  is longer than the tree; where it does, the state is not tracked further.
\<close>

definition heightsDown :: "int \<Rightarrow> int \<Rightarrow> int list" where
  "heightsDown tip height = rev [height..tip]"

definition undoOne :: "hash2 \<Rightarrow> poolSt \<Rightarrow> int \<Rightarrow> poolSt res" where
  "undoOne H2 st h =
     (case map_of (bp_undo st) h of None \<Rightarrow> Inl (Err ''undefined'')
      | Some u \<Rightarrow>
         (case truncateTree H2 (bp_tree st) (un_leafStart u) of Inl e \<Rightarrow> Inl e
          | Inr tree \<Rightarrow> Inr (st\<lparr>bp_tree := tree, bp_leafHeights := take (un_leafStart u) (bp_leafHeights st),
              bp_nullifiers := deleteKeys (bp_nullifiers st) (un_nullifiers u),
              bp_exits := deleteKeys (bp_exits st) (un_exits u),
              bp_roots := fold (\<lambda>(ph, r) m. AList.update ph r m) (un_pruned u) (AList.delete h (bp_roots st)),
              bp_undo := AList.delete h (bp_undo st)\<rparr>)))"

definition rollbackFrom :: "hash2 \<Rightarrow> poolSt \<Rightarrow> int \<Rightarrow> unit res \<times> poolSt" where
  "rollbackFrom H2 st height =
     (case abortBlock H2 st of Inl e \<Rightarrow> (Inl e, st)
      | Inr st \<Rightarrow>
       (case bp_tip st of None \<Rightarrow> (Inr (), st)
        | Some t \<Rightarrow>
           if height > t then (Inr (), st)
           else if \<exists>h\<in>set (heightsDown t height). map_of (bp_undo st) h = None then (Inl (Err ''ReorgTooDeepError''), st)
           else (case foldRes (undoOne H2) st (heightsDown t height) of Inl e \<Rightarrow> (Inl e, st)
             | Inr st' \<Rightarrow> (Inr (), st'\<lparr>bp_tip := Some (height - 1)\<rparr>))))"

subsection \<open>The envelopes of a carrier\<close>

text \<open>\<open>envs\<close> has the opcode and the payload of the Tacit envelope of each input, or nothing.\<close>

type_synonym carried = "(nat \<times> bytes) option"

definition isPool :: "carried \<Rightarrow> nat \<Rightarrow> bool" where
  "isPool e vin = (case e of None \<Rightarrow> False
     | Some (opcode, _) \<Rightarrow> opcode = T_BTC_SHIELD \<or> opcode = T_BTC_SPEND \<or> (opcode = T_BTC_AGG \<and> vin > 0))"

record poolItem =
  pi_vin :: nat
  pi_opcode :: nat
  pi_payload :: bytes

definition itemAt :: "nat \<times> carried \<Rightarrow> poolItem list" where
  "itemAt ve = (case snd ve of None \<Rightarrow> []
     | Some (opcode, payload) \<Rightarrow>
         if isPool (snd ve) (fst ve) then [\<lparr>pi_vin = fst ve, pi_opcode = opcode, pi_payload = payload\<rparr>] else [])"

definition carrierPoolEnvelopes :: "carried list \<Rightarrow> bool \<times> poolItem list" where
  "carrierPoolEnvelopes envs =
     (let e0 = (case envs of [] \<Rightarrow> None | e # _ \<Rightarrow> e);
          vin0TacitOp = (e0 \<noteq> None \<and> \<not> isPool e0 0)
      in case e0 of
           Some (opcode, payload) \<Rightarrow>
             if opcode = T_BTC_SHIELD then (vin0TacitOp, [\<lparr>pi_vin = 0, pi_opcode = opcode, pi_payload = payload\<rparr>])
             else (vin0TacitOp, concat (map itemAt (enumerate 0 envs)))
         | None \<Rightarrow> (vin0TacitOp, concat (map itemAt (enumerate 0 envs))))"

subsection \<open>Rebuilding the state from persisted rows\<close>

record leafRow =
  lr_leafIndex :: nat
  lr_height :: int
  lr_leaf :: bytes

record snapshot =
  sn_tip :: "int option"
  sn_leaves :: "leafRow list"
  sn_nullifiers :: "(bytes \<times> nfRec) list"
  sn_exits :: "(outpoint2 \<times> exitRec) list"
  sn_roots :: "(int \<times> bytes) list"

definition restoreLeaf :: "hash2 \<Rightarrow> levels \<times> nat \<Rightarrow> leafRow \<Rightarrow> (levels \<times> nat) res" where
  "restoreLeaf H2 ti l =
     (if lr_leafIndex l \<noteq> snd ti then Inl (Err ''leaf index gap'')
      else case appendLeaf H2 (fst ti) (lr_leaf l) of Inl e \<Rightarrow> Inl e | Inr (tree, _) \<Rightarrow> Inr (tree, snd ti + 1))"

text \<open>A JavaScript \<open>Map\<close> built from a list of entries.\<close>

definition mapFrom :: "('k \<times> 'v) list \<Rightarrow> ('k \<times> 'v) list" where
  "mapFrom xs = fold (\<lambda>(k, v) m. AList.update k v m) xs []"

definition setAll :: "('k \<times> 'v) list \<Rightarrow> ('k \<rightharpoonup> 'v)" where
  "setAll xs = foldl (\<lambda>m (k, v). m(k \<mapsto> v)) Map.empty xs"

definition undoFromRows :: "int list \<Rightarrow> snapshot \<Rightarrow> (int \<times> bytes) list \<Rightarrow> int \<Rightarrow> undoRec option" where
  "undoFromRows leafHeights sn rootMap h = do {
     n \<leftarrow> firstLeafAt leafHeights h;
     let ph = h - ANCHOR_WINDOW;
     Some \<lparr>un_leafStart = nat n,
       un_nullifiers = map fst (filter (\<lambda>n. nr_height (snd n) = h) (sn_nullifiers sn)),
       un_exits = map fst (filter (\<lambda>x. er_height (snd x) = h) (sn_exits sn)),
       un_pruned = (case map_of rootMap ph of None \<Rightarrow> [] | Some r \<Rightarrow> [(ph, r)])\<rparr>
   }"

text \<open>\<open>n\<close> heights are left, from \<open>h\<close> down; the loop stops at the first height without a root.\<close>

primrec restoreUndo :: "int list \<Rightarrow> snapshot \<Rightarrow> (int \<times> bytes) list \<Rightarrow> nat \<Rightarrow> int \<Rightarrow> (int \<times> undoRec) list option" where
  "restoreUndo leafHeights sn rootMap 0 h = Some []"
| "restoreUndo leafHeights sn rootMap (Suc n) h =
     (if map_of rootMap h = None then Some []
      else do {
        u \<leftarrow> undoFromRows leafHeights sn rootMap h;
        rest \<leftarrow> restoreUndo leafHeights sn rootMap n (h - 1);
        Some ((h, u) # rest)
      })"

definition restorePool :: "hash2 \<Rightarrow> snapshot \<Rightarrow> poolSt res option" where
  "restorePool H2 sn =
     (case sn_tip sn of None \<Rightarrow> Some (Inr newPool)
      | Some tip \<Rightarrow>
         (let sorted = sort_key lr_leafIndex (sn_leaves sn)
          in case foldRes (restoreLeaf H2) (newTree, 0) sorted of Inl e \<Rightarrow> Some (Inl e)
             | Inr (tree, _) \<Rightarrow>
                (let leafHeights = map lr_height sorted;
                     rootMap = mapFrom (sn_roots sn);
                     roots = filter (\<lambda>(h, r). h \<ge> tip + 1 - ANCHOR_WINDOW \<and> h \<le> tip) rootMap
                 in map_option (\<lambda>undo. Inr (newPool\<lparr>bp_tip := Some tip, bp_tree := tree, bp_leafHeights := leafHeights,
                        bp_nullifiers := setAll (sn_nullifiers sn), bp_exits := setAll (sn_exits sn), bp_roots := roots,
                        bp_undo := undo\<rparr>))
                      (restoreUndo leafHeights sn rootMap (nat UNDO_DEPTH) tip))))"

end
