(* ===== verification/Pool_Ledger.thy ===== *)
theory Pool_Ledger
  imports Pool_State
begin

text \<open>
  The reference for the shielded pool's replay state: a ledger is a start height and a list of blocks, each with the
  notes it appended, the nullifiers it spent and the exits it opened. \<open>refines\<close> ties a state with no open block to
  a ledger, \<open>openOn\<close> a state with an open block; every operation of the state is shown to follow the ledger.
\<close>

subsection \<open>The ledger\<close>

record ablock =
  ab_leaves :: "fullLeaf list"
  ab_nfs :: "(bytes \<times> nfRec) list"
  ab_exits :: "(outpoint2 \<times> exitRec) list"

definition emptyBlock :: ablock where
  "emptyBlock = \<lparr>ab_leaves = [], ab_nfs = [], ab_exits = []\<rparr>"

definition leafVal :: "fullLeaf \<Rightarrow> int" where "leafVal l = bytesToBig (po_leaf (fl_output l))"
definition rowsOf :: "ablock list \<Rightarrow> fullLeaf list" where "rowsOf bs = concat (map ab_leaves bs)"
definition nfsOf :: "ablock list \<Rightarrow> (bytes \<times> nfRec) list" where "nfsOf bs = concat (map ab_nfs bs)"
definition exitsOf :: "ablock list \<Rightarrow> (outpoint2 \<times> exitRec) list" where "exitsOf bs = concat (map ab_exits bs)"
definition leafVals :: "ablock list \<Rightarrow> int list" where "leafVals bs = map leafVal (rowsOf bs)"

text \<open>The root after the block with index \<open>k\<close>, computed from the notes alone.\<close>

definition rootAfter :: "hash2 \<Rightarrow> ablock list \<Rightarrow> nat \<Rightarrow> bytes" where
  "rootAfter H2 bs k = bigTo32 (node H2 (leafVals (take (Suc k) bs)) TREE_DEPTH 0)"

definition blockOk :: "int \<Rightarrow> ablock \<Rightarrow> bool" where
  "blockOk h b = ((\<forall>l\<in>set (ab_leaves b). fl_height l = h \<and> leafVal l < P_FR) \<and> (\<forall>n\<in>set (ab_nfs b). nr_height (snd n) = h \<and> length (fst n) = 32)
     \<and> (\<forall>x\<in>set (ab_exits b). er_height (snd x) = h))"

definition ledgerOk :: "int \<Rightarrow> ablock list \<Rightarrow> bool" where
  "ledgerOk s bs = ((\<forall>k<length bs. blockOk (s + int k) (bs ! k)) \<and> map fl_leafIndex (rowsOf bs) = [0..<length (rowsOf bs)]
     \<and> length (rowsOf bs) \<le> 2 ^ 32 \<and> distinct (map fst (nfsOf bs)) \<and> distinct (map fst (exitsOf bs)))"

definition undoOf :: "hash2 \<Rightarrow> int \<Rightarrow> ablock list \<Rightarrow> nat \<Rightarrow> undoRec" where
  "undoOf H2 s bs k = \<lparr>un_leafStart = length (rowsOf (take k bs)), un_nullifiers = map fst (ab_nfs (bs ! k)),
     un_exits = map fst (ab_exits (bs ! k)),
     un_pruned = (if 144 \<le> k then [(s + int k - 144, rootAfter H2 bs (k - 144))] else [])\<rparr>"

subsection \<open>The state and the ledger\<close>

definition coreOf :: "hash2 \<Rightarrow> poolSt \<Rightarrow> int \<Rightarrow> ablock list \<Rightarrow> bool" where
  "coreOf H2 st s bs = (ledgerOk s bs \<and> treeInv H2 (bp_tree st) (leafVals bs) \<and> bp_leafHeights st = map fl_height (rowsOf bs)
     \<and> bp_nullifiers st = map_of (nfsOf bs) \<and> bp_exits st = map_of (exitsOf bs) \<and> bp_maxLeaves st = MAX_LEAVES)"

definition rootsOf :: "hash2 \<Rightarrow> int \<Rightarrow> ablock list \<Rightarrow> int \<rightharpoonup> bytes" where
  "rootsOf H2 s bs h =
     (if s \<le> h \<and> s + int (length bs) - 144 \<le> h \<and> h < s + int (length bs) then Some (rootAfter H2 bs (nat (h - s))) else None)"

definition undosOf :: "hash2 \<Rightarrow> int \<Rightarrow> nat \<Rightarrow> ablock list \<Rightarrow> int \<rightharpoonup> undoRec" where
  "undosOf H2 s d bs h =
     (if s + int (length bs) - int d \<le> h \<and> h < s + int (length bs) then Some (undoOf H2 s bs (nat (h - s))) else None)"

text \<open>\<open>d\<close> is the number of blocks that can be undone.\<close>

definition booksOf :: "hash2 \<Rightarrow> poolSt \<Rightarrow> int \<Rightarrow> nat \<Rightarrow> ablock list \<Rightarrow> bool" where
  "booksOf H2 st s d bs = ((bp_tip st = Some (s + int (length bs) - 1) \<or> (bs = [] \<and> bp_tip st = None)) \<and> d \<le> length bs \<and> d \<le> 288
     \<and> distinct (map fst (bp_roots st)) \<and> map_of (bp_roots st) = rootsOf H2 s bs \<and> map_of (bp_undo st) = undosOf H2 s d bs)"

definition refines :: "hash2 \<Rightarrow> poolSt \<Rightarrow> int \<Rightarrow> nat \<Rightarrow> ablock list \<Rightarrow> bool" where
  "refines H2 st s d bs = (bp_pending st = None \<and> coreOf H2 st s bs \<and> booksOf H2 st s d bs)"

definition pendingFor :: "int \<Rightarrow> ablock list \<Rightarrow> ablock \<Rightarrow> pendingBlock \<Rightarrow> bool" where
  "pendingFor s bs b p = (pb_height p = s + int (length bs) \<and> pb_leafStart p = length (rowsOf bs) \<and> pb_leaves p = ab_leaves b
     \<and> pb_nullifiers p = ab_nfs b \<and> pb_exits p = ab_exits b)"

definition openOn :: "hash2 \<Rightarrow> poolSt \<Rightarrow> int \<Rightarrow> nat \<Rightarrow> ablock list \<Rightarrow> ablock \<Rightarrow> bool" where
  "openOn H2 st s d bs b = ((\<exists>p. bp_pending st = Some p \<and> pendingFor s bs b p) \<and> coreOf H2 st s (bs @ [b]) \<and> booksOf H2 st s d bs)"

subsection \<open>Facts on ledgers\<close>

lemma rows_simps [simp]:
  "rowsOf [] = []" "nfsOf [] = []" "exitsOf [] = []" "leafVals [] = []"
  "rowsOf (xs @ ys) = rowsOf xs @ rowsOf ys" "nfsOf (xs @ ys) = nfsOf xs @ nfsOf ys"
  "exitsOf (xs @ ys) = exitsOf xs @ exitsOf ys" "leafVals (xs @ ys) = leafVals xs @ leafVals ys"
  "rowsOf (b # bs) = ab_leaves b @ rowsOf bs" "nfsOf (b # bs) = ab_nfs b @ nfsOf bs" "exitsOf (b # bs) = ab_exits b @ exitsOf bs"
  by (simp_all add: rowsOf_def nfsOf_def exitsOf_def leafVals_def)

lemma length_leafVals [simp]: "length (leafVals bs) = length (rowsOf bs)"
  by (simp add: leafVals_def)

lemma emptyBlock_simps [simp]: "ab_leaves emptyBlock = []" "ab_nfs emptyBlock = []" "ab_exits emptyBlock = []"
  by (simp_all add: emptyBlock_def)

lemma rootAfter_append: "k < length bs \<Longrightarrow> rootAfter H2 (bs @ cs) k = rootAfter H2 bs k"
  by (simp add: rootAfter_def)

lemma undoOf_append: "k < length bs \<Longrightarrow> undoOf H2 s (bs @ cs) k = undoOf H2 s bs k"
  by (simp add: undoOf_def rootAfter_append nth_append)

lemma upt_append_inj: "xs @ ys = [0..<length xs + length ys] \<Longrightarrow> xs = [0..<length xs]"
  by (metis append_eq_append_conv length_upt diff_zero upt_add_eq_append le0 add_0)

lemma ledgerOk_prefix: "ledgerOk s (bs @ cs) \<Longrightarrow> ledgerOk s bs"
proof -
  assume ok: "ledgerOk s (bs @ cs)"
  have "blockOk (s + int k) (bs ! k)" if "k < length bs" for k
    using ok that by (simp add: ledgerOk_def nth_append) (metis trans_less_add1)
  moreover have "map fl_leafIndex (rowsOf bs) = [0..<length (rowsOf bs)]"
    using ok upt_append_inj [of "map fl_leafIndex (rowsOf bs)" "map fl_leafIndex (rowsOf cs)"] by (simp add: ledgerOk_def)
  ultimately show ?thesis using ok by (simp add: ledgerOk_def)
qed

lemma ledgerOk_empty: "ledgerOk s bs \<Longrightarrow> ledgerOk s (bs @ [emptyBlock])"
  by (auto simp: ledgerOk_def nth_append blockOk_def)

lemma map_of_snoc: "k \<notin> fst ` set xs \<Longrightarrow> map_of (xs @ [(k, v)]) = (map_of xs)(k \<mapsto> v)"
  using map_of_eq_None_iff [of xs k] by (intro ext) (auto simp: map_add_def split: option.split)

lemma deleteKeys_eq: "deleteKeys m ks x = (if x \<in> set ks then None else m x)"
  unfolding deleteKeys_def by (induction ks arbitrary: m) auto

lemma deleteKeys_map_of:
  "distinct (map fst (xs @ ys)) \<Longrightarrow> deleteKeys (map_of (xs @ ys)) (map fst ys) = map_of xs"
proof (rule ext)
  fix k
  assume "distinct (map fst (xs @ ys))"
  then have disj: "fst ` set xs \<inter> fst ` set ys = {}" by auto
  show "deleteKeys (map_of (xs @ ys)) (map fst ys) k = map_of xs k"
  proof (cases "k \<in> fst ` set ys")
    case True
    then have "k \<notin> fst ` set xs" using disj by blast
    with True show ?thesis by (simp add: deleteKeys_eq map_of_eq_None_iff [symmetric])
  next
    case False
    then have "map_of ys k = None" by (simp add: map_of_eq_None_iff)
    with False show ?thesis by (simp add: deleteKeys_eq map_add_def split: option.split)
  qed
qed

text \<open>The part of the state that follows the ledger, and the part that does not.\<close>

lemma coreOf_frame [simp]:
  "coreOf H2 (st\<lparr>bp_roots := r\<rparr>) s bs = coreOf H2 st s bs" "coreOf H2 (st\<lparr>bp_undo := u\<rparr>) s bs = coreOf H2 st s bs"
  "coreOf H2 (st\<lparr>bp_tip := t\<rparr>) s bs = coreOf H2 st s bs" "coreOf H2 (st\<lparr>bp_pending := p\<rparr>) s bs = coreOf H2 st s bs"
  by (simp_all add: coreOf_def)

lemma booksOf_frame [simp]:
  "booksOf H2 (st\<lparr>bp_tree := t\<rparr>) s d bs = booksOf H2 st s d bs" "booksOf H2 (st\<lparr>bp_leafHeights := h\<rparr>) s d bs = booksOf H2 st s d bs"
  "booksOf H2 (st\<lparr>bp_nullifiers := n\<rparr>) s d bs = booksOf H2 st s d bs" "booksOf H2 (st\<lparr>bp_exits := x\<rparr>) s d bs = booksOf H2 st s d bs"
  "booksOf H2 (st\<lparr>bp_pending := p\<rparr>) s d bs = booksOf H2 st s d bs"
  by (simp_all add: booksOf_def)

lemma books_empty [simp]: "rootsOf H2 s [] = Map.empty" "undosOf H2 s 0 [] = Map.empty"
  by (auto simp: rootsOf_def undosOf_def)

lemma new_refines: "refines H2 newPool s 0 []"
  by (auto simp: refines_def coreOf_def booksOf_def newPool_def ledgerOk_def new_tree)

text \<open>Cutting the newest blocks off, as an abort and every round of an undo do.\<close>

definition cutTo :: "poolSt \<Rightarrow> levels \<Rightarrow> nat \<Rightarrow> bytes list \<Rightarrow> outpoint2 list \<Rightarrow> poolSt" where
  "cutTo st tree n nfs xs = st\<lparr>bp_tree := tree, bp_leafHeights := take n (bp_leafHeights st),
     bp_nullifiers := deleteKeys (bp_nullifiers st) nfs, bp_exits := deleteKeys (bp_exits st) xs\<rparr>"

lemma cut_ok:
  assumes "coreOf H2 st s (bs @ cs)"
  obtains tree where "truncateTree H2 (bp_tree st) (length (rowsOf bs)) = Inr tree"
    "coreOf H2 (cutTo st tree (length (rowsOf bs)) (map fst (nfsOf cs)) (map fst (exitsOf cs))) s bs"
proof -
  have ok: "ledgerOk s (bs @ cs)" and inv: "treeInv H2 (bp_tree st) (leafVals bs @ leafVals cs)"
    using assms by (simp_all add: coreOf_def)
  obtain tree where tree: "truncateTree H2 (bp_tree st) (length (rowsOf bs)) = Inr tree"
      "treeInv H2 tree (take (length (rowsOf bs)) (leafVals bs @ leafVals cs))"
    using truncate_ok [OF inv, of "length (rowsOf bs)"] by auto
  have "distinct (map fst (nfsOf bs @ nfsOf cs))" "distinct (map fst (exitsOf bs @ exitsOf cs))"
    using ok by (simp_all add: ledgerOk_def)
  note del = this [THEN deleteKeys_map_of]
  have "treeInv H2 tree (leafVals bs)" using tree(2) by simp
  then have "coreOf H2 (cutTo st tree (length (rowsOf bs)) (map fst (nfsOf cs)) (map fst (exitsOf cs))) s bs"
    using assms del ledgerOk_prefix [OF ok] by (simp add: coreOf_def cutTo_def)
  with tree(1) show ?thesis by (rule that)
qed

lemma core_unique:
  assumes "coreOf H2 st s bs" "coreOf H2 st' s bs" "bp_roots st = bp_roots st'" "bp_undo st = bp_undo st'" "bp_tip st = bp_tip st'"
    "bp_pending st = bp_pending st'"
  shows "st = st'"
  using assms treeInv_unique [of H2 "bp_tree st" "leafVals bs" "bp_tree st'"] by (auto simp: coreOf_def intro: poolSt.equality)

text \<open>Two states of one ledger differ at most in how far back they can be undone.\<close>

lemma refines_same:
  assumes "refines H2 st s d bs" "refines H2 st' s d' bs" "bs \<noteq> []"
  shows "bp_tree st = bp_tree st' \<and> bp_leafHeights st = bp_leafHeights st' \<and> bp_nullifiers st = bp_nullifiers st'
    \<and> bp_exits st = bp_exits st' \<and> bp_tip st = bp_tip st' \<and> map_of (bp_roots st) = map_of (bp_roots st')"
  using assms treeInv_unique [of H2 "bp_tree st" "leafVals bs" "bp_tree st'"] by (simp add: refines_def coreOf_def booksOf_def)

subsection \<open>Opening, aborting\<close>

lemma begin_ok:
  assumes "refines H2 st s d bs" "beginBlock st h = Inr st'"
  obtains s' where "openOn H2 st' s' d bs emptyBlock" "h = s' + int (length bs)" "bp_tip st \<noteq> None \<Longrightarrow> s' = s"
    "refines H2 st s' d bs"
proof -
  define s' where "s' = h - int (length bs)"
  have st': "st' = st\<lparr>bp_pending := Some \<lparr>pb_height = h, pb_leafStart = treeSize (bp_tree st), pb_leaves = [],
      pb_nullifiers = [], pb_exits = [], pb_wants = []\<rparr>\<rparr>"
    using assms(2) by (auto simp: beginBlock_def split: if_splits)
  have tip: "bp_tip st = None \<or> (bp_tip st = Some (h - 1) \<and> s' = s)"
    using assms by (auto simp: beginBlock_def refines_def booksOf_def s'_def split: if_splits)
  then have ref: "refines H2 st s' d bs"
    using assms(1) by (auto simp: refines_def coreOf_def booksOf_def ledgerOk_def)
  then have "treeSize (bp_tree st) = length (rowsOf bs)" by (auto simp: refines_def coreOf_def dest: treeInv_size)
  then have "openOn H2 st' s' d bs emptyBlock"
    using ref ledgerOk_empty [of s' bs] by (auto simp: openOn_def refines_def pendingFor_def st' s'_def coreOf_def leafVals_def)
  then show ?thesis by (rule that) (use tip ref in \<open>auto simp: s'_def\<close>)
qed

lemma abort_open:
  assumes "openOn H2 st s d bs b"
  obtains st' where "abortBlock H2 st = Inr st'" "refines H2 st' s d bs" "bp_roots st' = bp_roots st" "bp_undo st' = bp_undo st"
    "bp_tip st' = bp_tip st"
proof -
  obtain p where p: "bp_pending st = Some p" "pendingFor s bs b p" and core: "coreOf H2 st s (bs @ [b])" and
      books: "booksOf H2 st s d bs"
    using assms by (auto simp: openOn_def)
  obtain tree where tree: "truncateTree H2 (bp_tree st) (length (rowsOf bs)) = Inr tree"
      "coreOf H2 (cutTo st tree (length (rowsOf bs)) (map fst (nfsOf [b])) (map fst (exitsOf [b]))) s bs"
    using cut_ok [OF core] by blast
  define st' where "st' = (cutTo st tree (length (rowsOf bs)) (map fst (nfsOf [b])) (map fst (exitsOf [b])))\<lparr>bp_pending := None\<rparr>"
  have "abortBlock H2 st = Inr st'"
    using p tree(1) by (simp add: abortBlock_def pendingFor_def st'_def cutTo_def)
  moreover have "refines H2 st' s d bs"
    unfolding st'_def refines_def coreOf_frame booksOf_frame using tree(2) books by (simp add: cutTo_def)
  ultimately show ?thesis by (rule that) (simp_all add: st'_def cutTo_def)
qed

lemma abort_restores:
  assumes "refines H2 st0 s d bs" "openOn H2 st s d bs b" "bp_roots st = bp_roots st0" "bp_undo st = bp_undo st0" "bp_tip st = bp_tip st0"
  shows "abortBlock H2 st = Inr st0"
proof -
  obtain st' where st': "abortBlock H2 st = Inr st'" "refines H2 st' s d bs" "bp_roots st' = bp_roots st" "bp_undo st' = bp_undo st"
      "bp_tip st' = bp_tip st"
    using abort_open [OF assms(2)] .
  have "st' = st0"
    by (rule core_unique [of H2 st' s bs st0]) (use st' assms in \<open>auto simp: refines_def\<close>)
  with st'(1) show ?thesis by simp
qed

subsection \<open>Adding to the open block\<close>

definition sameBooks :: "poolSt \<Rightarrow> poolSt \<Rightarrow> bool" where
  "sameBooks st st' = (bp_roots st' = bp_roots st \<and> bp_undo st' = bp_undo st \<and> bp_tip st' = bp_tip st)"

lemma sameBooks_refl [simp]: "sameBooks st st"
  by (simp add: sameBooks_def)

lemma sameBooks_trans: "sameBooks a b \<Longrightarrow> sameBooks b c \<Longrightarrow> sameBooks a c"
  by (simp add: sameBooks_def)

lemma openOn_pending: "openOn H2 st s d bs b \<Longrightarrow> bp_pending st = Some p \<Longrightarrow> pendingFor s bs b p"
  by (auto simp: openOn_def)

lemma openOn_size: "openOn H2 st s d bs b \<Longrightarrow> treeSize (bp_tree st) = length (rowsOf bs) + length (ab_leaves b)"
  by (auto simp: openOn_def coreOf_def dest: treeInv_size)

lemma openI:
  assumes "bp_pending st = Some p" "pendingFor s bs b p" "coreOf H2 st s (bs @ [b])" "booksOf H2 st s d bs"
  shows "openOn H2 st s d bs b"
  using assms by (auto simp: openOn_def)

lemma blockOk_last: "ledgerOk s (bs @ [b]) \<Longrightarrow> blockOk (s + int (length bs)) b"
  by (auto simp: ledgerOk_def dest: spec [of _ "length bs"])

lemma blocks_snoc: "(\<forall>k<length (bs @ [b]). P k ((bs @ [b]) ! k)) = ((\<forall>k<length bs. P k (bs ! k)) \<and> P (length bs) b)"
  by (auto simp: nth_append less_Suc_eq)

lemma pushLeaf_ok:
  assumes "openOn H2 st s d bs b" "bp_pending st = Some p" "length (rowsOf (bs @ [b])) < 2 ^ 32"
    "appendLeaf H2 (bp_tree st) (po_leaf out) = Inr (tree, idx)"
    "full = \<lparr>fl_output = out, fl_txid = txid, fl_asset = asset, fl_leafIndex = idx, fl_height = pb_height p\<rparr>"
  shows "openOn H2 (pushLeaf st tree p full) s d bs (b\<lparr>ab_leaves := ab_leaves b @ [full]\<rparr>)"
proof -
  let ?b = "b\<lparr>ab_leaves := ab_leaves b @ [full]\<rparr>"
  have p: "pendingFor s bs b p" using openOn_pending [OF assms(1,2)] .
  have core: "coreOf H2 st s (bs @ [b])" and books: "booksOf H2 st s d bs" using assms(1) by (auto simp: openOn_def)
  have val: "leafVal full = bytesToBig (po_leaf out)" "leafVal full < P_FR"
    using assms(4,5) by (auto simp: leafVal_def appendLeaf_def Let_def split: if_splits)
  obtain tree' where "appendLeaf H2 (bp_tree st) (po_leaf out) = Inr (tree', length (leafVals (bs @ [b])))"
      "treeInv H2 tree' (leafVals (bs @ [b]) @ [leafVal full])"
    using append_ok [of H2 "bp_tree st" "leafVals (bs @ [b])" "po_leaf out"] core assms(3) val by (auto simp: coreOf_def)
  then have tree: "treeInv H2 tree (leafVals (bs @ [?b]))" and idx: "idx = length (rowsOf (bs @ [b]))"
    using assms(4) by (auto simp: leafVals_def)
  have ok: "ledgerOk s (bs @ [b])" using core by (simp add: coreOf_def)
  have "blockOk (s + int (length bs)) ?b"
    using blockOk_last [OF ok] assms(5) p val(2) by (auto simp: blockOk_def pendingFor_def)
  then have "ledgerOk s (bs @ [?b])"
    using ok idx assms(3,5) unfolding ledgerOk_def blocks_snoc [where P = "\<lambda>k. blockOk (s + int k)"] by (simp add: Suc_le_eq)
  then have "coreOf H2 (pushLeaf st tree p full) s (bs @ [?b])"
    using core tree p assms(5) by (simp add: coreOf_def pushLeaf_def pendingFor_def)
  then show ?thesis
    using p books by (intro openI [where p = "p\<lparr>pb_leaves := pb_leaves p @ [full]\<rparr>"]) (simp_all add: pushLeaf_def pendingFor_def)
qed

lemma appendLeaves_ok:
  "openOn H2 st s d bs b \<Longrightarrow> length (rowsOf (bs @ [b])) + length outs \<le> 2 ^ 32 \<Longrightarrow> appendLeaves H2 asset txid st outs = (r, st') \<Longrightarrow>
   \<exists>ls. openOn H2 st' s d bs (b\<lparr>ab_leaves := ab_leaves b @ ls\<rparr>) \<and> sameBooks st st' \<and>
     (\<forall>fs. r = Inr fs \<longrightarrow> fs = ls \<and> map fl_output ls = outs \<and> bp_nullifiers st' = bp_nullifiers st \<and> bp_exits st' = bp_exits st)"
proof (induction outs arbitrary: st b r st')
  case Nil
  then show ?case by (intro exI [where x = "[]"]) auto
next
  case (Cons out outs)
  obtain p where p: "bp_pending st = Some p" using Cons.prems(1) by (auto simp: openOn_def)
  show ?case
  proof (cases "appendLeaf H2 (bp_tree st) (po_leaf out)")
    case (Inl e)
    then show ?thesis using Cons.prems p by (intro exI [where x = "[]"]) auto
  next
    case (Inr ti)
    obtain tree idx where ti: "ti = (tree, idx)" by fastforce
    define full where "full = \<lparr>fl_output = out, fl_txid = txid, fl_asset = asset, fl_leafIndex = idx, fl_height = pb_height p\<rparr>"
    let ?st = "pushLeaf st tree p full" and ?b = "b\<lparr>ab_leaves := ab_leaves b @ [full]\<rparr>"
    obtain r2 st2 where rec: "appendLeaves H2 asset txid ?st outs = (r2, st2)" by fastforce
    have "openOn H2 ?st s d bs ?b"
      by (rule pushLeaf_ok [OF Cons.prems(1) p _ _ full_def]) (use Inr ti Cons.prems(2) in auto)
    from Cons.IH [OF this _ rec] Cons.prems(2)
    obtain ls where ls: "openOn H2 st2 s d bs (?b\<lparr>ab_leaves := ab_leaves ?b @ ls\<rparr>)" "sameBooks ?st st2"
        "\<And>fs. r2 = Inr fs \<Longrightarrow> fs = ls \<and> map fl_output ls = outs \<and> bp_nullifiers st2 = bp_nullifiers st \<and> bp_exits st2 = bp_exits st"
      by (auto simp: pushLeaf_def)
    have r: "r = (case r2 of Inl e \<Rightarrow> Inl e | Inr fs \<Rightarrow> Inr (full # fs))" "st' = st2"
      using Cons.prems(3) p Inr ti rec by (auto simp: full_def Let_def split: sum.splits)
    show ?thesis
    proof (intro exI [where x = "full # ls"] conjI allI impI)
      show "openOn H2 st' s d bs (b\<lparr>ab_leaves := ab_leaves b @ full # ls\<rparr>)" using ls(1) r by simp
      show "sameBooks st st'" using ls(2) r by (simp add: sameBooks_def pushLeaf_def)
    qed (use r ls(3) in \<open>auto simp: full_def split: sum.splits\<close>)
  qed
qed

lemma recordNullifier_ok:
  assumes "openOn H2 st s d bs b" "bp_pending st = Some p" "bp_nullifiers st nf = None" "length nf = 32"
  shows "openOn H2 (recordNullifier cr st p nf) s d bs
    (b\<lparr>ab_nfs := ab_nfs b @ [(nf, \<lparr>nr_height = s + int (length bs), nr_txid = cr_txid cr\<rparr>)]\<rparr>)"
proof -
  define rc where "rc = \<lparr>nr_height = s + int (length bs), nr_txid = cr_txid cr\<rparr>"
  let ?b = "b\<lparr>ab_nfs := ab_nfs b @ [(nf, rc)]\<rparr>"
  have p: "pendingFor s bs b p" using openOn_pending [OF assms(1,2)] .
  have core: "coreOf H2 st s (bs @ [b])" and books: "booksOf H2 st s d bs" using assms(1) by (auto simp: openOn_def)
  then have new: "nf \<notin> fst ` set (nfsOf (bs @ [b]))"
    using assms(3) map_of_eq_None_iff [of "nfsOf (bs @ [b])" nf] by (simp add: coreOf_def)
  have ok: "ledgerOk s (bs @ [b])" using core by (simp add: coreOf_def)
  have "blockOk (s + int (length bs)) ?b" using blockOk_last [OF ok] assms(4) by (auto simp: blockOk_def rc_def)
  then have "ledgerOk s (bs @ [?b])"
    using ok new unfolding ledgerOk_def blocks_snoc [where P = "\<lambda>k. blockOk (s + int k)"] by auto
  moreover have "map_of (nfsOf (bs @ [?b])) = (bp_nullifiers st)(nf \<mapsto> rc)"
    using core map_of_snoc [OF new, of rc] by (simp add: coreOf_def)
  ultimately have "coreOf H2 (recordNullifier cr st p nf) s (bs @ [?b])"
    using core p by (simp add: coreOf_def recordNullifier_def pendingFor_def rc_def Let_def leafVals_def)
  then show ?thesis
    using p books unfolding rc_def [symmetric]
    by (intro openI [where p = "p\<lparr>pb_nullifiers := pb_nullifiers p @ [(nf, rc)]\<rparr>"])
      (simp_all add: recordNullifier_def pendingFor_def Let_def rc_def)
qed

lemma recordNullifiers_ok:
  "openOn H2 st s d bs b \<Longrightarrow> distinct nfs \<Longrightarrow> \<forall>nf\<in>set nfs. bp_nullifiers st nf = None \<Longrightarrow> \<forall>nf\<in>set nfs. length nf = 32 \<Longrightarrow>
   openOn H2 (recordNullifiers cr st nfs) s d bs
     (b\<lparr>ab_nfs := ab_nfs b @ map (\<lambda>nf. (nf, \<lparr>nr_height = s + int (length bs), nr_txid = cr_txid cr\<rparr>)) nfs\<rparr>)
   \<and> sameBooks st (recordNullifiers cr st nfs) \<and> bp_exits (recordNullifiers cr st nfs) = bp_exits st"
proof (induction nfs arbitrary: st b)
  case (Cons nf nfs)
  obtain p where p: "bp_pending st = Some p" using Cons.prems(1) by (auto simp: openOn_def)
  let ?st = "recordNullifier cr st p nf"
  have "openOn H2 ?st s d bs (b\<lparr>ab_nfs := ab_nfs b @ [(nf, \<lparr>nr_height = s + int (length bs), nr_txid = cr_txid cr\<rparr>)]\<rparr>)"
    by (rule recordNullifier_ok [OF Cons.prems(1) p]) (use Cons.prems in auto)
  moreover have "\<forall>n\<in>set nfs. bp_nullifiers ?st n = None"
    using Cons.prems by (auto simp: recordNullifier_def Let_def)
  moreover have "sameBooks st ?st" "bp_exits ?st = bp_exits st" by (simp_all add: recordNullifier_def Let_def sameBooks_def)
  ultimately show ?case using Cons.IH [of ?st "b\<lparr>ab_nfs := ab_nfs b @ [(nf, \<lparr>nr_height = s + int (length bs), nr_txid = cr_txid cr\<rparr>)]\<rparr>"]
      Cons.prems(2,4) p by (auto intro: sameBooks_trans)
qed simp

lemma recordExit_ok:
  assumes "openOn H2 st s d bs b" "bp_pending st = Some p" "bp_exits st (cr_txid cr, xc_exitVout x) = None"
    "recordExit V cr st p asset x = (r, st')"
  obtains "r = Inl (Err ''null point'')" "st' = st"
  | rc where "openOn H2 st' s d bs (b\<lparr>ab_exits := ab_exits b @ [((cr_txid cr, xc_exitVout x), rc)]\<rparr>)" "sameBooks st st'" "r = Inr ()"
    "er_asset rc = asset"
proof (cases "pointFromCompressed (cv_fromHex (pv_curve V)) (bd_cSecp (xc_boundary x))")
  case None
  then show ?thesis using that(1) assms(4) by (simp add: recordExit_def)
next
  case (Some P)
  define key where "key = (cr_txid cr, xc_exitVout x)"
  define rc where "rc = \<lparr>er_asset = asset, er_cx = fst (pointXY (pv_curve V) P), er_cy = snd (pointXY (pv_curve V) P),
    er_height = pb_height p\<rparr>"
  let ?b = "b\<lparr>ab_exits := ab_exits b @ [(key, rc)]\<rparr>" and ?p = "p\<lparr>pb_exits := pb_exits p @ [(key, rc)]\<rparr>"
  have st': "st' = st\<lparr>bp_exits := (bp_exits st)(key \<mapsto> rc), bp_pending := Some ?p\<rparr>" "r = Inr ()"
    using assms(4) Some by (simp_all add: recordExit_def Let_def case_prod_beta key_def rc_def)
  have p: "pendingFor s bs b p" using openOn_pending [OF assms(1,2)] .
  have core: "coreOf H2 st s (bs @ [b])" and books: "booksOf H2 st s d bs" using assms(1) by (auto simp: openOn_def)
  then have new: "key \<notin> fst ` set (exitsOf (bs @ [b]))"
    using assms(3) map_of_eq_None_iff [of "exitsOf (bs @ [b])" key] by (simp add: coreOf_def key_def)
  have ok: "ledgerOk s (bs @ [b])" using core by (simp add: coreOf_def)
  have "blockOk (s + int (length bs)) ?b" using blockOk_last [OF ok] p by (auto simp: blockOk_def rc_def pendingFor_def)
  then have "ledgerOk s (bs @ [?b])"
    using ok new unfolding ledgerOk_def blocks_snoc [where P = "\<lambda>k. blockOk (s + int k)"] by auto
  moreover have "map_of (exitsOf (bs @ [?b])) = (bp_exits st)(key \<mapsto> rc)"
    using core map_of_snoc [OF new, of rc] by (simp add: coreOf_def)
  ultimately have "coreOf H2 st' s (bs @ [?b])" using core by (simp add: coreOf_def st' leafVals_def)
  then have "openOn H2 st' s d bs ?b"
    using p books by (intro openI [where p = ?p]) (simp_all add: st' pendingFor_def)
  then show ?thesis
    by (intro that(2) [of rc]) (simp_all add: st' sameBooks_def key_def rc_def)
qed

lemma recordWant_ok:
  assumes "openOn H2 st s d bs b"
  shows "openOn H2 (recordWant cr st w) s d bs b \<and> sameBooks st (recordWant cr st w)"
proof -
  obtain p where p: "bp_pending st = Some p" "pendingFor s bs b p" using assms by (auto simp: openOn_def)
  show ?thesis
  proof (cases w)
    case (Some w')
    then show ?thesis
      using assms p by (auto simp: recordWant_def openOn_def pendingFor_def sameBooks_def)
  qed (use assms p in \<open>simp add: recordWant_def\<close>)
qed

subsection \<open>Accepting envelopes\<close>

lemma openOn_room:
  "openOn H2 st s d bs b \<Longrightarrow> \<not> treeSize (bp_tree st) + n > bp_maxLeaves st \<Longrightarrow> length (rowsOf (bs @ [b])) + n \<le> 2 ^ 32"
  using openOn_size [of H2 st s d bs b] by (auto simp: openOn_def coreOf_def MAX_LEAVES_def TREE_DEPTH_def)

lemma acceptShield_open:
  assumes "openOn (pv_H2 V) st s d bs b" "acceptShield V resolveInput cr st x = (r, st')"
  obtains ls where "openOn (pv_H2 V) st' s d bs (b\<lparr>ab_leaves := ab_leaves b @ ls\<rparr>)" "sameBooks st st'"
    "\<And>q. r = Inr (Rejected q) \<Longrightarrow> st' = st"
    "r = Inr Accepted \<Longrightarrow> map fl_output ls = sh_outputs x \<and> shieldChecks V resolveInput cr st x = Inr None"
proof -
  obtain p where p: "bp_pending st = Some p" using assms(1) by (auto simp: openOn_def)
  show ?thesis
  proof (cases "shieldChecks V resolveInput cr st x = Inr None")
    case False
    then have "st' = st" "r \<noteq> Inr Accepted"
      using assms(2) p by (auto simp: acceptShield_def split: sum.splits option.splits)
    with assms(1) show ?thesis by (intro that [of "[]"]) simp_all
  next
    case True
    then have room: "\<not> treeSize (bp_tree st) + length (sh_outputs x) > bp_maxLeaves st"
      by (auto simp: shieldChecks_def Let_def split: if_splits)
    obtain r2 where app: "appendLeaves (pv_H2 V) (sh_asset x) (cr_txid cr) st (sh_outputs x) = (r2, st')"
        and r: "r = map_sum id (\<lambda>_. Accepted) r2"
      using assms(2) p True by (auto simp: acceptShield_def apfst_def map_prod_def split: prod.splits)
    from appendLeaves_ok [OF assms(1) openOn_room [OF assms(1) room] app]
    obtain ls where ls: "openOn (pv_H2 V) st' s d bs (b\<lparr>ab_leaves := ab_leaves b @ ls\<rparr>)" "sameBooks st st'"
        "\<And>fs. r2 = Inr fs \<Longrightarrow> map fl_output ls = sh_outputs x"
      by blast
    show ?thesis
      by (rule that [OF ls(1,2)]) (use r ls(3) True in \<open>cases r2; auto\<close>)+
  qed
qed

lemma spendChecks_None:
  assumes "spendChecks V cr agg st p x = Inr None"
  obtains root exitC where "map_of (bp_roots st) (sp_hAnchor x) = Some root" "inWindow (pb_height p) x"
    "distinct (sp_nullifiers x)" "\<forall>nf\<in>set (sp_nullifiers x). bp_nullifiers st nf = None"
    "\<And>e. sp_exit x = Some e \<Longrightarrow> exitChecks V cr st p e = None"
    "\<not> treeSize (bp_tree st) + length (sp_outputs x) > bp_maxLeaves st"
    "exitBoundary V x = Some exitC"
    "proofChecks V agg x (envelopePublics (pv_sha256 V) x root exitC) = Inr None"
  using assms unfolding spendChecks_def
  by (cases "map_of (bp_roots st) (sp_hAnchor x)"; cases "sp_exit x"; cases "exitBoundary V x")
    (auto split: if_splits option.splits)

lemma exitChecks_None: "exitChecks V cr st p e = None \<Longrightarrow> bp_exits st (cr_txid cr, xc_exitVout e) = None"
  by (auto simp: exitChecks_def claimed_def split: if_splits option.splits)

definition spendBlock :: "ablock \<Rightarrow> int \<Rightarrow> bytes \<Rightarrow> spendEnv \<Rightarrow> fullLeaf list \<Rightarrow> (outpoint2 \<times> exitRec) list \<Rightarrow> ablock" where
  "spendBlock b h txid x ls es =
     b\<lparr>ab_nfs := ab_nfs b @ map (\<lambda>nf. (nf, \<lparr>nr_height = h, nr_txid = txid\<rparr>)) (sp_nullifiers x),
       ab_leaves := ab_leaves b @ ls, ab_exits := ab_exits b @ es\<rparr>"

text \<open>What the parser gives: nullifiers of 32 bytes.\<close>

definition spendOk :: "spendEnv \<Rightarrow> bool" where
  "spendOk x = (\<forall>nf\<in>set (sp_nullifiers x). length nf = 32)"

definition exitKeys :: "bytes \<Rightarrow> spendEnv \<Rightarrow> outpoint2 list" where
  "exitKeys txid x = (case sp_exit x of None \<Rightarrow> [] | Some e \<Rightarrow> [(txid, xc_exitVout e)])"

lemma applySpend_ok:
  assumes "openOn (pv_H2 V) st s d bs b" "distinct (sp_nullifiers x)" "\<forall>nf\<in>set (sp_nullifiers x). bp_nullifiers st nf = None"
    "\<And>e. sp_exit x = Some e \<Longrightarrow> bp_exits st (cr_txid cr, xc_exitVout e) = None"
    "length (rowsOf (bs @ [b])) + length (sp_outputs x) \<le> 2 ^ 32" "applySpend V cr st x = (r, st')" "spendOk x"
  obtains ls es where "openOn (pv_H2 V) st' s d bs (spendBlock b (s + int (length bs)) (cr_txid cr) x ls es)" "sameBooks st st'"
    "\<And>q. r \<noteq> Inr (Rejected q)" "r = Inr Accepted \<Longrightarrow> map fl_output ls = sp_outputs x \<and> map fst es = exitKeys (cr_txid cr) x"
proof -
  let ?h = "s + int (length bs)"
  define st1 where "st1 = recordNullifiers cr st (sp_nullifiers x)"
  define b1 where "b1 = b\<lparr>ab_nfs := ab_nfs b @ map (\<lambda>nf. (nf, \<lparr>nr_height = ?h, nr_txid = cr_txid cr\<rparr>)) (sp_nullifiers x)\<rparr>"
  have 1: "openOn (pv_H2 V) st1 s d bs b1" "sameBooks st st1" "bp_exits st1 = bp_exits st"
    using recordNullifiers_ok [OF assms(1-3) assms(7) [unfolded spendOk_def]] by (simp_all add: st1_def b1_def)
  obtain r2 st2 where app: "appendLeaves (pv_H2 V) (sp_asset x) (cr_txid cr) st1 (sp_outputs x) = (r2, st2)" by fastforce
  have "length (rowsOf (bs @ [b1])) + length (sp_outputs x) \<le> 2 ^ 32" using assms(5) by (simp add: b1_def)
  from appendLeaves_ok [OF 1(1) this app]
  obtain ls where ls: "openOn (pv_H2 V) st2 s d bs (b1\<lparr>ab_leaves := ab_leaves b1 @ ls\<rparr>)" "sameBooks st1 st2"
      "\<And>fs. r2 = Inr fs \<Longrightarrow> map fl_output ls = sp_outputs x \<and> bp_exits st2 = bp_exits st"
    using 1(3) by metis
  then have 2: "openOn (pv_H2 V) st2 s d bs (spendBlock b ?h (cr_txid cr) x ls [])"
    by (simp add: spendBlock_def b1_def)
  have same: "sameBooks st st2" using 1(2) ls(2) by (rule sameBooks_trans)
  obtain p where p: "bp_pending st2 = Some p" using 2 by (auto simp: openOn_def)
  show ?thesis
  proof (cases r2)
    case (Inl e)
    then show ?thesis using assms(6) app 2 same by (intro that [of ls "[]"]) (auto simp: applySpend_def st1_def)
  next
    case (Inr fs)
    show ?thesis
    proof (cases "sp_exit x")
      case None
      have "st' = recordWant cr st2 (sp_want x)" "r = Inr Accepted"
        using assms(6) app Inr None by (auto simp: applySpend_def st1_def split: option.splits)
      then show ?thesis
        using recordWant_ok [OF 2, of cr "sp_want x"] same ls(3) [OF Inr] None
        by (intro that [of ls "[]"]) (auto simp: exitKeys_def intro: sameBooks_trans)
    next
      case (Some e)
      obtain r3 st3 where ex: "recordExit V cr st2 p (sp_asset x) e = (r3, st3)" by fastforce
      have free: "bp_exits st2 (cr_txid cr, xc_exitVout e) = None" using ls(3) [OF Inr] assms(4) [OF Some] by simp
      from recordExit_ok [OF 2 p free ex] show ?thesis
      proof cases
        case 1
        then show ?thesis
          using assms(6) app Inr Some p ex 2 same by (intro that [of ls "[]"]) (auto simp: applySpend_def st1_def)
      next
        case (2 rc)
        then have o3: "openOn (pv_H2 V) st3 s d bs (spendBlock b ?h (cr_txid cr) x ls [((cr_txid cr, xc_exitVout e), rc)])"
          by (simp add: spendBlock_def)
        have "st' = recordWant cr st3 (sp_want x)" "r = Inr Accepted"
          using assms(6) app Inr Some p ex 2 by (auto simp: applySpend_def st1_def)
        then show ?thesis
          using recordWant_ok [OF o3, of cr "sp_want x"] 2 same ls(3) [OF Inr] Some
          by (intro that [of ls "[((cr_txid cr, xc_exitVout e), rc)]"]) (auto simp: exitKeys_def intro: sameBooks_trans)
      qed
    qed
  qed
qed

lemma acceptSpend_open:
  assumes "openOn (pv_H2 V) st s d bs b" "acceptSpend V cr agg st x = (r, st')" "spendOk x"
  obtains b' where "openOn (pv_H2 V) st' s d bs b'" "sameBooks st st'" "\<And>q. r = Inr (Rejected q) \<Longrightarrow> st' = st"
    "r = Inr Accepted \<Longrightarrow> (\<exists>ls es. b' = spendBlock b (s + int (length bs)) (cr_txid cr) x ls es
       \<and> map fl_output ls = sp_outputs x \<and> map fst es = exitKeys (cr_txid cr) x)
       \<and> (\<exists>p. bp_pending st = Some p \<and> spendChecks V cr agg st p x = Inr None)"
proof -
  obtain p where p: "bp_pending st = Some p" using assms(1) by (auto simp: openOn_def)
  show ?thesis
  proof (cases "spendChecks V cr agg st p x = Inr None")
    case False
    then have "st' = st" "r \<noteq> Inr Accepted"
      using assms(2) p by (auto simp: acceptSpend_def split: sum.splits option.splits)
    with assms(1) show ?thesis by (intro that [of b]) simp_all
  next
    case True
    then have app: "applySpend V cr st x = (r, st')" using assms(2) p by (simp add: acceptSpend_def)
    from True show ?thesis
    proof (rule spendChecks_None)
      assume nfs: "distinct (sp_nullifiers x)" "\<forall>nf\<in>set (sp_nullifiers x). bp_nullifiers st nf = None"
        and ex: "\<And>e. sp_exit x = Some e \<Longrightarrow> exitChecks V cr st p e = None"
        and room: "\<not> treeSize (bp_tree st) + length (sp_outputs x) > bp_maxLeaves st"
      from applySpend_ok [OF assms(1) nfs exitChecks_None [OF ex] openOn_room [OF assms(1) room] app assms(3)]
      show ?thesis using True p by (metis that)
    qed
  qed
qed

subsection \<open>Committing a block\<close>

lemma map_of_filter_key: "map_of (filter (\<lambda>(k, v). P k) al) k = (if P k then map_of al k else None)"
  by (induction al) auto

lemma fold_delete:
  "map_of (fold (\<lambda>(h, r) m. AList.delete h m) ps al) k = (if k \<in> fst ` set ps then None else map_of al k)"
proof (induction ps arbitrary: al)
  case (Cons p ps)
  then show ?case by (cases p) (auto simp: AList.delete_conv)
qed simp

lemma fold_delete_distinct:
  "distinct (map fst al) \<Longrightarrow> distinct (map fst (fold (\<lambda>(h, r) m. AList.delete h m) ps al))"
proof (induction ps arbitrary: al)
  case (Cons p ps)
  then show ?case by (cases p) (simp add: AList.distinct_delete)
qed simp

lemma alist_single:
  assumes "distinct (map fst al)" "\<And>k. map_of al k = (if k = a then Some v else None)"
  shows "al = [(a, v)]"
proof -
  have "(k, w) \<in> set al \<longleftrightarrow> (k, w) = (a, v)" for k w
    using assms(2) [of k] map_of_eq_Some_iff [OF assms(1), of k w] by auto
  then have set: "set al = {(a, v)}" by auto
  have "length al = card (set al)" using assms(1) by (simp add: distinct_card distinct_map)
  then obtain p where "al = [p]" using set by (auto simp: length_Suc_conv)
  then show ?thesis using set by auto
qed

lemma alist_empty: "(\<And>k. map_of al k = None) \<Longrightarrow> al = []"
  using map_of_eq_empty_iff [of al] by (auto simp: fun_eq_iff)

lemma rootsOf_last: "rootsOf H2 s (bs @ [b]) h =
    (if h = s + int (length bs) then Some (rootAfter H2 (bs @ [b]) (length bs))
     else if h = s + int (length bs) - 144 then None else rootsOf H2 s bs h)"
proof -
  have "rootAfter H2 (bs @ [b]) (nat (h - s)) = rootAfter H2 bs (nat (h - s))" if "s \<le> h" "h < s + int (length bs)"
    using that by (intro rootAfter_append) linarith
  then show ?thesis by (auto simp: rootsOf_def)
qed

lemma pruned_eq:
  assumes "booksOf H2 st s d bs"
  shows "filter (\<lambda>(h, r). h < s + int (length bs) + 1 - 144) (AList.update (s + int (length bs)) root (bp_roots st)) =
    un_pruned (undoOf H2 s (bs @ [b]) (length bs))" (is "?l = _")
proof -
  let ?n = "length bs"
  have dist: "distinct (map fst (AList.update (s + int ?n) root (bp_roots st)))"
    using assms by (intro AList.distinct_update) (simp add: booksOf_def)
  then have distl: "distinct (map fst ?l)" by (metis distinct_map_filter)
  have val: "map_of ?l k = (if k = s + int ?n - 144 \<and> 144 \<le> ?n then Some (rootAfter H2 bs (?n - 144)) else None)" for k
    using assms by (auto simp: map_of_filter_key AList.update_conv' booksOf_def rootsOf_def nat_diff_distrib)
  show ?thesis
  proof (cases "144 \<le> ?n")
    case True
    then have "?l = [(s + int ?n - 144, rootAfter H2 bs (?n - 144))]" using val by (intro alist_single [OF distl]) auto
    then show ?thesis using True by (simp add: undoOf_def rootAfter_append)
  next
    case False
    then have "?l = []" using val by (intro alist_empty) simp
    then show ?thesis using False by (simp add: undoOf_def)
  qed
qed

lemma undosOf_last: "d \<le> length bs \<Longrightarrow> d \<le> 288 \<Longrightarrow> undosOf H2 s (min 288 (Suc d)) (bs @ [b]) h =
    (if h = s + int (length bs) then Some (undoOf H2 s (bs @ [b]) (length bs))
     else if h \<le> s + int (length bs) - 288 then None else undosOf H2 s d bs h)"
proof -
  assume d: "d \<le> length bs" "d \<le> 288"
  have "undoOf H2 s (bs @ [b]) (nat (h - s)) = undoOf H2 s bs (nat (h - s))" if "s \<le> h" "h < s + int (length bs)"
    using that by (intro undoOf_append) linarith
  then show ?thesis using d by (auto simp: undosOf_def min_def)
qed

lemma endBlock_ok:
  assumes "openOn H2 st s d bs b" "endBlock H2 st = Inr (st', dl)"
  shows "refines H2 st' s (min 288 (Suc d)) (bs @ [b])"
    "dl_height dl = s + int (length bs)" "dl_root dl = rootAfter H2 (bs @ [b]) (length bs)" "dl_leaves dl = ab_leaves b"
    "dl_nullifiers dl = ab_nfs b" "dl_exits dl = ab_exits b"
proof -
  let ?h = "s + int (length bs)"
  obtain p where p: "bp_pending st = Some p" "pendingFor s bs b p" and core: "coreOf H2 st s (bs @ [b])" and
      books: "booksOf H2 st s d bs"
    using assms(1) by (auto simp: openOn_def)
  define root where "root = treeRoot H2 (bp_tree st)"
  define roots where "roots = AList.update ?h root (bp_roots st)"
  define pruned where "pruned = filter (\<lambda>(h, r). h < ?h + 1 - 144) roots"
  define u where "u = \<lparr>un_leafStart = pb_leafStart p, un_nullifiers = map fst (pb_nullifiers p),
    un_exits = map fst (pb_exits p), un_pruned = pruned\<rparr>"
  have h: "pb_height p = ?h" using p(2) by (simp add: pendingFor_def)
  have st': "st' = st\<lparr>bp_roots := fold (\<lambda>(h, r) m. AList.delete h m) pruned roots,
      bp_undo := filter (\<lambda>(h, u). \<not> h \<le> ?h - 288) (AList.update ?h u (bp_undo st)), bp_tip := Some ?h, bp_pending := None\<rparr>"
    and dl: "dl = \<lparr>dl_height = ?h, dl_root = root, dl_leaves = pb_leaves p, dl_nullifiers = pb_nullifiers p,
      dl_exits = pb_exits p, dl_pruned = pruned\<rparr>"
    using assms(2) p(1) by (auto simp: endBlock_def Let_def h root_def roots_def pruned_def u_def ANCHOR_WINDOW_def UNDO_DEPTH_def)
  have root: "root = rootAfter H2 (bs @ [b]) (length bs)"
    using core rootF_ok [of H2 "bp_tree st" "leafVals (bs @ [b])"] by (simp add: root_def treeRoot_def rootAfter_def coreOf_def)
  have pr: "pruned = un_pruned (undoOf H2 s (bs @ [b]) (length bs))"
    unfolding pruned_def roots_def by (rule pruned_eq [OF books])
  have u: "u = undoOf H2 s (bs @ [b]) (length bs)"
    using p(2) pr by (simp add: u_def undoOf_def pendingFor_def)
  have tips: "d \<le> length bs" "d \<le> 288" "distinct (map fst (bp_roots st))" "map_of (bp_roots st) = rootsOf H2 s bs"
      "map_of (bp_undo st) = undosOf H2 s d bs"
    using books by (simp_all add: booksOf_def)
  have "map_of (bp_roots st') k = rootsOf H2 s (bs @ [b]) k" for k
  proof -
    have "k \<in> fst ` set pruned \<longleftrightarrow> k = ?h - 144 \<and> 144 \<le> length bs" by (auto simp: pr undoOf_def)
    moreover have "rootsOf H2 s bs k = None" if "k = ?h - 144" "\<not> 144 \<le> length bs" using that by (simp add: rootsOf_def)
    ultimately show ?thesis
      unfolding rootsOf_last using tips(4) root by (auto simp: st' fold_delete roots_def AList.update_conv')
  qed
  moreover have "distinct (map fst (bp_roots st'))"
    unfolding st' roots_def using tips(3) by (simp add: fold_delete_distinct AList.distinct_update)
  moreover have "map_of (bp_undo st') k = undosOf H2 s (min 288 (Suc d)) (bs @ [b]) k" for k
    unfolding undosOf_last [OF tips(1,2)] using tips(5) u
    by (simp add: st' map_of_filter_key [of "\<lambda>k. \<not> k \<le> ?h - 288"] AList.update_conv')
  ultimately have "booksOf H2 st' s (min 288 (Suc d)) (bs @ [b])"
    using tips(1,2) by (auto simp: booksOf_def st')
  moreover have "coreOf H2 st' s (bs @ [b])" unfolding st' using core by simp
  ultimately show "refines H2 st' s (min 288 (Suc d)) (bs @ [b])" by (simp add: refines_def st')
  show "dl_height dl = s + int (length bs)" "dl_root dl = rootAfter H2 (bs @ [b]) (length bs)" "dl_leaves dl = ab_leaves b"
    "dl_nullifiers dl = ab_nfs b" "dl_exits dl = ab_exits b"
    using p(2) root by (simp_all add: dl pendingFor_def)
qed

lemma endBlock_total: "openOn H2 st s d bs b \<Longrightarrow> \<exists>st' dl. endBlock H2 st = Inr (st', dl)"
  by (auto simp: openOn_def endBlock_def Let_def)

subsection \<open>Undoing blocks\<close>

lemma fold_update_pruned: "fold (\<lambda>(ph, r) m. AList.update ph r m) (if c then [(a, v)] else []) m = (if c then AList.update a v m else m)"
  by simp

lemma undoOne_ok:
  assumes "refines H2 st s (Suc d) (bs @ [b])"
  obtains st' where "undoOne H2 st (s + int (length bs)) = Inr st'" "refines H2 (st'\<lparr>bp_tip := Some (s + int (length bs) - 1)\<rparr>) s d bs"
    "bp_tip st' = bp_tip st"
proof -
  let ?h = "s + int (length bs)"
  have core: "coreOf H2 st s (bs @ [b])" and books: "booksOf H2 st s (Suc d) (bs @ [b])" and pend: "bp_pending st = None"
    using assms by (simp_all add: refines_def)
  have tips: "d \<le> length bs" "Suc d \<le> 288" "distinct (map fst (bp_roots st))" "map_of (bp_roots st) = rootsOf H2 s (bs @ [b])"
      "map_of (bp_undo st) = undosOf H2 s (Suc d) (bs @ [b])"
    using books by (simp_all add: booksOf_def)
  have u: "map_of (bp_undo st) ?h = Some (undoOf H2 s (bs @ [b]) (length bs))" using tips(5) by (simp add: undosOf_def)
  obtain tree where tree: "truncateTree H2 (bp_tree st) (length (rowsOf bs)) = Inr tree"
      "coreOf H2 (cutTo st tree (length (rowsOf bs)) (map fst (nfsOf [b])) (map fst (exitsOf [b]))) s bs"
    using cut_ok [OF core] by blast
  define roots where "roots = (if 144 \<le> length bs
    then AList.update (?h - 144) (rootAfter H2 (bs @ [b]) (length bs - 144)) (AList.delete ?h (bp_roots st))
    else AList.delete ?h (bp_roots st))"
  define st' where "st' = (cutTo st tree (length (rowsOf bs)) (map fst (nfsOf [b])) (map fst (exitsOf [b])))
    \<lparr>bp_roots := roots, bp_undo := AList.delete ?h (bp_undo st)\<rparr>"
  have res: "undoOne H2 st ?h = Inr st'"
    unfolding undoOne_def u using tree(1)
    by (simp add: undoOf_def fold_update_pruned roots_def st'_def cutTo_def)
  have "map_of roots k = rootsOf H2 s bs k" for k
  proof -
    have "rootsOf H2 s bs ?h = None" "length bs \<ge> 144 \<Longrightarrow> rootsOf H2 s bs (?h - 144) = Some (rootAfter H2 (bs @ [b]) (length bs - 144))"
      "\<not> 144 \<le> length bs \<Longrightarrow> rootsOf H2 s bs (?h - 144) = None"
      by (simp_all add: rootsOf_def rootAfter_append nat_diff_distrib)
    then show ?thesis
      using tips(4) rootsOf_last [of H2 s bs b k] by (auto simp: roots_def AList.update_conv' AList.delete_conv)
  qed
  moreover have "distinct (map fst roots)"
    using tips(3) by (simp add: roots_def AList.distinct_update AList.distinct_delete)
  moreover have "map_of (AList.delete ?h (bp_undo st)) k = undosOf H2 s d bs k" for k
  proof -
    have "undoOf H2 s (bs @ [b]) (nat (k - s)) = undoOf H2 s bs (nat (k - s))" if "s \<le> k" "k < ?h"
      using that by (intro undoOf_append) linarith
    then show ?thesis using tips(1,5) by (auto simp: AList.delete_conv undosOf_def)
  qed
  ultimately have "booksOf H2 (st'\<lparr>bp_tip := Some (?h - 1)\<rparr>) s d bs"
    using tips(1,2) by (auto simp: booksOf_def st'_def)
  moreover have "coreOf H2 st' s bs" unfolding st'_def using tree(2) by simp
  ultimately have "refines H2 (st'\<lparr>bp_tip := Some (?h - 1)\<rparr>) s d bs" using pend by (simp add: refines_def st'_def cutTo_def)
  with res show ?thesis by (rule that) (simp add: st'_def cutTo_def)
qed

lemma undoOne_tip: "undoOne H2 (st\<lparr>bp_tip := t\<rparr>) h = map_sum id (\<lambda>x. x\<lparr>bp_tip := t\<rparr>) (undoOne H2 st h)"
  by (auto simp: undoOne_def split: option.splits sum.splits)

lemma undo_tip: "foldRes (undoOne H2) (st\<lparr>bp_tip := t\<rparr>) hs = map_sum id (\<lambda>x. x\<lparr>bp_tip := t\<rparr>) (foldRes (undoOne H2) st hs)"
  by (induction hs arbitrary: st) (auto simp: undoOne_tip split: sum.splits)

lemma heightsDown_Suc: "heightsDown (h + int (Suc n) - 1) h = (h + int n) # heightsDown (h + int n - 1) h"
  using upto_rec2 [of h "h + int n"] by (simp add: heightsDown_def)

lemma undo_blocks:
  "refines H2 st s d (bs @ cs) \<Longrightarrow> length cs \<le> d \<Longrightarrow>
   \<exists>st'. foldRes (undoOne H2) st (heightsDown (s + int (length bs) + int (length cs) - 1) (s + int (length bs))) = Inr st'
     \<and> refines H2 (st'\<lparr>bp_tip := Some (s + int (length bs) - 1)\<rparr>) s (d - length cs) bs"
proof (induction cs arbitrary: st d rule: rev_induct)
  case Nil
  then show ?case by (auto simp: heightsDown_def refines_def booksOf_def)
next
  case (snoc c cs)
  let ?h = "s + int (length bs)"
  obtain d' where d': "d = Suc d'" using snoc.prems(2) by (cases d) auto
  obtain st1 where st1: "undoOne H2 st (s + int (length (bs @ cs))) = Inr st1"
      "refines H2 (st1\<lparr>bp_tip := Some (s + int (length (bs @ cs)) - 1)\<rparr>) s d' (bs @ cs)"
    using undoOne_ok [of H2 st s d' "bs @ cs" c] snoc.prems(1) by (auto simp: d')
  obtain st2 where st2: "foldRes (undoOne H2) (st1\<lparr>bp_tip := Some (s + int (length (bs @ cs)) - 1)\<rparr>)
        (heightsDown (?h + int (length cs) - 1) ?h) = Inr st2"
      "refines H2 (st2\<lparr>bp_tip := Some (?h - 1)\<rparr>) s (d' - length cs) bs"
    using snoc.IH [OF st1(2)] snoc.prems(2) by (auto simp: d')
  then obtain st3 where st3: "foldRes (undoOne H2) st1 (heightsDown (?h + int (length cs) - 1) ?h) = Inr st3"
      "st2 = st3\<lparr>bp_tip := Some (s + int (length (bs @ cs)) - 1)\<rparr>"
    unfolding undo_tip by (cases "foldRes (undoOne H2) st1 (heightsDown (?h + int (length cs) - 1) ?h)") auto
  have "foldRes (undoOne H2) st (heightsDown (?h + int (length (cs @ [c])) - 1) ?h) = Inr st3"
    using heightsDown_Suc [of ?h "length cs"] st1(1) st3(1) by (simp add: add.assoc)
  then show ?case using st2(2) st3(2) by (auto simp: d')
qed

text \<open>A rollback from a state with no open block: the ledger keeps the blocks below the height.\<close>

lemma rollback_closed:
  assumes "refines H2 st s d (bs @ cs)" "cs \<noteq> []" "length cs \<le> d"
  obtains st' where "rollbackFrom H2 st (s + int (length bs)) = (Inr (), st')" "refines H2 st' s (d - length cs) bs"
proof -
  let ?h = "s + int (length bs)" and ?t = "s + int (length bs) + int (length cs) - 1"
  obtain st' where st': "foldRes (undoOne H2) st (heightsDown ?t ?h) = Inr st'"
      "refines H2 (st'\<lparr>bp_tip := Some (?h - 1)\<rparr>) s (d - length cs) bs"
    using undo_blocks [OF assms(1,3)] by blast
  have tip: "bp_tip st = Some ?t" "abortBlock H2 st = Inr st"
    using assms(1,2) by (auto simp: refines_def booksOf_def abortBlock_def)
  have "map_of (bp_undo st) k \<noteq> None" if "k \<in> set (heightsDown ?t ?h)" for k
    using that assms(1,3) by (auto simp: refines_def booksOf_def undosOf_def heightsDown_def)
  then have "rollbackFrom H2 st ?h = (Inr (), st'\<lparr>bp_tip := Some (?h - 1)\<rparr>)"
    using tip st'(1) assms(2) by (auto simp: rollbackFrom_def)
  with st'(2) show ?thesis by (intro that)
qed

lemma rollback_too_deep:
  assumes "refines H2 st s d bs" "bs \<noteq> []" "h < s + int (length bs) - int d"
  shows "rollbackFrom H2 st h = (Inl (Err ''ReorgTooDeepError''), st)"
proof -
  let ?t = "s + int (length bs) - 1"
  have tip: "bp_tip st = Some ?t" "abortBlock H2 st = Inr st"
    using assms(1,2) by (auto simp: refines_def booksOf_def abortBlock_def)
  have "map_of (bp_undo st) h = None" using assms(1,3) by (simp add: refines_def booksOf_def undosOf_def)
  moreover have "h \<le> ?t" using assms(3) by simp
  then have "h \<in> set (heightsDown ?t h)" by (simp add: heightsDown_def)
  ultimately show ?thesis using tip \<open>h \<le> ?t\<close> by (auto simp: rollbackFrom_def)
qed

end
