(* ===== verification/Pool_Restore.thy ===== *)
theory Pool_Restore
  imports Pool_Ledger
begin

text \<open>
  Counting notes by height (\<open>leafCountAt\<close>, \<open>firstLeafAt\<close>) and rebuilding the shielded pool's state from persisted
  rows (\<open>BtcPoolState.restore\<close>): the searches end and count right, and the rebuilt state refines the ledger whose rows
  were persisted.
\<close>

lemma leafSearch_ok:
  assumes "\<And>i. i < length xs \<Longrightarrow> before (xs ! i) = (i < n)" "length xs \<le> 2 ^ 30"
  shows "0 \<le> lo \<Longrightarrow> lo \<le> int n \<Longrightarrow> int n \<le> hi \<Longrightarrow> hi \<le> int (length xs) \<Longrightarrow> leafSearch before xs lo hi = Some (int n)"
proof (induction "nat (hi - lo)" arbitrary: lo hi rule: less_induct)
  case less
  have unfold: "leafSearch before xs lo hi = (if lo < hi then
        (let m = toInt32 (lo + hi) div 2 in
         if 0 \<le> m \<and> m < int (length xs) \<and> before (xs ! nat m) then leafSearch before xs (m + 1) hi
         else leafSearch before xs lo m)
      else Some lo)" by (rule leafSearch.simps)
  show ?case
  proof (cases "lo < hi")
    case False
    then show ?thesis using less.prems unfold by simp
  next
    case True
    have "lo + hi < 2 ^ 31" using less.prems(1,4) True assms(2) by simp
    then have m: "toInt32 (lo + hi) div 2 = (lo + hi) div 2" using less.prems(1) True by (simp add: toInt32_def)
    define m where "m = (lo + hi) div 2"
    have mb: "lo \<le> m" "m < hi" "0 \<le> m" "m < int (length xs)" using True less.prems by (auto simp: m_def)
    have test: "before (xs ! nat m) = (m < int n)" using assms(1) [of "nat m"] mb by auto
    have step: "leafSearch before xs lo hi = (if m < int n then leafSearch before xs (m + 1) hi else leafSearch before xs lo m)"
      using unfold True mb test unfolding m m_def [symmetric] by simp
    show ?thesis
    proof (cases "m < int n")
      case True
      then show ?thesis using step mb less.prems less.hyps [of hi "m + 1"] by simp
    next
      case False
      then show ?thesis using step mb less.prems less.hyps [of m lo] by simp
    qed
  qed
qed

subsection \<open>Heights of the notes\<close>

lemma in_rowsE:
  assumes "l \<in> set (rowsOf bs)"
  obtains j where "j < length bs" "l \<in> set (ab_leaves (bs ! j))"
proof -
  obtain b where "b \<in> set bs" "l \<in> set (ab_leaves b)" using assms by (auto simp: rowsOf_def)
  then show ?thesis using that by (metis in_set_conv_nth)
qed

lemma rows_height:
  assumes "ledgerOk s bs" "l \<in> set (rowsOf (take k bs))"
  shows "fl_height l < s + int k"
proof -
  obtain j where j: "j < k" "j < length bs" "l \<in> set (ab_leaves (bs ! j))"
    using in_rowsE [OF assms(2)] by (metis length_take min_less_iff_conj nth_take)
  then have "fl_height l = s + int j" using assms(1) by (auto simp: ledgerOk_def blockOk_def)
  then show ?thesis using j by simp
qed

lemma rows_height_ge:
  assumes "ledgerOk s bs" "l \<in> set (rowsOf (drop k bs))"
  shows "s + int k \<le> fl_height l"
proof -
  obtain j where j: "j < length bs - k" "l \<in> set (ab_leaves (bs ! (k + j)))"
    using in_rowsE [OF assms(2)] by (metis length_drop nth_drop nat_le_linear drop_all less_nat_zero_code list.size(3))
  then have "blockOk (s + int (k + j)) (bs ! (k + j))" using assms(1) by (simp only: ledgerOk_def)
  then have "fl_height l = s + int (k + j)" using j(2) by (simp add: blockOk_def)
  then show ?thesis by simp
qed

lemma rows_split: "rowsOf bs = rowsOf (take k bs) @ rowsOf (drop k bs)"
  by (metis append_take_drop_id rows_simps(5))

lemma height_split:
  assumes "ledgerOk s bs" "i < length (rowsOf bs)"
  shows "(fl_height (rowsOf bs ! i) < s + int k) = (i < length (rowsOf (take k bs)))"
proof (cases "i < length (rowsOf (take k bs))")
  case True
  then have "rowsOf bs ! i \<in> set (rowsOf (take k bs))" using rows_split [of bs k] by (metis nth_append nth_mem)
  then show ?thesis using rows_height [OF assms(1)] True by simp
next
  case False
  then have "rowsOf bs ! i = rowsOf (drop k bs) ! (i - length (rowsOf (take k bs)))"
    using rows_split [of bs k] by (metis nth_append)
  moreover have "i - length (rowsOf (take k bs)) < length (rowsOf (drop k bs))"
    using False assms(2) rows_split [of bs k] by (metis add_diff_inverse_nat length_append nat_add_left_cancel_less)
  ultimately have "rowsOf bs ! i \<in> set (rowsOf (drop k bs))" by simp
  then show ?thesis using rows_height_ge [OF assms(1), of _ k] False by force
qed

lemma rows_take_le: "length (rowsOf (take k bs)) \<le> length (rowsOf bs)"
  using rows_split [of bs k] by (metis length_append le_add1)

lemma firstLeafAt_ok:
  assumes "ledgerOk s bs" "length (rowsOf bs) \<le> 2 ^ 30"
  shows "firstLeafAt (map fl_height (rowsOf bs)) (s + int k) = Some (int (length (rowsOf (take k bs))))"
  unfolding firstLeafAt_def using height_split [OF assms(1)] assms(2) rows_take_le [of k bs]
  by (intro leafSearch_ok) auto

lemma leafCountAt_ok:
  assumes "coreOf H2 st s bs" "length (rowsOf bs) \<le> 2 ^ 30"
  shows "leafCountAt st (s + int k) = Some (int (length (rowsOf (take (Suc k) bs))))"
proof -
  have "ledgerOk s bs" and lh: "bp_leafHeights st = map fl_height (rowsOf bs)" using assms(1) by (simp_all add: coreOf_def)
  then have "(map fl_height (rowsOf bs) ! i \<le> s + int k) = (i < length (rowsOf (take (Suc k) bs)))" if "i < length (rowsOf bs)" for i
    using height_split [of s bs i "Suc k"] that by simp linarith
  then show ?thesis
    unfolding leafCountAt_def lh using assms(2) rows_take_le [of "Suc k" bs] by (intro leafSearch_ok) auto
qed

subsection \<open>Rebuilding the state\<close>

definition rowOf :: "fullLeaf \<Rightarrow> leafRow" where
  "rowOf l = \<lparr>lr_leafIndex = fl_leafIndex l, lr_height = fl_height l, lr_leaf = po_leaf (fl_output l)\<rparr>"

definition rootRow :: "hash2 \<Rightarrow> int \<Rightarrow> ablock list \<Rightarrow> nat \<Rightarrow> int \<times> bytes" where
  "rootRow H2 s bs k = (s + int k, rootAfter H2 bs k)"

text \<open>The rows of a ledger that are kept for a restart.\<close>

definition snapOf :: "hash2 \<Rightarrow> int \<Rightarrow> ablock list \<Rightarrow> snapshot" where
  "snapOf H2 s bs = \<lparr>sn_tip = (if bs = [] then None else Some (s + int (length bs) - 1)), sn_leaves = map rowOf (rowsOf bs),
     sn_nullifiers = nfsOf bs, sn_exits = exitsOf bs,
     sn_roots = filter (\<lambda>(h, r). h \<ge> s + int (length bs) - 1 - 288 - 144) (map (rootRow H2 s bs) [0..<length bs])\<rparr>"

lemma restoreLeaf_ok:
  "treeInv H2 tree vs \<Longrightarrow> map fl_leafIndex ls = [length vs..<length vs + length ls] \<Longrightarrow> length vs + length ls \<le> 2 ^ 32 \<Longrightarrow>
   \<forall>l\<in>set ls. leafVal l < P_FR \<Longrightarrow>
   \<exists>tree'. foldRes (restoreLeaf H2) (tree, length vs) (map rowOf ls) = Inr (tree', length vs + length ls)
     \<and> treeInv H2 tree' (vs @ map leafVal ls)"
proof (induction ls arbitrary: tree vs)
  case (Cons l ls)
  have idx: "fl_leafIndex l = length vs" "map fl_leafIndex ls = [Suc (length vs)..<Suc (length vs) + length ls]"
    using Cons.prems(2) by (simp_all add: upt_conv_Cons del: upt_Suc)
  obtain tree1 where 1: "appendLeaf H2 tree (po_leaf (fl_output l)) = Inr (tree1, length vs)"
      "treeInv H2 tree1 (vs @ [leafVal l])"
    using append_ok [OF Cons.prems(1), of "po_leaf (fl_output l)"] Cons.prems(3,4) by (auto simp: leafVal_def)
  obtain tree2 where "foldRes (restoreLeaf H2) (tree1, length (vs @ [leafVal l])) (map rowOf ls) =
        Inr (tree2, length (vs @ [leafVal l]) + length ls)" "treeInv H2 tree2 ((vs @ [leafVal l]) @ map leafVal ls)"
    using Cons.IH [OF 1(2)] idx(2) Cons.prems(3,4) by auto
  moreover have "restoreLeaf H2 (tree, length vs) (rowOf l) = Inr (tree1, length (vs @ [leafVal l]))"
    using 1(1) idx(1) by (simp add: restoreLeaf_def rowOf_def)
  ultimately show ?case by (intro exI [where x = tree2]) simp
qed simp

lemma setAll_distinct: "distinct (map fst xs) \<Longrightarrow> setAll xs = map_of xs"
proof (induction xs rule: rev_induct)
  case (snoc x xs)
  obtain k v where x: "x = (k, v)" by fastforce
  have "setAll (xs @ [x]) = (setAll xs)(k \<mapsto> v)" by (simp add: setAll_def x)
  also have "\<dots> = map_of (xs @ [x])" using snoc map_of_snoc [of k xs v] by (simp add: x)
  finally show ?case .
qed (simp add: setAll_def)

lemma mapFrom_distinct: "distinct (map fst xs) \<Longrightarrow> map_of (mapFrom xs) = map_of xs \<and> distinct (map fst (mapFrom xs))"
proof (induction xs rule: rev_induct)
  case (snoc x xs)
  obtain k v where x: "x = (k, v)" by fastforce
  have "mapFrom (xs @ [x]) = AList.update k v (mapFrom xs)" by (simp add: mapFrom_def x)
  then show ?case using snoc map_of_snoc [of k xs v] by (simp add: x AList.update_conv AList.distinct_update)
qed (simp add: mapFrom_def)

lemma filter_height:
  "(\<And>j n. j < length bs \<Longrightarrow> n \<in> set (g (bs ! j)) \<Longrightarrow> f n = s + int j) \<Longrightarrow> k < length bs \<Longrightarrow>
   filter (\<lambda>n. f n = s + int k) (concat (map g bs)) = g (bs ! k)"
proof (induction bs arbitrary: s k)
  case (Cons b bs)
  have hd: "f n = s" if "n \<in> set (g b)" for n using Cons.prems(1) [of 0 n] that by simp
  have tl: "f n = (s + 1) + int j" if "j < length bs" "n \<in> set (g (bs ! j))" for j n
    using Cons.prems(1) [of "Suc j" n] that by simp
  have far: "s < f n" if "n \<in> set (concat (map g bs))" for n
    using that tl by (fastforce simp: in_set_conv_nth)
  show ?case
  proof (cases k)
    case 0
    then show ?thesis using hd far by (auto simp: filter_id_conv filter_empty_conv)
  next
    case (Suc k')
    have "filter (\<lambda>n. f n = (s + 1) + int k') (concat (map g bs)) = g (bs ! k')"
      using Cons.prems(2) Suc tl by (intro Cons.IH) auto
    then show ?thesis using hd Suc by (auto simp: filter_empty_conv add.assoc)
  qed
qed simp

lemma ledger_filters:
  assumes "ledgerOk s bs" "k < length bs"
  shows "filter (\<lambda>n. nr_height (snd n) = s + int k) (nfsOf bs) = ab_nfs (bs ! k)"
    "filter (\<lambda>x. er_height (snd x) = s + int k) (exitsOf bs) = ab_exits (bs ! k)"
  using assms unfolding nfsOf_def exitsOf_def by (intro filter_height; auto simp: ledgerOk_def blockOk_def)+

lemma map_of_rootRows: "map_of (map (rootRow H2 s bs) [0..<n]) h = (if s \<le> h \<and> h < s + int n then Some (rootAfter H2 bs (nat (h - s))) else None)"
proof (induction n)
  case (Suc n)
  have "map_of (map (rootRow H2 s bs) [0..<Suc n]) = (map_of (map (rootRow H2 s bs) [0..<n]))(s + int n \<mapsto> rootAfter H2 bs n)"
  proof -
    have "s + int n \<notin> fst ` set (map (rootRow H2 s bs) [0..<n])" by (auto simp: rootRow_def)
    from map_of_snoc [OF this, of "rootAfter H2 bs n"] show ?thesis by (simp add: rootRow_def)
  qed
  then show ?case using Suc by auto
qed auto

lemma rootRows_distinct: "distinct (map fst (map (rootRow H2 s bs) [0..<n]))"
  by (auto simp: distinct_map rootRow_def inj_on_def comp_def)

lemma snap_roots:
  shows "distinct (map fst (mapFrom (sn_roots (snapOf H2 s bs))))"
    "map_of (mapFrom (sn_roots (snapOf H2 s bs))) h = (if s \<le> h \<and> s + int (length bs) - 433 \<le> h \<and> h < s + int (length bs) then Some (rootAfter H2 bs (nat (h - s))) else None)"
proof -
  let ?rm = "mapFrom (sn_roots (snapOf H2 s bs))"
  let ?P = "\<lambda>h. h \<ge> s + int (length bs) - 1 - 288 - 144"
  have dist: "distinct (map fst (sn_roots (snapOf H2 s bs)))"
    unfolding snapOf_def snapshot.simps by (rule distinct_map_filter) (rule rootRows_distinct)
  then show "distinct (map fst ?rm)" by (rule mapFrom_distinct [THEN conjunct2])
  have "map_of ?rm h = map_of (sn_roots (snapOf H2 s bs)) h"
    using mapFrom_distinct [OF dist] by simp
  also have "\<dots> = (if ?P h then map_of (map (rootRow H2 s bs) [0..<length bs]) h else None)"
    unfolding snapOf_def snapshot.simps by (rule map_of_filter_key)
  finally show "map_of ?rm h = (if s \<le> h \<and> s + int (length bs) - 433 \<le> h \<and> h < s + int (length bs) then Some (rootAfter H2 bs (nat (h - s))) else None)"
    by (auto simp: map_of_rootRows)
qed

lemma undoFromRows_ok:
  assumes "ledgerOk s bs" "length (rowsOf bs) \<le> 2 ^ 30" "k < length bs" "length bs < k + 289"
  shows "undoFromRows (map fl_height (rowsOf bs)) (snapOf H2 s bs) (mapFrom (sn_roots (snapOf H2 s bs))) (s + int k) =
    Some (undoOf H2 s bs k)"
  using firstLeafAt_ok [OF assms(1,2), of k] ledger_filters [OF assms(1,3)] assms(3,4)
  by (auto simp: undoFromRows_def undoOf_def snap_roots(2) ANCHOR_WINDOW_def nat_diff_distrib) (auto simp: snapOf_def)

lemma restoreUndo_ok:
  assumes "ledgerOk s bs" "length (rowsOf bs) \<le> 2 ^ 30"
  shows "m \<le> length bs \<Longrightarrow> length bs \<le> m + (288 - n) \<Longrightarrow> n \<le> 288 \<Longrightarrow>
    \<exists>us. restoreUndo (map fl_height (rowsOf bs)) (snapOf H2 s bs) (mapFrom (sn_roots (snapOf H2 s bs))) n (s + int m - 1) = Some us
      \<and> (\<forall>h. map_of us h = (if s + int m - int (min n m) \<le> h \<and> h < s + int m then Some (undoOf H2 s bs (nat (h - s))) else None))"
proof (induction n arbitrary: m)
  case (Suc n)
  show ?case
  proof (cases m)
    case 0
    then show ?thesis by (auto simp: snap_roots(2))
  next
    case (Suc k)
    obtain us where us: "restoreUndo (map fl_height (rowsOf bs)) (snapOf H2 s bs) (mapFrom (sn_roots (snapOf H2 s bs))) n (s + int k - 1) = Some us"
        "\<And>h. map_of us h = (if s + int k - int (min n k) \<le> h \<and> h < s + int k then Some (undoOf H2 s bs (nat (h - s))) else None)"
    proof -
      have "length bs \<le> k + (288 - n)" "k \<le> length bs" "n \<le> 288" using Suc.prems Suc by linarith+
      with Suc.IH [of k] that show thesis by blast
    qed
    have "undoFromRows (map fl_height (rowsOf bs)) (snapOf H2 s bs) (mapFrom (sn_roots (snapOf H2 s bs))) (s + int k) = Some (undoOf H2 s bs k)"
      using undoFromRows_ok [OF assms, of k] Suc.prems Suc by simp
    moreover have "map_of (mapFrom (sn_roots (snapOf H2 s bs))) (s + int k) \<noteq> None"
      using Suc.prems Suc by (auto simp: snap_roots(2))
    ultimately have "restoreUndo (map fl_height (rowsOf bs)) (snapOf H2 s bs) (mapFrom (sn_roots (snapOf H2 s bs))) (Suc n) (s + int m - 1) =
        Some ((s + int k, undoOf H2 s bs k) # us)"
      using us(1) Suc by simp
    moreover have "map_of ((s + int k, undoOf H2 s bs k) # us) h =
        (if s + int m - int (min (Suc n) m) \<le> h \<and> h < s + int m then Some (undoOf H2 s bs (nat (h - s))) else None)" for h
      using us(2) Suc by (auto simp: min_def)
    ultimately show ?thesis by blast
  qed
qed auto

text \<open>A restart rebuilds the state of the persisted ledger, with as many undo records as a continuous run keeps.\<close>

lemma restore_refines:
  assumes "ledgerOk s bs" "length (rowsOf bs) \<le> 2 ^ 30"
  obtains st where "restorePool H2 (snapOf H2 s bs) = Some (Inr st)" "refines H2 st s (min 288 (length bs)) bs"
proof (cases "bs = []")
  case True
  then show ?thesis using new_refines [of H2 s] by (intro that [of newPool]) (auto simp: restorePool_def snapOf_def)
next
  case False
  let ?sn = "snapOf H2 s bs" and ?t = "s + int (length bs) - 1"
  have leaves: "\<forall>l\<in>set (rowsOf bs). leafVal l < P_FR" and idx: "map fl_leafIndex (rowsOf bs) = [0..<length (rowsOf bs)]"
    using assms(1) by (auto simp: ledgerOk_def blockOk_def elim!: in_rowsE)
  have sorted: "sort_key lr_leafIndex (sn_leaves ?sn) = map rowOf (rowsOf bs)"
  proof -
    have "sorted (map lr_leafIndex (map rowOf (rowsOf bs)))" using idx by (simp add: rowOf_def comp_def)
    from sort_key_id_if_sorted [OF this] show ?thesis by (simp add: snapOf_def)
  qed
  obtain tree where tree: "foldRes (restoreLeaf H2) (newTree, 0) (map rowOf (rowsOf bs)) = Inr (tree, length (rowsOf bs))"
      "treeInv H2 tree (leafVals bs)"
    using restoreLeaf_ok [OF new_tree, of "rowsOf bs" H2] idx leaves assms(2) by (auto simp: leafVals_def)
  obtain us where us: "restoreUndo (map fl_height (rowsOf bs)) ?sn (mapFrom (sn_roots ?sn)) 288 ?t = Some us"
      "\<And>h. map_of us h = (if s + int (length bs) - int (min 288 (length bs)) \<le> h \<and> h < s + int (length bs)
         then Some (undoOf H2 s bs (nat (h - s))) else None)"
    using restoreUndo_ok [OF assms, of "length bs" 288] by auto
  define st where "st = newPool\<lparr>bp_tip := Some ?t, bp_tree := tree, bp_leafHeights := map fl_height (rowsOf bs),
    bp_nullifiers := setAll (sn_nullifiers ?sn), bp_exits := setAll (sn_exits ?sn),
    bp_roots := filter (\<lambda>(h, r). h \<ge> ?t + 1 - ANCHOR_WINDOW \<and> h \<le> ?t) (mapFrom (sn_roots ?sn)), bp_undo := us\<rparr>"
  have heights: "map lr_height (map rowOf (rowsOf bs)) = map fl_height (rowsOf bs)" by (simp add: rowOf_def)
  have "sn_tip ?sn = Some ?t" using False by (simp add: snapOf_def)
  then have "restorePool H2 ?sn = Some (Inr st)"
    unfolding restorePool_def by (simp only: option.case sorted tree(1) Let_def sum.case prod.case heights)
      (simp add: us(1) UNDO_DEPTH_def st_def)
  moreover have "coreOf H2 st s bs"
    using assms(1) tree(2) setAll_distinct [of "nfsOf bs"] setAll_distinct [of "exitsOf bs"] by (auto simp: coreOf_def st_def newPool_def snapOf_def ledgerOk_def)
  moreover have "booksOf H2 st s (min 288 (length bs)) bs"
  proof -
    have "map_of (bp_roots st) h = rootsOf H2 s bs h" for h
    proof -
      have "bp_roots st = filter (\<lambda>(h, r). h \<ge> ?t + 1 - ANCHOR_WINDOW \<and> h \<le> ?t) (mapFrom (sn_roots ?sn))" by (simp add: st_def)
      then have "map_of (bp_roots st) h = (if h \<ge> ?t + 1 - ANCHOR_WINDOW \<and> h \<le> ?t then map_of (mapFrom (sn_roots ?sn)) h else None)"
        by (simp only: map_of_filter_key)
      then show ?thesis by (auto simp: snap_roots(2) rootsOf_def ANCHOR_WINDOW_def)
    qed
    moreover have "distinct (map fst (bp_roots st))"
      using snap_roots(1) [of H2 s bs] by (simp add: st_def distinct_map_filter)
    moreover have "map_of us = undosOf H2 s (min 288 (length bs)) bs"
      using us(2) by (auto simp: undosOf_def)
    ultimately show ?thesis by (auto simp: booksOf_def st_def)
  qed
  moreover have "bp_pending st = None" by (simp add: st_def newPool_def)
  ultimately show ?thesis by (intro that) (auto simp only: refines_def)
qed

end
