(* ===== verification/Btc_Block.thy ===== *)
theory Btc_Block
  imports Btc_Tx
begin

text \<open>
  Bitcoin blocks as the replay service reads them (\<open>worker-relay/src/lib/btc-pool-chain.js\<close>): headers, the Merkle root
  with Bitcoin Core's duplicate check, the witness commitment, whole blocks, and the proof-of-work arithmetic of compact
  targets and retargets. Every throw is \<open>None\<close>.
\<close>

subsection \<open>Merkle root\<close>

fun merkleLevel :: "(bytes \<Rightarrow> bytes) \<Rightarrow> bytes list \<Rightarrow> bytes list \<times> bool" where
  "merkleLevel H [] = ([], False)"
| "merkleLevel H [a] = ([H (a @ a)], False)"
| "merkleLevel H (a # b # rest) = (let (next_level, mutated) = merkleLevel H rest in (H (a @ b) # next_level, a = b \<or> mutated))"

lemma merkleLevel_length: "length (fst (merkleLevel H xs)) = (length xs + 1) div 2"
  by (induction H xs rule: merkleLevel.induct) (auto split: prod.splits)

function merkleRoot :: "(bytes \<Rightarrow> bytes) \<Rightarrow> bytes list \<Rightarrow> (bytes \<times> bool) option" where
  "merkleRoot H level =
     (if level = [] then None
      else if length level > 1 then
        (let (next_level, mutated) = merkleLevel H level
         in map_option (\<lambda>(root, m). (root, mutated \<or> m)) (merkleRoot H next_level))
      else Some (hd level, False))"
  by pat_completeness auto
termination
proof (relation "measure (\<lambda>(H, level). length level)")
  fix H :: "bytes \<Rightarrow> bytes" and level x next_level mutated
  assume gt: "1 < length level" and eq: "x = merkleLevel H level" "(next_level, mutated) = x"
  from eq have "length next_level = (length level + 1) div 2" by (metis merkleLevel_length fst_conv)
  with gt show "((H, next_level), (H, level)) \<in> measure (\<lambda>(H, level). length level)" by simp
qed simp

declare merkleRoot.simps [simp del]

subsection \<open>Headers and blocks\<close>

record header =
  hd_hash :: bytes
  hd_prevHash :: bytes
  hd_time :: int
  hd_bits :: nat

definition parseHeader :: "(bytes \<Rightarrow> bytes) \<Rightarrow> bytes \<Rightarrow> header option" where
  "parseHeader sha256 h =
     (if length h \<noteq> 80 then None
      else Some \<lparr>hd_hash = rev (hash256 sha256 h), hd_prevHash = rev (slice h 4 36), hd_time = le_val (slice h 68 72),
        hd_bits = nat (le_val (slice h 72 76))\<rparr>)"

definition isCoinbase :: "rawTx \<Rightarrow> bool" where
  "isCoinbase tx = (rt_vin tx = [(zeros 32, 0xffffffff)])"

definition commitmentOf :: "bytes \<Rightarrow> bytes option" where
  "commitmentOf s =
     (if length s \<ge> 38 \<and> u8 s 0 = 0x6a \<and> u8 s 1 = 0x24 \<and> u8 s 2 = 0xaa \<and> u8 s 3 = 0x21 \<and> u8 s 4 = 0xa9 \<and> u8 s 5 = 0xed
      then Some (slice s 6 38) else None)"

text \<open>The last output with the prefix wins.\<close>

definition lastCommitment :: "rawTx \<Rightarrow> bytes option" where
  "lastCommitment cb = foldl (\<lambda>c out. case commitmentOf (snd out) of None \<Rightarrow> c | Some s \<Rightarrow> Some s) None (rt_vout cb)"

definition wtxidAt :: "nat \<times> rawTx \<Rightarrow> bytes" where
  "wtxidAt it = (if fst it = 0 then zeros 32 else case rt_wtxid (snd it) of None \<Rightarrow> rev (rt_txid (snd it)) | Some w \<Rightarrow> w)"

definition checkWitnessCommitment :: "(bytes \<Rightarrow> bytes) \<Rightarrow> rawTx list \<Rightarrow> unit option" where
  "checkWitnessCommitment sha256 txs =
     (let cb = hd txs in
      case lastCommitment cb of
        None \<Rightarrow> require (\<not> list_ex (\<lambda>t. rt_wtxid t \<noteq> None) txs)
      | Some commit \<Rightarrow> do {
          require (length (rt_vin cb) = 1 \<and> length (rt_witness cb ! 0) = 1 \<and> length (rt_witness cb ! 0 ! 0) = 32);
          (root, m) \<leftarrow> merkleRoot (hash256 sha256) (map wtxidAt (enumerate 0 txs));
          require (hash256 sha256 (root @ rt_witness cb ! 0 ! 0) = commit)
        })"

record rawBlock =
  rb_header :: header
  rb_txs :: "rawTx list"

definition parseBlock :: "(bytes \<Rightarrow> bytes) \<Rightarrow> bytes \<Rightarrow> bytes option \<Rightarrow> rawBlock option" where
  "parseBlock sha256 d expectHash = do {
     require (\<not> length d < 81);
     let head = take 80 d;
     hdr \<leftarrow> parseHeader sha256 head;
     require (case expectHash of None \<Rightarrow> True | Some e \<Rightarrow> hd_hash hdr = e);
     (n, rest) \<leftarrow> readVarint (drop 80 d);
     (txs, rest) \<leftarrow> readMany (parseTx sha256) n rest;
     require (rest = []);
     require (\<not> (txs = [] \<or> \<not> isCoinbase (hd txs)));
     require (\<not> list_ex isCoinbase (tl txs));
     require (distinct (map rt_txid txs));
     (root, mutated) \<leftarrow> merkleRoot (hash256 sha256) (map (\<lambda>t. rev (rt_txid t)) txs);
     require (\<not> mutated);
     require (root = slice head 36 68);
     checkWitnessCommitment sha256 txs;
     Some \<lparr>rb_header = hdr, rb_txs = txs\<rparr>
   }"

subsection \<open>Proof of work\<close>

definition bitsToTarget :: "nat \<Rightarrow> int option" where
  "bitsToTarget bits =
     (let exp = bits div 2 ^ 24; mant = int (bits mod 2 ^ 23);
          t = (if exp \<le> 3 then mant div 2 ^ (8 * (3 - exp)) else mant * 2 ^ (8 * (exp - 3)))
      in if bits div 2 ^ 23 mod 2 = 1 then None
         else if t = 0 \<or> t \<ge> 2 ^ 256 then None else Some t)"

function byteSize :: "int \<Rightarrow> nat" where
  "byteSize x = (if x > 0 then Suc (byteSize (x div 256)) else 0)"
  by pat_completeness auto
termination
  by (relation "measure nat") auto

declare byteSize.simps [simp del]

definition targetToBits :: "int \<Rightarrow> nat" where
  "targetToBits t =
     (let size = byteSize t;
          mant = (if size \<le> 3 then t * 2 ^ (8 * (3 - size)) else t div 2 ^ (8 * (size - 3)))
      in if mant div 2 ^ 23 mod 2 = 1 then (size + 1) * 2 ^ 24 + nat (mant div 256) else size * 2 ^ 24 + nat mant)"

definition hashValue :: "bytes \<Rightarrow> int" where "hashValue hash = be_val hash"

definition checkProofOfWork :: "bytes \<Rightarrow> nat \<Rightarrow> nat \<Rightarrow> unit option" where
  "checkProofOfWork hash bits powLimitBits = do {
     target \<leftarrow> bitsToTarget bits;
     limit \<leftarrow> bitsToTarget powLimitBits;
     require (\<not> target > limit);
     require (\<not> hashValue hash > target)
   }"

definition RETARGET_INTERVAL :: int where "RETARGET_INTERVAL = 2016"
definition RETARGET_TIMESPAN :: int where "RETARGET_TIMESPAN = 14 * 24 * 60 * 60"

definition retargetBits :: "nat \<Rightarrow> int \<Rightarrow> int \<Rightarrow> nat \<Rightarrow> nat option" where
  "retargetBits prevBits firstTime lastTime powLimitBits = do {
     let span = lastTime - firstTime;
     let span = (if span < RETARGET_TIMESPAN div 4 then RETARGET_TIMESPAN div 4 else span);
     let span = (if span > RETARGET_TIMESPAN * 4 then RETARGET_TIMESPAN * 4 else span);
     p \<leftarrow> bitsToTarget prevBits;
     let t = p * span div RETARGET_TIMESPAN;
     limit \<leftarrow> bitsToTarget powLimitBits;
     let t = (if t > limit then limit else t);
     Some (targetToBits t)
   }"

subsection \<open>A Merkle root fixes the transactions\<close>

text \<open>The number of levels above the leaves.\<close>

function treeLevels :: "nat \<Rightarrow> nat" where
  "treeLevels n = (if n \<le> 1 then 0 else Suc (treeLevels ((n + 1) div 2)))"
  by pat_completeness auto
termination
  by (relation "measure id") auto

declare treeLevels.simps [simp del]

text \<open>The strings that are hashed on the way to a root, and two of them, one of each tree, that collide.\<close>

fun levelInputs :: "bytes list \<Rightarrow> bytes list" where
  "levelInputs [] = []"
| "levelInputs [a] = [a @ a]"
| "levelInputs (a # b # rest) = (a @ b) # levelInputs rest"

function merkleInputs :: "(bytes \<Rightarrow> bytes) \<Rightarrow> bytes list \<Rightarrow> bytes list" where
  "merkleInputs H level = (if length level > 1 then levelInputs level @ merkleInputs H (fst (merkleLevel H level)) else [])"
  by pat_completeness auto
termination
  by (relation "measure (\<lambda>(H, level). length level)") (auto simp: merkleLevel_length)

declare merkleInputs.simps [simp del]

definition collidesIn :: "(bytes \<Rightarrow> bytes) \<Rightarrow> bytes list \<Rightarrow> bytes list \<Rightarrow> bool" where
  "collidesIn H as bs = (\<exists>a\<in>set as. \<exists>b\<in>set bs. collision H a b)"

lemma collidesIn_Cons: "collidesIn H as bs \<Longrightarrow> collidesIn H (a # as) (b # bs)"
  by (auto simp: collidesIn_def)

lemma pair_binds:
  "length a = 32 \<Longrightarrow> length c = 32 \<Longrightarrow> H (a @ b) = H (c @ d) \<Longrightarrow> (a = c \<and> b = d) \<or> collidesIn H ((a @ b) # as) ((c @ d) # bs)"
  by (cases "a @ b = c @ d") (auto simp: collidesIn_def collision_def)

lemma level_binds:
  "\<forall>x\<in>set xs. length x = 32 \<Longrightarrow> \<forall>y\<in>set ys. length y = 32 \<Longrightarrow> merkleLevel H xs = (zs, False) \<Longrightarrow> merkleLevel H ys = (zs, False) \<Longrightarrow>
   xs = ys \<or> collidesIn H (levelInputs xs) (levelInputs ys)"
proof (induction xs arbitrary: ys zs rule: induct_list012)
  case 1
  then show ?case by (cases ys rule: remdups_adj.cases) (auto split: prod.splits)
next
  case (2 a)
  consider "ys = []" | c where "ys = [c]" | c d rest where "ys = c # d # rest" by (cases ys rule: remdups_adj.cases) auto
  then show ?case
  proof cases
    case (2 c)
    then have "H (a @ a) = H (c @ c)" "length a = 32" "length c = 32" using "2.prems" by auto
    then show ?thesis using pair_binds [of a c H a c "[]" "[]"] 2 by auto
  next
    case 3
    then have "c \<noteq> d" "H (a @ a) = H (c @ d)" "length a = 32" "length c = 32" using 2 by (auto split: prod.splits)
    then show ?thesis using pair_binds [of a c H a d "[]" "levelInputs rest"] 3 by auto
  qed (use 2 in auto)
next
  case (3 a b rest)
  obtain zs' where zs': "zs = H (a @ b) # zs'" "merkleLevel H rest = (zs', False)" "a \<noteq> b"
    using "3.prems"(3) by (auto split: prod.splits)
  consider "ys = []" | c where "ys = [c]" | c d rest' where "ys = c # d # rest'" by (cases ys rule: remdups_adj.cases) auto
  then show ?case
  proof cases
    case 2
    then have "H (a @ b) = H (c @ c)" using "3.prems"(4) zs' by simp
    then show ?thesis using pair_binds [of a c H b c "levelInputs rest" "[]"] "3.prems"(1,2) 2 zs'(3) by auto
  next
    case (3 c d rest')
    then have tl: "merkleLevel H rest' = (zs', False)" "H (a @ b) = H (c @ d)"
      using "3.prems"(4) zs' by (auto split: prod.splits)
    then have "(a = c \<and> b = d) \<or> collidesIn H (levelInputs (a # b # rest)) (levelInputs ys)" unfolding levelInputs.simps using pair_binds [of a c H b d] "3.prems"(1,2) 3 by auto
    moreover have "rest = rest' \<or> collidesIn H (levelInputs rest) (levelInputs rest')" by (rule "3.IH"(1) [OF _ _ zs'(2) tl(1)]) (use "3.prems"(1,2) 3 in auto)
    ultimately show ?thesis using 3 by (auto intro: collidesIn_Cons)
  qed (use "3.prems"(4) zs' in simp)
qed

lemma merkleLevel_32: "(\<And>x. length (H x) = 32) \<Longrightarrow> \<forall>x\<in>set (fst (merkleLevel H xs)). length x = 32"
  by (induction H xs rule: merkleLevel.induct) (auto split: prod.splits)

lemma merkle_binds:
  assumes "\<And>x. length (H x) = 32"
  shows "merkleRoot H xs = Some (r, False) \<Longrightarrow> merkleRoot H ys = Some (r, False) \<Longrightarrow> treeLevels (length xs) = treeLevels (length ys) \<Longrightarrow>
    \<forall>x\<in>set xs. length x = 32 \<Longrightarrow> \<forall>y\<in>set ys. length y = 32 \<Longrightarrow> xs = ys \<or> collidesIn H (merkleInputs H xs) (merkleInputs H ys)"
proof (induction "treeLevels (length xs)" arbitrary: xs ys)
  case 0
  then have "length xs \<le> 1" "length ys \<le> 1" by (auto simp: treeLevels.simps [of "length xs"] treeLevels.simps [of "length ys"] split: if_splits)
  then show ?case using 0 by (cases xs; cases ys) (auto simp: merkleRoot.simps)
next
  case (Suc n)
  have big: "length xs > 1" "length ys > 1"
    using Suc.hyps(2) Suc.prems(3) treeLevels.simps [of "length xs"] treeLevels.simps [of "length ys"] by (auto split: if_splits)
  obtain xs' where xs': "merkleLevel H xs = (xs', False)" "merkleRoot H xs' = Some (r, False)"
    using Suc.prems(1) big(1) by (subst (asm) merkleRoot.simps) (auto split: prod.splits if_splits)
  obtain ys' where ys': "merkleLevel H ys = (ys', False)" "merkleRoot H ys' = Some (r, False)"
    using Suc.prems(2) big(2) by (subst (asm) merkleRoot.simps) (auto split: prod.splits if_splits)
  have len: "length xs' = (length xs + 1) div 2" "length ys' = (length ys + 1) div 2"
    using xs'(1) ys'(1) merkleLevel_length [of H xs] merkleLevel_length [of H ys] by auto
  have lv: "n = treeLevels (length xs')" "treeLevels (length xs') = treeLevels (length ys')"
    using Suc.hyps(2) Suc.prems(3) big len treeLevels.simps [of "length xs"] treeLevels.simps [of "length ys"] by auto
  have "xs' = ys' \<or> collidesIn H (merkleInputs H xs') (merkleInputs H ys')"
    using Suc.hyps(1) [OF lv(1) xs'(2) ys'(2) lv(2)] merkleLevel_32 [of H xs, OF assms] merkleLevel_32 [of H ys, OF assms] xs'(1) ys'(1) by auto
  moreover have "xs' = ys' \<Longrightarrow> xs = ys \<or> collidesIn H (levelInputs xs) (levelInputs ys)"
    using level_binds [OF Suc.prems(4,5) xs'(1)] ys'(1) by blast
  moreover have "merkleInputs H xs = levelInputs xs @ merkleInputs H xs'" "merkleInputs H ys = levelInputs ys @ merkleInputs H ys'"
    using big xs'(1) ys'(1) by (simp_all add: merkleInputs.simps [of H xs] merkleInputs.simps [of H ys])
  ultimately show ?case by (auto simp: collidesIn_def)
qed

subsection \<open>Compact targets\<close>

lemma byteSize_bounds: "0 < t \<Longrightarrow> 0 < byteSize t \<and> 256 ^ (byteSize t - 1) \<le> t \<and> t < 256 ^ byteSize t"
proof (induction t rule: byteSize.induct)
  case (1 x)
  have step: "byteSize x = Suc (byteSize (x div 256))" using 1(2) by (simp add: byteSize.simps)
  show ?case
  proof (cases "x div 256 > 0")
    case True
    then have IH: "0 < byteSize (x div 256)" "256 ^ (byteSize (x div 256) - 1) \<le> x div 256" "x div 256 < 256 ^ byteSize (x div 256)"
      using 1 by auto
    obtain k where k: "byteSize (x div 256) = Suc k" using IH(1) by (cases "byteSize (x div 256)") auto
    have "p * 256 \<le> x" if "p \<le> x div 256" for p using that by linarith
    moreover have "x < p * 256" if "x div 256 < p" for p using that by linarith
    ultimately have "256 ^ k * 256 \<le> x" "x < 256 ^ Suc k * 256" using IH(2,3) unfolding k diff_Suc_1 by blast+
    then show ?thesis unfolding step k by simp
  next
    case False
    then have "byteSize (x div 256) = 0" by (simp add: byteSize.simps)
    then show ?thesis using 1(2) False unfolding step by simp
  qed
qed

definition targetOf :: "nat \<Rightarrow> int \<Rightarrow> int" where
  "targetOf e m = (if e \<le> 3 then m div 2 ^ (8 * (3 - e)) else m * 2 ^ (8 * (e - 3)))"

lemma bitsToTarget_parts:
  assumes "0 \<le> m" "m < 2 ^ 23"
  shows "bitsToTarget (e * 2 ^ 24 + nat m) = (if targetOf e m = 0 \<or> targetOf e m \<ge> 2 ^ 256 then None else Some (targetOf e m))"
proof -
  obtain n where n: "m = int n" "n < 2 ^ 23" using assms by (metis nat_int zero_le_imp_eq_int of_nat_less_iff of_nat_numeral of_nat_power)
  have low: "e * 2 ^ 24 + n = n + 2 ^ 23 * (2 * e)" by simp
  have "(e * 2 ^ 24 + n) div 2 ^ 24 = e" using n(2) by (simp add: div_add1_eq)
  moreover have "(e * 2 ^ 24 + n) mod 2 ^ 23 = n" unfolding low mod_mult_self2 using n(2) by simp
  moreover have "(e * 2 ^ 24 + n) div 2 ^ 23 = 2 * e" unfolding low using n(2) by simp
  then have "(e * 2 ^ 24 + n) div 2 ^ 23 mod 2 \<noteq> 1" by simp
  ultimately show ?thesis unfolding bitsToTarget_def Let_def n(1) nat_int targetOf_def by simp
qed

lemma pow256: "(256::int) ^ k = 2 ^ (8 * k)"
  by (simp add: power_mult)

text \<open>Rounding down to a multiple of \<open>p\<close> loses less than one part in \<open>2 ^ 15\<close> of a number of at least \<open>2 ^ 15\<close> such multiples.\<close>

lemma rounding:
  fixes t p :: int
  assumes "0 < p" "2 ^ 15 * p \<le> t"
  shows "0 < t div p * p \<and> t div p * p \<le> t \<and> t * 2 ^ 15 < t div p * p * (2 ^ 15 + 1)"
proof -
  have m: "t = t div p * p + t mod p" by simp
  have "(2 ^ 15 * p) div p \<le> t div p" by (rule zdiv_mono1) (use assms in auto)
  then have "2 ^ 15 \<le> t div p" using assms(1) by simp
  then have "2 ^ 15 * p \<le> t div p * p" using assms(1) by (intro mult_right_mono) auto
  moreover have "0 \<le> t mod p" "t mod p < p" using assms(1) by simp_all
  moreover have "0 < y \<and> y \<le> y + r \<and> (y + r) * 2 ^ 15 < y * (2 ^ 15 + 1)" if "2 ^ 15 * p \<le> y" "0 \<le> r" "r < p" for y r :: int
    using that assms(1) by (simp add: algebra_simps)
  ultimately show ?thesis using m by metis
qed

lemma targetToBits_parts:
  assumes "0 < t" "byteSize t = k" "mant = (if k \<le> 3 then t * 2 ^ (8 * (3 - k)) else t div 2 ^ (8 * (k - 3)))" "0 \<le> mant" "mant < 2 ^ 24"
  shows "targetToBits t = (if mant \<ge> 2 ^ 23 then (k + 1) * 2 ^ 24 + nat (mant div 256) else k * 2 ^ 24 + nat mant)"
proof -
  have "mant div 2 ^ 23 = (if mant \<ge> 2 ^ 23 then 1 else 0)"
  proof (cases "mant \<ge> 2 ^ 23")
    case True
    then have "mant div 2 ^ 23 = 1" using assms(5) by (intro int_div_pos_eq [where r = "mant - 2 ^ 23"]) auto
    then show ?thesis using True by simp
  next
    case False
    then show ?thesis using assms(4) by (simp add: div_pos_pos_trivial)
  qed
  then have "(mant div 2 ^ 23 mod 2 = 1) = (mant \<ge> 2 ^ 23)" by simp
  then show ?thesis using assms(2,3) by (simp add: targetToBits_def Let_def)
qed

text \<open>A target and what the compact form keeps of it.\<close>

definition rounded :: "int \<Rightarrow> int \<Rightarrow> bool" where
  "rounded t t' = (0 < t' \<and> t' \<le> t \<and> t * 2 ^ 15 < t' * (2 ^ 15 + 1))"

lemma bits_result:
  assumes "targetToBits t = e * 2 ^ 24 + nat m" "0 \<le> m" "m < 2 ^ 23" "rounded t (targetOf e m)" "t < 2 ^ 256"
  shows "bitsToTarget (targetToBits t) = Some (targetOf e m)"
  using bitsToTarget_parts [OF assms(2,3), of e] assms(1,4,5) by (simp add: rounded_def)

lemma target_large:
  assumes "0 < t" "t < 2 ^ 256" "3 \<le> byteSize t"
  shows "\<exists>t'. bitsToTarget (targetToBits t) = Some t' \<and> rounded t t'"
proof -
  define k where "k = byteSize t"
  define P where "P = (2::int) ^ (8 * (k - 3))"
  obtain j where j: "k = j + 3" using assms(3) unfolding k_def by (metis le_add_diff_inverse2)
  have P: "0 < P" "P = 2 ^ (8 * j)" by (simp_all add: P_def j)
  have kb: "2 ^ 16 * P \<le> t" "t < 2 ^ 24 * P"
    using byteSize_bounds [OF assms(1)] unfolding k_def [symmetric] pow256 P(2) by (simp_all add: j power_add algebra_simps)
  define mant where "mant = t div P"
  have "(2 ^ 16 * P) div P \<le> mant" unfolding mant_def by (rule zdiv_mono1) (use kb P in auto)
  then have lo: "2 ^ 16 \<le> mant" using P(1) by simp
  have mP: "mant * P \<le> t" unfolding mant_def using P(1) by (metis mod_div_decomp le_add_same_cancel1 pos_mod_sign)
  have hi: "mant < 2 ^ 24"
  proof (rule ccontr)
    assume "\<not> mant < 2 ^ 24"
    then have "2 ^ 24 * P \<le> mant * P" using P(1) by (intro mult_right_mono) auto
    then show False using mP kb(2) by linarith
  qed
  have bits: "targetToBits t = (if mant \<ge> 2 ^ 23 then (k + 1) * 2 ^ 24 + nat (mant div 256) else k * 2 ^ 24 + nat mant)"
    by (rule targetToBits_parts [OF assms(1) k_def [symmetric]]) (use lo hi j in \<open>auto simp: mant_def P_def\<close>)
  show ?thesis
  proof (cases "mant \<ge> 2 ^ 23")
    case True
    have "2 ^ 15 * (P * 256) \<le> mant * P" using True P(1) mult_right_mono [of "2 ^ 23" mant P] by simp
    also have "\<dots> \<le> t" by (rule mP)
    finally have r: "rounded t (t div (P * 256) * (P * 256))" using rounding [of "P * 256" t] P(1) by (simp add: rounded_def)
    have m: "mant div 256 = t div (P * 256)" unfolding mant_def using P(1) by (simp add: zdiv_zmult2_eq)
    have "targetOf (k + 1) (mant div 256) = t div (P * 256) * (P * 256)"
      unfolding m targetOf_def P(2) by (simp add: j power_add)
    then show ?thesis using bits_result [of t "k + 1" "mant div 256"] bits True hi lo r assms(2) by auto
  next
    case False
    have "2 ^ 15 * P \<le> t" using kb(1) P(1) by simp
    then have r: "rounded t (mant * P)" using rounding [of P t] P(1) by (simp add: rounded_def mant_def)
    have "targetOf k mant = mant * P" unfolding targetOf_def P(2) by (simp add: j)
    then show ?thesis using bits_result [of t k mant] bits False lo r assms(2) by auto
  qed
qed

lemma target_small:
  assumes "0 < t" "byteSize t < 3"
  shows "bitsToTarget (targetToBits t) = Some t"
proof -
  define k where "k = byteSize t"
  have "k = 1 \<or> k = 2" "t < 256 ^ k" using byteSize_bounds [OF assms(1)] assms(2) by (auto simp: k_def)
  then show ?thesis
  proof (elim disjE)
    assume "k = 1" "t < 256 ^ k"
    then have t: "t < 256" "byteSize t = 1" by (simp_all add: k_def)
    have bits: "targetToBits t = (if t * 2 ^ 16 \<ge> 2 ^ 23 then (1 + 1) * 2 ^ 24 + nat (t * 2 ^ 16 div 256) else 1 * 2 ^ 24 + nat (t * 2 ^ 16))"
      by (rule targetToBits_parts [OF assms(1) t(2)]) (use t assms(1) in auto)
    show ?thesis
      using bitsToTarget_parts [of "t * 2 ^ 16 div 256" "1 + 1"] bitsToTarget_parts [of "t * 2 ^ 16" 1] t(1) assms(1) unfolding bits
      by (auto simp: targetOf_def)
  next
    assume "k = 2" "t < 256 ^ k"
    then have t: "t < 65536" "byteSize t = 2" by (simp_all add: k_def)
    have bits: "targetToBits t = (if t * 2 ^ 8 \<ge> 2 ^ 23 then (2 + 1) * 2 ^ 24 + nat (t * 2 ^ 8 div 256) else 2 * 2 ^ 24 + nat (t * 2 ^ 8))"
      by (rule targetToBits_parts [OF assms(1) t(2)]) (use t assms(1) in auto)
    show ?thesis
      using bitsToTarget_parts [of "t * 2 ^ 8 div 256" "2 + 1"] bitsToTarget_parts [of "t * 2 ^ 8" 2] t(1) assms(1) unfolding bits
      by (auto simp: targetOf_def)
  qed
qed

lemma target_round_trip:
  assumes "0 < t" "t < 2 ^ 256"
  obtains t' where "bitsToTarget (targetToBits t) = Some t'" "rounded t t'"
proof (cases "3 \<le> byteSize t")
  case True
  then show ?thesis using target_large [OF assms] that by blast
next
  case False
  then show ?thesis using target_small [OF assms(1)] assms(1) by (intro that [of t]) (auto simp: rounded_def)
qed

text \<open>
  A retarget stays within the limit and within a factor of four of the previous target, up to the rounding of the
  compact form.
\<close>

lemma bitsToTarget_range: "bitsToTarget bits = Some t \<Longrightarrow> 0 < t \<and> t < 2 ^ 256"
proof -
  assume "bitsToTarget bits = Some t"
  then have t: "t = targetOf (bits div 2 ^ 24) (int (bits mod 2 ^ 23))" "t \<noteq> 0" "t < 2 ^ 256"
    unfolding bitsToTarget_def Let_def targetOf_def by (simp_all only: split: if_splits) auto
  have "0 \<le> targetOf e (int m)" for e m by (simp add: targetOf_def pos_imp_zdiv_nonneg_iff)
  then show ?thesis using t by (metis order_less_le)
qed

lemma retarget_ok:
  assumes "bitsToTarget prevBits = Some p" "bitsToTarget limitBits = Some limit" "p \<le> limit" "4 \<le> p"
  obtains bits t t' where "retargetBits prevBits t0 t1 limitBits = Some bits" "bitsToTarget bits = Some t'" "rounded t t'"
    "p div 4 \<le> t" "t \<le> 4 * p" "t \<le> limit"
proof -
  define sp where "sp = (let s = t1 - t0; s = (if s < 302400 then 302400 else s) in if s > 4838400 then 4838400 else s)"
  have sp: "302400 \<le> sp" "sp \<le> 4838400" by (auto simp: sp_def Let_def)
  define u where "u = p * sp div 1209600"
  define t where "t = (if u > limit then limit else u)"
  have "p * 302400 div 1209600 \<le> u" "u \<le> p * 4838400 div 1209600"
    unfolding u_def by (rule zdiv_mono1; (rule mult_left_mono)?; use sp assms(4) in linarith)+
  then have u: "p div 4 \<le> u" "u \<le> 4 * p" by simp_all
  have t: "p div 4 \<le> t" "t \<le> 4 * p" "t \<le> limit" using u assms(3,4) by (auto simp: t_def)
  moreover have "0 < t" using t(1) assms(4) by linarith
  moreover have "t < 2 ^ 256" using t(3) bitsToTarget_range [OF assms(2)] by linarith
  ultimately obtain t' where t': "bitsToTarget (targetToBits t) = Some t'" "rounded t t'" using target_round_trip by blast
  have "retargetBits prevBits t0 t1 limitBits = Some (targetToBits t)"
    using assms(1,2) by (simp add: retargetBits_def RETARGET_TIMESPAN_def Let_def t_def u_def sp_def)
  then show ?thesis using t' t by (intro that)
qed

subsection \<open>A block hash fixes the transactions\<close>

lemma readMany_all: "readMany rd n d = Some (xs, r) \<Longrightarrow> (\<And>d x d'. rd d = Some (x, d') \<Longrightarrow> P x) \<Longrightarrow> \<forall>x\<in>set xs. P x"
proof (induction n arbitrary: d xs)
  case (Suc n)
  obtain x d1 ys where "rd d = Some (x, d1)" "readMany rd n d1 = Some (ys, r)" "xs = x # ys"
    using Suc.prems(1) by (auto split: Option.bind_splits)
  then show ?case using Suc.IH Suc.prems(2) by auto
qed simp

lemma parseTx_txid: "(\<And>x. length (sha256 x) = 32) \<Longrightarrow> parseTx sha256 d = Some (tx, r) \<Longrightarrow> length (rt_txid tx) = 32"
  by (auto simp: parseTx_def hash256_def Let_def split: Option.bind_splits if_splits)

lemma parseBlock_parts:
  assumes "parseBlock sha256 d (Some h) = Some b"
  shows "h = rev (hash256 sha256 (take 80 d))" "length d \<ge> 81"
    "merkleRoot (hash256 sha256) (map (\<lambda>t. rev (rt_txid t)) (rb_txs b)) = Some (slice (take 80 d) 36 68, False)"
    "hd_hash (rb_header b) = h"
  using assms by (auto simp: parseBlock_def parseHeader_def Let_def split: Option.bind_splits if_splits prod.splits)

lemma parseBlock_txids:
  assumes "\<And>x. length (sha256 x) = 32" "parseBlock sha256 d e = Some b"
  shows "\<forall>t\<in>set (rb_txs b). length (rt_txid t) = 32"
proof -
  obtain n rest where "readMany (parseTx sha256) n rest = Some (rb_txs b, [])"
    using assms(2) by (auto simp: parseBlock_def Let_def split: Option.bind_splits if_splits prod.splits)
  then show ?thesis by (rule readMany_all) (rule parseTx_txid [OF assms(1)])
qed

text \<open>Everything that is hashed under a block's hash: its header, and the nodes of its Merkle tree.\<close>

definition blockInputs :: "(bytes \<Rightarrow> bytes) \<Rightarrow> bytes \<Rightarrow> rawBlock \<Rightarrow> bytes list" where
  "blockInputs sha256 d b = take 80 d # merkleInputs (hash256 sha256) (map (\<lambda>t. rev (rt_txid t)) (rb_txs b))"

lemma parseBlock_binds:
  assumes "\<And>x. length (sha256 x) = 32" "parseBlock sha256 d (Some h) = Some b" "parseBlock sha256 d' (Some h) = Some b'"
    "treeLevels (length (rb_txs b)) = treeLevels (length (rb_txs b'))"
  shows "map rt_txid (rb_txs b) = map rt_txid (rb_txs b') \<or> collidesIn (hash256 sha256) (blockInputs sha256 d b) (blockInputs sha256 d' b')"
proof -
  have len: "length (hash256 sha256 x) = 32" for x by (simp add: hash256_def assms(1))
  note p = parseBlock_parts [OF assms(2)] and p' = parseBlock_parts [OF assms(3)]
  note ids = parseBlock_txids [OF assms(1,2)] parseBlock_txids [OF assms(1,3)]
  show ?thesis
  proof (cases "take 80 d = take 80 d'")
    case False
    moreover have "hash256 sha256 (take 80 d) = hash256 sha256 (take 80 d')" using p(1) p'(1) by (metis rev_rev_ident)
    ultimately show ?thesis by (auto simp: collidesIn_def collision_def blockInputs_def)
  next
    case True
    let ?ids = "\<lambda>b. map (\<lambda>t. rev (rt_txid t)) (rb_txs b)"
    have "?ids b = ?ids b' \<or> collidesIn (hash256 sha256) (merkleInputs (hash256 sha256) (?ids b)) (merkleInputs (hash256 sha256) (?ids b'))"
      using p(3) p'(3) True ids assms(4) by (intro merkle_binds [OF len]) auto
    moreover have "map rt_txid ts = map rev (map (\<lambda>t. rev (rt_txid t)) ts)" for ts by simp
    ultimately show ?thesis unfolding blockInputs_def by (metis collidesIn_Cons)
  qed
qed

end
