(* ===== verification/Pool_Index.thy ===== *)
theory Pool_Index
  imports Pool_Restore Btc_Block
begin

text \<open>
  The shielded pool's replay service: a block of Bitcoin transactions is replayed through the pool state and persisted
  (\<open>processBlock\<close> in \<open>worker-relay/src/btc-pool-indexer.js\<close>, the tables of \<open>worker-relay/src/lib/btc-pool-store.js\<close>).
  Tables are lists of rows in insertion order; an insert that repeats a primary key throws and its transaction leaves
  the tables alone. Parameters: \<open>transparent\<close>, the wallet's validator of transparent notes, and \<open>disk\<close>, whether the
  database writes.
\<close>

subsection \<open>The store\<close>

record envRow =
  ev_height :: int
  ev_txIndex :: nat
  ev_vin :: nat
  ev_txid :: bytes
  ev_opcode :: nat
  ev_accepted :: bool
  ev_reason :: string

record poolStore =
  so_blocks :: "(int \<times> bytes \<times> bytes) list"
  so_leaves :: "fullLeaf list"
  so_nullifiers :: "(bytes \<times> nfRec) list"
  so_exits :: "(outpoint2 \<times> exitRec) list"
  so_envelopes :: "envRow list"

definition emptyStore :: poolStore where
  "emptyStore = \<lparr>so_blocks = [], so_leaves = [], so_nullifiers = [], so_exits = [], so_envelopes = []\<rparr>"

definition insertRow :: "('r \<Rightarrow> 'k) \<Rightarrow> 'r list \<Rightarrow> 'r \<Rightarrow> 'r list res" where
  "insertRow key rows r = (if key r \<in> key ` set rows then Inl (Err ''UNIQUE constraint failed'') else Inr (rows @ [r]))"

definition envKey :: "envRow \<Rightarrow> int \<times> nat \<times> nat" where
  "envKey e = (ev_height e, ev_txIndex e, ev_vin e)"

definition commitBlock :: "bool \<Rightarrow> poolStore \<Rightarrow> blockDelta \<Rightarrow> bytes \<Rightarrow> envRow list \<Rightarrow> poolStore res" where
  "commitBlock disk so delta hash envelopes =
     (if \<not> disk then Inl (Err ''database'')
      else case insertRow fst (so_blocks so) (dl_height delta, hash, dl_root delta) of Inl e \<Rightarrow> Inl e
        | Inr blocks \<Rightarrow> (case foldRes (insertRow fl_leafIndex) (so_leaves so) (dl_leaves delta) of Inl e \<Rightarrow> Inl e
        | Inr leaves \<Rightarrow> (case foldRes (insertRow fst) (so_nullifiers so) (dl_nullifiers delta) of Inl e \<Rightarrow> Inl e
        | Inr nfs \<Rightarrow> (case foldRes (insertRow fst) (so_exits so) (dl_exits delta) of Inl e \<Rightarrow> Inl e
        | Inr exits \<Rightarrow> (case foldRes (insertRow envKey) (so_envelopes so) envelopes of Inl e \<Rightarrow> Inl e
        | Inr envs \<Rightarrow> Inr \<lparr>so_blocks = blocks, so_leaves = leaves, so_nullifiers = nfs, so_exits = exits, so_envelopes = envs\<rparr>)))))"

definition deleteFrom :: "poolStore \<Rightarrow> int \<Rightarrow> poolStore" where
  "deleteFrom so height = \<lparr>so_blocks = filter (\<lambda>b. \<not> fst b \<ge> height) (so_blocks so),
     so_leaves = filter (\<lambda>l. \<not> fl_height l \<ge> height) (so_leaves so),
     so_nullifiers = filter (\<lambda>n. \<not> nr_height (snd n) \<ge> height) (so_nullifiers so),
     so_exits = filter (\<lambda>x. \<not> er_height (snd x) \<ge> height) (so_exits so),
     so_envelopes = filter (\<lambda>e. \<not> ev_height e \<ge> height) (so_envelopes so)\<rparr>"

definition wipeStore :: "poolStore \<Rightarrow> poolStore" where
  "wipeStore so = deleteFrom so (-1)"

definition storeBlock :: "poolStore \<Rightarrow> int \<Rightarrow> (bytes \<times> bytes) option" where
  "storeBlock so height = map_of (so_blocks so) height"

definition storeTip :: "poolStore \<Rightarrow> int option" where
  "storeTip so = (if so_blocks so = [] then None else Some (Max (set (map fst (so_blocks so)))))"

definition storeSnapshot :: "poolStore \<Rightarrow> snapshot" where
  "storeSnapshot so =
     (case storeTip so of None \<Rightarrow> \<lparr>sn_tip = None, sn_leaves = [], sn_nullifiers = [], sn_exits = [], sn_roots = []\<rparr>
      | Some t \<Rightarrow> \<lparr>sn_tip = Some t, sn_leaves = map rowOf (sort_key fl_leafIndex (so_leaves so)),
          sn_nullifiers = so_nullifiers so, sn_exits = so_exits so,
          sn_roots = map (\<lambda>(h, hash, root). (h, root)) (sort_key fst (filter (\<lambda>b. fst b \<ge> t - 288 - 144) (so_blocks so)))\<rparr>)"

subsection \<open>Replaying a block\<close>

record poolTx =
  tx_txid :: bytes
  tx_vin :: "outpoint2 list"
  tx_vout :: "(int \<times> bytes) list"
  tx_envs :: "carried list"

record poolNote =
  nt_asset :: bytes
  nt_cx :: bytes
  nt_cy :: bytes
  nt_bound :: bool

type_synonym validator = "(outpoint2 \<rightharpoonup> exitRec) \<Rightarrow> outpoint2 \<Rightarrow> int option \<Rightarrow> poolNote option res"

text \<open>An exit of the replay is a note by itself; any other outpoint is asked of the wallet's validator, which
  knows the exits too.\<close>

definition resolveShieldInput :: "validator \<Rightarrow> poolSt \<Rightarrow> outpoint2 \<Rightarrow> int option \<Rightarrow> poolNote option res" where
  "resolveShieldInput transparent st op height =
     (case bp_exits st op of Some x \<Rightarrow> Inr (Some \<lparr>nt_asset = er_asset x, nt_cx = er_cx x, nt_cy = er_cy x, nt_bound = False\<rparr>)
      | None \<Rightarrow> transparent (bp_exits st) op height)"

definition resolveInputOf :: "validator \<Rightarrow> poolSt \<Rightarrow> outpoint2 \<Rightarrow> bytes \<Rightarrow> (bytes \<times> bytes) option res" where
  "resolveInputOf transparent st op asset =
     map_sum id (\<lambda>n. case n of None \<Rightarrow> None
       | Some n \<Rightarrow> if nt_asset n = asset \<and> \<not> nt_bound n then Some (nt_cx n, nt_cy n) else None)
     (resolveShieldInput transparent st op (map_option pb_height (bp_pending st)))"

definition verdictOf :: "outcome \<Rightarrow> bool \<times> string" where
  "verdictOf r = (case r of Accepted \<Rightarrow> (True, []) | Rejected q \<Rightarrow> (False, q))"

text \<open>What ends a replay: the error, and the transaction the service reports as having halted it.\<close>

type_synonym failure = "js_error \<times> bytes option"

definition haltFor :: "bytes \<Rightarrow> js_error \<Rightarrow> failure" where
  "haltFor txid e = (e, if e = VerifierUnavailableError then Some txid else None)"

definition processItem :: "'p poolEnvir \<Rightarrow> validator \<Rightarrow> carrier \<Rightarrow> aggVerdict option \<Rightarrow> poolSt \<Rightarrow> poolItem \<Rightarrow> poolEnv option
    \<Rightarrow> (failure + bool \<times> string) \<times> poolSt" where
  "processItem V transparent cr agg st it parsed =
     (case parsed of
        None \<Rightarrow> (Inr (False, ''non-canonical envelope''), st)
      | Some (Aggregate a) \<Rightarrow> (Inr (case agg of None \<Rightarrow> (False, ''aggregate covers no proofless spend'')
          | Some g \<Rightarrow> (av_ok g, av_reason g)), st)
      | Some (Shield s) \<Rightarrow>
          if pi_vin it \<noteq> 0 then (Inr (False, ''T_BTC_SHIELD must ride vin[0]''), st)
          else apfst (map_sum (\<lambda>e. (e, Some (cr_txid cr))) verdictOf) (acceptShield V (resolveInputOf transparent st) cr st s)
      | Some (Spend s) \<Rightarrow> apfst (map_sum (haltFor (cr_txid cr)) verdictOf) (acceptSpend V cr agg st s))"

fun processItems :: "'p poolEnvir \<Rightarrow> validator \<Rightarrow> carrier \<Rightarrow> aggVerdict option \<Rightarrow> int \<Rightarrow> nat \<Rightarrow> poolSt
    \<Rightarrow> (poolItem \<times> poolEnv option) list \<Rightarrow> (failure + envRow list) \<times> poolSt" where
  "processItems V transparent cr agg height i st [] = (Inr [], st)"
| "processItems V transparent cr agg height i st ((it, parsed) # rest) =
     (case processItem V transparent cr agg st it parsed of (Inl e, st) \<Rightarrow> (Inl e, st)
      | (Inr (ok, reason), st) \<Rightarrow>
         apfst (map_sum id (\<lambda>rows. \<lparr>ev_height = height, ev_txIndex = i, ev_vin = pi_vin it, ev_txid = cr_txid cr,
             ev_opcode = pi_opcode it, ev_accepted = ok, ev_reason = reason\<rparr> # rows))
           (processItems V transparent cr agg height i st rest))"

definition processTx :: "'p poolEnvir \<Rightarrow> validator \<Rightarrow> int \<Rightarrow> nat \<Rightarrow> poolSt \<Rightarrow> poolTx \<Rightarrow> (failure + envRow list) \<times> poolSt" where
  "processTx V transparent height i st tx =
     (let (vin0TacitOp, items) = carrierPoolEnvelopes (tx_envs tx);
          parsedAll = map (\<lambda>it. parseEnvelope (cv_fromHex (pv_curve V)) (pi_payload it)) items;
          cr = \<lparr>cr_txid = tx_txid tx, cr_inputs = tx_vin tx, cr_outputs = tx_vout tx, cr_vin0TacitOp = vin0TacitOp\<rparr>
      in case aggregateFor V st parsedAll of Inl e \<Rightarrow> (Inl (haltFor (tx_txid tx) e), st)
         | Inr agg \<Rightarrow> processItems V transparent cr agg height i st (zip items parsedAll))"

text \<open>The transactions behind the coinbase, with their positions.\<close>

fun processTxs :: "'p poolEnvir \<Rightarrow> validator \<Rightarrow> int \<Rightarrow> poolSt \<Rightarrow> (nat \<times> poolTx) list \<Rightarrow> (failure + envRow list) \<times> poolSt" where
  "processTxs V transparent height st [] = (Inr [], st)"
| "processTxs V transparent height st ((i, tx) # rest) =
     (case processTx V transparent height i st tx of (Inl e, st) \<Rightarrow> (Inl e, st)
      | (Inr rows, st) \<Rightarrow> apfst (map_sum id (\<lambda>more_rows. rows @ more_rows)) (processTxs V transparent height st rest))"

record poolBlock =
  bk_header :: header
  bk_txs :: "poolTx list"

text \<open>
  The service: the replay state, the tables, the headers read so far, the header below the start height, the height of
  the source, the spends seen in blocks that are not replayed yet (block hash, and by nullifier the transaction and its
  body hash), and the block and transaction at which the replay is halted.
\<close>

type_synonym aheadSpends = "bytes \<rightharpoonup> bytes \<times> bytes option"

record indexer =
  ix_state :: poolSt
  ix_store :: poolStore
  ix_headers :: "int \<rightharpoonup> header"
  ix_anchored :: "(bytes \<times> header) option"
  ix_chainTip :: "int option"
  ix_ahead :: "int \<rightharpoonup> bytes \<times> aheadSpends"
  ix_aheadTip :: "int option"
  ix_halted :: "(int \<times> bytes option) option"

text \<open>The state behind a throw in the loop: the open block is aborted, and the error goes on.\<close>

definition abortIn :: "hash2 \<Rightarrow> indexer \<Rightarrow> int \<Rightarrow> poolSt \<Rightarrow> failure \<Rightarrow> unit res \<times> indexer" where
  "abortIn H2 ix height st f =
     (let ix = ix\<lparr>ix_halted := (case snd f of None \<Rightarrow> ix_halted ix | Some txid \<Rightarrow> Some (height, Some txid))\<rparr>
      in case abortBlock H2 st of Inl e' \<Rightarrow> (Inl e', ix\<lparr>ix_state := st\<rparr>) | Inr st' \<Rightarrow> (Inl (fst f), ix\<lparr>ix_state := st'\<rparr>))"

definition processBlock :: "'p poolEnvir \<Rightarrow> validator \<Rightarrow> bool \<Rightarrow> indexer \<Rightarrow> int \<Rightarrow> poolBlock \<Rightarrow> unit res \<times> indexer" where
  "processBlock V transparent disk ix height block =
     (case beginBlock (ix_state ix) height of Inl e \<Rightarrow> (Inl e, ix)
      | Inr st \<Rightarrow>
       (case processTxs V transparent height st (drop 1 (enumerate 0 (bk_txs block))) of
          (Inl f, st) \<Rightarrow> abortIn (pv_H2 V) ix height st f
        | (Inr envelopes, st) \<Rightarrow>
           (case endBlock (pv_H2 V) st of Inl e \<Rightarrow> abortIn (pv_H2 V) ix height st (e, None)
            | Inr (st, delta) \<Rightarrow>
               (case commitBlock disk (ix_store ix) delta (hd_hash (bk_header block)) envelopes of
                  Inl e \<Rightarrow> (case rollbackFrom (pv_H2 V) st height of (Inl e', st) \<Rightarrow> (Inl e', ix\<lparr>ix_state := st\<rparr>)
                    | (Inr _, st) \<Rightarrow> (Inl e, ix\<lparr>ix_state := st\<rparr>))
                | Inr so \<Rightarrow> (Inr (), ix\<lparr>ix_state := st, ix_store := so, ix_halted := None\<rparr>)))))"

subsection \<open>Replaying keeps the block open on the same ledger\<close>

definition openFrom :: "hash2 \<Rightarrow> poolSt \<Rightarrow> int \<Rightarrow> nat \<Rightarrow> ablock list \<Rightarrow> poolSt \<Rightarrow> bool" where
  "openFrom H2 st0 s d bs st = ((\<exists>b. openOn H2 st s d bs b) \<and> sameBooks st0 st)"

lemma openFrom_trans: "openFrom H2 st0 s d bs st1 \<Longrightarrow> openFrom H2 st1 s d bs st2 \<Longrightarrow> openFrom H2 st0 s d bs st2"
  by (auto simp: openFrom_def intro: sameBooks_trans)

lemma openFrom_start: "openOn H2 st s d bs b \<Longrightarrow> openFrom H2 st s d bs st"
  by (auto simp: openFrom_def)

lemma readNullifiers_32: "readNullifiers e p n = Some (nfs, q) \<Longrightarrow> p + 32 * n \<le> length e \<Longrightarrow> \<forall>nf\<in>set nfs. length nf = 32"
  by (induction n arbitrary: p nfs) (fastforce simp: Let_def split: Option.bind_splits)+

lemma parse_spendOk: "parseEnvelope fromHex e = Some (Spend x) \<Longrightarrow> spendOk x"
proof -
  assume "parseEnvelope fromHex e = Some (Spend x)"
  then have "parseSpend fromHex e = Some x" by (auto simp: parseEnvelope_def split: if_splits)
  then obtain nfs p where "spendHead e = Some (nfs, p)" "spendTail fromHex e nfs p = Some x"
    by (auto simp: spend_indexer split: Option.bind_splits)
  moreover from this have "sp_nullifiers x = nfs" by (auto simp: spendTail_def Let_def split: Option.bind_splits)
  ultimately show ?thesis
    by (auto simp: spendOk_def spendHead_def Let_def split: Option.bind_splits if_splits dest: readNullifiers_32)
qed

lemma processItem_open:
  assumes "openFrom (pv_H2 V) st0 s d bs st" "processItem V transparent cr agg st it parsed = (r, st')"
    "\<And>x. parsed = Some (Spend x) \<Longrightarrow> spendOk x"
  shows "openFrom (pv_H2 V) st0 s d bs st'"
proof -
  obtain b where b: "openOn (pv_H2 V) st s d bs b" and same: "sameBooks st0 st" using assms(1) by (auto simp: openFrom_def)
  consider "st' = st" | x where "parsed = Some (Shield x)" "\<exists>q. acceptShield V (resolveInputOf transparent st) cr st x = (q, st')"
    | x where "parsed = Some (Spend x)" "\<exists>q. acceptSpend V cr agg st x = (q, st')"
    using assms(2) by (auto simp: processItem_def apfst_def map_prod_def split: option.splits poolEnv.splits if_splits prod.splits)
  then show ?thesis
  proof cases
    case 1
    then show ?thesis using assms(1) by simp
  next
    case 2
    then obtain b' where "openOn (pv_H2 V) st' s d bs b'" "sameBooks st st'" using acceptShield_open [OF b] by metis
    then show ?thesis using same by (auto simp: openFrom_def intro: sameBooks_trans)
  next
    case 3
    then obtain b' where "openOn (pv_H2 V) st' s d bs b'" "sameBooks st st'" using acceptSpend_open [OF b] assms(3) by metis
    then show ?thesis using same by (auto simp: openFrom_def intro: sameBooks_trans)
  qed
qed

lemma processItems_open:
  "openFrom (pv_H2 V) st0 s d bs st \<Longrightarrow> processItems V transparent cr agg height i st items = (r, st') \<Longrightarrow>
   (\<And>it x. (it, Some (Spend x)) \<in> set items \<Longrightarrow> spendOk x) \<Longrightarrow> openFrom (pv_H2 V) st0 s d bs st'"
proof (induction items arbitrary: st r st')
  case (Cons item items)
  obtain it parsed where item: "item = (it, parsed)" by fastforce
  obtain r1 st1 where 1: "processItem V transparent cr agg st it parsed = (r1, st1)" by fastforce
  have o1: "openFrom (pv_H2 V) st0 s d bs st1" using processItem_open [OF Cons.prems(1) 1] Cons.prems(3) item by auto
  show ?case
  proof (cases r1)
    case (Inl e)
    then show ?thesis using Cons.prems(2) item 1 o1 by auto
  next
    case (Inr v)
    obtain r2 st2 where 2: "processItems V transparent cr agg height i st1 items = (r2, st2)" by fastforce
    then show ?thesis using Cons.IH [OF o1 2] Cons.prems(2,3) item 1 Inr by (cases v) auto
  qed
qed auto

lemma processTx_open:
  assumes "openFrom (pv_H2 V) st0 s d bs st" "processTx V transparent height i st tx = (r, st')"
  shows "openFrom (pv_H2 V) st0 s d bs st'"
proof -
  obtain op items where cp: "carrierPoolEnvelopes (tx_envs tx) = (op, items)" by fastforce
  let ?parsed = "map (\<lambda>it. parseEnvelope (cv_fromHex (pv_curve V)) (pi_payload it)) items"
  have ok: "spendOk x" if "(it, Some (Spend x)) \<in> set (zip items ?parsed)" for it x
  proof -
    have "Some (Spend x) \<in> set ?parsed" using that by (rule set_zip_rightD)
    then show ?thesis using parse_spendOk by (metis (no_types, lifting) ex_map_conv)
  qed
  show ?thesis
  proof (cases "aggregateFor V st ?parsed")
    case (Inl e)
    then show ?thesis using assms cp by (simp add: processTx_def)
  next
    case (Inr agg)
    then show ?thesis using assms cp processItems_open [OF assms(1) _ ok] by (simp add: processTx_def)
  qed
qed

lemma processTxs_open:
  "openFrom (pv_H2 V) st0 s d bs st \<Longrightarrow> processTxs V transparent height st txs = (r, st') \<Longrightarrow> openFrom (pv_H2 V) st0 s d bs st'"
proof (induction txs arbitrary: st r st')
  case (Cons itx txs)
  obtain i tx where itx: "itx = (i, tx)" by fastforce
  obtain r1 st1 where 1: "processTx V transparent height i st tx = (r1, st1)" by fastforce
  have o1: "openFrom (pv_H2 V) st0 s d bs st1"
    by (rule processTx_open [OF Cons.prems(1) 1])
  show ?case
  proof (cases r1)
    case (Inl e)
    then show ?thesis using Cons.prems(2) itx 1 o1 by auto
  next
    case (Inr rows)
    obtain r2 st2 where 2: "processTxs V transparent height st1 txs = (r2, st2)" by fastforce
    then show ?thesis using Cons.IH [OF o1 2] Cons.prems(2) itx 1 Inr by auto
  qed
qed auto

subsection \<open>The store and the ledger\<close>

definition blockRow :: "hash2 \<Rightarrow> int \<Rightarrow> ablock list \<Rightarrow> bytes list \<Rightarrow> nat \<Rightarrow> int \<times> bytes \<times> bytes" where
  "blockRow H2 s bs hs k = (s + int k, hs ! k, rootAfter H2 bs k)"

definition storeOf :: "hash2 \<Rightarrow> poolStore \<Rightarrow> int \<Rightarrow> ablock list \<Rightarrow> bytes list \<Rightarrow> bool" where
  "storeOf H2 so s bs hs = (length hs = length bs \<and> so_blocks so = map (blockRow H2 s bs hs) [0..<length bs] \<and> so_leaves so = rowsOf bs
     \<and> so_nullifiers so = nfsOf bs \<and> so_exits so = exitsOf bs)"

definition indexed :: "hash2 \<Rightarrow> indexer \<Rightarrow> int \<Rightarrow> nat \<Rightarrow> ablock list \<Rightarrow> bytes list \<Rightarrow> bool" where
  "indexed H2 ix s d bs hs = (refines H2 (ix_state ix) s d bs \<and> storeOf H2 (ix_store ix) s bs hs)"

lemma insertRows: "foldRes (insertRow key) rows new = Inr rows' \<Longrightarrow> rows' = rows @ new"
proof (induction new arbitrary: rows)
  case (Cons a new)
  then have "foldRes (insertRow key) (rows @ [a]) new = Inr rows'"
    by (auto simp: insertRow_def [of key rows a] split: if_splits)
  then show ?case using Cons.IH by fastforce
qed simp

lemma commitBlock_rows:
  assumes "commitBlock disk so dl hash envs = Inr so'"
  shows "so_blocks so' = so_blocks so @ [(dl_height dl, hash, dl_root dl)]" "so_leaves so' = so_leaves so @ dl_leaves dl"
    "so_nullifiers so' = so_nullifiers so @ dl_nullifiers dl" "so_exits so' = so_exits so @ dl_exits dl"
  using assms by (auto simp: commitBlock_def insertRow_def [of fst "so_blocks so"] dest!: insertRows split: if_splits sum.splits)

lemma blockRow_append: "k < length bs \<Longrightarrow> length hs = length bs \<Longrightarrow> blockRow H2 s (bs @ cs) (hs @ ks) k = blockRow H2 s bs hs k"
  by (simp add: blockRow_def rootAfter_append nth_append)

lemma commitBlock_ok:
  assumes "storeOf H2 so s bs hs" "commitBlock disk so dl hash envs = Inr so'" "dl_height dl = s + int (length bs)"
    "dl_root dl = rootAfter H2 (bs @ [b]) (length bs)" "dl_leaves dl = ab_leaves b" "dl_nullifiers dl = ab_nfs b"
    "dl_exits dl = ab_exits b"
  shows "storeOf H2 so' s (bs @ [b]) (hs @ [hash])"
proof -
  have "length hs = length bs" using assms(1) by (simp add: storeOf_def)
  then have "map (blockRow H2 s (bs @ [b]) (hs @ [hash])) [0..<length bs] = map (blockRow H2 s bs hs) [0..<length bs]"
    by (intro map_cong) (auto simp: blockRow_append)
  then show ?thesis
    using assms commitBlock_rows [OF assms(2)] by (simp add: storeOf_def blockRow_def nth_append)
qed

text \<open>
  Replaying a block either extends the ledger by one block, in the state and in the store, or throws with the store
  as it was and the state on the same ledger; unless the database failed, the state is then exactly the one before.
\<close>

lemma processBlock_ok:
  assumes "indexed (pv_H2 V) ix s d bs hs" "processBlock V transparent disk ix h block = (Inr (), ix')"
  obtains b s' where "indexed (pv_H2 V) ix' s' (min 288 (Suc d)) (bs @ [b]) (hs @ [hd_hash (bk_header block)])" "h = s' + int (length bs)"
    "bs \<noteq> [] \<Longrightarrow> s' = s"
proof -
  obtain st1 where 1: "beginBlock (ix_state ix) h = Inr st1" using assms(2) by (auto simp: processBlock_def split: sum.splits)
  have ref: "refines (pv_H2 V) (ix_state ix) s d bs" and so: "storeOf (pv_H2 V) (ix_store ix) s bs hs" using assms(1) by (auto simp: indexed_def)
  obtain s' where s': "openOn (pv_H2 V) st1 s' d bs emptyBlock" "h = s' + int (length bs)" "bp_tip (ix_state ix) \<noteq> None \<Longrightarrow> s' = s"
    using begin_ok [OF ref 1] by blast
  have s'_eq: "bs \<noteq> [] \<Longrightarrow> s' = s" using s'(3) ref by (auto simp: refines_def booksOf_def)
  have so': "storeOf (pv_H2 V) (ix_store ix) s' bs hs" using so s'_eq by (cases "bs = []") (auto simp: storeOf_def)
  obtain rows st2 where 2: "processTxs V transparent h st1 (drop 1 (enumerate 0 (bk_txs block))) = (Inr rows, st2)"
    using assms(2) 1 by (auto simp: processBlock_def abortIn_def Let_def split: sum.splits prod.splits)
  obtain b where b: "openOn (pv_H2 V) st2 s' d bs b"
    using processTxs_open [OF openFrom_start [OF s'(1)] 2] by (auto simp: openFrom_def)
  obtain st3 dl where 3: "endBlock (pv_H2 V) st2 = Inr (st3, dl)" using endBlock_total [OF b] by blast
  note fin = endBlock_ok [OF b 3]
  obtain so2 where 4: "commitBlock disk (ix_store ix) dl (hd_hash (bk_header block)) rows = Inr so2" "ix' = ix\<lparr>ix_state := st3, ix_store := so2, ix_halted := None\<rparr>"
    using assms(2) 1 2 3 by (auto simp: processBlock_def abortIn_def Let_def split: sum.splits prod.splits)
  have "storeOf (pv_H2 V) so2 s' (bs @ [b]) (hs @ [hd_hash (bk_header block)])"
    by (rule commitBlock_ok [OF so' 4(1) fin(2-6)])
  then have "indexed (pv_H2 V) ix' s' (min 288 (Suc d)) (bs @ [b]) (hs @ [hd_hash (bk_header block)])"
    using fin(1) 4(2) by (simp add: indexed_def)
  then show ?thesis using s'(2) s'_eq by (rule that)
qed

lemma processBlock_throws:
  assumes "indexed (pv_H2 V) ix s d bs hs" "processBlock V transparent disk ix h block = (Inl e, ix')"
  shows "ix' = ix\<lparr>ix_halted := ix_halted ix'\<rparr> \<or> (\<exists>s'. indexed (pv_H2 V) ix' s' (min 288 (Suc d) - 1) bs hs \<and> ix_store ix' = ix_store ix \<and> h = s' + int (length bs)
    \<and> (\<exists>dl rows. commitBlock disk (ix_store ix) dl (hd_hash (bk_header block)) rows = Inl e \<and> dl_height dl = h))"
proof (cases "beginBlock (ix_state ix) h")
  case (Inl e')
  then show ?thesis using assms(2) by (simp add: processBlock_def)
next
  case (Inr st1)
  have ref: "refines (pv_H2 V) (ix_state ix) s d bs" and so: "storeOf (pv_H2 V) (ix_store ix) s bs hs" using assms(1) by (auto simp: indexed_def)
  obtain s' where s': "openOn (pv_H2 V) st1 s' d bs emptyBlock" "h = s' + int (length bs)" "bp_tip (ix_state ix) \<noteq> None \<Longrightarrow> s' = s"
      "refines (pv_H2 V) (ix_state ix) s' d bs"
    using begin_ok [OF ref Inr] by blast
  have s'_eq: "bs \<noteq> [] \<Longrightarrow> s' = s" using s'(3) ref by (auto simp: refines_def booksOf_def)
  have so': "storeOf (pv_H2 V) (ix_store ix) s' bs hs" using so s'_eq by (cases "bs = []") (auto simp: storeOf_def)
  have books1: "sameBooks (ix_state ix) st1" using Inr by (auto simp: beginBlock_def sameBooks_def split: if_splits)
  obtain r2 st2 where 2: "processTxs V transparent h st1 (drop 1 (enumerate 0 (bk_txs block))) = (r2, st2)" by fastforce
  obtain b where b: "openOn (pv_H2 V) st2 s' d bs b" and books2: "sameBooks st1 st2"
    using processTxs_open [OF openFrom_start [OF s'(1)] 2] by (auto simp: openFrom_def)
  have abort: "abortBlock (pv_H2 V) st2 = Inr (ix_state ix)"
    using sameBooks_trans [OF books1 books2] by (intro abort_restores [OF s'(4) b]) (simp_all add: sameBooks_def)
  show ?thesis
  proof (cases r2)
    case (Inl e2)
    then show ?thesis using assms(2) Inr 2 abort by (auto simp: processBlock_def abortIn_def Let_def)
  next
    case (Inr rows)
    obtain st3 dl where 3: "endBlock (pv_H2 V) st2 = Inr (st3, dl)" using endBlock_total [OF b] by blast
    note fin = endBlock_ok [OF b 3]
    obtain st4 where 4: "rollbackFrom (pv_H2 V) st3 (s' + int (length bs)) = (Inr (), st4)"
        "refines (pv_H2 V) st4 s' (min 288 (Suc d) - length [b]) bs"
      using rollback_closed [OF fin(1)] by auto
    obtain e5 where 5: "commitBlock disk (ix_store ix) dl (hd_hash (bk_header block)) rows = Inl e5" "ix' = ix\<lparr>ix_state := st4\<rparr>" "e = e5"
      using assms(2) \<open>beginBlock (ix_state ix) h = Inr st1\<close> 2 Inr 3 4(1) s'(2)
      by (auto simp: processBlock_def split: sum.splits)
    have "indexed (pv_H2 V) ix' s' (min 288 (Suc d) - 1) bs hs" using 4(2) so' 5(2) by (simp add: indexed_def)
    then show ?thesis using 5 s'_eq fin(2) s'(2) by auto
  qed
qed

subsection \<open>Restarting\<close>

lemma storeSnapshot_ok:
  assumes "storeOf H2 so s bs hs" "ledgerOk s bs"
  shows "storeSnapshot so = snapOf H2 s bs"
proof (cases "bs = []")
  case True
  then show ?thesis using assms(1) by (simp add: storeSnapshot_def storeTip_def storeOf_def snapOf_def)
next
  case False
  let ?n = "length bs"
  have blocks: "so_blocks so = map (blockRow H2 s bs hs) [0..<?n]" using assms(1) by (simp add: storeOf_def)
  have fsts: "map fst (so_blocks so) = map (\<lambda>k. s + int k) [0..<?n]" by (simp add: blocks blockRow_def)
  have "Max (set (map fst (so_blocks so))) = s + int ?n - 1"
    unfolding fsts using False by (intro Max_eqI) (auto simp: image_iff of_nat_diff Suc_le_eq intro!: bexI [where x = "?n - 1"])
  then have tip: "storeTip so = Some (s + int ?n - 1)" using False by (simp add: storeTip_def blocks)
  have "sorted (map fl_leafIndex (rowsOf bs))" using assms(2) by (simp add: ledgerOk_def)
  then have leaves: "sort_key fl_leafIndex (rowsOf bs) = rowsOf bs" by (rule sort_key_id_if_sorted)
  let ?F = "filter (\<lambda>b. fst b \<ge> s + int ?n - 1 - 288 - 144) (so_blocks so)"
  have "sorted (map fst (so_blocks so))" unfolding fsts by (auto simp: sorted_iff_nth_mono)
  then have "sorted (map fst ?F)" by (rule sorted_filter)
  then have "sort_key fst ?F = ?F" by (rule sort_key_id_if_sorted)
  then have "map (\<lambda>(h, hash, root). (h, root)) (sort_key fst ?F) = sn_roots (snapOf H2 s bs)"
    by (simp add: blocks snapOf_def filter_map comp_def blockRow_def rootRow_def)
  then show ?thesis
    using assms(1) False by (simp add: storeSnapshot_def tip leaves storeOf_def) (simp add: snapOf_def)
qed

lemma restart_ok:
  assumes "storeOf H2 so s bs hs" "ledgerOk s bs" "length (rowsOf bs) \<le> 2 ^ 30"
  obtains st where "restorePool H2 (storeSnapshot so) = Some (Inr st)" "refines H2 st s (min 288 (length bs)) bs"
  unfolding storeSnapshot_ok [OF assms(1,2)] using restore_refines [OF assms(2,3)] by blast

lemma refines_ledger: "refines H2 st s d bs \<Longrightarrow> ledgerOk s bs"
  by (simp add: refines_def coreOf_def)

subsection \<open>Reorganisations\<close>

definition rescan :: "bool \<Rightarrow> indexer \<Rightarrow> unit res \<times> indexer" where
  "rescan disk ix = (if \<not> disk then (Inl (Err ''database''), ix)
     else (Inr (), ix\<lparr>ix_state := newPool, ix_store := wipeStore (ix_store ix), ix_headers := Map.empty\<rparr>))"

text \<open>
  \<open>rollback\<close>: an undo that is too deep starts over; when the tables cannot be cut, the state is rebuilt from them. \<open>None\<close>
  is a rebuild that does not return.
\<close>

definition rollbackIx :: "hash2 \<Rightarrow> bool \<Rightarrow> indexer \<Rightarrow> int \<Rightarrow> (unit res \<times> indexer) option" where
  "rollbackIx H2 disk ix0 from_height =
     (let ix = ix0\<lparr>ix_headers := (\<lambda>h. if h \<ge> from_height then None else ix_headers ix0 h)\<rparr> in
      case rollbackFrom H2 (ix_state ix) from_height of
        (Inl e, st) \<Rightarrow> Some (if e = Err ''ReorgTooDeepError'' then rescan disk (ix\<lparr>ix_state := st\<rparr>) else (Inl e, ix\<lparr>ix_state := st\<rparr>))
      | (Inr _, st) \<Rightarrow>
          if disk then Some (Inr (), ix\<lparr>ix_state := st, ix_store := deleteFrom (ix_store ix) from_height\<rparr>)
          else (case restorePool H2 (storeSnapshot (ix_store ix)) of None \<Rightarrow> None
            | Some (Inl e) \<Rightarrow> Some (Inl e, ix\<lparr>ix_state := st\<rparr>)
            | Some (Inr st') \<Rightarrow> Some (Inl (Err ''database''), ix\<lparr>ix_state := st'\<rparr>)))"

text \<open>The block source: the hash of the block at a height, or a failed request.\<close>

type_synonym hashSource = "int \<Rightarrow> bytes res"

text \<open>\<open>n\<close> heights are left, from \<open>h\<close> down.\<close>

primrec findForkLoop :: "hashSource \<Rightarrow> int \<Rightarrow> poolStore \<Rightarrow> nat \<Rightarrow> int \<Rightarrow> int option res" where
  "findForkLoop blockHash chainTip so 0 h = Inr None"
| "findForkLoop blockHash chainTip so (Suc n) h =
     (case storeBlock so h of None \<Rightarrow> Inr None
      | Some (hash, root) \<Rightarrow>
         if h \<le> chainTip then
           (case blockHash h of Inl e \<Rightarrow> Inl e
            | Inr remote \<Rightarrow> if remote = hash then Inr (Some (h + 1)) else findForkLoop blockHash chainTip so n (h - 1))
         else findForkLoop blockHash chainTip so n (h - 1))"

definition findFork :: "hashSource \<Rightarrow> int \<Rightarrow> int \<Rightarrow> poolStore \<Rightarrow> int \<Rightarrow> int option res" where
  "findFork blockHash startHeight chainTip so tip =
     findForkLoop blockHash chainTip so (nat (tip - max startHeight (tip - UNDO_DEPTH + 1) + 1)) tip"

definition checkReorg :: "hash2 \<Rightarrow> bool \<Rightarrow> hashSource \<Rightarrow> int \<Rightarrow> int \<Rightarrow> indexer \<Rightarrow> (unit res \<times> indexer) option" where
  "checkReorg H2 disk blockHash startHeight chainTip ix =
     (case bp_tip (ix_state ix) of None \<Rightarrow> Some (Inr (), ix)
      | Some tip \<Rightarrow>
         if chainTip < startHeight then Some (Inr (), ix)
         else
           (let at = min tip chainTip;
                local_ok = (case storeBlock (ix_store ix) at of None \<Rightarrow> Inr False
                  | Some (hash, root) \<Rightarrow> map_sum id (\<lambda>remote. remote = hash) (blockHash at))
            in case local_ok of Inl e \<Rightarrow> Some (Inl e, ix)
               | Inr True \<Rightarrow> Some (Inr (), ix)
               | Inr False \<Rightarrow>
                   (case findFork blockHash startHeight chainTip (ix_store ix) tip of Inl e \<Rightarrow> Some (Inl e, ix)
                    | Inr None \<Rightarrow> Some (rescan disk ix)
                    | Inr (Some fork) \<Rightarrow> rollbackIx H2 disk ix fork)))"

lemma filter_below:
  "(\<And>j n. j < length bs \<Longrightarrow> n \<in> set (g (bs ! j)) \<Longrightarrow> f n = s + int j) \<Longrightarrow>
   filter (\<lambda>n. \<not> f n \<ge> s + int k) (concat (map g bs)) = concat (map g (take k bs))"
proof (induction bs arbitrary: s k)
  case (Cons b bs)
  have hd: "f n = s" if "n \<in> set (g b)" for n using Cons.prems [of 0 n] that by simp
  have tl: "f n = (s + 1) + int j" if "j < length bs" "n \<in> set (g (bs ! j))" for j n
    using Cons.prems [of "Suc j" n] that by simp
  have far: "s < f n" if "n \<in> set (concat (map g bs))" for n
    using that tl by (fastforce simp: in_set_conv_nth)
  show ?case
  proof (cases k)
    case 0
    have "\<forall>n\<in>set (g b @ concat (map g bs)). s \<le> f n" using hd far by fastforce
    then show ?thesis using 0 by (auto simp: filter_empty_conv)
  next
    case (Suc k')
    have "filter (\<lambda>n. \<not> f n \<ge> (s + 1) + int k') (concat (map g bs)) = concat (map g (take k' bs))"
      using tl by (intro Cons.IH) auto
    then show ?thesis using hd Suc by (auto simp: filter_id_conv add.assoc)
  qed
qed simp

lemma ledger_below:
  assumes "ledgerOk s bs"
  shows "filter (\<lambda>l. \<not> fl_height l \<ge> s + int k) (rowsOf bs) = rowsOf (take k bs)"
    "filter (\<lambda>n. \<not> nr_height (snd n) \<ge> s + int k) (nfsOf bs) = nfsOf (take k bs)"
    "filter (\<lambda>x. \<not> er_height (snd x) \<ge> s + int k) (exitsOf bs) = exitsOf (take k bs)"
  using assms unfolding rowsOf_def nfsOf_def exitsOf_def by (intro filter_below; auto simp: ledgerOk_def blockOk_def)+

lemma blockRows_below:
  assumes "length hs = length bs"
  shows "filter (\<lambda>b. \<not> fst b \<ge> s + int k) (map (blockRow H2 s bs hs) [0..<length bs]) =
    map (blockRow H2 s (take k bs) (take k hs)) [0..<length (take k bs)]"
proof -
  have "filter (\<lambda>j. j < k) [0..<n] = [0..<min n k]" for n
    by (induction n) (auto simp: min_def not_less_eq_eq le_antisym)
  then have "filter (\<lambda>b. \<not> fst b \<ge> s + int k) (map (blockRow H2 s bs hs) [0..<length bs]) = map (blockRow H2 s bs hs) [0..<min (length bs) k]"
    by (simp add: filter_map comp_def blockRow_def not_le)
  also have "\<dots> = map (blockRow H2 s (take k bs) (take k hs)) [0..<min (length bs) k]"
    using assms by (intro map_cong) (auto simp: blockRow_def rootAfter_def min_absorb1 Suc_le_eq)
  finally show ?thesis by (simp add: min.commute)
qed

lemma deleteFrom_ok:
  assumes "storeOf H2 so s bs hs" "ledgerOk s bs"
  shows "storeOf H2 (deleteFrom so (s + int k)) s (take k bs) (take k hs)"
  using assms blockRows_below [of hs bs s k H2] ledger_below [OF assms(2), of k] by (simp add: storeOf_def deleteFrom_def)

lemma wipe_ok:
  assumes "storeOf H2 so s bs hs" "ledgerOk s bs" "0 \<le> s"
  shows "storeOf H2 (wipeStore so) s [] []"
proof -
  have rows: "\<forall>l\<in>set (rowsOf bs). s \<le> fl_height l"
    using ledger_below(1) [OF assms(2), of 0] by (auto simp: filter_empty_conv)
  have nfs: "\<forall>n\<in>set (nfsOf bs). s \<le> nr_height (snd n)"
    using ledger_below(2) [OF assms(2), of 0] by (auto simp: filter_empty_conv)
  have exits: "\<forall>x\<in>set (exitsOf bs). s \<le> er_height (snd x)"
    using ledger_below(3) [OF assms(2), of 0] by (auto simp: filter_empty_conv)
  have "\<forall>b\<in>set (so_blocks so). s \<le> fst b" using assms(1) by (auto simp: storeOf_def blockRow_def)
  then show ?thesis
    using rows nfs exits assms(1,3) by (fastforce simp: storeOf_def wipeStore_def deleteFrom_def filter_empty_conv)
qed

lemma storeBlock_ok:
  assumes "storeOf H2 so s bs hs"
  shows "storeBlock so h = (if s \<le> h \<and> h < s + int (length bs) then Some (hs ! nat (h - s), rootAfter H2 bs (nat (h - s))) else None)"
proof -
  have "map_of (map (blockRow H2 s bs hs) [0..<n]) h =
      (if s \<le> h \<and> h < s + int n then Some (hs ! nat (h - s), rootAfter H2 bs (nat (h - s))) else None)" for n
  proof (induction n)
    case (Suc n)
    have "s + int n \<notin> fst ` set (map (blockRow H2 s bs hs) [0..<n])" by (auto simp: blockRow_def)
    from map_of_snoc [OF this, of "(hs ! n, rootAfter H2 bs n)"]
    have "map_of (map (blockRow H2 s bs hs) [0..<Suc n]) = (map_of (map (blockRow H2 s bs hs) [0..<n]))(s + int n \<mapsto> (hs ! n, rootAfter H2 bs n))"
      by (simp add: blockRow_def)
    then show ?case using Suc by auto
  qed auto
  then show ?thesis using assms by (simp add: storeBlock_def storeOf_def)
qed

lemma findForkLoop_ok:
  assumes "storeOf H2 so s bs hs"
  shows "findForkLoop blockHash chainTip so n h = Inr (Some fork) \<Longrightarrow>
    s < fork \<and> fork \<le> h + 1 \<and> fork \<le> s + int (length bs) \<and> fork - 1 \<le> chainTip \<and> blockHash (fork - 1) = Inr (hs ! nat (fork - 1 - s))"
proof (induction n arbitrary: h)
  case (Suc n)
  obtain hash root where local_block: "storeBlock so h = Some (hash, root)" using Suc.prems by (cases "storeBlock so h") auto
  then have h: "s \<le> h" "h < s + int (length bs)" "hash = hs ! nat (h - s)"
    using storeBlock_ok [OF assms, of h] by (cases "s \<le> h \<and> h < s + int (length bs)"; simp)+
  have "(h \<le> chainTip \<and> blockHash h = Inr hash \<and> fork = h + 1) \<or> findForkLoop blockHash chainTip so n (h - 1) = Inr (Some fork)"
  proof (cases "h \<le> chainTip \<and> blockHash h = Inr hash")
    case True
    then show ?thesis using Suc.prems local_block by simp
  next
    case False
    then show ?thesis using Suc.prems local_block by (cases "blockHash h") (simp_all split: if_splits)
  qed
  then consider "h \<le> chainTip" "blockHash h = Inr hash" "fork = h + 1"
    | "findForkLoop blockHash chainTip so n (h - 1) = Inr (Some fork)"
    by blast
  then show ?case
  proof cases
    case 1
    then show ?thesis using h by simp
  next
    case 2
    then show ?thesis using Suc.IH [OF 2] by simp
  qed
qed simp

text \<open>
  What the reorg check leaves behind: a prefix of the ledger, in the state and in the store, whose newest block at or
  below the source's tip is the source's block.
\<close>

definition agrees :: "hashSource \<Rightarrow> int \<Rightarrow> int \<Rightarrow> bytes list \<Rightarrow> bool" where
  "agrees blockHash s chainTip hs =
     (hs = [] \<or> chainTip < s \<or> (let at = min (s + int (length hs) - 1) chainTip in blockHash at = Inr (hs ! nat (at - s))))"

lemma indexed_frame: "ix_state ix' = ix_state ix \<Longrightarrow> ix_store ix' = ix_store ix \<Longrightarrow> indexed H2 ix' s d bs hs = indexed H2 ix s d bs hs"
  by (simp add: indexed_def)

lemma indexed_updates [simp]:
  "indexed H2 (ix\<lparr>ix_halted := w\<rparr>) s d bs hs = indexed H2 ix s d bs hs"
  "indexed H2 (ix\<lparr>ix_chainTip := t\<rparr>) s d bs hs = indexed H2 ix s d bs hs"
  "indexed H2 (ix\<lparr>ix_headers := m\<rparr>) s d bs hs = indexed H2 ix s d bs hs"
  by (simp_all add: indexed_def)

lemma rescan_ok:
  assumes "indexed H2 ix s d bs hs" "0 \<le> s" "rescan disk ix = (r, ix')"
  obtains d' j where "j \<le> length bs" "indexed H2 ix' s d' (take j bs) (take j hs)" "r = Inr () \<Longrightarrow> j = 0"
proof (cases disk)
  case True
  have ref: "refines H2 (ix_state ix) s d bs" and so: "storeOf H2 (ix_store ix) s bs hs" using assms(1) by (auto simp: indexed_def)
  have "indexed H2 ix' s 0 [] []"
    using assms(3) True wipe_ok [OF so refines_ledger [OF ref] assms(2)] new_refines [of H2 s] by (auto simp: rescan_def indexed_def)
  then show ?thesis by (intro that [of 0 0]) auto
next
  case False
  then have "ix' = ix" "r \<noteq> Inr ()" using assms(3) by (auto simp: rescan_def)
  moreover have "length hs = length bs" using assms(1) by (simp add: indexed_def storeOf_def)
  ultimately show ?thesis using assms(1) by (intro that [of "length bs" d]) auto
qed

lemma rollbackIx_ok:
  assumes "indexed H2 ix s d bs hs" "0 \<le> s" "k \<le> length bs" "0 < length bs" "length (rowsOf bs) \<le> 2 ^ 30"
  obtains r ix' d' j where "rollbackIx H2 disk ix (s + int k) = Some (r, ix')" "j \<le> length bs"
    "indexed H2 ix' s d' (take j bs) (take j hs)" "r = Inr () \<Longrightarrow> j = k \<or> j = 0"
proof -
  have ref: "refines H2 (ix_state ix) s d bs" and so: "storeOf H2 (ix_store ix) s bs hs" using assms(1) by (auto simp: indexed_def)
  note ok = refines_ledger [OF ref]
  have len: "length hs = length bs" using so by (simp add: storeOf_def)
  define ix1 where "ix1 = ix\<lparr>ix_headers := (\<lambda>h. if h \<ge> s + int k then None else ix_headers ix h)\<rparr>"
  have ix1: "ix_state ix1 = ix_state ix" "ix_store ix1 = ix_store ix" by (simp_all add: ix1_def)
  have del: "storeOf H2 (deleteFrom (ix_store ix) (s + int k)) s (take k bs) (take k hs)" by (rule deleteFrom_ok [OF so ok])
  note result = that
  have undone: thesis if st': "rollbackFrom H2 (ix_state ix) (s + int k) = (Inr (), st')" "refines H2 st' s d' (take k bs)" for st' d'
  proof (cases disk)
    case True
    then show ?thesis
      using st' del assms(3) by (intro result [of "Inr ()" "ix1\<lparr>ix_state := st', ix_store := deleteFrom (ix_store ix) (s + int k)\<rparr>" k d'])
        (simp_all add: rollbackIx_def Let_def ix1_def indexed_def)
  next
    case False
    obtain st2 where st2: "restorePool H2 (storeSnapshot (ix_store ix)) = Some (Inr st2)" "refines H2 st2 s (min 288 (length bs)) bs"
      using restart_ok [OF so ok assms(5)] by blast
    then show ?thesis
      using st' False so len by (intro result [of "Inl (Err ''database'')" "ix1\<lparr>ix_state := st2\<rparr>" "length bs" "min 288 (length bs)"])
        (simp_all add: rollbackIx_def Let_def ix1_def indexed_def)
  qed
  consider "k = length bs" | "k < length bs" "length bs - k \<le> d" | "d < length bs - k" using assms(3) by linarith
  then show ?thesis
  proof cases
    case 1
    then have "rollbackFrom H2 (ix_state ix) (s + int k) = (Inr (), ix_state ix)"
      using ref assms(4) by (auto simp: rollbackFrom_def refines_def booksOf_def abortBlock_def)
    then show ?thesis using undone ref 1 by simp
  next
    case 2
    have "refines H2 (ix_state ix) s d (take k bs @ drop k bs)" using ref by simp
    from rollback_closed [OF this] obtain st' where "rollbackFrom H2 (ix_state ix) (s + int k) = (Inr (), st')"
        "refines H2 st' s (d - length (drop k bs)) (take k bs)"
      using 2 by auto
    then show ?thesis by (rule undone)
  next
    case 3
    then have deep: "rollbackFrom H2 (ix_state ix) (s + int k) = (Inl (Err ''ReorgTooDeepError''), ix_state ix)"
      by (intro rollback_too_deep [OF ref]) auto
    obtain r ix' where res: "rescan disk ix1 = (r, ix')" by fastforce
    have "indexed H2 ix1 s d bs hs" using assms(1) indexed_frame [OF ix1] by simp
    from rescan_ok [OF this assms(2) res] obtain d' j where "j \<le> length bs" "indexed H2 ix' s d' (take j bs) (take j hs)"
        "r = Inr () \<Longrightarrow> j = 0" by blast
    moreover have "rollbackIx H2 disk ix (s + int k) = Some (r, ix')"
      using deep res by (simp add: rollbackIx_def Let_def ix1_def)
    ultimately show ?thesis using that by blast
  qed
qed

text \<open>The reorg check returns, whatever the source answers.\<close>

lemma checkReorg_ok:
  assumes "indexed H2 ix s d bs hs" "0 \<le> s" "length (rowsOf bs) \<le> 2 ^ 30"
  obtains r ix' d' j where "checkReorg H2 disk blockHash s chainTip ix = Some (r, ix')" "j \<le> length bs"
    "indexed H2 ix' s d' (take j bs) (take j hs)" "r = Inr () \<Longrightarrow> agrees blockHash s chainTip (take j hs)"
proof -
  have ref: "refines H2 (ix_state ix) s d bs" and so: "storeOf H2 (ix_store ix) s bs hs" using assms(1) by (auto simp: indexed_def)
  have len: "length hs = length bs" using so by (simp add: storeOf_def)
  note result = that
  have keep: thesis if "checkReorg H2 disk blockHash s chainTip ix = Some (r, ix)" "r = Inr () \<Longrightarrow> agrees blockHash s chainTip hs" for r
    using that assms(1) len by (intro result [of r ix "length bs" d]) auto
  have again: thesis if "checkReorg H2 disk blockHash s chainTip ix = Some (rescan disk ix)"
  proof -
    obtain r ix' where res: "rescan disk ix = (r, ix')" by fastforce
    from rescan_ok [OF assms(1,2) this] that show ?thesis using result [of r ix'] by (auto simp: res agrees_def)
  qed
  show ?thesis
  proof (cases "bp_tip (ix_state ix) = None \<or> chainTip < s")
    case True
    then have "checkReorg H2 disk blockHash s chainTip ix = Some (Inr (), ix)" by (auto simp: checkReorg_def split: option.splits)
    moreover have "agrees blockHash s chainTip hs" using True ref len by (auto simp: agrees_def refines_def booksOf_def)
    ultimately show ?thesis by (rule keep)
  next
    case False
    let ?tip = "s + int (length bs) - 1" and ?at = "min (s + int (length bs) - 1) chainTip"
    have tip: "bp_tip (ix_state ix) = Some ?tip" "\<not> chainTip < s" using ref False by (auto simp: refines_def booksOf_def)
    have fork_step: thesis if nomatch: "checkReorg H2 disk blockHash s chainTip ix =
        (case findFork blockHash s chainTip (ix_store ix) ?tip of Inl e \<Rightarrow> Some (Inl e, ix)
         | Inr None \<Rightarrow> Some (rescan disk ix) | Inr (Some fork) \<Rightarrow> rollbackIx H2 disk ix fork)"
    proof -
      consider e where "findFork blockHash s chainTip (ix_store ix) ?tip = Inl e" | "findFork blockHash s chainTip (ix_store ix) ?tip = Inr None"
        | fork where "findFork blockHash s chainTip (ix_store ix) ?tip = Inr (Some fork)"
        by (metis not_None_eq sum.exhaust)
      then show thesis
      proof cases
        case 1
        then show ?thesis using nomatch by (intro keep) auto
      next
        case 2
        then show ?thesis using nomatch by (intro again) auto
      next
        case 3
        note fork = findForkLoop_ok [OF so 3 [unfolded findFork_def]]
        define k where "k = nat (fork - s)"
        have k: "fork = s + int k" "k \<le> length bs" "0 < k" using fork by (auto simp: k_def)
        have "agrees blockHash s chainTip (take k hs)"
          using fork k len by (auto simp: agrees_def Let_def min_absorb1 nat_diff_distrib)
        moreover have "agrees blockHash s chainTip (take 0 hs)" by (simp add: agrees_def)
        moreover have pos: "0 < length bs" using k by linarith
        have "\<exists>r ix' d' j. rollbackIx H2 disk ix (s + int k) = Some (r, ix') \<and> j \<le> length bs
            \<and> indexed H2 ix' s d' (take j bs) (take j hs) \<and> (r = Inr () \<longrightarrow> j = k \<or> j = 0)"
          by (rule rollbackIx_ok [OF assms(1,2) k(2) pos assms(3), of disk]) blast
        then obtain r ix' d' j where "rollbackIx H2 disk ix (s + int k) = Some (r, ix')" "j \<le> length bs"
            "indexed H2 ix' s d' (take j bs) (take j hs)" "r = Inr () \<longrightarrow> j = k \<or> j = 0"
          by blast
        ultimately show ?thesis using nomatch 3 k(1) by (intro result [of r ix' j d']) auto
      qed
    qed
    show ?thesis
    proof (cases "storeBlock (ix_store ix) ?at")
      case None
      then show ?thesis using tip by (intro fork_step) (simp add: checkReorg_def Let_def)
    next
      case (Some b)
      obtain hash root where b: "b = (hash, root)" by fastforce
      have hash: "hash = hs ! nat (?at - s)" using storeBlock_ok [OF so, of ?at] Some b by (auto split: if_splits)
      show ?thesis
      proof (cases "blockHash ?at")
        case (Inl e)
        then show ?thesis using tip Some b by (intro keep [of "Inl e"]) (simp_all add: checkReorg_def Let_def)
      next
        case (Inr remote)
        show ?thesis
        proof (cases "remote = hash")
          case True
          then have "checkReorg H2 disk blockHash s chainTip ix = Some (Inr (), ix)"
            using tip Some b Inr by (simp add: checkReorg_def Let_def)
          moreover have "agrees blockHash s chainTip hs" using Inr True hash len by (simp add: agrees_def Let_def)
          ultimately show ?thesis by (rule keep)
        next
          case False
          then show ?thesis using tip Some b Inr by (intro fork_step) (simp add: checkReorg_def Let_def)
        qed
      qed
    qed
  qed
qed

end
