(* ===== verification/Pool_Sync.thy ===== *)
theory Pool_Sync
  imports Pool_Index
begin

text \<open>
  One pass of the shielded pool's replay service (\<open>syncOnce\<close> in \<open>worker-relay/src/btc-pool-indexer.js\<close>): the reorg
  check, then every confirmed block not yet replayed, each parsed, linked to its parent, checked for proof of work and
  difficulty, and replayed. The block source is a parameter; any of its requests may fail.
\<close>

record blockSource =
  es_tipHeight :: "int res"
  es_blockHash :: hashSource
  es_rawBlock :: "bytes \<Rightarrow> bytes res"
  es_header :: "bytes \<Rightarrow> bytes res"

record chainParams =
  cp_powLimitBits :: nat
  cp_checkpoint :: "(int \<times> bytes) option"

definition MAX_ANCHOR_WALK :: int where "MAX_ANCHOR_WALK = 10000"

text \<open>A \<open>ChainIntegrityError\<close> is an error whose text starts with its name.\<close>

definition integrity :: "string \<Rightarrow> js_error" where "integrity m = Err (''ChainIntegrityError: '' @ m)"

definition isIntegrity :: "js_error \<Rightarrow> bool" where
  "isIntegrity e = (case e of Err m \<Rightarrow> take 21 m = ''ChainIntegrityError: '' | _ \<Rightarrow> False)"

subsection \<open>Headers\<close>

definition readHeader :: "(bytes \<Rightarrow> bytes) \<Rightarrow> blockSource \<Rightarrow> bytes \<Rightarrow> header res" where
  "readHeader sha256 src hash =
     (case es_header src hash of Inl e \<Rightarrow> Inl e
      | Inr raw \<Rightarrow> (case parseHeader sha256 raw of None \<Rightarrow> Inl (Err ''header must be 80 bytes'')
        | Some hdr \<Rightarrow> if hd_hash hdr \<noteq> hash then Inl (Err ''header does not hash'') else Inr hdr))"

definition headerAt :: "(bytes \<Rightarrow> bytes) \<Rightarrow> blockSource \<Rightarrow> indexer \<Rightarrow> int \<Rightarrow> header option res \<times> indexer" where
  "headerAt sha256 src ix h =
     (case ix_headers ix h of Some hdr \<Rightarrow> (Inr (Some hdr), ix)
      | None \<Rightarrow>
         (case storeBlock (ix_store ix) h of None \<Rightarrow> (Inr None, ix)
          | Some (hash, root) \<Rightarrow>
             (case readHeader sha256 src hash of Inl e \<Rightarrow> (Inl e, ix)
              | Inr hdr \<Rightarrow> (Inr (Some hdr), ix\<lparr>ix_headers := (ix_headers ix)(h \<mapsto> hdr)\<rparr>))))"

text \<open>The walk back by hash; \<open>n\<close> blocks are left to the checkpoint, \<open>firstHdr\<close> is the first header read.\<close>

primrec walkBack :: "(bytes \<Rightarrow> bytes) \<Rightarrow> blockSource \<Rightarrow> nat \<Rightarrow> bytes \<Rightarrow> nat \<Rightarrow> bytes \<Rightarrow> header option \<Rightarrow> header res" where
  "walkBack sha256 src powLimitBits cpHash 0 hash firstHdr =
     (case readHeader sha256 src hash of Inl e \<Rightarrow> Inl e
      | Inr hdr \<Rightarrow> if hash \<noteq> cpHash then Inl (integrity ''not checkpoint'')
          else Inr (case firstHdr of None \<Rightarrow> hdr | Some t \<Rightarrow> t))"
| "walkBack sha256 src powLimitBits cpHash (Suc n) hash firstHdr =
     (case readHeader sha256 src hash of Inl e \<Rightarrow> Inl e
      | Inr hdr \<Rightarrow>
         (case checkProofOfWork hash (hd_bits hdr) powLimitBits of None \<Rightarrow> Inl (Err ''proof of work'')
          | Some _ \<Rightarrow> walkBack sha256 src powLimitBits cpHash n (hd_prevHash hdr) (case firstHdr of None \<Rightarrow> Some hdr | Some t \<Rightarrow> Some t)))"

definition walkToCheckpoint :: "(bytes \<Rightarrow> bytes) \<Rightarrow> blockSource \<Rightarrow> chainParams \<Rightarrow> int \<Rightarrow> int \<times> bytes \<Rightarrow> header \<Rightarrow> header res" where
  "walkToCheckpoint sha256 src params startHeight cp block =
     (if startHeight - 1 - fst cp > MAX_ANCHOR_WALK then Inl (integrity ''checkpoint is too far below start'')
      else walkBack sha256 src (cp_powLimitBits params) (snd cp) (nat (startHeight - 1 - fst cp)) (hd_prevHash block) None)"

definition anchorBelowStart :: "(bytes \<Rightarrow> bytes) \<Rightarrow> blockSource \<Rightarrow> chainParams \<Rightarrow> int \<Rightarrow> indexer \<Rightarrow> header \<Rightarrow> header option res \<times> indexer" where
  "anchorBelowStart sha256 src params startHeight ix block =
     (case cp_checkpoint params of None \<Rightarrow> (Inr None, ix)
      | Some cp \<Rightarrow>
         if fst cp \<ge> startHeight then (Inr None, ix)
         else case ix_anchored ix of
             Some (prevHash, hdr) \<Rightarrow>
               if prevHash = hd_prevHash block then (Inr (Some hdr), ix)
               else (case walkToCheckpoint sha256 src params startHeight cp block of Inl e \<Rightarrow> (Inl e, ix)
                 | Inr hdr \<Rightarrow> (Inr (Some hdr), ix\<lparr>ix_anchored := Some (hd_prevHash block, hdr)\<rparr>))
           | None \<Rightarrow> (case walkToCheckpoint sha256 src params startHeight cp block of Inl e \<Rightarrow> (Inl e, ix)
               | Inr hdr \<Rightarrow> (Inr (Some hdr), ix\<lparr>ix_anchored := Some (hd_prevHash block, hdr)\<rparr>)))"

text \<open>The rule for the difficulty of \<open>block\<close>, with the headers it needs.\<close>

definition difficultyOk :: "nat \<Rightarrow> int \<Rightarrow> header \<Rightarrow> header \<Rightarrow> header option \<Rightarrow> unit res" where
  "difficultyOk powLimitBits h block prev first =
     (if h mod RETARGET_INTERVAL \<noteq> 0 then
        (if hd_bits block \<noteq> hd_bits prev then Inl (integrity ''changes difficulty off a retarget boundary'') else Inr ())
      else case first of
        Some f \<Rightarrow>
          (case retargetBits (hd_bits prev) (hd_time f) (hd_time prev) powLimitBits of None \<Rightarrow> Inl (Err ''nBits'')
           | Some bits \<Rightarrow> if hd_bits block \<noteq> bits then Inl (integrity ''wrong retarget'') else Inr ())
      | None \<Rightarrow>
          (case (bitsToTarget (hd_bits block), bitsToTarget (hd_bits prev)) of
             (Some t, Some p) \<Rightarrow> if t * 4 < p \<or> t > p * 4 then Inl (integrity ''retargets by more than a factor of 4'') else Inr ()
           | _ \<Rightarrow> Inl (Err ''nBits'')))"

definition checkHeader :: "(bytes \<Rightarrow> bytes) \<Rightarrow> blockSource \<Rightarrow> chainParams \<Rightarrow> int \<Rightarrow> indexer \<Rightarrow> int \<Rightarrow> header \<Rightarrow> unit res \<times> indexer" where
  "checkHeader sha256 src params startHeight ix h block =
     (case checkProofOfWork (hd_hash block) (hd_bits block) (cp_powLimitBits params) of None \<Rightarrow> (Inl (integrity ''proof of work''), ix)
      | Some _ \<Rightarrow>
         if (case cp_checkpoint params of None \<Rightarrow> False | Some cp \<Rightarrow> h = fst cp \<and> hd_hash block \<noteq> snd cp) then
           (Inl (integrity ''not checkpoint''), ix)
         else
          (case (if h > startHeight then headerAt sha256 src ix (h - 1)
                 else anchorBelowStart sha256 src params startHeight ix block) of
             (Inl e, ix) \<Rightarrow> (Inl e, ix)
           | (Inr None, ix) \<Rightarrow> (Inr (), ix)
           | (Inr (Some prev), ix) \<Rightarrow>
              (if h mod RETARGET_INTERVAL = 0 \<and> h - RETARGET_INTERVAL \<ge> startHeight then
                 (case headerAt sha256 src ix (h - RETARGET_INTERVAL) of (Inl e, ix) \<Rightarrow> (Inl e, ix)
                  | (Inr first, ix) \<Rightarrow> (difficultyOk (cp_powLimitBits params) h block prev first, ix))
               else (difficultyOk (cp_powLimitBits params) h block prev None, ix))))"

subsection \<open>A pass\<close>

definition toPoolTx :: "rawTx \<Rightarrow> poolTx" where
  "toPoolTx t = \<lparr>tx_txid = rt_txid t, tx_vin = rt_vin t, tx_vout = rt_vout t, tx_envs = txEnvelopes t\<rparr>"

definition toPoolBlock :: "rawBlock \<Rightarrow> poolBlock" where
  "toPoolBlock b = \<lparr>bk_header = rb_header b, bk_txs = map toPoolTx (rb_txs b)\<rparr>"

definition keepHeader :: "indexer \<Rightarrow> int \<Rightarrow> header \<Rightarrow> indexer" where
  "keepHeader ix h hdr = ix\<lparr>ix_headers := ((ix_headers ix)(h \<mapsto> hdr))(h - RETARGET_INTERVAL - 1 := None)\<rparr>"

record syncEnv =
  sy_sha256 :: "bytes \<Rightarrow> bytes"
  sy_source :: blockSource
  sy_params :: chainParams
  sy_startHeight :: int
  sy_confirmations :: int
  sy_disk :: bool
  sy_transparent :: validator
  sy_trackAhead :: "(rawTx \<Rightarrow> (bytes \<times> bytes option) list) option"
  sy_aheadDepth :: int

definition fetchBlock :: "syncEnv \<Rightarrow> int \<Rightarrow> rawBlock res" where
  "fetchBlock Y h =
     (case es_blockHash (sy_source Y) h of Inl e \<Rightarrow> Inl e
      | Inr hash \<Rightarrow>
         (case es_rawBlock (sy_source Y) hash of Inl e \<Rightarrow> Inl e
          | Inr raw \<Rightarrow> (case parseBlock (sy_sha256 Y) raw (Some hash) of None \<Rightarrow> Inl (Err ''block'') | Some b \<Rightarrow> Inr b)))"

definition extendsStore :: "syncEnv \<Rightarrow> indexer \<Rightarrow> int \<Rightarrow> rawBlock \<Rightarrow> bool" where
  "extendsStore Y ix h b =
     (h > sy_startHeight Y \<longrightarrow> (case storeBlock (ix_store ix) (h - 1) of None \<Rightarrow> False
        | Some (hash, root) \<Rightarrow> hash = hd_prevHash (rb_header b)))"

text \<open>At most \<open>n\<close> blocks from \<open>h\<close> on, \<open>k\<close> done so far; a block that does not extend the last one ends the loop.\<close>

primrec syncBlocks :: "'p poolEnvir \<Rightarrow> syncEnv \<Rightarrow> nat \<Rightarrow> int \<Rightarrow> nat \<Rightarrow> indexer \<Rightarrow> nat res \<times> indexer" where
  "syncBlocks V Y 0 h k ix = (Inr k, ix)"
| "syncBlocks V Y (Suc n) h k ix =
     (case fetchBlock Y h of Inl e \<Rightarrow> (Inl e, ix)
      | Inr b \<Rightarrow>
         if \<not> extendsStore Y ix h b then (Inr k, ix)
         else case checkHeader (sy_sha256 Y) (sy_source Y) (sy_params Y) (sy_startHeight Y) ix h (rb_header b) of
             (Inl e, ix) \<Rightarrow> (Inl e, if isIntegrity e then ix\<lparr>ix_halted := Some (h, None)\<rparr> else ix)
           | (Inr _, ix) \<Rightarrow>
              (case processBlock V (sy_transparent Y) (sy_disk Y) ix h (toPoolBlock b) of (Inl e, ix) \<Rightarrow> (Inl e, ix)
               | (Inr _, ix) \<Rightarrow> syncBlocks V Y n (h + 1) (k + 1) (keepHeader ix h (rb_header b))))"

definition nextHeight :: "syncEnv \<Rightarrow> indexer \<Rightarrow> int" where
  "nextHeight Y ix = (case bp_tip (ix_state ix) of None \<Rightarrow> sy_startHeight Y | Some t \<Rightarrow> t + 1)"

definition blockSpends :: "(rawTx \<Rightarrow> (bytes \<times> bytes option) list) \<Rightarrow> rawBlock \<Rightarrow> aheadSpends" where
  "blockSpends trackAhead b =
     foldl (\<lambda>m tx. foldl (\<lambda>m (nf, body). m(nf \<mapsto> (rt_txid tx, body))) m (trackAhead tx)) Map.empty (drop 1 (rb_txs b))"

primrec aheadBlocks :: "syncEnv \<Rightarrow> (rawTx \<Rightarrow> (bytes \<times> bytes option) list) \<Rightarrow> nat \<Rightarrow> int \<Rightarrow> indexer \<Rightarrow> unit res \<times> indexer" where
  "aheadBlocks Y trackAhead 0 h ix = (Inr (), ix)"
| "aheadBlocks Y trackAhead (Suc n) h ix =
     (case es_blockHash (sy_source Y) h of Inl e \<Rightarrow> (Inl e, ix)
      | Inr hash \<Rightarrow>
         if map_option fst (ix_ahead ix h) = Some hash then aheadBlocks Y trackAhead n (h + 1) ix
         else (case es_rawBlock (sy_source Y) hash of Inl e \<Rightarrow> (Inl e, ix)
           | Inr raw \<Rightarrow> (case parseBlock (sy_sha256 Y) raw (Some hash) of None \<Rightarrow> (Inl (Err ''block''), ix)
             | Some b \<Rightarrow> aheadBlocks Y trackAhead n (h + 1)
                 (ix\<lparr>ix_ahead := (ix_ahead ix)(h \<mapsto> (hash, blockSpends trackAhead b))\<rparr>))))"

definition syncAhead :: "syncEnv \<Rightarrow> (rawTx \<Rightarrow> (bytes \<times> bytes option) list) \<Rightarrow> int \<Rightarrow> indexer \<Rightarrow> unit res \<times> indexer" where
  "syncAhead Y trackAhead chainTip ix =
     (let from_h = nextHeight Y ix
      in if chainTip - from_h + 1 > sy_aheadDepth Y then (Inr (), ix\<lparr>ix_ahead := Map.empty\<rparr>)
         else case aheadBlocks Y trackAhead (nat (chainTip - from_h + 1)) from_h
                (ix\<lparr>ix_ahead := (\<lambda>h. if h < from_h \<or> h > chainTip then None else ix_ahead ix h)\<rparr>) of
              (Inl e, ix) \<Rightarrow> (Inl e, ix)
            | (Inr _, ix) \<Rightarrow> (Inr (), ix\<lparr>ix_aheadTip := Some chainTip\<rparr>))"

definition aheadComplete :: "syncEnv \<Rightarrow> indexer \<Rightarrow> bool" where
  "aheadComplete Y ix =
     (sy_trackAhead Y = None \<or>
      (case ix_chainTip ix of None \<Rightarrow> False
       | Some t \<Rightarrow> ix_aheadTip ix = Some t \<and> list_all (\<lambda>h. ix_ahead ix h \<noteq> None) [nextHeight Y ix..t]))"

text \<open>\<open>None\<close> is a pass that does not return.\<close>

definition syncOnce :: "'p poolEnvir \<Rightarrow> syncEnv \<Rightarrow> nat option \<Rightarrow> indexer \<Rightarrow> (nat res \<times> indexer) option" where
  "syncOnce V Y maxBlocks ix =
     (case es_tipHeight (sy_source Y) of Inl e \<Rightarrow> Some (Inl e, ix)
      | Inr chainTip \<Rightarrow>
         (case checkReorg (pv_H2 V) (sy_disk Y) (es_blockHash (sy_source Y)) (sy_startHeight Y) chainTip (ix\<lparr>ix_chainTip := Some chainTip\<rparr>) of
            None \<Rightarrow> None
          | Some (Inl e, ix) \<Rightarrow> Some (Inl e, ix)
          | Some (Inr _, ix) \<Rightarrow>
             (let target = chainTip - sy_confirmations Y + 1;
                  n = nat (target - nextHeight Y ix + 1)
              in Some (case syncBlocks V Y (case maxBlocks of None \<Rightarrow> n | Some m \<Rightarrow> min n m) (nextHeight Y ix) 0 ix of
                   (Inl e, ix) \<Rightarrow> (Inl e, ix)
                 | (Inr k, ix) \<Rightarrow>
                    (case sy_trackAhead Y of None \<Rightarrow> (Inr k, ix)
                     | Some trackAhead \<Rightarrow> apfst (map_sum id (\<lambda>_. k)) (syncAhead Y trackAhead chainTip ix))))))"

subsection \<open>What a pass keeps\<close>

text \<open>Every replayed block parses under its hash, meets its target and names the block before it.\<close>

definition chainOk :: "(bytes \<Rightarrow> bytes) \<Rightarrow> nat \<Rightarrow> bytes list \<Rightarrow> bool" where
  "chainOk sha256 powLimitBits hs = (\<forall>k<length hs. \<exists>raw b. parseBlock sha256 raw (Some (hs ! k)) = Some b
     \<and> checkProofOfWork (hs ! k) (hd_bits (rb_header b)) powLimitBits = Some ()
     \<and> (0 < k \<longrightarrow> hd_prevHash (rb_header b) = hs ! (k - 1)))"

lemma chainOk_take: "chainOk sha256 limit hs \<Longrightarrow> chainOk sha256 limit (take j hs)"
  by (auto simp: chainOk_def nth_take)

lemma chainOk_snoc:
  assumes "chainOk sha256 limit hs" "parseBlock sha256 raw (Some hash) = Some b"
    "checkProofOfWork hash (hd_bits (rb_header b)) limit = Some ()" "hs \<noteq> [] \<Longrightarrow> hd_prevHash (rb_header b) = last hs"
  shows "chainOk sha256 limit (hs @ [hash])"
  unfolding chainOk_def
proof (intro allI impI)
  fix k
  assume k: "k < length (hs @ [hash])"
  show "\<exists>raw b. parseBlock sha256 raw (Some ((hs @ [hash]) ! k)) = Some b
     \<and> checkProofOfWork ((hs @ [hash]) ! k) (hd_bits (rb_header b)) limit = Some ()
     \<and> (0 < k \<longrightarrow> hd_prevHash (rb_header b) = (hs @ [hash]) ! (k - 1))"
  proof (cases "k < length hs")
    case True
    then have "(hs @ [hash]) ! k = hs ! k" "(hs @ [hash]) ! (k - 1) = hs ! (k - 1)"
      by (auto simp: nth_append)
    then show ?thesis using assms(1) True by (simp add: chainOk_def)
  next
    case False
    then have "k = length hs" using k by simp
    then show ?thesis using assms(2-4) by (intro exI [where x = raw] exI [where x = b]) (auto simp: nth_append last_conv_nth)
  qed
qed

lemma headerAt_frame: "headerAt sha256 src ix h = (r, ix') \<Longrightarrow> ix_state ix' = ix_state ix \<and> ix_store ix' = ix_store ix"
  by (auto simp: headerAt_def split: option.splits sum.splits prod.splits)

lemma anchor_frame: "anchorBelowStart sha256 src params s ix b = (r, ix') \<Longrightarrow> ix_state ix' = ix_state ix \<and> ix_store ix' = ix_store ix"
  by (auto simp: anchorBelowStart_def split: option.splits sum.splits prod.splits if_splits)

lemma checkHeader_frame:
  assumes "checkHeader sha256 src params s ix h block = (r, ix')"
  shows "ix_state ix' = ix_state ix \<and> ix_store ix' = ix_store ix"
    "r = Inr () \<Longrightarrow> checkProofOfWork (hd_hash block) (hd_bits block) (cp_powLimitBits params) = Some ()"
proof -
  obtain r1 ix1 where 1: "(if h > s then headerAt sha256 src ix (h - 1) else anchorBelowStart sha256 src params s ix block) = (r1, ix1)"
    by fastforce
  obtain r2 ix2 where 2: "headerAt sha256 src ix1 (h - RETARGET_INTERVAL) = (r2, ix2)" by fastforce
  have f: "ix_state ix1 = ix_state ix" "ix_store ix1 = ix_store ix" "ix_state ix2 = ix_state ix1" "ix_store ix2 = ix_store ix1"
    using headerAt_frame anchor_frame 1 headerAt_frame [OF 2] by (auto split: if_splits)
  show "ix_state ix' = ix_state ix \<and> ix_store ix' = ix_store ix"
    using assms f unfolding checkHeader_def 1 2 prod.case
    by (auto split: option.splits sum.splits prod.splits if_splits)
  show "r = Inr () \<Longrightarrow> checkProofOfWork (hd_hash block) (hd_bits block) (cp_powLimitBits params) = Some ()"
    using assms by (auto simp: checkHeader_def split: option.splits)
qed

lemma syncBlocks_ok:
  "indexed (pv_H2 V) ix s d bs hs \<Longrightarrow> h = s + int (length bs) \<Longrightarrow> s = sy_startHeight Y \<Longrightarrow> chainOk (sy_sha256 Y) (cp_powLimitBits (sy_params Y)) hs \<Longrightarrow>
   syncBlocks V Y n h k ix = (r, ix') \<Longrightarrow>
   \<exists>d' bs' hs'. indexed (pv_H2 V) ix' s d' bs' hs' \<and> chainOk (sy_sha256 Y) (cp_powLimitBits (sy_params Y)) hs'"
proof (induction n arbitrary: h k ix d bs hs)
  case 0
  then show ?case by auto
next
  case (Suc n)
  show ?case
  proof (cases "\<exists>b. fetchBlock Y h = Inr b \<and> extendsStore Y ix h b")
    case False
    then have "ix' = ix" using Suc.prems(5) by (auto split: sum.splits)
    then show ?thesis using Suc.prems by auto
  next
    case True
    then obtain b where b: "fetchBlock Y h = Inr b" "extendsStore Y ix h b" by blast
    obtain raw hash where raw: "parseBlock (sy_sha256 Y) raw (Some hash) = Some b"
      using b(1) by (auto simp: fetchBlock_def split: sum.splits option.splits)
    have hash: "hd_hash (rb_header b) = hash" using parseBlock_parts(4) [OF raw] .
    obtain r1 ix1 where 1: "checkHeader (sy_sha256 Y) (sy_source Y) (sy_params Y) (sy_startHeight Y) ix h (rb_header b) = (r1, ix1)" by fastforce
    have ix1: "indexed (pv_H2 V) ix1 s d bs hs" using checkHeader_frame(1) [OF 1] indexed_frame Suc.prems(1) by blast
    show ?thesis
    proof (cases r1)
      case (Inl e)
      then have "indexed (pv_H2 V) ix' s d bs hs" using Suc.prems(5) b 1 ix1 by auto
      then show ?thesis using Suc.prems(4) by blast
    next
      case (Inr u)
      obtain r2 ix2 where 2: "processBlock V (sy_transparent Y) (sy_disk Y) ix1 h (toPoolBlock b) = (r2, ix2)" by fastforce
      show ?thesis
      proof (cases r2)
        case (Inl e)
        then have "ix' = ix2" using Suc.prems(5) b 1 \<open>r1 = Inr u\<close> 2 by simp
        moreover have "\<exists>d'. indexed (pv_H2 V) ix2 s d' bs hs"
        proof (rule disjE [OF processBlock_throws [OF ix1]])
          show "processBlock V (sy_transparent Y) (sy_disk Y) ix1 h (toPoolBlock b) = (Inl e, ix2)" using 2 Inl by simp
          show ?thesis if "ix2 = ix1\<lparr>ix_halted := ix_halted ix2\<rparr>" using ix1 that indexed_updates(1) by metis
        qed (use Suc.prems(2) in auto)
        ultimately show ?thesis using Suc.prems(4) by auto
      next
        case (Inr u2)
        have eq: "hd_hash (bk_header (toPoolBlock b)) = hash" by (simp add: toPoolBlock_def hash)
        obtain c s' where c: "indexed (pv_H2 V) ix2 s' (min 288 (Suc d)) (bs @ [c]) (hs @ [hash])" "h = s' + int (length bs)"
        proof -
          have run: "processBlock V (sy_transparent Y) (sy_disk Y) ix1 h (toPoolBlock b) = (Inr (), ix2)" using 2 Inr by simp
          show thesis by (rule processBlock_ok [OF ix1 run]) (auto intro: that simp: eq)
        qed
        then have s': "s' = s" using Suc.prems(2) by simp
        have len: "length hs = length bs" using Suc.prems(1) by (simp add: indexed_def storeOf_def)
        have link: "hd_prevHash (rb_header b) = last hs" if "hs \<noteq> []"
        proof -
          have "storeOf (pv_H2 V) (ix_store ix) s bs hs" using Suc.prems(1) by (simp add: indexed_def)
          from storeBlock_ok [OF this, of "h - 1"] that len Suc.prems(2)
          have "storeBlock (ix_store ix) (h - 1) = Some (last hs, rootAfter (pv_H2 V) bs (length bs - 1))"
            by (cases "length bs") (auto simp: last_conv_nth nat_diff_distrib)
          moreover have "h > sy_startHeight Y" using that len Suc.prems(2,3) by (cases "length bs") auto
          ultimately show ?thesis using b(2) by (simp add: extendsStore_def)
        qed
        have chain: "chainOk (sy_sha256 Y) (cp_powLimitBits (sy_params Y)) (hs @ [hash])"
          using checkHeader_frame(2) [OF 1] \<open>r1 = Inr u\<close> hash link by (intro chainOk_snoc [OF Suc.prems(4) raw]) auto
        have "indexed (pv_H2 V) (keepHeader ix2 h (rb_header b)) s (min 288 (Suc d)) (bs @ [c]) (hs @ [hash])"
          using c(1) s' indexed_frame [of "keepHeader ix2 h (rb_header b)" ix2] by (simp add: keepHeader_def)
        moreover have "syncBlocks V Y n (h + 1) (k + 1) (keepHeader ix2 h (rb_header b)) = (r, ix')"
          using Suc.prems(5) b 1 \<open>r1 = Inr u\<close> 2 Inr by simp
        moreover have "h + 1 = s + int (length (bs @ [c]))" using Suc.prems(2) by simp
        ultimately show ?thesis using Suc.IH Suc.prems(3) chain by blast
      qed
    qed
  qed
qed

lemma ahead_frame: "aheadBlocks Y track n h ix = (r, ix') \<Longrightarrow> ix_state ix' = ix_state ix \<and> ix_store ix' = ix_store ix \<and> ix_chainTip ix' = ix_chainTip ix"
  by (induction n arbitrary: h ix) (auto split: sum.splits option.splits if_splits)

lemma syncAhead_frame: "syncAhead Y track t ix = (r, ix') \<Longrightarrow> ix_state ix' = ix_state ix \<and> ix_store ix' = ix_store ix \<and> ix_chainTip ix' = ix_chainTip ix"
  by (auto simp: syncAhead_def Let_def split: if_splits prod.splits sum.splits dest: ahead_frame)

lemma syncOnce_ok:
  assumes "indexed (pv_H2 V) ix s d bs hs" "s = sy_startHeight Y" "0 \<le> s" "length (rowsOf bs) \<le> 2 ^ 30"
    "chainOk (sy_sha256 Y) (cp_powLimitBits (sy_params Y)) hs"
  shows "\<exists>r ix' d' bs' hs'. syncOnce V Y m ix = Some (r, ix') \<and> indexed (pv_H2 V) ix' s d' bs' hs'
    \<and> chainOk (sy_sha256 Y) (cp_powLimitBits (sy_params Y)) hs'"
proof (cases "es_tipHeight (sy_source Y)")
  case (Inl e)
  then show ?thesis using assms by (auto simp: syncOnce_def)
next
  case (Inr chainTip)
  let ?ix = "ix\<lparr>ix_chainTip := Some chainTip\<rparr>"
  let ?run = "checkReorg (pv_H2 V) (sy_disk Y) (es_blockHash (sy_source Y)) s chainTip ?ix"
  have ix: "indexed (pv_H2 V) ?ix s d bs hs" using assms(1) indexed_frame [of ?ix ix] by simp
  have "\<exists>r ix1 d1 j. ?run = Some (r, ix1) \<and> j \<le> length bs \<and> indexed (pv_H2 V) ix1 s d1 (take j bs) (take j hs)"
    by (rule checkReorg_ok [OF ix assms(3,4), where disk = "sy_disk Y" and blockHash = "es_blockHash (sy_source Y)" and chainTip = chainTip]) blast
  then obtain r ix1 d1 j where 1: "?run = Some (r, ix1)" "indexed (pv_H2 V) ix1 s d1 (take j bs) (take j hs)" by blast
  have chain: "chainOk (sy_sha256 Y) (cp_powLimitBits (sy_params Y)) (take j hs)" by (rule chainOk_take [OF assms(5)])
  show ?thesis
  proof (cases r)
    case (Inl e)
    then show ?thesis using 1 chain Inr assms(2) by (auto simp: syncOnce_def)
  next
    case r: (Inr u)
    define n where "n = (case m of None \<Rightarrow> nat (chainTip - sy_confirmations Y + 1 - nextHeight Y ix1 + 1)
      | Some k \<Rightarrow> min (nat (chainTip - sy_confirmations Y + 1 - nextHeight Y ix1 + 1)) k)"
    have h: "nextHeight Y ix1 = s + int (length (take j bs))"
      using 1(2) assms(2) by (auto simp: nextHeight_def indexed_def refines_def booksOf_def)
    obtain r2 ix2 where 2: "syncBlocks V Y n (nextHeight Y ix1) 0 ix1 = (r2, ix2)" by fastforce
    have "\<exists>r3 ix3. syncOnce V Y m ix = Some (r3, ix3) \<and> ix_state ix3 = ix_state ix2 \<and> ix_store ix3 = ix_store ix2"
      using Inr 1(1) r 2 [unfolded n_def] assms(2) syncAhead_frame
      by (cases r2; cases "sy_trackAhead Y")
        (simp_all add: syncOnce_def Let_def apfst_def map_prod_def split: prod.splits; metis)+
    then show ?thesis using syncBlocks_ok [OF 1(2) h assms(2) chain 2] indexed_frame by metis
  qed
qed

end
