(* ===== verification/Pool_Serve.thy ===== *)
theory Pool_Serve
  imports Pool_Sync "HOL-Library.List_Lexorder" "HOL-Library.Product_Lexorder"
begin

text \<open>
  Starting the replay service and its read-only HTTP interface (\<open>createIndexer\<close> and \<open>createHandler\<close> in
  \<open>worker-relay/src/btc-pool-indexer.js\<close>, the queries of \<open>worker-relay/src/lib/btc-pool-store.js\<close>). A request is what
  is left of it once the URL is matched; a reply is the value sent or the HTTP status of the failure. Hexadecimal text is
  dropped: the order of two such texts is the lexicographic order of the bytes.
\<close>

datatype 'a reply = Reply 'a | HttpError nat

subsection \<open>Start\<close>

record storeMeta =
  sm_network :: "string option"
  sm_startHeight :: "int option"

text \<open>The tables and their settings are opened; \<open>None\<close> is a start that does not return.\<close>

definition createIndexer :: "hash2 \<Rightarrow> poolStore \<Rightarrow> storeMeta \<Rightarrow> string \<Rightarrow> int \<Rightarrow> chainParams option
    \<Rightarrow> (indexer res \<times> storeMeta) option" where
  "createIndexer H2 so meta network startHeight chain =
     (if startHeight < 1 then Some (Inl (Err ''startHeight must be a positive integer''), meta)
      else case chain of None \<Rightarrow> Some (Inl (Err ''no chain parameters''), meta)
      | Some params \<Rightarrow>
         if (case sm_network meta of None \<Rightarrow> False | Some n \<Rightarrow> n \<noteq> network) then Some (Inl (Err ''database is for another network''), meta)
         else if (case sm_startHeight meta of None \<Rightarrow> False | Some h \<Rightarrow> h \<noteq> startHeight) then
           Some (Inl (Err ''database starts at another height''), meta)
         else
          (let meta = \<lparr>sm_network = Some network, sm_startHeight = Some startHeight\<rparr>
           in if (case cp_checkpoint params of None \<Rightarrow> False
                  | Some (h, hash) \<Rightarrow> (case storeBlock so h of None \<Rightarrow> False | Some b \<Rightarrow> fst b \<noteq> hash)) then
                Some (Inl (integrity ''database block is not checkpoint''), meta)
              else map_option (\<lambda>r. (map_sum id (\<lambda>st. \<lparr>ix_state = st, ix_store = so, ix_headers = Map.empty, ix_anchored = None,
                     ix_chainTip = None, ix_ahead = Map.empty, ix_aheadTip = None, ix_halted = None\<rparr>) r, meta))
                   (restorePool H2 (storeSnapshot so))))"

subsection \<open>Queries\<close>

definition storeNotes :: "poolStore \<Rightarrow> int \<Rightarrow> nat \<Rightarrow> fullLeaf list" where
  "storeNotes so from_i limit = take limit (sort_key fl_leafIndex (filter (\<lambda>l. int (fl_leafIndex l) \<ge> from_i) (so_leaves so)))"

definition storeNullifier :: "poolStore \<Rightarrow> bytes \<Rightarrow> nfRec option" where
  "storeNullifier so nf = map_of (so_nullifiers so) nf"

definition storeExit :: "poolStore \<Rightarrow> outpoint2 \<Rightarrow> exitRec option" where
  "storeExit so op = map_of (so_exits so) op"

definition storeRootsFrom :: "poolStore \<Rightarrow> int \<Rightarrow> (int \<times> bytes) list" where
  "storeRootsFrom so h = map (\<lambda>(h, hash, root). (h, root)) (sort_key fst (filter (\<lambda>b. fst b \<ge> h) (so_blocks so)))"

text \<open>Rows of one block or of later ones, by height and then by nullifier; \<open>after\<close> continues within block \<open>from_h\<close>.\<close>

definition nfOrder :: "bytes \<times> nfRec \<Rightarrow> int \<times> bytes" where
  "nfOrder n = (nr_height (snd n), fst n)"

definition nullifiersFrom :: "poolStore \<Rightarrow> int \<Rightarrow> bytes option \<Rightarrow> nat \<Rightarrow> (bytes \<times> nfRec) list" where
  "nullifiersFrom so from_h after limit =
     (let above = (case after of None \<Rightarrow> from_h - 1 | Some _ \<Rightarrow> from_h);
          later = (\<lambda>nf. case after of None \<Rightarrow> True | Some a \<Rightarrow> nf > a)
      in take limit (sort_key nfOrder (filter (\<lambda>n. nr_height (snd n) > above \<or> (nr_height (snd n) = from_h \<and> later (fst n)))
           (so_nullifiers so))))"

subsection \<open>Replies\<close>

record poolStatus =
  ps_height :: "int option"
  ps_tip :: "int option"
  ps_leafCount :: nat
  ps_root :: "bytes option"
  ps_halted :: bool

definition serveStatus :: "indexer \<Rightarrow> poolStatus reply" where
  "serveStatus ix =
     (let st = ix_state ix;
          leafCount = (case bp_pending st of Some p \<Rightarrow> pb_leafStart p | None \<Rightarrow> treeSize (bp_tree st));
          result = (\<lambda>root. \<lparr>ps_height = bp_tip st, ps_tip = ix_chainTip ix, ps_leafCount = leafCount, ps_root = root,
            ps_halted = (ix_halted ix \<noteq> None)\<rparr>)
      in case bp_tip st of None \<Rightarrow> Reply (result None)
         | Some t \<Rightarrow> (case map_of (bp_roots st) t of None \<Rightarrow> HttpError 500 | Some r \<Rightarrow> Reply (result (Some r))))"

definition serveRoots :: "indexer \<Rightarrow> (int option \<times> (int \<times> bytes) list) reply" where
  "serveRoots ix =
     (let from_h = (case bp_tip (ix_state ix) of None \<Rightarrow> 0 | Some t \<Rightarrow> t + 1 - ANCHOR_WINDOW)
      in Reply (bp_tip (ix_state ix), storeRootsFrom (ix_store ix) from_h))"

record rootReply =
  rr_height :: int
  rr_root :: bytes
  rr_blockHash :: bytes
  rr_retained :: bool

definition serveRoot :: "indexer \<Rightarrow> int \<Rightarrow> rootReply reply" where
  "serveRoot ix h =
     (case storeBlock (ix_store ix) h of None \<Rightarrow> HttpError 404
      | Some (hash, root) \<Rightarrow> Reply \<lparr>rr_height = h, rr_root = root, rr_blockHash = hash,
          rr_retained = (map_of (bp_roots (ix_state ix)) h \<noteq> None)\<rparr>)"

record pathReply =
  pr_leafIndex :: nat
  pr_leaf :: bytes
  pr_height :: "int option"
  pr_hAnchor :: "int option"
  pr_root :: bytes
  pr_path :: "bytes list"

text \<open>\<open>at_h\<close> is the parameter \<open>at\<close>; \<open>None\<close> is a request that is never answered.\<close>

definition servePath :: "hash2 \<Rightarrow> indexer \<Rightarrow> nat \<Rightarrow> int option \<Rightarrow> pathReply reply option" where
  "servePath H2 ix i at_h =
     (let st = ix_state ix;
          result = (\<lambda>root path. Reply \<lparr>pr_leafIndex = i, pr_leaf = bigTo32 (bp_tree st ! 0 ! i), pr_height = bp_tip st,
            pr_hAnchor = at_h, pr_root = root, pr_path = path\<rparr>)
      in if bp_pending st \<noteq> None then Some (HttpError 503)
         else case at_h of
           Some h \<Rightarrow>
            (case map_of (bp_roots st) h of None \<Rightarrow> Some (HttpError 404)
             | Some R \<Rightarrow>
                (case leafCountAt st h of None \<Rightarrow> None
                 | Some n \<Rightarrow>
                    if int i \<ge> n then Some (HttpError 404)
                    else (case rootAndPathAt H2 (bp_tree st) i (nat n) of Inl e \<Rightarrow> Some (HttpError 500)
                      | Inr (root, path) \<Rightarrow> if root \<noteq> R then Some (HttpError 500) else Some (result root path))))
         | None \<Rightarrow>
            if i \<ge> treeSize (bp_tree st) then Some (HttpError 404)
            else (case rootAndPath H2 (bp_tree st) i of Inl e \<Rightarrow> Some (HttpError 500)
              | Inr (root, path) \<Rightarrow> Some (result root path)))"

text \<open>A number in the query text: missing or zero is the default.\<close>

definition queryOr :: "int \<Rightarrow> int option \<Rightarrow> int" where
  "queryOr d q = (case q of None \<Rightarrow> d | Some x \<Rightarrow> if x = 0 then d else x)"

record notesReply =
  no_height :: "int option"
  no_notes :: "fullLeaf list"
  no_next :: int

definition serveNotes :: "indexer \<Rightarrow> int option \<Rightarrow> int option \<Rightarrow> notesReply reply" where
  "serveNotes ix from_q limit_q =
     (let from_i = max 0 (queryOr 0 from_q);
          limit = min 1000 (max 1 (queryOr 200 limit_q));
          rows = storeNotes (ix_store ix) from_i (nat limit)
      in Reply \<lparr>no_height = bp_tip (ix_state ix), no_notes = rows,
           no_next = (if rows = [] then from_i else int (fl_leafIndex (last rows)) + 1)\<rparr>)"

record nullifiersReply =
  nl_height :: "int option"
  nl_nullifiers :: "(bytes \<times> int) list"
  nl_next :: "(int \<times> bytes) option"

definition serveNullifiers :: "indexer \<Rightarrow> int option \<Rightarrow> bytes option \<Rightarrow> int option \<Rightarrow> nullifiersReply reply" where
  "serveNullifiers ix from_q after limit_q =
     (let from_h = max 0 (queryOr 0 from_q)
      in if (case after of None \<Rightarrow> False | Some a \<Rightarrow> length a \<noteq> 32) then HttpError 400
         else let limit = nat (min 5000 (max 1 (queryOr 2000 limit_q)));
                  rows = nullifiersFrom (ix_store ix) from_h after limit
              in Reply \<lparr>nl_height = bp_tip (ix_state ix), nl_nullifiers = map (\<lambda>(nf, rc). (nf, nr_height rc)) rows,
                   nl_next = (if length rows = limit then Some (nr_height (snd (last rows)), fst (last rows)) else None)\<rparr>)"

definition serveNullifier :: "indexer \<Rightarrow> bytes \<Rightarrow> nfRec option" where
  "serveNullifier ix nf = storeNullifier (ix_store ix) nf"

definition serveExit :: "indexer \<Rightarrow> outpoint2 \<Rightarrow> exitRec option" where
  "serveExit ix op = storeExit (ix_store ix) op"

subsection \<open>What the service promises\<close>

lemma createIndexer_ok:
  assumes "storeOf H2 so s bs hs" "ledgerOk s bs" "length (rowsOf bs) \<le> 2 ^ 30"
  shows "\<exists>r meta'. createIndexer H2 so meta network startHeight chain = Some (r, meta')
    \<and> (\<forall>ix. r = Inr ix \<longrightarrow> indexed H2 ix s (min 288 (length bs)) bs hs)"
proof -
  obtain st where st: "restorePool H2 (storeSnapshot so) = Some (Inr st)" "refines H2 st s (min 288 (length bs)) bs"
    using restart_ok [OF assms] by blast
  have "indexed H2 ix s (min 288 (length bs)) bs hs" if "ix_state ix = st" "ix_store ix = so" for ix
    using that st(2) assms(1) by (simp add: indexed_def)
  then show ?thesis
    using st(1) by (auto simp: createIndexer_def Let_def split: option.split)
qed

lemma leafVals_field: "ledgerOk s bs \<Longrightarrow> fieldLeaves (leafVals bs)"
proof -
  assume ok: "ledgerOk s bs"
  have "leafVal l < P_FR" if "l \<in> set (rowsOf bs)" for l
    using in_rowsE [OF that] ok unfolding ledgerOk_def blockOk_def by metis
  moreover have "0 \<le> leafVal l" for l by (simp add: leafVal_def bytesToBig_def be_val_def le_val_nonneg)
  ultimately show ?thesis by (auto simp: fieldLeaves_def leafVals_def)
qed

lemma leafVals_take: "leafVals (take k bs) = take (length (rowsOf (take k bs))) (leafVals bs)"
  by (metis append_take_drop_id append_eq_conv_conj length_leafVals rows_simps(8))

text \<open>The path of a note under a retained root: it is served, and it leads to that root.\<close>

lemma servePath_ok:
  assumes "indexed H2 ix s d bs hs" "length (rowsOf bs) \<le> 2 ^ 30" "fieldHash H2" "map_of (bp_roots (ix_state ix)) h = Some R"
    "i < length (rowsOf (take (Suc (nat (h - s))) bs))"
  obtains path where
    "servePath H2 ix i (Some h) = Some (Reply \<lparr>pr_leafIndex = i, pr_leaf = bigTo32 (leafVals bs ! i), pr_height = bp_tip (ix_state ix),
       pr_hAnchor = Some h, pr_root = R, pr_path = path\<rparr>)"
    "rootFromPath H2 (bigTo32 (leafVals bs ! i)) i path = Some R"
proof -
  let ?st = "ix_state ix" and ?k = "nat (h - s)"
  let ?n = "length (rowsOf (take (Suc ?k) bs))"
  have core: "coreOf H2 ?st s bs" and books: "booksOf H2 ?st s d bs" and pend: "bp_pending ?st = None"
    using assms(1) by (auto simp: indexed_def refines_def)
  have inv: "treeInv H2 (bp_tree ?st) (leafVals bs)" and ok: "ledgerOk s bs" using core by (auto simp: coreOf_def)
  have h: "s \<le> h" "R = rootAfter H2 bs ?k"
    using assms(4) books by (auto simp: booksOf_def rootsOf_def split: if_splits)
  have n: "?n \<le> length (leafVals bs)" by (simp add: rows_take_le)
  have i: "i < 2 ^ 31" "i < length (leafVals bs)" using assms(2,5) n by auto
  obtain L' where L': "truncateTree H2 (bp_tree ?st) ?n = Inr L'" "treeInv H2 L' (leafVals (take (Suc ?k) bs))"
    using truncate_ok [OF inv n] leafVals_take [of "Suc ?k" bs] by metis
  have R: "treeRoot H2 L' = R" using rootF_ok [OF L'(2)] h(2) by (simp add: treeRoot_def rootAfter_def)
  have leaf: "L' ! 0 ! i = leafVals bs ! i" "bp_tree ?st ! 0 ! i = leafVals bs ! i"
    using L'(2) inv assms(5) leafVals_take [of "Suc ?k" bs] by (simp_all add: treeInv_def)
  have "fieldLeaves (leafVals (take (Suc ?k) bs))"
    using leafVals_field [OF ok] by (auto simp: fieldLeaves_def leafVals_take dest: in_set_takeD)
  with path_checks [OF L'(2) _ i(1) assms(3)] assms(5)
  obtain path where p: "rootAndPath H2 L' i = Inr (treeRoot H2 L', path)" "rootFromPath H2 (bigTo32 (L' ! 0 ! i)) i path = Some (treeRoot H2 L')"
    by auto
  have "rootAndPathAt H2 (bp_tree ?st) i ?n = Inr (R, path)"
    using prefix_path [OF inv n assms(5) i(1) L'(1)] p(1) R by simp
  moreover have "leafCountAt ?st h = Some (int ?n)" using leafCountAt_ok [OF core assms(2), of ?k] h(1) by simp
  ultimately have "servePath H2 ix i (Some h) = Some (Reply \<lparr>pr_leafIndex = i, pr_leaf = bigTo32 (leafVals bs ! i),
      pr_height = bp_tip ?st, pr_hAnchor = Some h, pr_root = R, pr_path = path\<rparr>)"
    using pend assms(4,5) leaf by (simp add: servePath_def Let_def)
  then show ?thesis using p(2) R leaf by (intro that) auto
qed

lemma serveNotes_ok:
  assumes "indexed H2 ix s d bs hs"
  shows "serveNotes ix (Some (int i)) (Some 1000) = Reply \<lparr>no_height = bp_tip (ix_state ix), no_notes = take 1000 (drop i (rowsOf bs)),
    no_next = (if i < length (rowsOf bs) then int (min (i + 1000) (length (rowsOf bs))) else int i)\<rparr>"
proof -
  let ?rows = "rowsOf bs"
  have so: "so_leaves (ix_store ix) = ?rows" and idx: "map fl_leafIndex ?rows = [0..<length ?rows]"
    using assms by (auto simp: indexed_def storeOf_def refines_def coreOf_def ledgerOk_def)
  have nth: "fl_leafIndex (?rows ! j) = j" if "j < length ?rows" for j
    using that arg_cong [OF idx, of "\<lambda>xs. xs ! j"] by simp
  have "\<forall>l\<in>set (take i ?rows). fl_leafIndex l < i" using nth by (auto simp: in_set_conv_nth)
  moreover have "\<forall>l\<in>set (drop i ?rows). i \<le> fl_leafIndex l" using nth by (auto simp: in_set_conv_nth)
  ultimately have "filter (\<lambda>l. i \<le> fl_leafIndex l) (take i ?rows @ drop i ?rows) = drop i ?rows"
    unfolding filter_append by (subst filter_False) auto
  then have "filter (\<lambda>l. i \<le> fl_leafIndex l) ?rows = drop i ?rows" by simp
  moreover have "map fl_leafIndex (drop i ?rows) = drop i [0..<length ?rows]" using idx by (simp add: drop_map [symmetric])
  then have "sorted (map fl_leafIndex (drop i ?rows))" by (simp del: drop_upt)
  ultimately have rows: "storeNotes (ix_store ix) (int i) 1000 = take 1000 (drop i ?rows)"
    by (simp add: storeNotes_def so sort_key_id_if_sorted)
  have "int (fl_leafIndex (last (take 1000 (drop i ?rows)))) + 1 = int (min (i + 1000) (length ?rows))" if "i < length ?rows"
    using that nth by (auto simp: last_conv_nth nth_drop min_def)
  then show ?thesis using rows by (auto simp: serveNotes_def Let_def queryOr_def max_def)
qed

subsection \<open>The list of spent notes\<close>

text \<open>All the spent notes, in the order of the pages.\<close>

definition spentOf :: "ablock list \<Rightarrow> (bytes \<times> nfRec) list" where
  "spentOf bs = sort_key nfOrder (nfsOf bs)"

lemma nfOrder_inj: "(nfOrder m = nfOrder n) = (fst m = fst n \<and> nr_height (snd m) = nr_height (snd n))"
  by (auto simp: nfOrder_def)

lemma spentOf_order:
  assumes "ledgerOk s bs" "spentOf bs = xs @ n # ys"
  shows "\<forall>m\<in>set xs. nfOrder m < nfOrder n" "\<forall>m\<in>set ys. nfOrder n < nfOrder m"
proof -
  have "distinct (map fst (xs @ n # ys))"
    unfolding assms(2) [symmetric] using assms(1) by (simp add: ledgerOk_def spentOf_def distinct_map)
  then have "nfOrder m \<noteq> nfOrder n" if "m \<in> set xs \<union> set ys" for m
    using that by (auto simp: nfOrder_inj image_iff)
  moreover have "sorted (map nfOrder (xs @ n # ys))" unfolding assms(2) [symmetric] spentOf_def by simp
  ultimately show "\<forall>m\<in>set xs. nfOrder m < nfOrder n" "\<forall>m\<in>set ys. nfOrder n < nfOrder m"
    by (fastforce simp: sorted_append order.strict_iff_order)+
qed

definition spentPageOf :: "(bytes \<times> nfRec) list \<Rightarrow> nat \<Rightarrow> int option \<Rightarrow> nullifiersReply reply" where
  "spentPageOf ns limit tip = Reply \<lparr>nl_height = tip, nl_nullifiers = map (\<lambda>(nf, rc). (nf, nr_height rc)) (take limit ns),
     nl_next = (if limit \<le> length ns then Some (nr_height (snd (ns ! (limit - 1))), fst (ns ! (limit - 1))) else None)\<rparr>"

lemma serve_page:
  assumes "0 < limit" "nullifiersFrom (ix_store ix) (max 0 from_h) after limit = take limit ns" "nat (min 5000 (max 1 q)) = limit" "q \<noteq> 0"
    "\<And>a. after = Some a \<Longrightarrow> length a = 32"
  shows "serveNullifiers ix (Some from_h) after (Some q) = spentPageOf ns limit (bp_tip (ix_state ix))"
proof -
  have "queryOr 0 (Some from_h) = from_h" "queryOr 2000 (Some q) = q" using assms(4) by (simp_all add: queryOr_def)
  moreover have "last (take limit ns) = ns ! (limit - 1)" if "limit \<le> length ns"
    using that assms(1) last_conv_nth [of "take limit ns"] by (cases "ns = []") (auto simp: min_absorb1)
  ultimately show ?thesis
    using assms by (auto simp: serveNullifiers_def spentPageOf_def Let_def min_def split: option.splits)
qed

lemma serveNullifiers_start:
  assumes "indexed H2 ix s d bs hs" "0 \<le> from_h"
  shows "serveNullifiers ix (Some from_h) None (Some 5000) =
    spentPageOf (filter (\<lambda>n. from_h \<le> nr_height (snd n)) (spentOf bs)) 5000 (bp_tip (ix_state ix))"
proof -
  have "so_nullifiers (ix_store ix) = nfsOf bs" using assms(1) by (simp add: indexed_def storeOf_def)
  moreover have "(\<lambda>n. from_h - 1 < nr_height (snd n) \<or> nr_height (snd n) = from_h) = (\<lambda>n::bytes \<times> nfRec. from_h \<le> nr_height (snd n))"
    by (auto simp: fun_eq_iff)
  ultimately have "nullifiersFrom (ix_store ix) (max 0 from_h) None 5000 = take 5000 (filter (\<lambda>n. from_h \<le> nr_height (snd n)) (spentOf bs))"
    using assms(2) by (simp add: nullifiersFrom_def spentOf_def filter_sort)
  then show ?thesis by (intro serve_page) auto
qed

lemma serveNullifiers_next:
  assumes "indexed H2 ix s d bs hs" "spentOf bs = xs @ n # ys" "0 \<le> nr_height (snd n)"
  shows "serveNullifiers ix (Some (nr_height (snd n))) (Some (fst n)) (Some 5000) = spentPageOf ys 5000 (bp_tip (ix_state ix))"
proof -
  have ok: "ledgerOk s bs" using assms(1) by (auto simp: indexed_def refines_def coreOf_def)
  have so: "so_nullifiers (ix_store ix) = nfsOf bs" using assms(1) by (simp add: indexed_def storeOf_def)
  have "(\<lambda>m. nr_height (snd n) < nr_height (snd m) \<or> (nr_height (snd m) = nr_height (snd n) \<and> fst n < fst m)) = (\<lambda>m. nfOrder n < nfOrder m)"
    by (auto simp: nfOrder_def fun_eq_iff)
  then have "nullifiersFrom (ix_store ix) (nr_height (snd n)) (Some (fst n)) 5000 = take 5000 (filter (\<lambda>m. nfOrder n < nfOrder m) (spentOf bs))"
    by (simp add: nullifiersFrom_def spentOf_def filter_sort so)
  moreover have "filter (\<lambda>m. nfOrder n < nfOrder m) (xs @ n # ys) = ys"
    using spentOf_order [OF ok assms(2)] by (auto simp: filter_empty_conv filter_id_conv)
  ultimately have "nullifiersFrom (ix_store ix) (max 0 (nr_height (snd n))) (Some (fst n)) 5000 = take 5000 ys"
    unfolding assms(2) using assms(3) by (metis max.absorb2)
  moreover have "length (fst n) = 32"
  proof -
    have "n \<in> set (nfsOf bs)" using assms(2) by (metis in_set_conv_decomp set_sort spentOf_def)
    then obtain b where "b \<in> set bs" "n \<in> set (ab_nfs b)" by (auto simp: nfsOf_def)
    then show ?thesis using ok unfolding ledgerOk_def blockOk_def by (metis in_set_conv_nth)
  qed
  ultimately show ?thesis by (intro serve_page) auto
qed

end
