(* ===== verification/Pool_Client.thy ===== *)
theory Pool_Client
  imports Pool_Serve
begin

text \<open>
  The wallet's client of the shielded pool's replay service (\<open>dapp/btc-pool-client.js\<close>): the note feed and the list of
  spent notes, read page by page, and the anchor of a spend with its root and authentication paths, worked out from the
  feed and checked against the service's root. The requests are parameters of the definitions; what the service
  promises about their replies is the locale \<open>pool_service\<close>, and \<open>Pool_Serve\<close> is an instance of it.
\<close>

subsection \<open>Pages\<close>

text \<open>\<open>g\<close> rounds are left.\<close>

primrec allNotesLoop :: "(int \<Rightarrow> (fullLeaf list \<times> int) reply) \<Rightarrow> nat \<Rightarrow> int \<Rightarrow> fullLeaf list \<Rightarrow> fullLeaf list reply" where
  "allNotesLoop notes 0 from_i out = Reply out"
| "allNotesLoop notes (Suc g) from_i out =
     (case notes from_i of HttpError c \<Rightarrow> HttpError c
      | Reply (ns, nxt) \<Rightarrow>
         if ns = [] \<or> nxt = from_i then Reply (out @ ns) else allNotesLoop notes g nxt (out @ ns))"

definition allNotes :: "(int \<Rightarrow> (fullLeaf list \<times> int) reply) \<Rightarrow> int \<Rightarrow> fullLeaf list reply" where
  "allNotes notes from_i = allNotesLoop notes 10000 from_i []"

type_synonym spentPage = "(bytes \<times> int) list \<times> (int \<times> bytes) option"

primrec spentLoop :: "(int \<Rightarrow> bytes option \<Rightarrow> spentPage reply) \<Rightarrow> nat \<Rightarrow> int \<Rightarrow> bytes option \<Rightarrow> (bytes \<rightharpoonup> int) \<Rightarrow> (bytes \<rightharpoonup> int) option reply" where
  "spentLoop nullifiers 0 from_h after m = Reply (Some m)"
| "spentLoop nullifiers (Suc g) from_h after m =
     (case nullifiers from_h after of HttpError c \<Rightarrow> if c = 404 then Reply None else HttpError c
      | Reply (ns, nxt) \<Rightarrow>
         (let m = foldl (\<lambda>m (nf, h). m(nf \<mapsto> h)) m ns
          in case nxt of None \<Rightarrow> Reply (Some m) | Some (h, nf) \<Rightarrow> spentLoop nullifiers g h (Some nf) m))"

text \<open>The list kept from the last read, with the height it was read at.\<close>

type_synonym spentMemo = "((bytes \<rightharpoonup> int) \<times> int) option"

definition spentFrom :: "spentMemo \<Rightarrow> int" where
  "spentFrom memo = (case memo of None \<Rightarrow> 0 | Some (m, through) \<Rightarrow> max 0 (through - 12))"

definition spentKept :: "spentMemo \<Rightarrow> (bytes \<rightharpoonup> int)" where
  "spentKept memo = (case memo of None \<Rightarrow> Map.empty
     | Some (m, through) \<Rightarrow> (\<lambda>nf. case m nf of None \<Rightarrow> None | Some h \<Rightarrow> if h < spentFrom memo then Some h else None))"

definition spentList :: "int option reply \<Rightarrow> (int \<Rightarrow> bytes option \<Rightarrow> spentPage reply) \<Rightarrow> spentMemo
    \<Rightarrow> (bytes \<rightharpoonup> int) option reply \<times> spentMemo" where
  "spentList height nullifiers memo =
     (case height of HttpError c \<Rightarrow> (HttpError c, memo)
      | Reply hq \<Rightarrow>
         (let tip = (case hq of None \<Rightarrow> 0 | Some h \<Rightarrow> h)
          in case spentLoop nullifiers 10000 (spentFrom memo) None (spentKept memo) of
               HttpError c \<Rightarrow> (HttpError c, memo)
             | Reply None \<Rightarrow> (Reply None, memo)
             | Reply (Some m) \<Rightarrow> (Reply (Some m), Some (m, tip))))"

subsection \<open>Paths from the feed\<close>

text \<open>The number of notes of the feed through block \<open>h\<close>, \<open>n\<close> of them counted.\<close>

fun feedPrefix :: "fullLeaf list \<Rightarrow> int \<Rightarrow> nat \<Rightarrow> nat res" where
  "feedPrefix [] h n = Inr n"
| "feedPrefix (l # ls) h n =
     (if fl_height l \<le> h then
        (if fl_leafIndex l \<noteq> n then Inl (Err ''the note feed has a gap'') else feedPrefix ls h (n + 1))
      else Inr n)"

definition nextLevel :: "hash2 \<Rightarrow> int \<Rightarrow> int list \<Rightarrow> int list" where
  "nextLevel H2 zero a = map (\<lambda>j. H2 (a ! (2 * j)) (if 2 * j + 1 < length a then a ! (2 * j + 1) else zero)) [0..<ceilDiv (length a) 2]"

primrec feedLevel :: "hash2 \<Rightarrow> int list \<Rightarrow> nat \<Rightarrow> int list" where
  "feedLevel H2 a 0 = a"
| "feedLevel H2 a (Suc i) = nextLevel H2 (ZEROS_F H2 i) (feedLevel H2 a i)"

definition feedNode :: "hash2 \<Rightarrow> int list \<Rightarrow> nat \<Rightarrow> int \<Rightarrow> bytes res" where
  "feedNode H2 a i j =
     map_sum id bigTo32 (if j < int (length (feedLevel H2 a i)) then readLevel (feedLevel H2 a i) j else Inr (ZEROS_F H2 i))"

definition pathsAt :: "hash2 \<Rightarrow> fullLeaf list \<Rightarrow> int \<Rightarrow> nat list \<Rightarrow> (bytes \<times> bytes list list) res" where
  "pathsAt H2 feed h indexes =
     (case feedPrefix feed h 0 of Inl e \<Rightarrow> Inl e
      | Inr n \<Rightarrow>
         if list_ex (\<lambda>i. i \<ge> n) indexes then Inl (Err ''a note is newer than the anchor'')
         else let a = map (\<lambda>l. bytesToBig (po_leaf (fl_output l))) (take n feed)
              in case feedNode H2 a TREE_DEPTH 0 of Inl e \<Rightarrow> Inl e
                 | Inr root \<Rightarrow>
                    (case mapRes (\<lambda>idx. mapRes (\<lambda>i. feedNode H2 a i (sibling (idx div 2 ^ i))) [0..<TREE_DEPTH]) indexes of
                       Inl e \<Rightarrow> Inl e
                     | Inr paths \<Rightarrow> Inr (root, paths)))"

subsection \<open>Anchors\<close>

definition ANCHOR_STEP :: int where "ANCHOR_STEP = 6"

definition defaultAnchor :: "int \<Rightarrow> int res" where
  "defaultAnchor tip =
     (if tip < 0 \<or> tip \<ge> 2 ^ 32 then Inl (Err ''tip'')
      else if tip < ANCHOR_STEP then Inl (Err ''btc-pool: tip below the anchor offset'')
      else Inr ((tip - ANCHOR_STEP) div ANCHOR_STEP * ANCHOR_STEP))"

record anchored =
  an_hAnchor :: int
  an_root :: "bytes option"
  an_tip :: int
  an_paths :: "bytes list list"

datatype anchorResult = Wait int int int | Anchored anchored

text \<open>
  A note the wallet holds: its index, leaf and height. \<open>memo\<close> is the feed of a recent read; the second attempt reads
  the feed again.
\<close>

record heldNote =
  hn_leafIndex :: nat
  hn_leaf :: bytes
  hn_height :: int

definition feedAttempt :: "hash2 \<Rightarrow> bytes \<Rightarrow> int \<Rightarrow> heldNote list \<Rightarrow> fullLeaf list reply \<Rightarrow> (bytes \<times> bytes list list) option" where
  "feedAttempt H2 R hAnchor notes feed =
     (case feed of HttpError c \<Rightarrow> None
      | Reply feed \<Rightarrow>
         (case pathsAt H2 feed hAnchor (map hn_leafIndex notes) of Inl e \<Rightarrow> None
          | Inr (root, paths) \<Rightarrow>
             if root \<noteq> R \<or> list_ex (\<lambda>n. po_leaf (fl_output (feed ! hn_leafIndex n)) \<noteq> hn_leaf n) notes then None
             else Some (root, paths)))"

fun namedLoop :: "(nat \<Rightarrow> int \<Rightarrow> pathReply reply) \<Rightarrow> int \<Rightarrow> heldNote list \<Rightarrow> bytes option \<Rightarrow> (bytes option \<times> bytes list list) res" where
  "namedLoop path hAnchor [] root = Inr (root, [])"
| "namedLoop path hAnchor (n # ns) root =
     (case path (hn_leafIndex n) hAnchor of HttpError c \<Rightarrow> Inl (Err ''path'')
      | Reply j \<Rightarrow>
         if pr_leaf j \<noteq> hn_leaf n \<or> pr_hAnchor j \<noteq> Some hAnchor then Inl (Err ''the pool served a path for another leaf'')
         else if (case root of None \<Rightarrow> False | Some r \<Rightarrow> r \<noteq> pr_root j) then Inl (Err ''the pool served paths under two roots'')
         else (case namedLoop path hAnchor ns (Some (pr_root j)) of Inl e \<Rightarrow> Inl e
           | Inr (root, paths) \<Rightarrow> Inr (root, pr_path j # paths)))"

record poolApi =
  pa_status :: "(int option \<times> bool) reply"
  pa_root :: "int \<Rightarrow> (bytes \<times> bool) reply"
  pa_notes :: "int \<Rightarrow> (fullLeaf list \<times> int) reply"
  pa_path :: "nat \<Rightarrow> int \<Rightarrow> pathReply reply"

definition feedNow :: "poolApi \<Rightarrow> fullLeaf list option \<Rightarrow> bool \<Rightarrow> fullLeaf list reply" where
  "feedNow api memo fresh = (case memo of Some ns \<Rightarrow> if fresh then allNotes (pa_notes api) 0 else Reply ns | None \<Rightarrow> allNotes (pa_notes api) 0)"

text \<open>The paths worked out from the feed, if the service has a root for the anchor and one of the two feeds gives it.\<close>

definition feedPaths :: "hash2 \<Rightarrow> poolApi \<Rightarrow> fullLeaf list option \<Rightarrow> int \<Rightarrow> heldNote list \<Rightarrow> (bytes \<times> bytes list list) option" where
  "feedPaths H2 api memo hAnchor notes =
     (case pa_root api hAnchor of
        Reply (R, retained) \<Rightarrow>
          if retained then
            (case feedAttempt H2 R hAnchor notes (feedNow api memo False) of Some r \<Rightarrow> Some r
             | None \<Rightarrow> feedAttempt H2 R hAnchor notes (feedNow api memo True))
          else None
      | HttpError c \<Rightarrow> None)"

definition anchorAndPaths :: "hash2 \<Rightarrow> poolApi \<Rightarrow> fullLeaf list option \<Rightarrow> heldNote list \<Rightarrow> int option \<Rightarrow> bool \<Rightarrow> anchorResult res" where
  "anchorAndPaths H2 api memo notes anchor namedPaths =
     (case pa_status api of HttpError c \<Rightarrow> Inl (Err ''status'')
      | Reply (height, halted) \<Rightarrow>
        if halted then Inl (Err ''the pool replay is paused'')
        else case height of None \<Rightarrow> Inl (Err ''the pool replay has not started'')
        | Some tip \<Rightarrow>
           (let need = Max (set (map hn_height notes))
            in case (case anchor of Some a \<Rightarrow> Inr a | None \<Rightarrow> defaultAnchor tip) of Inl e \<Rightarrow> Inl e
               | Inr hAnchor \<Rightarrow>
                  if notes \<noteq> [] \<and> hAnchor < need then Inr (Wait (- (- need div 6) * 6 + 6 - tip) tip need)
                  else if hAnchor > tip then Inl (Err ''anchor is ahead of the pool replay'')
                  else case feedPaths H2 api memo hAnchor notes of
                      Some (root, paths) \<Rightarrow> Inr (Anchored \<lparr>an_hAnchor = hAnchor, an_root = Some root, an_tip = tip, an_paths = paths\<rparr>)
                    | None \<Rightarrow>
                       if \<not> namedPaths then Inl (Err ''the pool replay did not give a root to check the paths against just now'')
                       else (case namedLoop (pa_path api) hAnchor notes None of Inl e \<Rightarrow> Inl e
                         | Inr (root, paths) \<Rightarrow>
                             Inr (Anchored \<lparr>an_hAnchor = hAnchor, an_root = root, an_tip = tip, an_paths = paths\<rparr>))))"

subsection \<open>Paths worked out from a feed\<close>

lemma ceilDiv_half: "ceilDiv (ceilDiv n (2 ^ i)) 2 = ceilDiv n (2 ^ Suc i)"
proof (cases "n = 0")
  case False
  then have "ceilDiv n (2 ^ i) = (n - 1) div 2 ^ i + 1" "ceilDiv n (2 ^ Suc i) = (n - 1) div 2 ^ Suc i + 1"
    by (intro ceilDiv_pos; simp)+
  moreover have "ceilDiv (m + 1) 2 = m div 2 + 1" for m by (subst ceilDiv_pos) auto
  ultimately show ?thesis by (simp only: half_div)
qed simp

lemma feedLevel_ok: "levelOk H2 xs i (feedLevel H2 xs i)"
proof (induction i)
  case 0
  show ?case by (simp add: levelOk_def ceilDiv_def)
next
  case (Suc i)
  let ?a = "feedLevel H2 xs i"
  have len: "length ?a = ceilDiv (length xs) (2 ^ i)" and nodes: "\<And>j. j < length ?a \<Longrightarrow> ?a ! j = node H2 xs i j"
    using Suc by (auto simp: levelOk_def)
  have right: "(if j < length ?a then ?a ! j else ZEROS_F H2 i) = node H2 xs i j" for j
  proof (cases "j < length ?a")
    case False
    then have "length xs \<le> j * 2 ^ i" using len by (intro ceilDiv_le) auto
    then show ?thesis using False by (simp add: node_zero)
  qed (simp add: nodes)
  have "H2 (?a ! (2 * j)) (if 2 * j + 1 < length ?a then ?a ! (2 * j + 1) else ZEROS_F H2 i) = node H2 xs (Suc i) j"
    if "j < ceilDiv (length ?a) 2" for j
  proof -
    have "2 * j < length ?a" using that by (simp add: ceilDiv_def)
    then show ?thesis unfolding right by (simp add: nodes)
  qed
  then have "nextLevel H2 (ZEROS_F H2 i) ?a = map (node H2 xs (Suc i)) [0..<ceilDiv (length ?a) 2]"
    unfolding nextLevel_def by (intro map_cong) auto
  then show ?case by (simp add: levelOk_def len ceilDiv_half del: node.simps power_Suc)
qed

lemma feedNode_ok: "feedNode H2 xs i (int j) = Inr (bigTo32 (node H2 xs i j))"
proof (cases "j < length (feedLevel H2 xs i)")
  case True
  then show ?thesis using feedLevel_ok [of H2 xs i] by (simp add: feedNode_def readLevel_def levelOk_def)
next
  case False
  then have "length xs \<le> j * 2 ^ i" using feedLevel_ok [of H2 xs i] by (intro ceilDiv_le) (auto simp: levelOk_def)
  then show ?thesis using False by (simp add: feedNode_def node_zero)
qed

lemma feedPrefix_ok: "feedPrefix feed h n = Inr m \<Longrightarrow> n \<le> m \<and> m - n \<le> length feed"
  by (induction feed h n rule: feedPrefix.induct) (fastforce split: if_splits)+

lemma pathsAt_ok:
  assumes "feedPrefix feed h 0 = Inr n" "\<forall>i\<in>set indexes. i < n \<and> i < 2 ^ 31" "xs = map leafVal (take n feed)"
  shows "pathsAt H2 feed h indexes = Inr (bigTo32 (node H2 xs TREE_DEPTH 0),
    map (\<lambda>idx. map (\<lambda>l. bigTo32 (node H2 xs l (buddy (idx div 2 ^ l)))) [0..<TREE_DEPTH]) indexes)"
proof -
  have step: "feedNode H2 xs i (sibling (idx div 2 ^ i)) = Inr (bigTo32 (node H2 xs i (buddy (idx div 2 ^ i))))"
    if "idx \<in> set indexes" for idx i
  proof -
    have "idx < 2 ^ 31" using assms(2) that by blast
    then have "idx div 2 ^ i < 2 ^ 31" using div_le_dividend [of idx "2 ^ i"] by linarith
    then show ?thesis by (simp add: sibling_buddy feedNode_ok)
  qed
  have "mapRes (\<lambda>idx. mapRes (\<lambda>i. feedNode H2 xs i (sibling (idx div 2 ^ i))) [0..<TREE_DEPTH]) indexes =
      Inr (map (\<lambda>idx. map (\<lambda>l. bigTo32 (node H2 xs l (buddy (idx div 2 ^ l)))) [0..<TREE_DEPTH]) indexes)"
    using step by (simp add: mapRes_Inr list_all2_conv_all_nth)
  moreover have "\<not> list_ex (\<lambda>i. i \<ge> n) indexes" using assms(2) by (auto simp: list_ex_iff)
  moreover have "map (\<lambda>l. bytesToBig (po_leaf (fl_output l))) (take n feed) = xs" by (simp add: assms(3) leafVal_def)
  ultimately show ?thesis using assms(1) feedNode_ok [of H2 xs TREE_DEPTH 0] by (simp add: pathsAt_def)
qed

text \<open>A leaf of 32 bytes is at most a 256-bit number, so every node of a feed's tree is.\<close>

lemma feed_wordNodes:
  assumes "fieldHash H2" "\<forall>x\<in>set xs. 0 \<le> x \<and> x < 2 ^ 256"
  shows "wordNodes H2 xs"
proof -
  have "0 \<le> node H2 xs i j \<and> node H2 xs i j < 2 ^ 256" for i j
  proof (cases i)
    case (Suc k)
    have "0 \<le> H2 a b \<and> H2 a b < 2 ^ 256" for a b
      using assms(1) less_trans [of "H2 a b" P_FR "2 ^ 256"] by (simp add: fieldHash_def P_FR_def)
    then show ?thesis using Suc by simp
  qed (use assms(2) in auto)
  then show ?thesis by (simp add: wordNodes_def bytesToBig_def bigTo32_def be_val_def be_bytes_def le_val_le_bytes)
qed

lemma leafVal_256: "length (po_leaf (fl_output l)) = 32 \<Longrightarrow> 0 \<le> leafVal l \<and> leafVal l < 2 ^ 256"
  using le_val_less [of "rev (po_leaf (fl_output l))"] by (simp add: leafVal_def bytesToBig_def be_val_def)

text \<open>The attempt on one feed: what it returns leads to the root it was given.\<close>

lemma feedAttempt_safe:
  assumes "feedAttempt H2 R hAnchor notes (Reply feed) = Some (root, paths)" "fieldHash H2" "\<forall>l\<in>set feed. length (po_leaf (fl_output l)) = 32"
    "\<forall>n\<in>set notes. hn_leafIndex n < 2 ^ 31"
  shows "root = R \<and> length paths = length notes
    \<and> (\<forall>k<length notes. rootFromPath H2 (hn_leaf (notes ! k)) (hn_leafIndex (notes ! k)) (paths ! k) = Some R)"
proof -
  obtain n where n: "feedPrefix feed hAnchor 0 = Inr n" "\<forall>i\<in>set (map hn_leafIndex notes). i < n"
    using assms(1) by (fastforce simp: feedAttempt_def pathsAt_def Let_def list_ex_iff not_le split: sum.splits if_splits)
  define xs where "xs = map leafVal (take n feed)"
  have len: "length xs = n" using feedPrefix_ok [OF n(1)] by (simp add: xs_def)
  have run: "pathsAt H2 feed hAnchor (map hn_leafIndex notes) = Inr (bigTo32 (node H2 xs TREE_DEPTH 0),
      map (\<lambda>idx. map (\<lambda>l. bigTo32 (node H2 xs l (buddy (idx div 2 ^ l)))) [0..<TREE_DEPTH]) (map hn_leafIndex notes))"
    using n(2) assms(4) by (intro pathsAt_ok [OF n(1) _ xs_def]) auto
  then have R: "R = bigTo32 (node H2 xs TREE_DEPTH 0)" and root: "root = R"
    and paths: "paths = map (\<lambda>n. map (\<lambda>l. bigTo32 (node H2 xs l (buddy (hn_leafIndex n div 2 ^ l)))) [0..<TREE_DEPTH]) notes"
    and leaves: "\<forall>m\<in>set notes. po_leaf (fl_output (feed ! hn_leafIndex m)) = hn_leaf m"
    using assms(1) by (auto simp: feedAttempt_def list_ex_iff split: if_splits)
  have word: "wordNodes H2 xs"
    using assms(3) leafVal_256 by (intro feed_wordNodes [OF assms(2)]) (auto simp: xs_def dest!: in_set_takeD)
  have "rootFromPath H2 (hn_leaf m) (hn_leafIndex m) (map (\<lambda>l. bigTo32 (node H2 xs l (buddy (hn_leafIndex m div 2 ^ l)))) [0..<TREE_DEPTH]) = Some R"
    if "m \<in> set notes" for m
    unfolding R
  proof (rule reference_path [OF word _ _ _ refl])
    show "hn_leafIndex m < length xs" using n(2) that len by simp
    then show "bytesToBig (hn_leaf m) = xs ! hn_leafIndex m"
      using leaves that len by (simp add: xs_def leafVal_def)
    show "hn_leafIndex m < 2 ^ 32" using assms(4) that by fastforce
  qed
  then show ?thesis using root paths by simp
qed

subsection \<open>Anchors hold whatever the service answers\<close>

lemma allNotesLoop_all:
  "allNotesLoop notes g from_i out = Reply feed \<Longrightarrow> (\<And>i ns nxt. notes i = Reply (ns, nxt) \<Longrightarrow> \<forall>l\<in>set ns. P l) \<Longrightarrow> \<forall>l\<in>set out. P l \<Longrightarrow>
   \<forall>l\<in>set feed. P l"
proof (induction g arbitrary: from_i out)
  case (Suc g)
  obtain ns nxt where page: "notes from_i = Reply (ns, nxt)" using Suc.prems(1) by (cases "notes from_i") auto
  then have "\<forall>l\<in>set (out @ ns). P l" using Suc.prems(2,3) by fastforce
  then show ?case using Suc.IH [OF _ Suc.prems(2)] Suc.prems(1) page by (auto split: if_splits)
qed simp

definition leafLengths :: "poolApi \<Rightarrow> fullLeaf list option \<Rightarrow> bool" where
  "leafLengths api memo = ((\<forall>i ns nxt. pa_notes api i = Reply (ns, nxt) \<longrightarrow> (\<forall>l\<in>set ns. length (po_leaf (fl_output l)) = 32))
     \<and> (\<forall>ns. memo = Some ns \<longrightarrow> (\<forall>l\<in>set ns. length (po_leaf (fl_output l)) = 32)))"

lemma feedNow_lengths: "leafLengths api memo \<Longrightarrow> feedNow api memo fresh = Reply feed \<Longrightarrow> \<forall>l\<in>set feed. length (po_leaf (fl_output l)) = 32"
  unfolding feedNow_def allNotes_def leafLengths_def
  by (auto split: option.splits if_splits dest!: allNotesLoop_all [where P = "\<lambda>l. length (po_leaf (fl_output l)) = 32"])

lemma feedPaths_safe:
  assumes "feedPaths H2 api memo hAnchor notes = Some (root, paths)" "fieldHash H2" "leafLengths api memo" "\<forall>n\<in>set notes. hn_leafIndex n < 2 ^ 31"
  shows "pa_root api hAnchor = Reply (root, True) \<and> length paths = length notes
    \<and> (\<forall>k<length notes. rootFromPath H2 (hn_leaf (notes ! k)) (hn_leafIndex (notes ! k)) (paths ! k) = Some root)"
proof -
  obtain R where R: "pa_root api hAnchor = Reply (R, True)" using assms(1) by (auto simp: feedPaths_def split: reply.splits if_splits)
  then obtain fresh where att: "feedAttempt H2 R hAnchor notes (feedNow api memo fresh) = Some (root, paths)"
    using assms(1) by (auto simp: feedPaths_def split: option.splits)
  then obtain feed where feed: "feedNow api memo fresh = Reply feed" by (auto simp: feedAttempt_def split: reply.splits)
  from feedAttempt_safe [OF att [unfolded feed] assms(2) feedNow_lengths [OF assms(3) feed] assms(4)] R
  show ?thesis by auto
qed

lemma anchor_safe:
  assumes "anchorAndPaths H2 api memo notes anchor False = Inr (Anchored a)" "fieldHash H2" "leafLengths api memo"
    "\<forall>n\<in>set notes. hn_leafIndex n < 2 ^ 31"
  obtains root where "an_root a = Some root" "pa_root api (an_hAnchor a) = Reply (root, True)" "length (an_paths a) = length notes"
    "\<forall>k<length notes. rootFromPath H2 (hn_leaf (notes ! k)) (hn_leafIndex (notes ! k)) (an_paths a ! k) = Some root"
    "\<forall>n\<in>set notes. hn_height n \<le> an_hAnchor a" "an_hAnchor a \<le> an_tip a" "pa_status api = Reply (Some (an_tip a), False)"
proof -
  obtain root where fp: "feedPaths H2 api memo (an_hAnchor a) notes = Some (root, an_paths a)" and root: "an_root a = Some root"
      and tip: "an_hAnchor a \<le> an_tip a" "pa_status api = Reply (Some (an_tip a), False)"
      and need: "notes = [] \<or> Max (set (map hn_height notes)) \<le> an_hAnchor a"
    using assms(1) by (auto simp: anchorAndPaths_def Let_def split: reply.splits if_splits option.splits sum.splits)
  have "hn_height n \<le> an_hAnchor a" if "n \<in> set notes" for n
  proof -
    have "hn_height n \<le> Max (set (map hn_height notes))" using that by (intro Max_ge) auto
    moreover have "notes \<noteq> []" using that by auto
    ultimately show ?thesis using need by linarith
  qed
  then show ?thesis using feedPaths_safe [OF fp assms(2-4)] root tip by (intro that) auto
qed

subsection \<open>What the wallet relies on\<close>

definition spentReply :: "(bytes \<times> int) list \<Rightarrow> spentPage reply" where
  "spentReply ns = Reply (take 5000 ns, if 5000 \<le> length ns then Some (snd (ns ! 4999), fst (ns ! 4999)) else None)"

text \<open>
  A service whose state stands for a list of notes and a list of spent notes: the pages cut those lists, in an order
  that continues, and a root that is kept belongs to the notes through its block.
\<close>

lemma foldl_update: "distinct (map fst ns) \<Longrightarrow> foldl (\<lambda>m (nf, h). m(nf \<mapsto> h)) m ns = m ++ map_of ns"
proof (induction ns arbitrary: m)
  case (Cons n ns)
  obtain k v where n: "n = (k, v)" by fastforce
  then have "k \<notin> dom (map_of ns)" using Cons.prems by (auto simp: dom_map_of_conv_image_fst)
  then show ?case using Cons n by (auto simp: map_add_def fun_eq_iff split: option.splits)
qed simp

lemma map_of_parts: "ns = xs @ ys \<Longrightarrow> distinct (map fst ns) \<Longrightarrow> map_of xs ++ map_of ys = map_of ns"
  using map_add_comm [of "map_of xs" "map_of ys"] by (simp add: dom_map_of_conv_image_fst)

lemma takeWhile_le: "sorted (map f xs) \<Longrightarrow> take (length (filter (\<lambda>l. f l \<le> h) xs)) xs = filter (\<lambda>l. f l \<le> h) xs"
proof (induction xs)
  case (Cons x xs)
  then have "filter (\<lambda>l. f l \<le> h) xs = []" if "\<not> f x \<le> h" using that by (auto simp: filter_empty_conv)
  then show ?case using Cons by auto
qed simp

lemma sorted_index: "sorted (map f xs) \<Longrightarrow> i < length xs \<Longrightarrow> f (xs ! i) \<le> h \<Longrightarrow> i < length (filter (\<lambda>l. f l \<le> h) xs)"
proof (induction xs arbitrary: i)
  case (Cons x xs)
  then have "f x \<le> f ((x # xs) ! i)" by (cases i) auto
  then have "f x \<le> h" using Cons.prems(3) by simp
  then show ?case using Cons by (cases i) auto
qed simp

lemma feedPrefix_rows:
  "map fl_leafIndex rows = [n..<n + length rows] \<Longrightarrow> sorted (map fl_height rows) \<Longrightarrow> feedPrefix rows h n = Inr (n + length (filter (\<lambda>l. fl_height l \<le> h) rows))"
proof (induction rows arbitrary: n)
  case (Cons l rows)
  have "map fl_leafIndex rows = [Suc n..<Suc n + length rows]" "fl_leafIndex l = n"
    using Cons.prems(1) upt_conv_Cons [of n "n + length (l # rows)"] by (simp_all del: upt_Suc)
  moreover have "filter (\<lambda>l. fl_height l \<le> h) rows = []" if "\<not> fl_height l \<le> h"
    using Cons.prems(2) that by (auto simp: filter_empty_conv)
  ultimately show ?case using Cons by auto
qed simp

locale pool_service =
  fixes serves :: "'s \<Rightarrow> hash2 \<Rightarrow> fullLeaf list \<Rightarrow> (bytes \<times> int) list \<Rightarrow> bool"
    and notePage :: "'s \<Rightarrow> int \<Rightarrow> (fullLeaf list \<times> int) reply"
    and spentPage :: "'s \<Rightarrow> int \<Rightarrow> bytes option \<Rightarrow> spentPage reply"
    and rootAt :: "'s \<Rightarrow> int \<Rightarrow> (bytes \<times> bool) reply"
    and retained :: "'s \<Rightarrow> int \<Rightarrow> bool"
  assumes notes_page: "serves x H2 rows spent \<Longrightarrow>
      notePage x (int i) = Reply (take 1000 (drop i rows), int (if i < length rows then min (i + 1000) (length rows) else i))"
    and notes_rows: "serves x H2 rows spent \<Longrightarrow> map fl_leafIndex rows = [0..<length rows] \<and> sorted (map fl_height rows)"
    and spent_start: "serves x H2 rows spent \<Longrightarrow> 0 \<le> h \<Longrightarrow> spentPage x h None = spentReply (filter (\<lambda>n. h \<le> snd n) spent)"
    and spent_next: "serves x H2 rows spent \<Longrightarrow> spent = xs @ (nf, h) # ys \<Longrightarrow> spentPage x h (Some nf) = spentReply ys"
    and spent_rows: "serves x H2 rows spent \<Longrightarrow> distinct (map fst spent) \<and> sorted (map snd spent) \<and> (\<forall>n\<in>set spent. 0 \<le> snd n)"
    and root_kept: "serves x H2 rows spent \<Longrightarrow> retained x h \<Longrightarrow>
      rootAt x h = Reply (bigTo32 (node H2 (map leafVal (filter (\<lambda>l. fl_height l \<le> h) rows)) TREE_DEPTH 0), True)"
begin

lemma all_notes_from:
  assumes "serves x H2 rows spent"
  shows "i \<le> length rows \<Longrightarrow> length rows - i \<le> 1000 * g \<Longrightarrow> allNotesLoop (notePage x) g (int i) (take i rows) = Reply rows"
proof (induction g arbitrary: i)
  case (Suc g)
  show ?case
  proof (cases "i < length rows")
    case True
    let ?j = "min (i + 1000) (length rows)"
    have "take i rows @ take 1000 (drop i rows) = take ?j rows" by (simp add: take_add [symmetric] min_def)
    moreover have "allNotesLoop (notePage x) g (int ?j) (take ?j rows) = Reply rows" using Suc by (intro Suc.IH) auto
    moreover have "int ?j \<noteq> int i" using True by simp
    ultimately show ?thesis using notes_page [OF assms, of i] True by (simp del: of_nat_min)
  qed (use Suc.prems notes_page [OF assms, of i] in simp)
qed simp

lemma all_notes: "serves x H2 rows spent \<Longrightarrow> length rows \<le> 10000000 \<Longrightarrow> allNotes (notePage x) 0 = Reply rows"
  using all_notes_from [of x H2 rows spent 0 10000] by (simp add: allNotes_def)

lemma spent_pages:
  assumes "serves x H2 rows spent"
  shows "spent = xs @ ys \<Longrightarrow> spentPage x h after = spentReply ys \<Longrightarrow> length ys \<le> 5000 * g \<Longrightarrow>
    spentLoop (spentPage x) g h after m = Reply (Some (m ++ map_of ys))"
proof (induction g arbitrary: xs ys h after m)
  case (Suc g)
  let ?page = "take 5000 ys" and ?rest = "drop 5000 ys"
  have dist: "distinct (map fst ys)" using spent_rows [OF assms] Suc.prems(1) by simp
  then have dist5: "distinct (map fst ?page)" "fst ` set ?page \<inter> fst ` set ?rest = {}"
    using append_take_drop_id [of 5000 ys] distinct_append [of "map fst ?page" "map fst ?rest"]
    by (metis append_take_drop_id distinct_append map_append set_map)+
  have m: "m ++ map_of ?page ++ map_of ?rest = m ++ map_of ys"
    using map_add_comm [of "map_of ?page" "map_of ?rest"] dist5(2)
    by (metis append_take_drop_id dom_map_of_conv_image_fst map_add_assoc map_of_append)
  show ?case
  proof (cases "5000 \<le> length ys")
    case True
    obtain nf hn where n: "ys ! 4999 = (nf, hn)" by fastforce
    have "ys = take 4999 ys @ ys ! 4999 # drop 5000 ys" using True id_take_nth_drop [of 4999 ys] by simp
    then have "spent = (xs @ take 4999 ys) @ (nf, hn) # ?rest" using Suc.prems(1) n by simp
    note next_page = spent_next [OF assms this]
    have "spent = (xs @ ?page) @ ?rest" using Suc.prems(1) by simp
    from Suc.IH [OF this next_page] have "spentLoop (spentPage x) g hn (Some nf) (m ++ map_of ?page) = Reply (Some (m ++ map_of ys))"
      using Suc.prems(3) m by simp
    then show ?thesis using Suc.prems(2) n True foldl_update [OF dist5(1), of m] by (simp add: spentReply_def)
  next
    case False
    then show ?thesis using Suc.prems(2) foldl_update [OF dist, of m] by (simp add: spentReply_def)
  qed
qed (use spent_rows [OF assms] in simp)

lemma spent_suffix:
  assumes "serves x H2 rows spent"
  shows "spent = filter (\<lambda>n. snd n < h) spent @ filter (\<lambda>n. h \<le> snd n) spent"
proof -
  have "sorted (map snd ns) \<Longrightarrow> ns = filter (\<lambda>n. snd n < h) ns @ filter (\<lambda>n. h \<le> snd n) ns" for ns :: "(bytes \<times> int) list"
  proof (induction ns)
    case (Cons n ns)
    then have "filter (\<lambda>n. snd n < h) ns = []" if "h \<le> snd n" using that by (auto simp: filter_empty_conv)
    then show ?case using Cons by (cases "h \<le> snd n") auto
  qed simp
  then show ?thesis using spent_rows [OF assms] by blast
qed

lemma spent_list:
  assumes "serves x H2 rows spent" "length spent \<le> 50000000" "spentKept memo = map_of (filter (\<lambda>n. snd n < spentFrom memo) spent)"
  shows "spentList (Reply tip) (spentPage x) memo = (Reply (Some (map_of spent)), Some (map_of spent, case tip of None \<Rightarrow> 0 | Some h \<Rightarrow> h))"
proof -
  let ?from = "spentFrom memo"
  have "0 \<le> ?from" by (simp add: spentFrom_def split: option.split)
  note first = spent_start [OF assms(1) this]
  have "spentLoop (spentPage x) 10000 ?from None (spentKept memo) = Reply (Some (spentKept memo ++ map_of (filter (\<lambda>n. ?from \<le> snd n) spent)))"
  proof (rule spent_pages [OF assms(1) spent_suffix [OF assms(1)] first])
    show "length (filter (\<lambda>n. ?from \<le> snd n) spent) \<le> 5000 * 10000"
      using assms(2) length_filter_le [of "\<lambda>n. ?from \<le> snd n" spent] by linarith
  qed
  moreover have "map_of (filter (\<lambda>n. snd n < ?from) spent) ++ map_of (filter (\<lambda>n. ?from \<le> snd n) spent) = map_of spent"
    using spent_suffix [OF assms(1), of ?from] spent_rows [OF assms(1)] map_of_parts by metis
  ultimately show ?thesis by (simp add: spentList_def assms(3))
qed

lemma feed_prefix:
  assumes "serves x H2 rows spent"
  shows "feedPrefix rows h 0 = Inr (length (filter (\<lambda>l. fl_height l \<le> h) rows))"
    "take (length (filter (\<lambda>l. fl_height l \<le> h) rows)) rows = filter (\<lambda>l. fl_height l \<le> h) rows"
  using feedPrefix_rows [of _ 0 h] takeWhile_le [of fl_height] notes_rows [OF assms] by auto

text \<open>A held note is one of the service's notes.\<close>

lemma feed_found:
  assumes "serves x H2 rows spent" "retained x h" "\<forall>n\<in>set held. hn_leafIndex n < length rows \<and> hn_leafIndex n < 2 ^ 31
      \<and> fl_height (rows ! hn_leafIndex n) \<le> h \<and> po_leaf (fl_output (rows ! hn_leafIndex n)) = hn_leaf n" "rootAt x h = Reply (R, True)"
  shows "\<exists>r. feedAttempt H2 R h held (Reply rows) = Some r"
proof -
  let ?n = "length (filter (\<lambda>l. fl_height l \<le> h) rows)"
  define xs where "xs = map leafVal (take ?n rows)"
  have idx: "\<forall>i\<in>set (map hn_leafIndex held). i < ?n \<and> i < 2 ^ 31"
    using assms(3) notes_rows [OF assms(1)] sorted_index [of fl_height rows] by auto
  have "R = bigTo32 (node H2 xs TREE_DEPTH 0)" using root_kept [OF assms(1,2)] assms(4) feed_prefix(2) [OF assms(1)] by (simp add: xs_def)
  then show ?thesis
    using pathsAt_ok [OF feed_prefix(1) [OF assms(1)] idx xs_def, of H2] assms(3) by (auto simp: feedAttempt_def list_ex_iff)
qed

end

subsection \<open>The replay service is such a service\<close>

definition notesApi :: "indexer \<Rightarrow> int \<Rightarrow> (fullLeaf list \<times> int) reply" where
  "notesApi ix i = (case serveNotes ix (Some i) (Some 1000) of Reply r \<Rightarrow> Reply (no_notes r, no_next r) | HttpError c \<Rightarrow> HttpError c)"

definition spentApi :: "indexer \<Rightarrow> int \<Rightarrow> bytes option \<Rightarrow> spentPage reply" where
  "spentApi ix h after = (case serveNullifiers ix (Some h) after (Some 5000) of Reply r \<Rightarrow> Reply (nl_nullifiers r, nl_next r) | HttpError c \<Rightarrow> HttpError c)"

definition rootApi :: "indexer \<Rightarrow> int \<Rightarrow> (bytes \<times> bool) reply" where
  "rootApi ix h = (case serveRoot ix h of Reply r \<Rightarrow> Reply (rr_root r, rr_retained r) | HttpError c \<Rightarrow> HttpError c)"

definition statusApi :: "indexer \<Rightarrow> (int option \<times> bool) reply" where
  "statusApi ix = (case serveStatus ix of Reply r \<Rightarrow> Reply (ps_height r, ps_halted r) | HttpError c \<Rightarrow> HttpError c)"

definition servedApi :: "hash2 \<Rightarrow> indexer \<Rightarrow> poolApi" where
  "servedApi H2 ix = \<lparr>pa_status = statusApi ix, pa_root = rootApi ix, pa_notes = notesApi ix,
     pa_path = (\<lambda>i h. case servePath H2 ix i (Some h) of None \<Rightarrow> HttpError 504 | Some r \<Rightarrow> r)\<rparr>"

definition retainedAt :: "indexer \<Rightarrow> int \<Rightarrow> bool" where
  "retainedAt ix h = (map_of (bp_roots (ix_state ix)) h \<noteq> None)"

definition servesFrom :: "indexer \<Rightarrow> hash2 \<Rightarrow> fullLeaf list \<Rightarrow> (bytes \<times> int) list \<Rightarrow> bool" where
  "servesFrom ix H2 rows spent = (\<exists>s d bs hs. indexed H2 ix s d bs hs \<and> 0 \<le> s \<and> rows = rowsOf bs
     \<and> spent = map (\<lambda>(nf, rc). (nf, nr_height rc)) (spentOf bs))"

lemma rows_sorted: "ledgerOk s bs \<Longrightarrow> sorted (map fl_height (rowsOf bs))"
proof (induction bs rule: rev_induct)
  case (snoc b bs)
  have "fl_height l = s + int (length bs)" if "l \<in> set (ab_leaves b)" for l
    using blockOk_last [OF snoc.prems] that by (simp add: blockOk_def)
  moreover have "fl_height l < s + int (length bs)" if "l \<in> set (rowsOf bs)" for l
    using rows_height [OF ledgerOk_prefix [OF snoc.prems], of l "length bs"] that by simp
  ultimately show ?case using snoc.IH [OF ledgerOk_prefix [OF snoc.prems]]
    by (auto simp: sorted_append sorted_wrt_map intro: sorted_wrt_mono_rel [OF _ sorted_wrt_true] order.strict_implies_order)
qed simp

lemma nfs_height: "ledgerOk s bs \<Longrightarrow> n \<in> set (nfsOf bs) \<Longrightarrow> s \<le> nr_height (snd n)"
proof -
  assume ok: "ledgerOk s bs" and "n \<in> set (nfsOf bs)"
  then obtain b where b: "b \<in> set bs" "n \<in> set (ab_nfs b)" by (auto simp: nfsOf_def)
  then obtain k where k: "k < length bs" "bs ! k = b" by (auto simp: in_set_conv_nth)
  then have "blockOk (s + int k) b" using ok by (auto simp: ledgerOk_def)
  then show ?thesis using b by (simp add: blockOk_def)
qed

interpretation replay: pool_service servesFrom notesApi spentApi rootApi retainedAt
proof
  fix x H2 rows spent i h xs nf ys
  assume "servesFrom x H2 rows spent"
  then obtain s d bs hs where ix: "indexed H2 x s d bs hs" and s: "0 \<le> s" and rows: "rows = rowsOf bs"
      and spent: "spent = map (\<lambda>(nf, rc). (nf, nr_height rc)) (spentOf bs)"
    by (auto simp: servesFrom_def)
  have ok: "ledgerOk s bs" using ix by (auto simp: indexed_def refines_def coreOf_def)
  show "notesApi x (int i) = Reply (take 1000 (drop i rows), int (if i < length rows then min (i + 1000) (length rows) else i))"
    using serveNotes_ok [OF ix, of i] by (simp add: notesApi_def rows)
  show "map fl_leafIndex rows = [0..<length rows] \<and> sorted (map fl_height rows)"
    using ok rows_sorted [OF ok] by (simp add: rows ledgerOk_def)
  have fil: "filter (\<lambda>n. h \<le> snd n) spent = map (\<lambda>(nf, rc). (nf, nr_height rc)) (filter (\<lambda>n. h \<le> nr_height (snd n)) (spentOf bs))"
    by (simp add: spent filter_map comp_def case_prod_beta)
  have page: "(case spentPageOf ns 5000 t of Reply r \<Rightarrow> Reply (nl_nullifiers r, nl_next r) | HttpError c \<Rightarrow> HttpError c) =
      spentReply (map (\<lambda>(nf, rc). (nf, nr_height rc)) ns)" for ns t
    by (auto simp: spentPageOf_def spentReply_def take_map case_prod_beta)
  show "spentApi x h None = spentReply (filter (\<lambda>n. h \<le> snd n) spent)" if "0 \<le> h"
    unfolding fil spentApi_def serveNullifiers_start [OF ix that] page ..
  show "spentApi x h (Some nf) = spentReply ys" if split: "spent = xs @ (nf, h) # ys"
  proof -
    obtain xs' n ys' where parts: "spentOf bs = xs' @ n # ys'" "(nf, h) = (fst n, nr_height (snd n))" "ys = map (\<lambda>(nf, rc). (nf, nr_height rc)) ys'"
      using split unfolding spent by (auto simp: map_eq_append_conv case_prod_beta)
    have "n \<in> set (nfsOf bs)" using parts(1) by (metis in_set_conv_decomp set_sort spentOf_def)
    then have "0 \<le> nr_height (snd n)" using nfs_height [OF ok] s by fastforce
    from serveNullifiers_next [OF ix parts(1) this] show ?thesis using parts(2,3) page by (simp add: spentApi_def)
  qed
  show "distinct (map fst spent) \<and> sorted (map snd spent) \<and> (\<forall>n\<in>set spent. 0 \<le> snd n)"
  proof (intro conjI)
    show "distinct (map fst spent)" using ok by (simp add: spent comp_def case_prod_beta ledgerOk_def spentOf_def distinct_map)
    have "sorted (map nfOrder (spentOf bs))" by (simp add: spentOf_def)
    then have "sorted (map (\<lambda>n. nr_height (snd n)) (spentOf bs))"
      unfolding sorted_map by (rule sorted_wrt_mono_rel [rotated]) (auto simp: nfOrder_def)
    then show "sorted (map snd spent)" by (simp add: spent comp_def case_prod_beta)
    show "\<forall>n\<in>set spent. 0 \<le> snd n" using nfs_height [OF ok] s by (fastforce simp: spent spentOf_def)
  qed
  show "rootApi x h = Reply (bigTo32 (node H2 (map leafVal (filter (\<lambda>l. fl_height l \<le> h) rows)) TREE_DEPTH 0), True)" if "retainedAt x h"
  proof -
    have "rootsOf H2 s bs h \<noteq> None" using that ix by (simp add: retainedAt_def indexed_def refines_def booksOf_def)
    then have h: "s \<le> h" "h < s + int (length bs)" by (auto simp: rootsOf_def split: if_splits)
    have so: "storeOf H2 (ix_store x) s bs hs" using ix by (simp add: indexed_def)
    have "(\<lambda>l. \<not> s + int (Suc (nat (h - s))) \<le> fl_height l) = (\<lambda>l::fullLeaf. fl_height l \<le> h)" using h by (auto simp: fun_eq_iff)
    then have "filter (\<lambda>l. fl_height l \<le> h) rows = rowsOf (take (Suc (nat (h - s))) bs)"
      using ledger_below(1) [OF ok, of "Suc (nat (h - s))"] by (simp only: rows)
    then have "rootAfter H2 bs (nat (h - s)) = bigTo32 (node H2 (map leafVal (filter (\<lambda>l. fl_height l \<le> h) rows)) TREE_DEPTH 0)"
      by (simp add: rootAfter_def leafVals_def)
    then show ?thesis using storeBlock_ok [OF so, of h] h that by (simp add: rootApi_def serveRoot_def retainedAt_def)
  qed
qed

text \<open>The anchor of a spend: the service's own replies give it, and its root is the one the next blocks check spends against.\<close>

lemma anchor_live:
  assumes "indexed H2 ix s d bs hs" "0 \<le> s" "length (rowsOf bs) \<le> 10000000" "ix_halted ix = None" "notes \<noteq> []"
    "\<forall>n\<in>set notes. hn_leafIndex n < length (rowsOf bs) \<and> hn_height n = fl_height (rowsOf bs ! hn_leafIndex n)
       \<and> hn_leaf n = po_leaf (fl_output (rowsOf bs ! hn_leafIndex n)) \<and> hn_height n \<le> h"
    "retainedAt ix h"
  obtains a where "anchorAndPaths H2 (servedApi H2 ix) memo notes (Some h) False = Inr (Anchored a)" "an_hAnchor a = h"
    "map_of (bp_roots (ix_state ix)) h = an_root a"
proof -
  let ?spent = "map (\<lambda>(nf, rc). (nf, nr_height rc)) (spentOf bs)" and ?api = "servedApi H2 ix"
  have serves: "servesFrom ix H2 (rowsOf bs) ?spent" using assms(1,2) by (auto simp: servesFrom_def)
  have roots: "map_of (bp_roots (ix_state ix)) = rootsOf H2 s bs" and tip: "bs \<noteq> [] \<Longrightarrow> bp_tip (ix_state ix) = Some (s + int (length bs) - 1)"
    using assms(1) by (auto simp: indexed_def refines_def booksOf_def)
  obtain R where R: "map_of (bp_roots (ix_state ix)) h = Some R" using assms(7) by (auto simp: retainedAt_def)
  then have h: "s \<le> h" "h < s + int (length bs)" "R = rootAfter H2 bs (nat (h - s))" using roots by (auto simp: rootsOf_def split: if_splits)
  then have bs: "bs \<noteq> []" by auto
  have rootR: "rootApi ix h = Reply (R, True)"
    using storeBlock_ok [of H2 "ix_store ix" s bs hs h] assms(1) h R by (simp add: rootApi_def serveRoot_def indexed_def)
  have status: "pa_status ?api = Reply (Some (s + int (length bs) - 1), False)"
  proof -
    have "map_of (bp_roots (ix_state ix)) (s + int (length bs) - 1) \<noteq> None" using bs by (cases "length bs") (auto simp: roots rootsOf_def)
    then show ?thesis using tip [OF bs] assms(4) by (auto simp: servedApi_def statusApi_def serveStatus_def Let_def)
  qed
  have fresh: "feedNow ?api memo True = Reply (rowsOf bs)"
    using replay.all_notes [OF serves assms(3)] by (simp add: feedNow_def servedApi_def split: option.split)
  have "\<exists>r. feedAttempt H2 R h notes (Reply (rowsOf bs)) = Some r"
    using assms(3,6) by (intro replay.feed_found [OF serves assms(7) _ rootR]) force
  then obtain r where "feedPaths H2 ?api memo h notes = Some r"
    using rootR fresh by (cases "feedAttempt H2 R h notes (feedNow ?api memo False)") (auto simp: feedPaths_def servedApi_def)
  moreover from this have "fst r = R"
    using rootR by (cases r) (auto simp: feedPaths_def feedAttempt_def servedApi_def split: option.splits reply.splits sum.splits if_splits)
  moreover have "Max (set (map hn_height notes)) \<le> h" using assms(5,6) by auto
  ultimately have "anchorAndPaths H2 ?api memo notes (Some h) False =
      Inr (Anchored \<lparr>an_hAnchor = h, an_root = Some R, an_tip = s + int (length bs) - 1, an_paths = snd r\<rparr>)"
    using status h(2) by (cases r) (simp add: anchorAndPaths_def Let_def)
  then show ?thesis using R by (intro that) auto
qed

text \<open>The policy anchor: how long a fresh note waits, and for how long a spend at that anchor is in the window.\<close>

lemma wait_exact:
  assumes "defaultAnchor tip = Inr h" "h < need" "tip < w" "w < 2 ^ 32"
  shows "(\<exists>h'. defaultAnchor w = Inr h' \<and> need \<le> h') = (- (- need div 6) * 6 + 6 \<le> w)"
proof -
  have "6 \<le> tip" "0 \<le> tip" using assms(1) by (auto simp: defaultAnchor_def ANCHOR_STEP_def split: if_splits)
  then have "defaultAnchor w = Inr ((w - 6) div 6 * 6)" using assms(3,4) by (simp add: defaultAnchor_def ANCHOR_STEP_def)
  moreover have "(need \<le> (w - 6) div 6 * 6) = (- (- need div 6) * 6 + 6 \<le> w)" by presburger
  ultimately show ?thesis by simp
qed

lemma anchor_window: "defaultAnchor tip = Inr h \<Longrightarrow> tip < b \<Longrightarrow> b \<le> tip + 133 \<Longrightarrow> \<not> (h < b - ANCHOR_WINDOW \<or> h > b - 1)"
  by (auto simp: defaultAnchor_def ANCHOR_STEP_def ANCHOR_WINDOW_def split: if_splits)

text \<open>The list of spent notes, as the replay's map of nullifiers gives it.\<close>

lemma spentOf_map:
  assumes "indexed H2 ix s d bs hs"
  shows "map_of (map (\<lambda>(nf, rc). (nf, nr_height rc)) (spentOf bs)) = (\<lambda>nf. map_option nr_height (bp_nullifiers (ix_state ix) nf))"
proof -
  have nfs: "bp_nullifiers (ix_state ix) = map_of (nfsOf bs)" "distinct (map fst (nfsOf bs))"
    using assms by (auto simp: indexed_def refines_def coreOf_def ledgerOk_def)
  have "map_of (spentOf bs) = map_of (nfsOf bs)"
    using nfs(2) map_of_inject_set [of "spentOf bs" "nfsOf bs"] by (simp add: spentOf_def distinct_map)
  then show ?thesis by (simp add: nfs(1) fun_eq_iff map_of_map comp_def)
qed

lemma map_of_filter_value:
  assumes "distinct (map fst xs)"
  shows "map_of (filter (\<lambda>n. P (snd n)) xs) k = (case map_of xs k of None \<Rightarrow> None | Some v \<Rightarrow> if P v then Some v else None)"
  using assms by (induction xs) (auto simp: map_of_eq_None_iff split: option.split dest!: map_of_SomeD)

lemma spentOf_kept:
  assumes "indexed H2 ix s d bs hs"
    "\<forall>nf. spentKept memo nf = (case bp_nullifiers (ix_state ix) nf of None \<Rightarrow> None
       | Some rc \<Rightarrow> if nr_height rc < spentFrom memo then Some (nr_height rc) else None)"
  shows "spentKept memo = map_of (filter (\<lambda>n. snd n < spentFrom memo) (map (\<lambda>(nf, rc). (nf, nr_height rc)) (spentOf bs)))"
proof -
  let ?xs = "map (\<lambda>(nf, rc). (nf, nr_height rc)) (spentOf bs)"
  have "distinct (map fst (nfsOf bs))" using assms(1) by (auto simp: indexed_def refines_def coreOf_def ledgerOk_def)
  then have "distinct (map fst ?xs)" by (simp add: spentOf_def distinct_map inj_on_def comp_def case_prod_beta)
  from map_of_filter_value [OF this, of "\<lambda>h. h < spentFrom memo"] show ?thesis
    unfolding spentOf_map [OF assms(1)] using assms(2) by (auto simp: fun_eq_iff split: option.split)
qed

end
