(* ===== verification/Pool_Relay.thy ===== *)
theory Pool_Relay
  imports Complex_Main Pool_Client
begin

text \<open>
  What the shielded pool's relayer watches (\<open>worker-relay/src/lib/btc-pool-relayer.js\<close>): the nullifiers spent by a
  transaction, in the mempool or in a block the replay has not reached, so that it does not carry a payload another
  transaction has carried; and how it splits the change of a carrier. \<open>keccak256\<close> is a parameter.
\<close>

definition NF_AT :: nat where "NF_AT = 1 + 32 + 4 + 36 + 1"

text \<open>The nullifiers of one input, with the hash of the spend's body, \<open>None\<close> where the envelope does not parse.\<close>

definition spendsOfInput :: "(bytes \<Rightarrow> bytes) \<Rightarrow> (bytes \<Rightarrow> 'p option) \<Rightarrow> bytes list \<Rightarrow> (bytes \<times> bytes option) list" where
  "spendsOfInput keccak256 fromHex w =
     (if length w \<noteq> 3 then []
      else case decodeEnvelopeScript_relay (w ! 1) of None \<Rightarrow> []
        | Some (opcode, p) \<Rightarrow>
           if opcode \<noteq> T_BTC_SPEND \<or> length p < NF_AT then []
           else let body = map_option (\<lambda>s. keccak256 (sp_body s)) (parseSpend_wallet fromHex True p)
                in map (\<lambda>j. (slice p (NF_AT + 32 * j) (NF_AT + 32 * (j + 1)), body))
                     (takeWhile (\<lambda>j. NF_AT + 32 * (j + 1) \<le> length p) [0..<u8 p (NF_AT - 1)]))"

definition spendsOfTx :: "(bytes \<Rightarrow> bytes) \<Rightarrow> (bytes \<Rightarrow> 'p option) \<Rightarrow> rawTx \<Rightarrow> (bytes \<times> bytes option) list" where
  "spendsOfTx keccak256 fromHex tx = concat (map (spendsOfInput keccak256 fromHex) (rt_witness tx))"

subsection \<open>Mempool\<close>

record seenTx =
  sx_spends :: "(bytes \<times> bytes option) list"
  sx_at :: int

record mempool =
  mp_byTx :: "(bytes \<times> seenTx) list"
  mp_backoffUntil :: int
  mp_backoffMs :: int
  mp_complete :: bool

text \<open>An answer of the source: limited by rate, failed otherwise, or a value.\<close>

datatype 'a sourced = Limited | Failed | Got 'a

definition backoff :: "int \<Rightarrow> mempool \<Rightarrow> mempool" where
  "backoff t mp = (let ms = min (10 * 60000) (if mp_backoffMs mp \<noteq> 0 then mp_backoffMs mp * 2 else 30000)
     in mp\<lparr>mp_backoffMs := ms, mp_backoffUntil := t + ms\<rparr>)"

text \<open>The transactions of the list that are not known yet; \<open>n\<close> may still be fetched.\<close>

fun fetchSeen :: "(bytes \<Rightarrow> (bytes \<times> bytes option) list sourced) \<Rightarrow> int \<Rightarrow> nat \<Rightarrow> mempool \<Rightarrow> bytes list \<Rightarrow> mempool" where
  "fetchSeen fetch t n mp [] = mp\<lparr>mp_backoffMs := 0, mp_complete := True\<rparr>"
| "fetchSeen fetch t n mp (x # xs) =
     (if x \<in> fst ` set (mp_byTx mp) then fetchSeen fetch t n mp xs
      else if n = 0 then mp\<lparr>mp_complete := False, mp_backoffMs := 0\<rparr>
      else case fetch x of Limited \<Rightarrow> (backoff t mp)\<lparr>mp_complete := False\<rparr>
        | Failed \<Rightarrow> fetchSeen fetch t (n - 1) mp xs
        | Got s \<Rightarrow> fetchSeen fetch t (n - 1) (mp\<lparr>mp_byTx := mp_byTx mp @ [(x, \<lparr>sx_spends = s, sx_at = t\<rparr>)]\<rparr>) xs)"

text \<open>\<open>listing\<close> is the answer to the list request, \<open>Got None\<close> when there are too many transactions to track.\<close>

definition refreshMempool :: "(bytes \<Rightarrow> (bytes \<times> bytes option) list sourced) \<Rightarrow> bytes list option sourced \<Rightarrow> nat \<Rightarrow> int \<Rightarrow> int
    \<Rightarrow> mempool \<Rightarrow> unit res \<times> mempool" where
  "refreshMempool fetch listing maxFetch staleMs t mp =
     (if t < mp_backoffUntil mp then (Inr (), mp)
      else case listing of Limited \<Rightarrow> (Inl (Err ''limited''), backoff t mp)
        | Failed \<Rightarrow> (Inl (Err ''mempool''), mp)
        | Got None \<Rightarrow> (Inr (), mp\<lparr>mp_complete := False, mp_byTx := filter (\<lambda>(x, r). \<not> t - sx_at r > staleMs) (mp_byTx mp)\<rparr>)
        | Got (Some ids) \<Rightarrow>
            (Inr (), fetchSeen fetch t maxFetch (mp\<lparr>mp_byTx := filter (\<lambda>(x, r). x \<in> set ids) (mp_byTx mp)\<rparr>) (rev (remdups (rev ids)))))"

fun spenderIn :: "(bytes \<times> seenTx) list \<Rightarrow> bytes list \<Rightarrow> bytes \<Rightarrow> (bytes \<times> bytes option) option" where
  "spenderIn [] ignore nf = None"
| "spenderIn ((x, r) # rest) ignore nf =
     (if x \<notin> set ignore \<and> nf \<in> fst ` set (sx_spends r) then Some (x, the (map_of (rev (sx_spends r)) nf)) else spenderIn rest ignore nf)"

fun conflictIn :: "mempool \<Rightarrow> bytes list \<Rightarrow> bytes list \<Rightarrow> bytes option" where
  "conflictIn mp [] ignore = None"
| "conflictIn mp (nf # nfs) ignore =
     (case spenderIn (mp_byTx mp) ignore nf of Some (x, body) \<Rightarrow> Some x | None \<Rightarrow> conflictIn mp nfs ignore)"

subsection \<open>Change\<close>

definition CHANGE_OUT_VB :: int where "CHANGE_OUT_VB = 31"

text \<open>\<open>k\<close> outputs, fewer if they would be too small; the rate is an exact fraction.\<close>

primrec splitChange :: "nat \<Rightarrow> int \<Rightarrow> rat \<Rightarrow> int \<Rightarrow> int \<Rightarrow> int list" where
  "splitChange 0 change rate dust targetCoinSats = [change]"
| "splitChange (Suc k) change rate dust targetCoinSats =
     (if k = 0 then [change]
      else let extraFee = \<lceil>of_int (CHANGE_OUT_VB * int k) * rate\<rceil>;
               each = (change - extraFee) div (int k + 1)
           in if each < targetCoinSats \<or> each < dust then splitChange k change rate dust targetCoinSats
              else (change - extraFee - each * int k) # replicate k each)"

definition planChangeOutputs :: "int \<Rightarrow> rat \<Rightarrow> int \<Rightarrow> int \<Rightarrow> int \<Rightarrow> int \<Rightarrow> int \<Rightarrow> int list" where
  "planChangeOutputs change rate survive dust targetCoins targetCoinSats maxChangeSplit =
     (if \<not> change \<ge> dust then []
      else splitChange (nat (min maxChangeSplit (max 1 (targetCoins - max 0 survive)))) change rate dust targetCoinSats)"

subsection \<open>No spend of a transaction is missed\<close>

lemma readNullifiers_slices: "readNullifiers e p n = Some (nfs, q) \<Longrightarrow> nfs = map (\<lambda>j. slice e (p + 32 * j) (p + 32 * (j + 1))) [0..<n]"
proof (induction n arbitrary: p nfs)
  case (Suc n)
  then obtain rest where rest: "readNullifiers e (p + 32) n = Some (rest, q)" "nfs = slice e p (p + 32) # rest"
    by (auto simp: Let_def split: Option.bind_splits)
  have "[0..<Suc n] = 0 # map Suc [0..<n]" by (simp add: map_Suc_upt upt_conv_Cons)
  then show ?case using Suc.IH [OF rest(1)] rest(2) by (simp add: algebra_simps)
qed simp

lemma envelope_payload: "decodeEnvelopeScript_relay s = Some (opcode, p) \<Longrightarrow> opcode = u8 p 0"
  by (auto simp: decodeEnvelopeScript_relay_def Let_def split: Option.bind_splits)

lemma item_in: "it \<in> set (snd (carrierPoolEnvelopes envs)) \<Longrightarrow> \<exists>e\<in>set envs. e = Some (pi_opcode it, pi_payload it)"
proof -
  assume it: "it \<in> set (snd (carrierPoolEnvelopes envs))"
  have item: "snd ve = Some (pi_opcode it, pi_payload it)" if "it \<in> set (itemAt ve)" for ve
    using that by (auto simp: itemAt_def split: option.splits prod.splits if_splits)
  show ?thesis
  proof (cases "\<exists>op p es. envs = Some (op, p) # es \<and> op = T_BTC_SHIELD")
    case True
    then show ?thesis using it by (auto simp: carrierPoolEnvelopes_def Let_def)
  next
    case False
    then have "it \<in> set (concat (map itemAt (enumerate 0 envs)))"
      using it by (auto simp: carrierPoolEnvelopes_def Let_def split: list.splits option.splits prod.splits if_splits)
    then obtain ve where "ve \<in> set (enumerate 0 envs)" "it \<in> set (itemAt ve)" by auto
    then show ?thesis using item [of ve] by (metis in_set_enumerate_eq nth_mem prod.collapse add_0 diff_zero less_diff_conv2)
  qed
qed

lemma spend_seen:
  assumes "inputEnvelope w = Some (opcode, p)" "length w = 3" "parseEnvelope fromHex p = Some (Spend x)" "nf \<in> set (sp_nullifiers x)"
  shows "nf \<in> fst ` set (spendsOfInput keccak256 fromHex2 w)"
proof -
  have dec: "decodeEnvelopeScript_relay (w ! 1) = Some (opcode, p)" using assms(1,2) by (simp add: inputEnvelope_def)
  have op: "opcode = T_BTC_SPEND" using envelope_payload [OF dec] assms(3) by (auto simp: parseEnvelope_def split: if_splits)
  have "parseSpend fromHex p = Some x" using assms(3) by (auto simp: parseEnvelope_def split: if_splits)
  then obtain nfs q where head: "spendHead p = Some (nfs, q)" "spendTail fromHex p nfs q = Some x"
    by (auto simp: spend_indexer split: Option.bind_splits)
  then have nfs: "sp_nullifiers x = nfs" by (auto simp: spendTail_def Let_def split: Option.bind_splits)
  have len: "74 + 32 * u8 p 73 \<le> length p" "74 \<le> length p" and rd: "readNullifiers p 74 (u8 p 73) = Some (nfs, q)"
    using head(1) by (auto simp: spendHead_def Let_def split: Option.bind_splits if_splits)
  have "takeWhile (\<lambda>j. 106 + 32 * j \<le> length p) [0..<u8 p 73] = [0..<u8 p 73]"
    using len(1) by (intro takeWhile_eq_all_conv [THEN iffD2]) auto
  then have "map fst (spendsOfInput keccak256 fromHex2 w) = nfs"
    using dec op len assms(2) readNullifiers_slices [OF rd]
    by (simp add: spendsOfInput_def NF_AT_def Let_def comp_def del: takeWhile_eq_all_conv)
  then show ?thesis using assms(4) nfs by (metis set_map)
qed

lemma spends_seen:
  assumes "\<forall>w\<in>set (rt_witness tx). length w \<le> 3" "it \<in> set (snd (carrierPoolEnvelopes (txEnvelopes tx)))"
    "parseEnvelope fromHex (pi_payload it) = Some (Spend x)" "nf \<in> set (sp_nullifiers x)"
  shows "nf \<in> fst ` set (spendsOfTx keccak256 fromHex2 tx)"
proof -
  obtain w where w: "w \<in> set (rt_witness tx)" "inputEnvelope w = Some (pi_opcode it, pi_payload it)"
    using item_in [OF assms(2)] by (auto simp: txEnvelopes_def)
  then have "length w = 3" using assms(1) by (auto simp: inputEnvelope_def split: if_splits)
  from spend_seen [OF w(2) this assms(3,4), of keccak256 fromHex2] w(1) show ?thesis
    unfolding spendsOfTx_def set_concat set_map by blast
qed

subsection \<open>Blocks that are not replayed yet\<close>

text \<open>Every entry is the scan of the block with that hash.\<close>

definition aheadOk :: "(bytes \<Rightarrow> bytes) \<Rightarrow> (rawTx \<Rightarrow> (bytes \<times> bytes option) list) \<Rightarrow> indexer \<Rightarrow> bool" where
  "aheadOk sha256 track ix = (\<forall>h hash m. ix_ahead ix h = Some (hash, m) \<longrightarrow>
     (\<exists>raw b. parseBlock sha256 raw (Some hash) = Some b \<and> m = blockSpends track b))"

lemma aheadBlocks_ok:
  "aheadBlocks Y track n h ix = (r, ix') \<Longrightarrow> aheadOk (sy_sha256 Y) track ix \<Longrightarrow> aheadOk (sy_sha256 Y) track ix'
    \<and> (\<forall>g. ix_ahead ix g \<noteq> None \<longrightarrow> ix_ahead ix' g \<noteq> None)
    \<and> (\<forall>g<h. ix_ahead ix' g = ix_ahead ix g)
    \<and> (r = Inr () \<longrightarrow> (\<forall>g. h \<le> g \<and> g < h + int n \<longrightarrow> map_option fst (ix_ahead ix' g) = (case es_blockHash (sy_source Y) g of Inr x \<Rightarrow> Some x | Inl e \<Rightarrow> None)))"
proof (induction n arbitrary: h ix)
  case (Suc n)
  show ?case
  proof (cases "es_blockHash (sy_source Y) h")
    case (Inl e)
    then show ?thesis using Suc.prems by auto
  next
    case (Inr hash)
    have step: ?thesis if run: "aheadBlocks Y track n (h + 1) ix1 = (r, ix')" and ok: "aheadOk (sy_sha256 Y) track ix1"
        and here: "map_option fst (ix_ahead ix1 h) = Some hash" and other: "\<forall>g. g \<noteq> h \<longrightarrow> ix_ahead ix1 g = ix_ahead ix g" for ix1
    proof -
      note ih = Suc.IH [OF run ok]
      have "map_option fst (ix_ahead ix' g) = (case es_blockHash (sy_source Y) g of Inr x \<Rightarrow> Some x | Inl e \<Rightarrow> None)"
        if "r = Inr ()" "h \<le> g" "g < h + int (Suc n)" for g
        using ih that here Inr by (cases "g = h") auto
      moreover have "ix_ahead ix' g \<noteq> None" if "ix_ahead ix g \<noteq> None" for g
        using ih other here that by (cases "g = h") auto
      ultimately show ?thesis using ih other by auto
    qed
    show ?thesis
    proof (cases "map_option fst (ix_ahead ix h) = Some hash")
      case True
      then show ?thesis using Suc.prems Inr by (intro step [of ix]) auto
    next
      case False
      show ?thesis
      proof (cases "\<exists>raw b. es_rawBlock (sy_source Y) hash = Inr raw \<and> parseBlock (sy_sha256 Y) raw (Some hash) = Some b")
        case True
        then obtain raw b where b: "es_rawBlock (sy_source Y) hash = Inr raw" "parseBlock (sy_sha256 Y) raw (Some hash) = Some b" by blast
        let ?ix = "ix\<lparr>ix_ahead := (ix_ahead ix)(h \<mapsto> (hash, blockSpends track b))\<rparr>"
        have "aheadOk (sy_sha256 Y) track ?ix" using Suc.prems(2) b(2) by (auto simp: aheadOk_def)
        then show ?thesis using Suc.prems(1) Inr False b by (intro step [of ?ix]) auto
      next
        case none: False
        then have "ix' = ix" "\<exists>e. r = Inl e" using Suc.prems(1) Inr False by (auto split: sum.splits option.splits)
        then show ?thesis using Suc.prems(2) by auto
      qed
    qed
  qed
qed auto

text \<open>The other parts of a pass leave the scans alone.\<close>

definition sameAhead :: "indexer \<Rightarrow> indexer \<Rightarrow> bool" where
  "sameAhead ix ix' = (ix_ahead ix' = ix_ahead ix \<and> ix_aheadTip ix' = ix_aheadTip ix \<and> ix_chainTip ix' = ix_chainTip ix)"

lemma sameAhead_trans: "sameAhead a b \<Longrightarrow> sameAhead b c \<Longrightarrow> sameAhead a c"
  by (simp add: sameAhead_def)

lemma rescan_same: "rescan disk ix = (r, ix') \<Longrightarrow> sameAhead ix ix'"
  by (auto simp: rescan_def sameAhead_def split: if_splits)

lemma rollback_same: "rollbackIx H2 disk ix from_h = Some (r, ix') \<Longrightarrow> sameAhead ix ix'"
  by (auto simp: rollbackIx_def sameAhead_def Let_def rescan_def split: option.splits sum.splits prod.splits if_splits)

lemma checkReorg_same: "checkReorg H2 disk blockHash s chainTip ix = Some (r, ix') \<Longrightarrow> sameAhead ix ix'"
proof -
  assume run: "checkReorg H2 disk blockHash s chainTip ix = Some (r, ix')"
  have "ix' = ix \<or> rescan disk ix = (r, ix') \<or> (\<exists>f. rollbackIx H2 disk ix f = Some (r, ix'))"
    using run by (auto simp: checkReorg_def Let_def split: option.splits sum.splits prod.splits if_splits bool.splits)
  then show ?thesis using rescan_same rollback_same by (auto simp: sameAhead_def)
qed

lemma processBlock_same: "processBlock V tv disk ix h b = (r, ix') \<Longrightarrow> sameAhead ix ix'"
  by (auto simp: processBlock_def abortIn_def sameAhead_def Let_def split: sum.splits prod.splits)

lemma headerAt_same: "headerAt sha256 src ix h = (r, ix') \<Longrightarrow> sameAhead ix ix'"
  by (auto simp: headerAt_def sameAhead_def split: option.splits sum.splits prod.splits)

lemma anchor_same: "anchorBelowStart sha256 src params s ix b = (r, ix') \<Longrightarrow> sameAhead ix ix'"
  by (auto simp: anchorBelowStart_def sameAhead_def split: option.splits sum.splits prod.splits if_splits)

lemma checkHeader_same:
  assumes "checkHeader sha256 src params s ix h block = (r, ix')"
  shows "sameAhead ix ix'"
proof -
  obtain r1 ix1 where 1: "(if h > s then headerAt sha256 src ix (h - 1) else anchorBelowStart sha256 src params s ix block) = (r1, ix1)"
    by fastforce
  obtain r2 ix2 where 2: "headerAt sha256 src ix1 (h - RETARGET_INTERVAL) = (r2, ix2)" by fastforce
  have "sameAhead ix ix1" using headerAt_same anchor_same 1 by (cases "h > s") auto
  moreover from this have "sameAhead ix ix2" using headerAt_same [OF 2] by (rule sameAhead_trans)
  moreover have "sameAhead ix ix" by (simp add: sameAhead_def)
  moreover have "ix' = ix \<or> ix' = ix1 \<or> ix' = ix2"
    using assms unfolding checkHeader_def 1 2 prod.case by (auto split: option.splits sum.splits prod.splits if_splits)
  ultimately show ?thesis by blast
qed

lemma syncBlocks_same: "syncBlocks V Y n h k ix = (r, ix') \<Longrightarrow> sameAhead ix ix'"
proof (induction n arbitrary: h k ix)
  case (Suc n)
  show ?case
  proof (cases "\<exists>b. fetchBlock Y h = Inr b \<and> extendsStore Y ix h b")
    case False
    then have "ix' = ix" using Suc.prems by (auto split: sum.splits)
    then show ?thesis by (simp add: sameAhead_def)
  next
    case True
    then obtain b where b: "fetchBlock Y h = Inr b" "extendsStore Y ix h b" by blast
    obtain r1 ix1 where 1: "checkHeader (sy_sha256 Y) (sy_source Y) (sy_params Y) (sy_startHeight Y) ix h (rb_header b) = (r1, ix1)" by fastforce
    obtain r2 ix2 where 2: "processBlock V (sy_transparent Y) (sy_disk Y) ix1 h (toPoolBlock b) = (r2, ix2)" by fastforce
    note s1 = checkHeader_same [OF 1] and s2 = sameAhead_trans [OF checkHeader_same [OF 1] processBlock_same [OF 2]]
    show ?thesis
    proof (cases r1)
      case (Inl e)
      then have "ix' = ix1 \<or> ix' = ix1\<lparr>ix_halted := Some (h, None)\<rparr>" using Suc.prems b 1 by (simp split: if_splits)
      then show ?thesis using s1 by (auto simp: sameAhead_def)
    next
      case r1: (Inr u)
      show ?thesis
      proof (cases r2)
        case (Inl e)
        then show ?thesis using Suc.prems b 1 r1 2 s2 by simp
      next
        case (Inr u2)
        have "sameAhead (keepHeader ix2 h (rb_header b)) ix'" using Suc.prems b 1 r1 2 Inr by (intro Suc.IH) simp
        then show ?thesis using s2 by (simp add: sameAhead_def keepHeader_def)
      qed
    qed
  qed
qed (simp add: sameAhead_def)

text \<open>The parts of a pass that returns.\<close>

lemma syncOnce_parts:
  assumes "syncOnce V Y m ix = Some (Inr k, ix')" "sy_trackAhead Y = Some track"
  obtains ct ix2 where "sameAhead (ix\<lparr>ix_chainTip := Some ct\<rparr>) ix2" "syncAhead Y track ct ix2 = (Inr (), ix')"
proof -
  obtain ct where ct: "es_tipHeight (sy_source Y) = Inr ct" using assms(1) by (auto simp: syncOnce_def split: sum.splits)
  let ?ix = "ix\<lparr>ix_chainTip := Some ct\<rparr>"
  obtain ix1 where 1: "checkReorg (pv_H2 V) (sy_disk Y) (es_blockHash (sy_source Y)) (sy_startHeight Y) ct ?ix = Some (Inr (), ix1)"
    using assms(1) ct by (auto simp: syncOnce_def split: option.splits prod.splits sum.splits)
  define n where "n = (case m of None \<Rightarrow> nat (ct - sy_confirmations Y + 1 - nextHeight Y ix1 + 1)
    | Some k \<Rightarrow> min (nat (ct - sy_confirmations Y + 1 - nextHeight Y ix1 + 1)) k)"
  obtain r2 ix2 where 2: "syncBlocks V Y n (nextHeight Y ix1) 0 ix1 = (r2, ix2)" by fastforce
  obtain r3 ix3 where 3: "syncAhead Y track ct ix2 = (r3, ix3)" by fastforce
  have eq: "syncOnce V Y m ix = Some (case r2 of Inl e \<Rightarrow> (Inl e, ix2) | Inr k \<Rightarrow> (map_sum id (\<lambda>_. k) r3, ix3))"
    using ct 1 2 [unfolded n_def] 3 assms(2) by (simp add: syncOnce_def Let_def split: sum.split)
  have "r3 = Inr ()" "ix3 = ix'" using assms(1) eq by (cases r2; cases r3; simp)+
  then show ?thesis using that [of ct ix2] 3 sameAhead_trans [OF checkReorg_same [OF 1] syncBlocks_same [OF 2]] by blast
qed

text \<open>
  After a pass that returns, a complete view holds the scan of every block between the replayed tip and the tip of the
  source, each the block the source names at that height.
\<close>

lemma ahead_scanned:
  assumes "syncOnce V Y m ix = Some (Inr k, ix')" "sy_trackAhead Y = Some track" "aheadOk (sy_sha256 Y) track ix"
  shows "aheadOk (sy_sha256 Y) track ix'"
    "aheadComplete Y ix' \<Longrightarrow> ix_chainTip ix' = Some t \<Longrightarrow> nextHeight Y ix' \<le> h \<Longrightarrow> h \<le> t \<Longrightarrow>
      \<exists>hash raw b. es_blockHash (sy_source Y) h = Inr hash \<and> parseBlock (sy_sha256 Y) raw (Some hash) = Some b
        \<and> ix_ahead ix' h = Some (hash, blockSpends track b)"
proof -
  obtain ct ix2 where same: "sameAhead (ix\<lparr>ix_chainTip := Some ct\<rparr>) ix2" and run: "syncAhead Y track ct ix2 = (Inr (), ix')"
    using syncOnce_parts [OF assms(1,2)] .
  have ok2: "aheadOk (sy_sha256 Y) track ix2" using assms(3) same by (simp add: aheadOk_def sameAhead_def)
  have next_eq: "nextHeight Y ix' = nextHeight Y ix2" using syncAhead_frame [OF run] by (simp add: nextHeight_def)
  have tip: "ix_chainTip ix' = Some ct" using syncAhead_frame [OF run] same by (simp add: sameAhead_def)
  let ?from = "nextHeight Y ix2"
  let ?ix = "ix2\<lparr>ix_ahead := (\<lambda>h. if h < ?from \<or> h > ct then None else ix_ahead ix2 h)\<rparr>"
  consider "ct - ?from + 1 > sy_aheadDepth Y" "ix_ahead ix' = Map.empty"
    | ix3 where "aheadBlocks Y track (nat (ct - ?from + 1)) ?from ?ix = (Inr (), ix3)" "ix' = ix3\<lparr>ix_aheadTip := Some ct\<rparr>"
    using run by (auto simp: syncAhead_def Let_def split: if_splits prod.splits sum.splits)
  then have "aheadOk (sy_sha256 Y) track ix' \<and> (aheadComplete Y ix' \<longrightarrow> (\<forall>h. ?from \<le> h \<and> h \<le> ct \<longrightarrow>
      map_option fst (ix_ahead ix' h) = (case es_blockHash (sy_source Y) h of Inr x \<Rightarrow> Some x | Inl e \<Rightarrow> None) \<and> ix_ahead ix' h \<noteq> None))"
  proof cases
    case 1
    then show ?thesis using assms(2) tip next_eq by (auto simp: aheadOk_def aheadComplete_def list_all_iff)
  next
    case 2
    have ok: "aheadOk (sy_sha256 Y) track ?ix" using ok2 by (auto simp: aheadOk_def)
    note scan = aheadBlocks_ok [OF 2(1) ok]
    show ?thesis using scan 2(2) assms(2) tip next_eq by (auto simp: aheadOk_def aheadComplete_def list_all_iff)
  qed
  note result = this
  then show ok: "aheadOk (sy_sha256 Y) track ix'" by blast
  show "\<exists>hash raw b. es_blockHash (sy_source Y) h = Inr hash \<and> parseBlock (sy_sha256 Y) raw (Some hash) = Some b
        \<and> ix_ahead ix' h = Some (hash, blockSpends track b)"
    if all: "aheadComplete Y ix'" "ix_chainTip ix' = Some t" "nextHeight Y ix' \<le> h" "h \<le> t"
  proof -
    have "?from \<le> h" "h \<le> ct" using all tip next_eq by simp_all
    with result all(1) have here: "map_option fst (ix_ahead ix' h) = (case es_blockHash (sy_source Y) h of Inr x \<Rightarrow> Some x | Inl e \<Rightarrow> None)"
      "ix_ahead ix' h \<noteq> None" by blast+
    then obtain hash mp where e: "ix_ahead ix' h = Some (hash, mp)" by auto
    then have "es_blockHash (sy_source Y) h = Inr hash" using here(1) by (cases "es_blockHash (sy_source Y) h") auto
    moreover obtain raw b where "parseBlock (sy_sha256 Y) raw (Some hash) = Some b" "mp = blockSpends track b"
      using ok e unfolding aheadOk_def by blast
    ultimately show ?thesis using e by blast
  qed
qed

text \<open>What the scan of a block finds.\<close>

lemma blockSpends_keys: "dom (blockSpends track b) = (\<Union>tx\<in>set (drop 1 (rb_txs b)). fst ` set (track tx))"
proof -
  have one: "dom (foldl (\<lambda>m (nf, body). m(nf \<mapsto> (x, body))) m ns) = dom m \<union> fst ` set ns" for ns m and x :: bytes
    by (induction ns arbitrary: m) auto
  have "dom (foldl (\<lambda>m tx. foldl (\<lambda>m (nf, body). m(nf \<mapsto> (rt_txid tx, body))) m (track tx)) m txs) = dom m \<union> (\<Union>tx\<in>set txs. fst ` set (track tx))"
    for m txs by (induction txs arbitrary: m) (auto simp: one)
  then show ?thesis by (simp add: blockSpends_def)
qed

subsection \<open>The mempool view\<close>

lemma spenderIn_None: "(spenderIn byTx ignore nf = None) = (\<forall>(x, r)\<in>set byTx. x \<in> set ignore \<or> nf \<notin> fst ` set (sx_spends r))"
  by (induction byTx ignore nf rule: spenderIn.induct) auto

lemma conflict_None:
  "(conflictIn mp nfs ignore = None) = (\<forall>nf\<in>set nfs. \<forall>(x, r)\<in>set (mp_byTx mp). x \<in> set ignore \<or> nf \<notin> fst ` set (sx_spends r))"
proof (induction nfs)
  case (Cons nf nfs)
  then show ?case using spenderIn_None [of "mp_byTx mp" ignore nf] by (cases "spenderIn (mp_byTx mp) ignore nf") auto
qed simp

lemma fetchSeen_complete:
  "mp_complete (fetchSeen fetch t n mp xs) \<Longrightarrow> x \<in> set xs \<union> fst ` set (mp_byTx mp) \<Longrightarrow> fetch x \<noteq> Failed \<Longrightarrow>
   x \<in> fst ` set (mp_byTx (fetchSeen fetch t n mp xs))"
proof (induction xs arbitrary: n mp)
  case (Cons y ys)
  show ?case
  proof (cases "y \<in> fst ` set (mp_byTx mp)")
    case True
    then have "x \<in> set ys \<union> fst ` set (mp_byTx mp)" using Cons.prems(2) by auto
    then show ?thesis using Cons.IH [of n mp] Cons.prems(1,3) True by simp
  next
    case new: False
    show ?thesis
    proof (cases "fetch y")
      case (Got s)
      let ?mp = "mp\<lparr>mp_byTx := mp_byTx mp @ [(y, \<lparr>sx_spends = s, sx_at = t\<rparr>)]\<rparr>"
      have "x \<in> set ys \<union> fst ` set (mp_byTx ?mp)" using Cons.prems(2) by auto
      then show ?thesis using Cons.IH [of "n - 1" ?mp] Cons.prems(1,3) Got new by (auto split: if_splits)
    next
      case Failed
      then have "x \<in> set ys \<union> fst ` set (mp_byTx mp)" using Cons.prems(2,3) by auto
      then show ?thesis using Cons.IH [of "n - 1" mp] Cons.prems(1,3) Failed new by (auto split: if_splits)
    qed (use Cons.prems new in \<open>auto simp: backoff_def Let_def split: if_splits\<close>)
  qed
qed auto

subsection \<open>Splitting change\<close>

lemma splitChange_sum:
  assumes "dust \<le> change" "0 \<le> dust" "0 \<le> targetCoinSats"
  shows "sum_list (splitChange k change rate dust targetCoinSats)
      + \<lceil>of_int (CHANGE_OUT_VB * (int (length (splitChange k change rate dust targetCoinSats)) - 1)) * rate\<rceil> = change
    \<and> (\<forall>v\<in>set (splitChange k change rate dust targetCoinSats). dust \<le> v)
    \<and> 1 \<le> length (splitChange k change rate dust targetCoinSats) \<and> length (splitChange k change rate dust targetCoinSats) \<le> max 1 k"
proof (induction k)
  case (Suc k)
  define f where "f = \<lceil>of_int (CHANGE_OUT_VB * int k) * rate\<rceil>"
  define e where "e = (change - f) div (int k + 1)"
  have "0 \<le> (change - f) mod (int k + 1)" by simp
  moreover have "change - f - (change - f) mod (int k + 1) = e * int k + e"
    using minus_mod_eq_div_mult [of "change - f" "int k + 1"] unfolding e_def [symmetric] by (simp add: distrib_left)
  ultimately have "e * int k + e \<le> change - f" by linarith
  moreover have "splitChange (Suc k) change rate dust targetCoinSats = (if k = 0 then [change]
      else if e < targetCoinSats \<or> e < dust then splitChange k change rate dust targetCoinSats else (change - f - e * int k) # replicate k e)"
    by (simp add: Let_def e_def f_def)
  ultimately show ?case
    using Suc assms(1) by (cases "k = 0 \<or> e < targetCoinSats \<or> e < dust") (auto simp: sum_list_replicate f_def simp del: splitChange.simps)
qed (use assms in simp)

text \<open>
  A fourth witness item, such as a taproot annex, hides a spend from the relayer: the replay reads the envelope of the
  input with it as the one without.
\<close>

lemma relay_misses_annex:
  assumes "length w = 3"
  shows "inputEnvelope (w @ [annex]) = inputEnvelope w \<and> spendsOfInput keccak256 fromHex (w @ [annex]) = []"
  using assms by (simp add: inputEnvelope_def spendsOfInput_def nth_append)

end
