(* ===== verification/Pool_Service.thy ===== *)
theory Pool_Service
  imports Pool_Relay
begin

text \<open>
  The life of the shielded pool's replay service: it starts on empty tables, makes passes, and is restarted on its
  tables. Each pass has its own block source, settings, verifiers and disk, and may fail in any request or write, so a
  crash is a pass that fails followed by a restart. Passes and restarts are taken from at most \<open>2 ^ 30\<close> notes, the
  bound of the binary search in \<open>leafCountAt\<close> and \<open>restore\<close>.
\<close>

inductive poolService :: "'p poolEnvir \<Rightarrow> (bytes \<Rightarrow> bytes) \<Rightarrow> nat \<Rightarrow> int \<Rightarrow> indexer \<Rightarrow> bool" for V0 sha256 powLimitBits s where
  start: "createIndexer (pv_H2 V0) emptyStore meta network s chain = Some (Inr ix, meta') \<Longrightarrow> poolService V0 sha256 powLimitBits s ix"
| pass: "poolService V0 sha256 powLimitBits s ix \<Longrightarrow> treeSize (bp_tree (ix_state ix)) \<le> 2 ^ 30 \<Longrightarrow> pv_H2 (V :: 'p poolEnvir) = pv_H2 V0 \<Longrightarrow>
    sy_sha256 Y = sha256 \<Longrightarrow> cp_powLimitBits (sy_params Y) = powLimitBits \<Longrightarrow> sy_startHeight Y = s \<Longrightarrow>
    syncOnce V Y m ix = Some (r, ix') \<Longrightarrow> poolService V0 sha256 powLimitBits s ix'"
| restart: "poolService V0 sha256 powLimitBits s ix \<Longrightarrow> treeSize (bp_tree (ix_state ix)) \<le> 2 ^ 30 \<Longrightarrow>
    createIndexer (pv_H2 V0) (ix_store ix) meta network s chain = Some (Inr ix', meta') \<Longrightarrow> poolService V0 sha256 powLimitBits s ix'"

declare poolService.intros [intro]

lemma indexed_size: "indexed H2 ix s d bs hs \<Longrightarrow> treeSize (bp_tree (ix_state ix)) = length (rowsOf bs)"
  by (auto simp: indexed_def refines_def coreOf_def dest: treeInv_size)

lemma createIndexer_start: "createIndexer H2 so meta network s chain = Some (Inr ix, meta') \<Longrightarrow> 1 \<le> s"
  by (auto simp: createIndexer_def split: if_splits)

lemma service_ledger:
  "poolService V0 sha256 powLimitBits s ix \<Longrightarrow> 1 \<le> s \<and> (\<exists>d bs hs. indexed (pv_H2 V0) ix s d bs hs \<and> chainOk sha256 powLimitBits hs)"
proof (induction rule: poolService.induct)
  case (start meta network chain ix meta')
  have "storeOf (pv_H2 V0) emptyStore s [] []" by (simp add: storeOf_def emptyStore_def)
  moreover have "ledgerOk s []" by (simp add: ledgerOk_def)
  ultimately have "indexed (pv_H2 V0) ix s (min 288 (length [])) [] []"
    using createIndexer_ok [of "pv_H2 V0" emptyStore s "[]" "[]" meta network s chain] start by auto
  moreover have "chainOk sha256 powLimitBits []" by (simp add: chainOk_def)
  ultimately show ?case using createIndexer_start [OF start] by blast
next
  case (pass ix V Y m r ix')
  then obtain d bs hs where ix: "indexed (pv_H2 V0) ix s d bs hs" "chainOk sha256 powLimitBits hs" "1 \<le> s" by blast
  have len: "length (rowsOf bs) \<le> 2 ^ 30" using pass.hyps(2) indexed_size [OF ix(1)] by simp
  have "\<exists>r ix' d' bs' hs'. syncOnce V Y m ix = Some (r, ix') \<and> indexed (pv_H2 V) ix' s d' bs' hs'
      \<and> chainOk (sy_sha256 Y) (cp_powLimitBits (sy_params Y)) hs'"
    using ix pass.hyps(3-6) len by (intro syncOnce_ok [of V ix s d bs hs]) auto
  then show ?case using pass.hyps(3-7) ix(3) by auto
next
  case (restart ix meta network chain ix' meta')
  then obtain d bs hs where ix: "indexed (pv_H2 V0) ix s d bs hs" "chainOk sha256 powLimitBits hs" "1 \<le> s" by blast
  have len: "length (rowsOf bs) \<le> 2 ^ 30" using restart.hyps(2) indexed_size [OF ix(1)] by simp
  have so: "storeOf (pv_H2 V0) (ix_store ix) s bs hs" and ok: "ledgerOk s bs" using ix(1) by (auto simp: indexed_def refines_def coreOf_def)
  have "indexed (pv_H2 V0) ix' s (min 288 (length bs)) bs hs"
    using createIndexer_ok [OF so ok len, of meta network s chain] restart.hyps(3) by auto
  then show ?case using ix by blast
qed

text \<open>What the tables of a service hold.\<close>

definition tablesOk :: "int \<Rightarrow> indexer \<Rightarrow> bool" where
  "tablesOk s ix = (let so = ix_store ix; st = ix_state ix in
     map fst (so_blocks so) = map (\<lambda>k. s + int k) [0..<length (so_blocks so)]
     \<and> map fl_leafIndex (so_leaves so) = [0..<length (so_leaves so)]
     \<and> (\<forall>l\<in>set (so_leaves so). bytesToBig (po_leaf (fl_output l)) < P_FR)
     \<and> distinct (map fst (so_nullifiers so)) \<and> (\<forall>n\<in>set (so_nullifiers so). length (fst n) = 32)
     \<and> distinct (map fst (so_exits so))
     \<and> bp_pending st = None \<and> bp_leafHeights st = map fl_height (so_leaves so)
     \<and> bp_tree st ! 0 = map (\<lambda>l. bytesToBig (po_leaf (fl_output l))) (so_leaves so)
     \<and> bp_nullifiers st = map_of (so_nullifiers so) \<and> bp_exits st = map_of (so_exits so))"

lemma indexed_tables:
  assumes "indexed H2 ix s d bs hs"
  shows "tablesOk s ix"
proof -
  have ok: "ledgerOk s bs" and so: "storeOf H2 (ix_store ix) s bs hs" and core: "coreOf H2 (ix_state ix) s bs"
    and pend: "bp_pending (ix_state ix) = None"
    using assms by (auto simp: indexed_def refines_def coreOf_def)
  have "leafVal l < P_FR" if "l \<in> set (rowsOf bs)" for l
    using in_rowsE [OF that] ok unfolding ledgerOk_def blockOk_def by metis
  moreover have "length (fst n) = 32" if n: "n \<in> set (nfsOf bs)" for n
  proof -
    obtain b where "b \<in> set bs" "n \<in> set (ab_nfs b)" using n by (auto simp: nfsOf_def)
    then show ?thesis using ok unfolding ledgerOk_def blockOk_def by (metis in_set_conv_nth)
  qed
  moreover have "bp_tree (ix_state ix) ! 0 = map leafVal (rowsOf bs)" using core by (simp add: coreOf_def treeInv_def leafVals_def)
  ultimately show ?thesis
    using ok so core pend unfolding tablesOk_def Let_def
    by (simp add: ledgerOk_def storeOf_def coreOf_def leafVal_def blockRow_def comp_def)
qed

lemma leafCountAt_filter:
  assumes "coreOf H2 st s bs" "length (rowsOf bs) \<le> 2 ^ 30"
  shows "leafCountAt st (s + int k) = Some (int (length (filter (\<lambda>h. h \<le> s + int k) (bp_leafHeights st))))"
proof -
  have "ledgerOk s bs" and hts: "bp_leafHeights st = map fl_height (rowsOf bs)" using assms(1) by (auto simp: coreOf_def)
  then have "filter (\<lambda>l. \<not> fl_height l \<ge> s + int (Suc k)) (rowsOf bs) = rowsOf (take (Suc k) bs)" by (intro ledger_below)
  moreover have "(\<lambda>l::fullLeaf. \<not> fl_height l \<ge> s + int (Suc k)) = (\<lambda>l. fl_height l \<le> s + int k)" by auto
  ultimately have "length (filter (\<lambda>h. h \<le> s + int k) (bp_leafHeights st)) = length (rowsOf (take (Suc k) bs))"
    by (simp only: hts filter_map comp_def length_map)
  then show ?thesis using leafCountAt_ok [OF assms, of k] by simp
qed

text \<open>What the checks of a spend establish about the ledger.\<close>

lemma spendChecks_ledger:
  assumes "openOn (pv_H2 V) st s d bs b" "bp_pending st = Some p" "spendChecks V cr agg st p x = Inr None"
  shows "distinct (sp_nullifiers x)" "set (sp_nullifiers x) \<inter> fst ` set (nfsOf (bs @ [b])) = {}"
    "s \<le> sp_hAnchor x" "s + int (length bs) - 144 \<le> sp_hAnchor x" "sp_hAnchor x < s + int (length bs)"
    "\<exists>exitC. exitBoundary V x = Some exitC
         \<and> proofChecks V agg x (envelopePublics (pv_sha256 V) x (rootAfter (pv_H2 V) bs (nat (sp_hAnchor x - s))) exitC) = Inr None"
proof -
  obtain root exitC where root: "map_of (bp_roots st) (sp_hAnchor x) = Some root"
    and nfs: "distinct (sp_nullifiers x)" "\<forall>nf\<in>set (sp_nullifiers x). bp_nullifiers st nf = None"
    and pf: "exitBoundary V x = Some exitC" "proofChecks V agg x (envelopePublics (pv_sha256 V) x root exitC) = Inr None"
    by (rule spendChecks_None [OF assms(3)]) blast
  have "map_of (bp_roots st) = rootsOf (pv_H2 V) s bs" and nf: "bp_nullifiers st = map_of (nfsOf (bs @ [b]))"
    using assms(1) by (auto simp: openOn_def booksOf_def coreOf_def)
  then have "rootsOf (pv_H2 V) s bs (sp_hAnchor x) = Some root" using root by simp
  then show "s \<le> sp_hAnchor x" "s + int (length bs) - 144 \<le> sp_hAnchor x" "sp_hAnchor x < s + int (length bs)"
    and "\<exists>exitC. exitBoundary V x = Some exitC
         \<and> proofChecks V agg x (envelopePublics (pv_sha256 V) x (rootAfter (pv_H2 V) bs (nat (sp_hAnchor x - s))) exitC) = Inr None"
    using pf by (auto simp: rootsOf_def split: if_splits)
  show "distinct (sp_nullifiers x)" by (rule nfs(1))
  show "set (sp_nullifiers x) \<inter> fst ` set (nfsOf (bs @ [b])) = {}"
    using nfs(2) unfolding nf by (auto simp: map_of_eq_None_iff simp del: rows_simps)
qed

end
