(* ===== verification/Pool_Encode.thy ===== *)
theory Pool_Encode
  imports Pool_Envelope
begin

text \<open>
  The wallet's writer of spend envelopes (\<open>dapp/btc-shielded-pool.js\<close>: \<open>encodeSpendBody\<close>, \<open>assembleSpendEnvelope\<close>) and
  its round trip through the parser of \<open>Pool_Envelope\<close>.
\<close>

subsection \<open>The wallet's encoder\<close>

record wantParams =
  wp_vout :: int
  wp_value :: int
  wp_spkHash :: "bytes option"
  wp_scriptPubKey :: "bytes option"

record exitParams =
  xp_exitVout :: int
  xp_destSpkHash :: bytes
  xp_boundary :: bytes

record spendParams =
  pa_asset :: bytes
  pa_hAnchor :: int
  pa_bind :: "(bytes \<times> int) option"
  pa_nullifiers :: "bytes list"
  pa_outputs :: "poolOutput list"
  pa_exit :: "exitParams option"
  pa_want :: "wantParams option"

definition isU32 :: "int \<Rightarrow> bool" where "isU32 x = (0 \<le> x \<and> x < 2 ^ 32)"
definition isU64 :: "int \<Rightarrow> bool" where "isU64 x = (0 \<le> x \<and> x < 2 ^ 64)"

definition bindBytes :: "(bytes \<times> int) option \<Rightarrow> bytes res" where
  "bindBytes b = (case b of None \<Rightarrow> Inr (zeros BIND_LEN)
     | Some (txid, vout) \<Rightarrow>
         if length txid \<noteq> 32 then Inl (Err ''expected 32 bytes'')
         else if \<not> isU32 vout then Inl (Err ''bind vout'') else Inr (rev txid @ le_bytes 4 vout))"

definition normalizeWant :: "(bytes \<Rightarrow> bytes) \<Rightarrow> wantParams option \<Rightarrow> (int \<times> int \<times> bytes) option res" where
  "normalizeWant sha256 want = (case want of None \<Rightarrow> Inr None
     | Some w \<Rightarrow>
        (let fromSpk = map_option sha256 (wp_scriptPubKey w) in
         if \<not> isU32 (wp_vout w) then Inl (Err ''want vout'')
         else if \<not> isU64 (wp_value w) then Inl (Err ''want value'')
         else case wp_spkHash w of
             None \<Rightarrow> (case fromSpk of None \<Rightarrow> Inl (Err ''want needs spkHash or scriptPubKey'')
               | Some h \<Rightarrow> Inr (Some (wp_vout w, wp_value w, h)))
           | Some h \<Rightarrow> if length h \<noteq> 32 then Inl (Err ''expected 32 bytes'')
               else if fromSpk \<noteq> None \<and> fromSpk \<noteq> Some h then Inl (Err ''want spkHash does not match scriptPubKey'')
               else Inr (Some (wp_vout w, wp_value w, h))))"

definition noteBytes :: "poolOutput \<Rightarrow> bytes res" where
  "noteBytes out =
     (if length (po_leaf out) \<noteq> 32 \<or> length (po_pkEph out) \<noteq> 33 \<or> length (po_ctNote out) \<noteq> CT_NOTE_LEN then Inl (Err ''expected bytes'')
      else Inr (po_leaf out @ po_pkEph out @ po_ctNote out))"

definition exitBytes :: "exitParams option \<Rightarrow> bytes res" where
  "exitBytes ex = (case ex of None \<Rightarrow> Inr [byte_of 0]
     | Some x \<Rightarrow>
         if length (xp_destSpkHash x) \<noteq> 32 \<or> length (xp_boundary x) \<noteq> BOUNDARY_LEN then Inl (Err ''expected bytes'')
         else Inr (byte_of 1 # le_bytes 4 (xp_exitVout x) @ xp_destSpkHash x @ xp_boundary x))"

definition wantBytes :: "(int \<times> int \<times> bytes) option \<Rightarrow> bytes res" where
  "wantBytes w = (case w of None \<Rightarrow> Inr [byte_of 0]
     | Some (vout, value, h) \<Rightarrow>
         if length h \<noteq> 32 then Inl (Err ''expected 32 bytes'') else Inr (byte_of 1 # le_bytes 4 vout @ le_bytes 8 value @ h))"

definition bytes32 :: "bytes \<Rightarrow> bytes res" where
  "bytes32 b = (if length b \<noteq> 32 then Inl (Err ''expected 32 bytes'') else Inr b)"

definition encodeSpendBody :: "(bytes \<Rightarrow> bytes) \<Rightarrow> spendParams \<Rightarrow> bytes res" where
  "encodeSpendBody sha256 a =
     (let nfs = pa_nullifiers a; os = pa_outputs a in
      if nfs = [] \<or> length nfs > SPEND_MAX_IN then Inl (Err ''n_in must be 1..2'')
      else if length os > SPEND_MAX_OUT then Inl (Err ''n_out must be 0..3'')
      else if os = [] \<and> pa_exit a = None then Inl (Err ''a spend needs an output or an exit'')
      else if \<not> isU32 (pa_hAnchor a) then Inl (Err ''h_anchor'')
      else if (case pa_exit a of None \<Rightarrow> False | Some x \<Rightarrow> \<not> isU32 (xp_exitVout x)) then Inl (Err ''exit_vout'')
      else case normalizeWant sha256 (pa_want a) of Inl e \<Rightarrow> Inl e
        | Inr w \<Rightarrow>
           if (case (w, pa_exit a) of (Some (v, _), Some x) \<Rightarrow> v = xp_exitVout x | _ \<Rightarrow> False) then
             Inl (Err ''want and exit name the same output'')
           else if list_ex (\<lambda>nf. length nf \<noteq> 32) nfs then Inl (Err ''expected 32 bytes'')
           else if \<not> distinct nfs then Inl (Err ''repeated nullifier'')
           else concatParts ([Inr [byte_of T_BTC_SPEND], bytes32 (pa_asset a), Inr (le_bytes 4 (pa_hAnchor a)), bindBytes (pa_bind a),
                 Inr [byte_of (length nfs)]] @ map bytes32 nfs @ [Inr [byte_of (length os)]] @ map noteBytes os
                 @ [exitBytes (pa_exit a), wantBytes w]))"

text \<open>The envelope of a body with its proof, read once by the wallet's own parser before it is returned.\<close>

definition assembleSpendEnvelope :: "(bytes \<Rightarrow> 'p option) \<Rightarrow> bytes \<Rightarrow> bytes \<Rightarrow> bytes res" where
  "assembleSpendEnvelope fromHex body pf =
     (if length pf > PROOF_MAX then Inl (Err ''proof too long'')
      else let out = body @ le_bytes 2 (int (length pf)) @ pf
           in if parseSpend_wallet fromHex True out = None then Inl (Err ''spend'') else Inr out)"

subsection \<open>Round trip\<close>

text \<open>What the parser asks of the values beyond their widths: field elements, curve points.\<close>

definition noteOk :: "(bytes \<Rightarrow> 'p option) \<Rightarrow> poolOutput \<Rightarrow> bool" where
  "noteOk fromHex out = (fieldOk_wallet (po_leaf out) \<and> pointFromCompressed_wallet fromHex (po_pkEph out) \<noteq> None)"

definition valuesOk :: "(bytes \<Rightarrow> 'p option) \<Rightarrow> spendParams \<Rightarrow> bool" where
  "valuesOk fromHex a = (list_all fieldOk_wallet (pa_nullifiers a) \<and> list_all (noteOk fromHex) (pa_outputs a)
     \<and> (\<forall>x. pa_exit a = Some x \<longrightarrow> pointFromCompressed_wallet fromHex (take 33 (xp_boundary x)) \<noteq> None)
     \<and> pa_bind a \<noteq> Some (zeros 32, 0))"

lemma takeByte_Cons [simp]: "n < 256 \<Longrightarrow> takeByte (byte_of n # r) = Some (n, r)"
  by (simp add: takeByte_def takeData_def u8_def byte_of_def unat_of_nat)

lemma takeNullifier_append: "length nf = 32 \<Longrightarrow> fieldOk_wallet nf \<Longrightarrow> takeNullifier (nf @ r) = Some (nf, r)"
  by (simp add: takeNullifier_def)

lemma takeOutput_append:
  assumes "noteBytes out = Inr b" "noteOk fromHex out"
  shows "takeOutput fromHex (b @ r) = Some (out, r)"
proof -
  have b: "length (po_leaf out) = 32" "length (po_pkEph out) = 33" "length (po_ctNote out) = CT_NOTE_LEN"
    "b = po_leaf out @ po_pkEph out @ po_ctNote out"
    using assms(1) by (auto simp: noteBytes_def split: if_splits)
  have "readOutput_wallet fromHex b = Some out"
    using b assms(2) by (auto simp: readOutput_wallet_def noteOk_def slice_def)
  moreover have "length b = OUTPUT_LEN" using b by (simp add: OUTPUT_LEN_def)
  ultimately show ?thesis by (simp add: takeOutput_def)
qed

lemma decodeBoundary_encode: "length b = BOUNDARY_LEN \<Longrightarrow> \<exists>bd. decodeBoundary b = Some bd \<and> encodeBoundary bd = b \<and> bd_cSecp bd = take 33 b"
proof -
  assume len: "length b = BOUNDARY_LEN"
  have "take 33 b @ take 32 (drop 33 b) @ take XCURVE_PROOF_LEN (drop 65 b) @ drop (65 + XCURVE_PROOF_LEN) b = b"
    using append_take_drop_id [of 33 b] append_take_drop_id [of 32 "drop 33 b"] append_take_drop_id [of XCURVE_PROOF_LEN "drop 65 b"]
    by (simp add: add.commute)
  then show ?thesis using len by (simp add: decodeBoundary_def encodeBoundary_def slice_def)
qed

text \<open>The parameters a parsed spend stands for.\<close>

definition exitAs :: "exitClaim \<Rightarrow> exitParams" where
  "exitAs e = \<lparr>xp_exitVout = int (xc_exitVout e), xp_destSpkHash = xc_destSpkHash e, xp_boundary = encodeBoundary (xc_boundary e)\<rparr>"

definition wantAs :: "wantClaim \<Rightarrow> wantParams" where
  "wantAs w = \<lparr>wp_vout = int (wc_vout w), wp_value = wc_value w, wp_spkHash = Some (wc_spkHash w), wp_scriptPubKey = None\<rparr>"

definition paramsOf :: "spendEnv \<Rightarrow> spendParams" where
  "paramsOf x = \<lparr>pa_asset = sp_asset x, pa_hAnchor = sp_hAnchor x, pa_bind = map_option (map_prod id int) (sp_bind x),
     pa_nullifiers = sp_nullifiers x, pa_outputs = sp_outputs x, pa_exit = map_option exitAs (sp_exit x), pa_want = map_option wantAs (sp_want x)\<rparr>"

lemma takeExit_append:
  assumes "exitBytes ex = Inr b" "\<And>x. ex = Some x \<Longrightarrow> isU32 (xp_exitVout x) \<and> pointFromCompressed_wallet fromHex (take 33 (xp_boundary x)) \<noteq> None"
  shows "\<exists>t e. b = byte_of (if ex = None then 0 else 1) # t \<and> takeExit fromHex (if ex = None then 0 else 1) (t @ r) = Some (e, r) \<and> map_option exitAs e = ex"
proof (cases ex)
  case None
  then show ?thesis using assms(1) by (simp add: exitBytes_def takeExit_def)
next
  case (Some x)
  have len: "length (xp_destSpkHash x) = 32" "length (xp_boundary x) = BOUNDARY_LEN"
    and b: "b = byte_of 1 # le_bytes 4 (xp_exitVout x) @ xp_destSpkHash x @ xp_boundary x"
    using assms(1) Some by (auto simp: exitBytes_def split: if_splits)
  obtain bd where bd: "decodeBoundary (xp_boundary x) = Some bd" "encodeBoundary bd = xp_boundary x" "bd_cSecp bd = take 33 (xp_boundary x)"
    using decodeBoundary_encode [OF len(2)] by blast
  have "takeBoundary fromHex (xp_boundary x @ r) = Some (bd, r)"
    using bd assms(2) [OF Some] len(2) by (auto simp: takeBoundary_def)
  then show ?thesis
    using b len bd(2) assms(2) [OF Some] Some
    by (simp add: takeExit_def exitAs_def isU32_def le_val_le_bytes)
qed

lemma takeWant_append:
  assumes "normalizeWant sha256 want = Inr w" "wantBytes w = Inr b"
  shows "\<exists>t e. b = byte_of (if want = None then 0 else 1) # t \<and> takeWant (if want = None then 0 else 1) (t @ r) = Some (e, r)
    \<and> map_option wantAs e = map_option (\<lambda>(v, x, h). \<lparr>wp_vout = v, wp_value = x, wp_spkHash = Some h, wp_scriptPubKey = None\<rparr>) w"
proof (cases want)
  case None
  then show ?thesis using assms by (auto simp: normalizeWant_def wantBytes_def takeWant_def)
next
  case (Some q)
  then obtain v x h where w: "w = Some (v, x, h)" "isU32 v" "isU64 x"
    using assms(1) by (auto simp: normalizeWant_def Let_def split: option.splits if_splits)
  then have "length h = 32" "b = byte_of 1 # le_bytes 4 v @ le_bytes 8 x @ h" using assms(2) by (auto simp: wantBytes_def split: if_splits)
  then show ?thesis using w Some by (simp add: takeWant_def wantAs_def isU32_def isU64_def le_val_le_bytes)
qed

lemma bindOf_bytes:
  assumes "bindBytes b = Inr q" "b \<noteq> Some (zeros 32, 0)"
  shows "length q = BIND_LEN \<and> map_option (map_prod id int) (bindOf q) = b"
proof (cases b)
  case None
  then show ?thesis using assms by (auto simp: bindBytes_def bindOf_def all_zero_iff)
next
  case (Some r)
  obtain txid vout where r: "r = (txid, vout)" by fastforce
  have q: "length txid = 32" "isU32 vout" "q = rev txid @ le_bytes 4 vout" using assms(1) Some r by (auto simp: bindBytes_def split: if_splits)
  have "\<not> all_zero q"
  proof
    assume "all_zero q"
    then have z: "list_all (\<lambda>x. x = 0) txid" "all_zero (le_bytes 4 vout)" using q(3) by (simp_all add: all_zero_def)
    have "txid = zeros 32" using z(1) q(1) by (metis all_zero_def all_zero_iff)
    moreover have "le_bytes 4 vout = le_bytes 4 0" using z(2) by (simp add: all_zero_iff zeros_def eval_nat_numeral) 
    then have "le_val (le_bytes 4 vout) = le_val (le_bytes 4 0)" by simp
    then have "vout = 0" using q(2) by (simp add: le_val_le_bytes isU32_def)
    ultimately show False using assms(2) Some r by simp
  qed
  then show ?thesis using q Some r by (simp add: bindOf_def BIND_LEN_def slice_def u32at_def le_val_le_bytes isU32_def)
qed

lemma concatParts_bytes32: "(concatParts (map bytes32 xs) = Inr q) = (list_all (\<lambda>x. length x = 32) xs \<and> q = concat xs)"
  by (induction xs arbitrary: q) (auto simp: wire_simps bytes32_def)

lemma concatParts_notes: "concatParts (map noteBytes os) = Inr q \<Longrightarrow> list_all (noteOk fromHex) os \<Longrightarrow>
    readMany (takeOutput fromHex) (length os) (q @ r) = Some (os, r)"
proof (induction os arbitrary: q)
  case (Cons a os)
  then obtain b q' where "noteBytes a = Inr b" "concatParts (map noteBytes os) = Inr q'" "q = b @ q'" by (auto simp: wire_simps)
  then show ?case using Cons by (simp add: takeOutput_append)
qed (simp add: wire_simps)

definition wantSeen :: "(int \<times> int \<times> bytes) option \<Rightarrow> wantParams option" where
  "wantSeen w = map_option (\<lambda>(v, x, h). \<lparr>wp_vout = v, wp_value = x, wp_spkHash = Some h, wp_scriptPubKey = None\<rparr>) w"

lemma encodeSpendBody_parts:
  assumes "encodeSpendBody sha256 a = Inr body"
  shows "\<exists>w bb nb xb wb. normalizeWant sha256 (pa_want a) = Inr w \<and> bindBytes (pa_bind a) = Inr bb
    \<and> concatParts (map noteBytes (pa_outputs a)) = Inr nb \<and> exitBytes (pa_exit a) = Inr xb \<and> wantBytes w = Inr wb
    \<and> body = byte_of T_BTC_SPEND # pa_asset a @ le_bytes 4 (pa_hAnchor a) @ bb @ byte_of (length (pa_nullifiers a)) # concat (pa_nullifiers a)
        @ byte_of (length (pa_outputs a)) # nb @ xb @ wb
    \<and> length (pa_asset a) = 32 \<and> isU32 (pa_hAnchor a) \<and> list_all (\<lambda>x. length x = 32) (pa_nullifiers a) \<and> distinct (pa_nullifiers a)
    \<and> pa_nullifiers a \<noteq> [] \<and> length (pa_nullifiers a) \<le> SPEND_MAX_IN \<and> length (pa_outputs a) \<le> SPEND_MAX_OUT
    \<and> (pa_outputs a \<noteq> [] \<or> pa_exit a \<noteq> None) \<and> (\<forall>x. pa_exit a = Some x \<longrightarrow> isU32 (xp_exitVout x))"
proof -
  obtain w where w: "normalizeWant sha256 (pa_want a) = Inr w"
    using assms by (auto simp: encodeSpendBody_def Let_def split: if_splits sum.splits)
  have "bytes32 b = Inr c \<longleftrightarrow> length b = 32 \<and> c = b" for b c by (auto simp: bytes32_def)
  then show ?thesis using assms w
    by (auto simp: encodeSpendBody_def Let_def wire_simps concatParts_bytes32 list_ex_iff list_all_iff not_less split: if_splits option.splits)
qed

lemma readNullifiers_append:
  assumes "list_all (\<lambda>x. length x = 32) nfs" "list_all fieldOk_wallet nfs"
  shows "readMany takeNullifier (length nfs) (concat nfs @ r) = Some (nfs, r)"
  using assms readMany_map [of nfs takeNullifier "\<lambda>x. x" "\<lambda>x. x" r] by (simp add: takeNullifier_append list_all_iff)

lemma spend_body_read:
  assumes "encodeSpendBody sha256 a = Inr body" "valuesOk fromHex a" "takeProof full fin = Some (pf, [])"
  shows "\<exists>x w. parseSpend_wallet fromHex full (body @ fin) = Some x \<and> normalizeWant sha256 (pa_want a) = Inr w
    \<and> paramsOf x = a\<lparr>pa_want := wantSeen w\<rparr> \<and> sp_body x = body \<and> sp_proof x = pf"
proof -
  obtain w bb nb xb wb where w: "normalizeWant sha256 (pa_want a) = Inr w" "wantBytes w = Inr wb" and bb: "bindBytes (pa_bind a) = Inr bb"
    and nb: "concatParts (map noteBytes (pa_outputs a)) = Inr nb" and xb: "exitBytes (pa_exit a) = Inr xb"
    and body: "body = byte_of T_BTC_SPEND # pa_asset a @ le_bytes 4 (pa_hAnchor a) @ bb @ byte_of (length (pa_nullifiers a)) # concat (pa_nullifiers a)
        @ byte_of (length (pa_outputs a)) # nb @ xb @ wb"
    and ok: "length (pa_asset a) = 32" "isU32 (pa_hAnchor a)" "list_all (\<lambda>x. length x = 32) (pa_nullifiers a)" "distinct (pa_nullifiers a)"
      "pa_nullifiers a \<noteq> []" "length (pa_nullifiers a) \<le> SPEND_MAX_IN" "length (pa_outputs a) \<le> SPEND_MAX_OUT"
      "pa_outputs a \<noteq> [] \<or> pa_exit a \<noteq> None" "\<forall>x. pa_exit a = Some x \<longrightarrow> isU32 (xp_exitVout x)"
    using encodeSpendBody_parts [OF assms(1)] by blast
  have vals: "list_all fieldOk_wallet (pa_nullifiers a)" "list_all (noteOk fromHex) (pa_outputs a)" "pa_bind a \<noteq> Some (zeros 32, 0)"
    using assms(2) by (simp_all add: valuesOk_def)
  note bnd = bindOf_bytes [OF bb vals(3)]
  obtain xt e where xt: "xb = byte_of (if pa_exit a = None then 0 else 1) # xt"
      "takeExit fromHex (if pa_exit a = None then 0 else 1) (xt @ wb @ fin) = Some (e, wb @ fin)" "map_option exitAs e = pa_exit a"
    using takeExit_append [OF xb, of fromHex "wb @ fin"] ok(9) assms(2) by (auto simp: valuesOk_def)
  obtain wt q where wt: "wb = byte_of (if pa_want a = None then 0 else 1) # wt"
      "takeWant (if pa_want a = None then 0 else 1) (wt @ fin) = Some (q, fin)" "map_option wantAs q = wantSeen w"
    using takeWant_append [OF w] unfolding wantSeen_def by blast
  have lens: "length (pa_nullifiers a) < 256" "length (pa_outputs a) < 256" "length (pa_nullifiers a) \<noteq> 0" "T_BTC_SPEND < 256"
    using ok(5-7) by (simp_all add: pool_consts)
  define E where "E = body @ fin"
  have E: "takeByte E = Some (T_BTC_SPEND, pa_asset a @ le_bytes 4 (pa_hAnchor a) @ bb @ byte_of (length (pa_nullifiers a)) # concat (pa_nullifiers a)
        @ byte_of (length (pa_outputs a)) # nb @ xb @ wb @ fin)"
    using lens(4) by (simp add: E_def body)
  have tk: "take (length E - length fin) E = body" by (simp add: E_def)
  have "parseSpend_wallet fromHex full E = Some \<lparr>sp_asset = pa_asset a, sp_hAnchor = pa_hAnchor a, sp_bind = bindOf bb,
      sp_nullifiers = pa_nullifiers a, sp_outputs = pa_outputs a, sp_exit = e, sp_want = q, sp_body = body, sp_proof = pf\<rparr>"
    unfolding parseSpend_wallet_def E using ok lens bnd xt(1,2) wt(1,2) assms(3)
    by (auto simp: tk readNullifiers_append [OF ok(3) vals(1)] concatParts_notes [OF nb vals(2)] le_val_le_bytes isU32_def
        BIND_LEN_def Let_def split: if_splits)
  then show ?thesis using w(1) bnd xt(3) wt(3) by (simp add: paramsOf_def E_def)
qed

text \<open>The envelope the wallet assembles is read by the replay as the parameters it was made from.\<close>

lemma envelope_read:
  assumes hex: "\<And>b. bytesToBig (drop 1 b) \<ge> P_FIELD \<Longrightarrow> fromHex b = None"
    and enc: "encodeSpendBody sha256 a = Inr body" "valuesOk fromHex a" and pf: "length pf \<le> PROOF_MAX"
  shows "\<exists>out x w. assembleSpendEnvelope fromHex body pf = Inr out \<and> parseSpend fromHex out = Some x \<and> normalizeWant sha256 (pa_want a) = Inr w
    \<and> paramsOf x = a\<lparr>pa_want := wantSeen w\<rparr> \<and> sp_body x = body \<and> sp_proof x = pf"
proof -
  have "takeProof True (le_bytes 2 (int (length pf)) @ pf) = Some (pf, [])"
    using pf takeData_append [of "length pf" pf "[]"] by (simp add: takeProof_def le_val_le_bytes pool_consts)
  from spend_body_read [OF enc this] obtain x w where
    x: "parseSpend_wallet fromHex True (body @ le_bytes 2 (int (length pf)) @ pf) = Some x" "normalizeWant sha256 (pa_want a) = Inr w"
      "paramsOf x = a\<lparr>pa_want := wantSeen w\<rparr>" "sp_body x = body" "sp_proof x = pf" by blast
  moreover have "parseSpend fromHex (body @ le_bytes 2 (int (length pf)) @ pf) = Some x"
    using x(1) spend_wallet_distinct [of fromHex "body @ le_bytes 2 (int (length pf)) @ pf"] hex by (auto split: option.splits if_splits)
  ultimately show ?thesis using pf by (simp add: assembleSpendEnvelope_def)
qed

end
