(* ===== verification/Examples_Pool.thy ===== *)
theory Examples_Pool
  imports Pool_Service Pool_Encode
begin

text \<open>
  Concrete inputs for the witnesses about the shielded pool: an environment whose hashes add numbers and whose verifiers
  accept, a replay of two blocks with one spend, the service that holds it, and a small chain of blocks.
\<close>

definition toyH2 :: hash2 where "toyH2 a b = (a + b) mod P_FR"

definition toySha :: "bytes \<Rightarrow> bytes" where "toySha x = zeros 32"

lemma toyH2_field: "fieldHash toyH2"
  by (simp add: fieldHash_def toyH2_def P_FR_def)

lemma toySha_length: "length (toySha x) = 32"
  by (simp add: toySha_def zeros_def)

definition toyCurve :: "int curve" where
  "toyCurve = \<lparr>cv_fromHex = (\<lambda>b. Some (bytesToBig b)), cv_fromAffine = (\<lambda>x y. Some x), cv_zero = 0, cv_base = 1, cv_add = (+),
     cv_negate = uminus, cv_multiply = (*), cv_affine = (\<lambda>p. (p, 0)), cv_order = 97\<rparr>"

definition toyEnv :: "int poolEnvir" where
  "toyEnv = \<lparr>pv_curve = toyCurve, pv_H2 = toyH2, pv_sha256 = toySha, pv_unpackPoint = (\<lambda>_. Some (1, 1)), pv_verifyXCurve = (\<lambda>_ _ _. True),
     pv_bppRangeVerify = (\<lambda>_ _. True), pv_verifyProof = Some (\<lambda>_ _. Inr True), pv_verifyAggregate = None, pv_vkDigest = []\<rparr>"

lemma toyEnv_simps [simp]: "pv_H2 toyEnv = toyH2" "pv_sha256 toyEnv = toySha" "pv_verifyProof toyEnv = Some (\<lambda>_ _. Inr True)"
  by (simp_all add: toyEnv_def)

subsection \<open>Two blocks, one spend\<close>

definition exNote :: poolOutput where
  "exNote = \<lparr>po_leaf = zeros 31 @ [5], po_pkEph = zeros 33, po_ctNote = []\<rparr>"

definition exNf :: bytes where "exNf = zeros 31 @ [7]"

definition exSpend :: spendEnv where
  "exSpend = \<lparr>sp_asset = zeros 32, sp_hAnchor = 1, sp_bind = None, sp_nullifiers = [exNf], sp_outputs = [exNote], sp_exit = None,
     sp_want = None, sp_body = [1], sp_proof = [1]\<rparr>"

definition exCarrier :: carrier where
  "exCarrier = \<lparr>cr_txid = zeros 32, cr_inputs = [], cr_outputs = [], cr_vin0TacitOp = False\<rparr>"

definition exOpen1 :: poolSt where "exOpen1 = projr (beginBlock newPool 1)"
definition exClosed1 :: poolSt where "exClosed1 = fst (projr (endBlock toyH2 exOpen1))"
definition exOpen2 :: poolSt where "exOpen2 = projr (beginBlock exClosed1 2)"
definition exSpent :: poolSt where "exSpent = snd (acceptSpend toyEnv exCarrier None exOpen2 exSpend)"
definition exClosed2 :: poolSt where "exClosed2 = fst (projr (endBlock toyH2 exSpent))"

lemma ex_open1: "openOn toyH2 exOpen1 1 0 [] emptyBlock"
proof -
  have "beginBlock newPool 1 = Inr exOpen1" by (simp add: exOpen1_def beginBlock_def newPool_def)
  then obtain s' where "openOn toyH2 exOpen1 s' 0 [] emptyBlock" "1 = s' + int (length ([] :: ablock list))"
    by (rule begin_ok [OF new_refines]) blast
  then show ?thesis by simp
qed

lemma ex_closed1: "refines toyH2 exClosed1 1 1 [emptyBlock]"
proof -
  obtain st dl where run: "endBlock toyH2 exOpen1 = Inr (st, dl)" using endBlock_total [OF ex_open1] by blast
  then show ?thesis using endBlock_ok(1) [OF ex_open1 run] by (simp add: exClosed1_def)
qed

lemma ex_tip1: "bp_tip exClosed1 = Some 1" "bp_pending exClosed1 = None"
  using ex_closed1 by (auto simp: refines_def booksOf_def)

lemma ex_begin2: "beginBlock exClosed1 2 = Inr exOpen2"
  by (simp add: exOpen2_def beginBlock_def ex_tip1)

lemma ex_open2: "openOn toyH2 exOpen2 1 1 [emptyBlock] emptyBlock"
proof -
  obtain s' where "openOn toyH2 exOpen2 s' 1 [emptyBlock] emptyBlock" "2 = s' + int (length [emptyBlock])"
    by (rule begin_ok [OF ex_closed1 ex_begin2]) blast
  then show ?thesis by simp
qed

lemma ex_open2_parts: "\<exists>p. bp_pending exOpen2 = Some p \<and> pb_height p = 2" "map_of (bp_roots exOpen2) 1 = Some (rootAfter toyH2 [emptyBlock] 0)"
  "bp_nullifiers exOpen2 exNf = None" "bp_maxLeaves exOpen2 = 2 ^ 32" "treeSize (bp_tree exOpen2) = 0"
proof -
  show "\<exists>p. bp_pending exOpen2 = Some p \<and> pb_height p = 2" using ex_open2 by (auto simp: openOn_def pendingFor_def)
  show "map_of (bp_roots exOpen2) 1 = Some (rootAfter toyH2 [emptyBlock] 0)"
    using ex_open2 by (simp add: openOn_def booksOf_def rootsOf_def)
  show "bp_nullifiers exOpen2 exNf = None" "bp_maxLeaves exOpen2 = 2 ^ 32" using ex_open2 by (simp_all add: openOn_def coreOf_def MAX_LEAVES_def TREE_DEPTH_def)
  show "treeSize (bp_tree exOpen2) = 0" using openOn_size [OF ex_open2] by simp
qed

lemma ex_accepted: "acceptSpend toyEnv exCarrier None exOpen2 exSpend = (Inr Accepted, exSpent)"
proof -
  obtain p where p: "bp_pending exOpen2 = Some p" "pb_height p = 2" using ex_open2_parts(1) by blast
  have checks: "spendChecks toyEnv exCarrier None exOpen2 p exSpend = Inr None"
    using p ex_open2_parts(2-5)
    by (simp add: spendChecks_def inWindow_def ANCHOR_WINDOW_def exSpend_def exitBoundary_def proofChecks_def checkProof_def
        envelopePublics_def spendPublics_def leafFields_def)
  have field: "bytesToBig (po_leaf exNote) = 5"
    by code_simp
  have "fst (acceptSpend toyEnv exCarrier None exOpen2 exSpend) = Inr Accepted"
    using p checks field by (simp add: acceptSpend_def applySpend_def exSpend_def recordNullifier_def appendLeaf_def P_FR_def Let_def
        pushLeaf_def recordWant_def)
  then show ?thesis by (simp add: exSpent_def prod_eq_iff)
qed

lemma ex_spendOk: "spendOk exSpend"
  by (simp add: spendOk_def exSpend_def exNf_def zeros_def)

text \<open>The block of the ledger that the second block stands for.\<close>

definition exBlock2 :: ablock where
  "exBlock2 = (case bp_pending exSpent of None \<Rightarrow> emptyBlock
     | Some p \<Rightarrow> \<lparr>ab_leaves = pb_leaves p, ab_nfs = pb_nullifiers p, ab_exits = pb_exits p\<rparr>)"

definition exLedger :: "ablock list" where "exLedger = [emptyBlock, exBlock2]"

lemma ex_spent: "openOn toyH2 exSpent 1 1 [emptyBlock] exBlock2"
  "map fl_output (ab_leaves exBlock2) = [exNote]" "ab_nfs exBlock2 = [(exNf, \<lparr>nr_height = 2, nr_txid = zeros 32\<rparr>)]" "ab_exits exBlock2 = []"
proof -
  have "openOn (pv_H2 toyEnv) exOpen2 1 1 [emptyBlock] emptyBlock" using ex_open2 by simp
  then have "\<exists>b ls es. openOn toyH2 exSpent 1 1 [emptyBlock] b \<and> b = spendBlock emptyBlock 2 (cr_txid exCarrier) exSpend ls es
      \<and> map fl_output ls = sp_outputs exSpend \<and> map fst es = exitKeys (cr_txid exCarrier) exSpend"
    by (rule acceptSpend_open [OF _ ex_accepted ex_spendOk]) (simp, blast)
  then obtain b ls es where b: "openOn toyH2 exSpent 1 1 [emptyBlock] b" "b = spendBlock emptyBlock 2 (cr_txid exCarrier) exSpend ls es"
    "map fl_output ls = sp_outputs exSpend" "map fst es = exitKeys (cr_txid exCarrier) exSpend" by blast
  then obtain p where "bp_pending exSpent = Some p" "pendingFor 1 [emptyBlock] b p" by (auto simp: openOn_def)
  then have eq: "exBlock2 = b" by (simp add: exBlock2_def pendingFor_def)
  then show "openOn toyH2 exSpent 1 1 [emptyBlock] exBlock2" using b(1) by simp
  show "map fl_output (ab_leaves exBlock2) = [exNote]" "ab_nfs exBlock2 = [(exNf, \<lparr>nr_height = 2, nr_txid = zeros 32\<rparr>)]" "ab_exits exBlock2 = []"
    unfolding eq using b(2-4) by (simp_all add: spendBlock_def exSpend_def exCarrier_def exitKeys_def)
qed

lemma ex_closed2: "refines toyH2 exClosed2 1 2 exLedger"
proof -
  obtain st dl where run: "endBlock toyH2 exSpent = Inr (st, dl)" using endBlock_total [OF ex_spent(1)] by blast
  then show ?thesis using endBlock_ok(1) [OF ex_spent(1) run] by (simp add: exClosed2_def exLedger_def numeral_2_eq_2)
qed

lemma ex_rows: "length (rowsOf exLedger) = 1" "nfsOf exLedger = [(exNf, \<lparr>nr_height = 2, nr_txid = zeros 32\<rparr>)]" "exitsOf exLedger = []"
  "fl_output (rowsOf exLedger ! 0) = exNote" "fl_height (rowsOf exLedger ! 0) = 2" "fl_leafIndex (rowsOf exLedger ! 0) = 0"
proof -
  obtain l where l: "ab_leaves exBlock2 = [l]" "fl_output l = exNote" using ex_spent(2) by (auto simp: map_eq_Cons_conv)
  have ok: "ledgerOk 1 exLedger" using ex_closed2 by (auto simp: refines_def coreOf_def)
  then have "blockOk (1 + int 1) (exLedger ! 1)" by (auto simp: ledgerOk_def exLedger_def)
  then have "fl_height l = 2" using l by (simp add: blockOk_def exLedger_def)
  moreover have "fl_leafIndex l = 0" using ok l by (simp add: ledgerOk_def exLedger_def)
  ultimately show "length (rowsOf exLedger) = 1" "fl_output (rowsOf exLedger ! 0) = exNote" "fl_height (rowsOf exLedger ! 0) = 2"
    "fl_leafIndex (rowsOf exLedger ! 0) = 0"
    using l by (simp_all add: exLedger_def)
  show "nfsOf exLedger = [(exNf, \<lparr>nr_height = 2, nr_txid = zeros 32\<rparr>)]" "exitsOf exLedger = []"
    using ex_spent(3,4) by (simp_all add: exLedger_def)
qed

subsection \<open>The service that holds them\<close>

definition exHashes :: "bytes list" where "exHashes = [zeros 32, zeros 31 @ [1]]"

definition exStore :: poolStore where
  "exStore = \<lparr>so_blocks = map (blockRow toyH2 1 exLedger exHashes) [0..<2], so_leaves = rowsOf exLedger, so_nullifiers = nfsOf exLedger,
     so_exits = exitsOf exLedger, so_envelopes = []\<rparr>"

definition exIndexer :: indexer where
  "exIndexer = \<lparr>ix_state = exClosed2, ix_store = exStore, ix_headers = Map.empty, ix_anchored = None, ix_chainTip = Some 2, ix_ahead = Map.empty,
     ix_aheadTip = None, ix_halted = None\<rparr>"

lemma ex_indexed: "indexed toyH2 exIndexer 1 2 exLedger exHashes"
  using ex_closed2 by (simp add: indexed_def exIndexer_def storeOf_def exStore_def exHashes_def exLedger_def numeral_2_eq_2)

lemma ex_retained: "map_of (bp_roots (ix_state exIndexer)) 2 = Some (rootAfter toyH2 exLedger 1)"
  using ex_closed2 by (simp add: refines_def booksOf_def rootsOf_def exIndexer_def exLedger_def)

definition exHeld :: heldNote where "exHeld = \<lparr>hn_leafIndex = 0, hn_leaf = po_leaf exNote, hn_height = 2\<rparr>"

subsection \<open>A chain of one block\<close>

definition exCoinbase :: walletTx where
  "exCoinbase = \<lparr>wt_version = 1, wt_inputs = [\<lparr>ti_txid = zeros 32, ti_vout = 0xffffffff, ti_scriptSig = [], ti_sequence = 0, ti_witness = []\<rparr>],
     wt_outputs = [], wt_locktime = 0\<rparr>"

definition exHeader :: bytes where
  "exHeader = zeros 72 @ le_bytes 4 0x207fffff @ zeros 4"

definition exRaw :: bytes where "exRaw = exHeader @ wVarint 1 @ serializeTx exCoinbase True"

definition exHash :: bytes where "exHash = zeros 32"

definition exSource :: blockSource where
  "exSource = \<lparr>es_tipHeight = Inr 1, es_blockHash = (\<lambda>h. if h = 1 then Inr exHash else Inl (Err ''height'')),
     es_rawBlock = (\<lambda>h. Inr exRaw), es_header = (\<lambda>h. Inr exHeader)\<rparr>"

definition exParams :: chainParams where "exParams = \<lparr>cp_powLimitBits = 0x207fffff, cp_checkpoint = None\<rparr>"

definition exSync :: "int \<Rightarrow> syncEnv" where
  "exSync confirmations = \<lparr>sy_sha256 = toySha, sy_source = exSource, sy_params = exParams, sy_startHeight = 1, sy_confirmations = confirmations, sy_disk = True,
     sy_transparent = (\<lambda>_ _ _. Inr None), sy_trackAhead = Some (spendsOfTx toySha (cv_fromHex toyCurve)), sy_aheadDepth = 12\<rparr>"

definition exStart :: indexer where
  "exStart = \<lparr>ix_state = newPool, ix_store = emptyStore, ix_headers = Map.empty, ix_anchored = None, ix_chainTip = None, ix_ahead = Map.empty,
     ix_aheadTip = None, ix_halted = None\<rparr>"

lemma ex_header: "length exHeader = 80" "slice exHeader 36 68 = zeros 32" "nat (le_val (slice exHeader 72 76)) = 0x207fffff"
  by (simp_all add: exHeader_def zeros_def slice_def le_val_le_bytes)

lemma ex_parse: "\<exists>b. parseBlock toySha exRaw (Some exHash) = Some b \<and> length (rb_txs b) = 1 \<and> hd_bits (rb_header b) = 0x207fffff
    \<and> hd_hash (rb_header b) = exHash"
proof -
  have "txOk exCoinbase" by (simp add: txOk_def exCoinbase_def inputOk_def zeros_def)
  from parse_serialize [OF this, of toySha "[]"]
  have tx: "parseTx toySha (serializeTx exCoinbase True) = Some (parsedTx toySha exCoinbase, [])" by simp
  have cb: "rt_vin (parsedTx toySha exCoinbase) = [(zeros 32, 0xffffffff)]" "rt_vout (parsedTx toySha exCoinbase) = []"
    "rt_wtxid (parsedTx toySha exCoinbase) = None" "rev (rt_txid (parsedTx toySha exCoinbase)) = zeros 32"
    by (simp_all add: parsedTx_def exCoinbase_def walletTxid_def hash256_def toySha_def)
  have parts: "take 80 exRaw = exHeader" "drop 80 exRaw = wVarint 1 @ serializeTx exCoinbase True" "\<not> length exRaw < 81"
    using ex_header(1) by (simp_all add: exRaw_def wVarint_def)
  have head: "parseHeader toySha exHeader = Some \<lparr>hd_hash = exHash, hd_prevHash = rev (slice exHeader 4 36), hd_time = le_val (slice exHeader 68 72),
      hd_bits = 0x207fffff\<rparr>"
    using ex_header by (simp add: parseHeader_def hash256_def toySha_def exHash_def zeros_def)
  show ?thesis
    using tx cb ex_header(2) by (simp add: parseBlock_def parts head isCoinbase_def merkleRoot.simps checkWitnessCommitment_def lastCommitment_def)
qed

lemma ex_service: "poolService toyEnv toySha 0x207fffff 1 exStart"
proof -
  have "createIndexer toyH2 emptyStore \<lparr>sm_network = None, sm_startHeight = None\<rparr> ''signet'' 1 (Some exParams) =
      Some (Inr exStart, \<lparr>sm_network = Some ''signet'', sm_startHeight = Some 1\<rparr>)"
    by (simp add: createIndexer_def exParams_def storeSnapshot_def storeTip_def emptyStore_def restorePool_def exStart_def)
  then show ?thesis by (intro poolService.start) simp
qed

lemma ex_sync_settings: "sy_sha256 (exSync c) = toySha" "cp_powLimitBits (sy_params (exSync c)) = 0x207fffff" "sy_startHeight (exSync c) = 1"
  by (simp_all add: exSync_def exParams_def)

lemma ex_start_size: "treeSize (bp_tree (ix_state exStart)) = 0"
  by (simp add: exStart_def newPool_def newTree_def treeSize_def TREE_DEPTH_def)

definition exEmptyBlock :: poolBlock where
  "exEmptyBlock = \<lparr>bk_header = \<lparr>hd_hash = zeros 31 @ [2], hd_prevHash = zeros 31 @ [1], hd_time = 0, hd_bits = 0x207fffff\<rparr>, bk_txs = []\<rparr>"

lemma ex_process: "\<exists>ix'. processBlock toyEnv (\<lambda>_ _ _. Inr None) True exIndexer 3 exEmptyBlock = (Inr (), ix')"
proof -
  have tip: "bp_tip exClosed2 = Some 2" "bp_pending exClosed2 = None" using ex_closed2 by (auto simp: refines_def booksOf_def exLedger_def)
  then obtain st where st: "beginBlock exClosed2 3 = Inr st" by (simp add: beginBlock_def)
  then have "\<exists>s'. openOn toyH2 st s' 2 exLedger emptyBlock \<and> 3 = s' + int (length exLedger)" by (rule begin_ok [OF ex_closed2]) blast
  then have o3: "openOn toyH2 st 1 2 exLedger emptyBlock" by (auto simp: exLedger_def)
  then obtain st' dl where fin: "endBlock toyH2 st = Inr (st', dl)" using endBlock_total by blast
  note dl = endBlock_ok(2-6) [OF o3 fin]
  have "commitBlock True exStore dl (zeros 31 @ [2]) [] \<noteq> Inl e" for e
    using dl by (simp add: commitBlock_def insertRow_def exStore_def blockRow_def exLedger_def numeral_2_eq_2)
  then obtain so where "commitBlock True exStore dl (zeros 31 @ [2]) [] = Inr so" by (metis sum.exhaust)
  then show ?thesis using st fin by (simp add: processBlock_def exIndexer_def exEmptyBlock_def)
qed

lemma ex_ahead: "\<exists>ix'. syncOnce toyEnv (exSync 2) None exStart = Some (Inr 0, ix') \<and> aheadComplete (exSync 2) ix' \<and> ix_chainTip ix' = Some 1 \<and> nextHeight (exSync 2) ix' = 1"
proof -
  obtain b where b: "parseBlock toySha exRaw (Some exHash) = Some b" using ex_parse by blast
  then show ?thesis
    by (simp add: syncOnce_def exSync_def exSource_def checkReorg_def exStart_def newPool_def nextHeight_def syncAhead_def aheadComplete_def Let_def)
qed

subsection \<open>The wallet of that service\<close>

lemma ex_held: "\<forall>n\<in>set [exHeld]. hn_leafIndex n < length (rowsOf exLedger) \<and> hn_height n = fl_height (rowsOf exLedger ! hn_leafIndex n)
    \<and> hn_leaf n = po_leaf (fl_output (rowsOf exLedger ! hn_leafIndex n)) \<and> hn_height n \<le> 2"
  using ex_rows by (simp add: exHeld_def)

lemma ex_anchor: "\<exists>a. anchorAndPaths toyH2 (servedApi toyH2 exIndexer) None [exHeld] (Some 2) False = Inr (Anchored a)"
proof -
  have "length (rowsOf exLedger) \<le> 10000000" "ix_halted exIndexer = None" "retainedAt exIndexer 2"
    using ex_rows(1) ex_retained by (simp_all add: exIndexer_def retainedAt_def)
  then show ?thesis by (rule_tac anchor_live [OF ex_indexed _ _ _ _ ex_held, of None]) auto
qed

lemma ex_leafLengths: "leafLengths (servedApi toyH2 exIndexer) None"
proof -
  obtain l where l: "rowsOf exLedger = [l]" "fl_output l = exNote" using ex_rows(1,4) by (auto simp: length_Suc_conv)
  have sub: "set (storeNotes so i k) \<subseteq> set (so_leaves so)" for so i k
    by (auto simp: storeNotes_def dest!: in_set_takeD)
  have "l' = l" if "serveNotes exIndexer i k = Reply r" "l' \<in> set (no_notes r)" for i k r l'
    using that subsetD [OF sub, of l' "ix_store exIndexer"] l by (auto simp: serveNotes_def exIndexer_def exStore_def Let_def)
  then show ?thesis using l by (fastforce simp: leafLengths_def servedApi_def notesApi_def exNote_def zeros_def split: reply.splits)
qed

lemma ex_nullifiers: "bp_nullifiers exClosed2 = [exNf \<mapsto> \<lparr>nr_height = 2, nr_txid = zeros 32\<rparr>]"
  using ex_closed2 ex_rows(2) by (simp add: refines_def coreOf_def)

subsection \<open>A spend the wallet writes\<close>

definition toyHex :: "bytes \<Rightarrow> bytes option" where
  "toyHex b = (if bytesToBig (drop 1 b) < P_FIELD then Some b else None)"

definition exBody :: spendParams where
  "exBody = \<lparr>pa_asset = zeros 32, pa_hAnchor = 6, pa_bind = None, pa_nullifiers = [exNf],
     pa_outputs = [\<lparr>po_leaf = zeros 31 @ [5], po_pkEph = 2 # zeros 31 @ [1], po_ctNote = zeros 24\<rparr>], pa_exit = None,
     pa_want = Some \<lparr>wp_vout = 1, wp_value = 500, wp_spkHash = Some (zeros 32), wp_scriptPubKey = None\<rparr>\<rparr>"

lemma ex_values: "valuesOk toyHex exBody"
proof -
  have "fieldOk_wallet exNf" "fieldOk_wallet (zeros 31 @ [5])" "pointFromCompressed_wallet toyHex (2 # zeros 31 @ [1]) = Some (2 # zeros 31 @ [1])"
    by code_simp+
  then show ?thesis by (simp add: valuesOk_def exBody_def noteOk_def)
qed

lemma ex_spend_body: "\<exists>body. encodeSpendBody toySha exBody = Inr body"
  by (simp add: encodeSpendBody_def exBody_def pool_consts normalizeWant_def isU32_def isU64_def exNf_def concatParts.simps bytes32_def
      bindBytes_def noteBytes_def exitBytes_def wantBytes_def)

end
