(* ===== verification/Spec2Isabelle.thy ===== *)
theory Spec2Isabelle
  imports Farm_Messages Worker_Envelope Examples_Registry Examples Examples_Pool
begin

text \<open>
  \<^bold>\<open>Tacit: wire formats, pools and ledgers of a token protocol on Bitcoin.\<close>

  The program. Tacit puts token operations on Bitcoin inside Taproot leaf scripts. A wallet (\<open>dapp/\<close>, mostly
  \<open>dapp/tacit.js\<close>) builds the envelopes and re-derives every state it shows from the chain; an indexer
  (\<open>worker/src/index.js\<close>) scans the blocks, keeps a key-value registry and answers the wallets; relays and a
  provenance checker (\<open>worker-relay/src/lib/btc-pool-chain.js\<close>, \<open>dapp/burn-deposit-bitcoin.js\<close>) read the same
  envelopes again. A shielded pool on Bitcoin has its own replay service (\<open>worker-relay/src/btc-pool-indexer.js\<close>), which
  checks the blocks of an untrusted source and keeps a tree of notes, the spent nullifiers and the exits, a wallet client
  and a relayer. Nobody on Bitcoin enforces the rules: they hold because all of these readers decode the same bytes
  to the same values and replay the same operations in the same order to the same state. That agreement, and the
  safety of the state they replay, is what this development is about.

  The theories, from the bottom:

  \<^item> \<open>Tacit_Prelude\<close>: bytes and slices as JavaScript has them, little- and big-endian numbers, results with errors,
    loops that may throw; the locales \<open>payload_codec\<close> and \<open>exact_codec\<close>, the contract of an encoder and its decoder.
    \<open>Utf8_Text\<close>: the text decoder of the platform.
  \<^item> \<open>Script_Envelope\<close>: the leaf script around a payload, its writer and its three readers.
  \<^item> \<open>Amm_Envelope\<close>, \<open>Farm_Envelope\<close>, \<open>Farm_Messages\<close>, \<open>Swap_Envelope\<close>, \<open>Swap_Messages\<close>: the payloads of the
    automated market maker and of its farms, and the messages that are signed (\<open>dapp/amm-envelope.js\<close>,
    \<open>dapp/tacit.js\<close>). \<open>Worker_Envelope\<close>: the decoders of the indexer for the same payloads.
  \<^item> \<open>Amm_Asset\<close>, \<open>Amm_Math\<close>, \<open>Amm_Replay\<close>, \<open>Amm_Live\<close>: identifiers of pools, the integer arithmetic, and the
    replay that derives a pool's reserves from the chain (\<open>dapp/amm-asset.js\<close>, \<open>dapp/amm-min-liq.js\<close>,
    \<open>dapp/amm-replay.js\<close>).
  \<^item> \<open>Token_Transfer\<close>, \<open>Token_Etch\<close>, \<open>Token_Drop\<close>, \<open>Token_Readers\<close>: transfers, settlements, issuance, fair-launch
    deployments and mints, drops and claims, for the wallet, the indexer and the provenance checker.
  \<^item> \<open>Kv_Keys\<close>, \<open>Registry_Scan\<close>, \<open>Fair_Mint\<close>: the indexer's ledger of tokens: its keys, the block scan that writes it
    transaction by transaction and write by write, and the readers that decide who is credited within a cap.
  \<^item> \<open>Btc_Tx\<close>, \<open>Btc_Block\<close>: the wallet's writer of transactions (\<open>serializeTx\<close>) and the replay's reader, blocks with
    their Merkle tree, witness commitment, proof of work and retargets (\<open>worker-relay/src/lib/btc-pool-chain.js\<close>).
  \<^item> \<open>Pool_Tree\<close>, \<open>Pool_Envelope\<close>, \<open>Pool_Encode\<close>, \<open>Pool_State\<close>: the shielded pool's note tree, its envelopes as the
    replay and the wallet read and write them, and the block-by-block state with its undo records
    (\<open>worker/src/btc-shielded-pool.js\<close>, \<open>dapp/btc-shielded-pool.js\<close>, \<open>dapp/btc-pool-zk.js\<close>,
    \<open>dapp/btc-pool-zk-boundary.js\<close>).
  \<^item> \<open>Pool_Ledger\<close>, \<open>Pool_Restore\<close>: the specification of that state, a ledger of blocks of notes, nullifiers and exits,
    and that every operation, rollback and restart implements it (\<open>refines\<close>, \<open>openOn\<close>).
  \<^item> \<open>Pool_Index\<close>, \<open>Pool_Sync\<close>, \<open>Pool_Serve\<close>, \<open>Pool_Service\<close>: the replay service: its tables
    (\<open>worker-relay/src/lib/btc-pool-store.js\<close>), a block, a pass with reorganisations and header checks, its requests, and
    the step relation \<open>poolService\<close> of starts, passes and restarts.
  \<^item> \<open>Pool_Client\<close>, \<open>Pool_Relay\<close>: the wallet's client (\<open>dapp/btc-pool-client.js\<close>) over the locale \<open>pool_service\<close>, which
    is interpreted on the service, and the relayer's view of chain and mempool
    (\<open>worker-relay/src/lib/btc-pool-relayer.js\<close>).
  \<^item> \<open>Examples\<close>, \<open>Examples_Token\<close>, \<open>Examples_Registry\<close>, \<open>Examples_Pool\<close>: the concrete inputs of the witnesses.

  How code becomes definitions. A function of the source is a function of the same name (a suffix \<open>_worker\<close> or
  \<open>_relay\<close> marks the copies, \<open>_wallet\<close> the wallet's). Byte arrays are lists of 8-bit words; numbers are \<open>int\<close> where the code uses \<open>BigInt\<close> or
  checks the range, with 32-bit wrap-around written out where the code relies on it. A decoder returns an option,
  \<open>None\<close> for the \<open>null\<close> of the code; an encoder or a replay step that throws returns a sum, \<open>Inl\<close> for the error.
  Hexadecimal and decimal spellings of bytes and numbers are dropped except where they are part of a store key. The
  registry is a record with one map per key prefix; a branch of the scan is the list of the writes it makes, so that
  dying in the middle is a prefix of that list. Hash functions, curve operations, proof verifiers, the chain API and
  the store listing are parameters.

  What the lemmas show. For every payload, that the decoder inverts the encoder (\<open>roundtrip\<close>), which inputs an encoder
  refuses, and that the other readers see exactly the fields they need of the same value (\<open>equivalence\<close>); where two
  readers differ, on which inputs. For the pools, that the derived state is safe whatever the index and the chain API
  answer, does not depend on the listing, and never loses value per share. For the ledger, invariants of every registry
  that a scan can reach, with any order of blocks, repetitions and crashes, and the exact set of credited mints and
  claims. For the shielded pool, that state and tables are those of one ledger through passes, failures,
  reorganisations and restarts, that no nullifier is spent twice, and that the wallet gets anchors and paths that check.
  Theorems without a claim number stand beside the claims they support or complete.

  Bounds and loops. Loops over arrays are structural recursions. The integer square root is a terminating function
  without fuel. The page loops of the store readers run for as many pages as the code allows (300, 64, 60, 30), and the
  theorems say what holds when the code reports a scan as complete; the wallet's page loops run 10000 times. The binary
  searches of the shielded pool are partial functions, since \<open>(lo + hi) >> 1\<close> overflows beyond \<open>2 ^ 30\<close> notes, and are
  proved to end below; a rollback reaches 288 blocks back and a spend's anchor 144, as in the code.

  Not modelled. The user interface of the wallet; HTTP routing, caching and alerting of the indexer; the Solidity
  contracts and the Rust guests (other languages); zero-knowledge and range proofs, signatures and curve arithmetic
  (vendored libraries, parameters here); the confidential Ethereum pool and the bridges. Of the shielded pool: the
  wallet's keys, note encryption and proving, the relayer's batching, fees and storage, the transparent validator of
  shield inputs (a parameter), the text of HTTP requests and logs, and the reason texts of a halt. The scan's
  holder counters are modelled without the exceptions that the code swallows around them.
\<close>

subsection \<open>Pools derived from the chain\<close>

text \<open>
  C1. Whatever the index lists and whatever the chain API answers, a pool state the wallet derives has
  positive reserves on both sides and at least the locked minimum liquidity outstanding.
\<close>

theorem derive_live_safe:
  assumes "deriveAmmPoolStateLive sha256 onCurve ps getTx blockIds tip conf pid listed = Inr s"
  shows "0 < ds_reserveA s \<and> 0 < ds_reserveB s \<and> AMM_MIN_LIQUIDITY_DAPP \<le> ds_totalShares s"
  using assms by (rule derive_live_ops) (rule replay_good_state)

theorem derive_live_safe_witness:
  "\<exists>script s. deriveAmmPoolStateLive (\<lambda>_. zeros 32) (\<lambda>_. True) exSettings
      (\<lambda>_. Some \<lparr>tx_confirmed = True, tx_blockHeight = Some 100, tx_blockHash = Some ''b'',
         tx_witness = Some [[], script, []]\<rparr>) (\<lambda>_. Some [''t'']) 105 3 (zeros 32)
      [\<lparr>it_txid = ''t'', it_txIndex = Some 4\<rparr>] = Inr s \<and>
    0 < ds_reserveA s \<and> 0 < ds_reserveB s \<and> AMM_MIN_LIQUIDITY_DAPP \<le> ds_totalShares s"
proof -
  obtain script where "deriveAmmPoolStateLive (\<lambda>_. zeros 32) (\<lambda>_. True) exSettings (exChain script)
      (\<lambda>_. Some [''t'']) 105 3 (zeros 32) [\<lparr>it_txid = ''t'', it_txIndex = Some 4\<rparr>] = Inr exDerived"
    using ex_live by blast
  from this derive_live_safe [OF this] show ?thesis unfolding exChain_def by blast
qed

text \<open>
  C2. The order in which the index lists the operations, repetitions in the list and the block positions it claims
  have no influence on the derived state: two lists with the same transaction ids give the same result,
  provided the chain API reports one block hash per height for the listed transactions.
\<close>

theorem derive_ignores_listing:
  assumes "set (map it_txid listed) = set (map it_txid listed')"
    and "\<And>t u. t \<in> set (map it_txid listed) \<Longrightarrow> u \<in> set (map it_txid listed) \<Longrightarrow> heightOf (liveEnv sha256 onCurve ps getTx blockIds tip conf) t
        = heightOf (liveEnv sha256 onCurve ps getTx blockIds tip conf) u \<Longrightarrow>
      tx_blockHash (txOf (liveEnv sha256 onCurve ps getTx blockIds tip conf) t)
        = tx_blockHash (txOf (liveEnv sha256 onCurve ps getTx blockIds tip conf) u)"
    and "deriveAmmPoolStateLive sha256 onCurve ps getTx blockIds tip conf pid listed = Inr s"
  shows "deriveAmmPoolStateLive sha256 onCurve ps getTx blockIds tip conf pid listed' = Inr s"
  using assms(3) derive_order [OF _ assms(1) assms(2)] unfolding deriveAmmPoolStateLive_def
  by (simp add: liveEnv_def)

theorem derive_ignores_listing_witness:
  "\<exists>s1 s2. deriveAmmPoolStateLive (\<lambda>_. zeros 32) (\<lambda>_. True) exSettings (exChain2 s1 s2)
      (\<lambda>_. Some [''t'', ''u'']) 105 3 (zeros 32)
      [\<lparr>it_txid = ''u'', it_txIndex = Some 1\<rparr>, \<lparr>it_txid = ''t'', it_txIndex = Some 2\<rparr>,
       \<lparr>it_txid = ''u'', it_txIndex = None\<rparr>] = Inr exDerived"
proof -
  obtain s1 s2 where e: "deriveAmmPoolStateLive (\<lambda>_. zeros 32) (\<lambda>_. True) exSettings (exChain2 s1 s2)
      (\<lambda>_. Some [''t'', ''u'']) 105 3 (zeros 32)
      [\<lparr>it_txid = ''t'', it_txIndex = Some 4\<rparr>, \<lparr>it_txid = ''u'', it_txIndex = Some 5\<rparr>] = Inr exDerived"
    using ex_live2 by blast
  show ?thesis
    by (intro exI, rule derive_ignores_listing [OF _ _ e])
      (auto simp: txOf_def liveEnv_def exChain2_def)
qed

text \<open>
  C3. With the protocol fee off, no sequence of swaps, routes, liquidity additions and removals lowers what a share
  stands for: the product of the reserves divided by the square of the outstanding shares never falls.
\<close>

theorem share_value_never_falls:
  assumes "foldRes (replayStep (liveDeps bps False)) freshPool (p # before) = Inr st"
    and "foldRes (replayStep (liveDeps bps False)) st after = Inr st'"
    and "list_all feeOk (p # before @ after)"
  shows "reserveA st * reserveB st * (totalShares st')\<^sup>2 \<le> reserveA st' * reserveB st' * (totalShares st)\<^sup>2"
proof -
  have i: "initialized st" by (rule replay_initialized [OF assms(1)])
  have "poolInv (liveDeps bps False) freshPool" by (simp add: poolInv_def freshPool_def)
  then have "poolInv (liveDeps bps False) st" by (rule live.replay_inv [OF assms(1)]) (use assms(3) in simp)
  then have "keepsValue st st'"
    by (rule live.replay_value [OF assms(2) _ i]) (use assms(3) in \<open>simp_all add: protoFeeOn_def liveDeps_def\<close>)
  with i show ?thesis by (simp add: keepsValue_def)
qed

theorem share_value_never_falls_witness:
  "\<exists>st st'. foldRes (replayStep (liveDeps 0 False)) freshPool [PoolInit 2000 2000 None 30] = Inr st \<and>
    foldRes (replayStep (liveDeps 0 False)) st [SwapVar 0 100 None, LpAdd 210 190 None] = Inr st' \<and>
    totalShares st < totalShares st' \<and>
    reserveA st * reserveB st * (totalShares st')\<^sup>2 \<le> reserveA st' * reserveB st' * (totalShares st)\<^sup>2"
proof -
  have 1: "foldRes (replayStep (liveDeps 0 False)) freshPool [PoolInit 2000 2000 None 30] = Inr (exPool 2000 2000 2000 4000000)"
    by (simp add: ex_step_simps)
  have 2: "foldRes (replayStep (liveDeps 0 False)) (exPool 2000 2000 2000 4000000) [SwapVar 0 100 None, LpAdd 210 190 None]
      = Inr (exPool 2310 2096 2199 4841760)"
    by (simp add: ex_step_simps)
  have "list_all feeOk (PoolInit 2000 2000 None 30 # [] @ [SwapVar 0 100 None, LpAdd 210 190 None])" by simp
  from share_value_never_falls [OF 1 2 this] 1 2 show ?thesis by (auto simp: exPool_def)
qed

text \<open>
  C4. The lazily minted protocol shares take at most \<open>bps\<close> ten-thousandths of the growth of the root of \<open>k\<close>: the old
  shares keep a claim on the old root and on the rest of the growth. The computation always returns.
\<close>

theorem protocol_fee_cut:
  assumes "0 \<le> kPre" "kPre \<le> kNow" "0 \<le> S" "0 \<le> bps" "bps < 10000"
  shows "\<exists>p rootPre rootNow. computeProtocolShares S kPre kNow bps = Inr p \<and> isqrtBig kPre = Inr rootPre \<and>
    isqrtBig kNow = Inr rootNow \<and> 0 \<le> p \<and>
    (S + p) * (10000 * rootPre + (10000 - bps) * (rootNow - rootPre)) \<le> S * (10000 * rootNow)"
proof -
  obtain p a b where p: "computeProtocolShares S kPre kNow bps = Inr p" and a: "isqrtBig kPre = Inr a"
    and b: "isqrtBig kNow = Inr b"
    using computeProtocolShares_total [OF assms(1)] isqrtBig_total [of kPre] isqrtBig_total [of kNow] assms by fastforce
  show ?thesis
    using p a b computeProtocolShares_nonneg [OF p assms(3,5,1)]
      computeProtocolShares_cut [OF p assms(3,5) a b assms(2,4)] by blast
qed

theorem protocol_fee_cut_witness:
  "\<exists>p rootPre rootNow. computeProtocolShares 2000 4000000 4840000 1000 = Inr p \<and> isqrtBig 4000000 = Inr rootPre \<and>
    isqrtBig 4840000 = Inr rootNow \<and> 0 \<le> p \<and>
    (2000 + p) * (10000 * rootPre + (10000 - 1000) * (rootNow - rootPre)) \<le> 2000 * (10000 * rootNow)"
  using protocol_fee_cut [of 4000000 4840000 2000 1000] by simp

text \<open>
  C5. The Newton iteration ends and returns the exact integer square root, in both copies of the routine.
\<close>

theorem isqrt_floor:
  assumes "0 \<le> n"
  shows "\<exists>r. isqrtBig n = Inr r \<and> isqrt n = Inr r \<and> 0 \<le> r \<and> r * r \<le> n \<and> n < (r + 1) * (r + 1)"
  using isqrtBig_total [OF assms] isqrtBig_spec by (auto simp: isqrt_eq)

theorem isqrt_floor_witness:
  "\<exists>r. isqrtBig 17 = Inr r \<and> isqrt 17 = Inr r \<and> 0 \<le> r \<and> r * r \<le> 17 \<and> 17 < (r + 1) * (r + 1)"
  using isqrt_floor [of 17] by simp

text \<open>
  C6. A swap in either direction keeps the product of the reserves from falling, and selling its output straight back in the
  other direction, where that swap is accepted, returns at most what was put in, whatever the two fees are.
\<close>

theorem swap_there_and_back:
  assumes "swapVarCurveDeltaOut direction ra rb din fbps = Inr r"
    "swapVarCurveDeltaOut (1 - direction) (raPost r) (rbPost r) (deltaOut r) fbps' = Inr s"
  shows "ra * rb \<le> raPost r * rbPost r \<and> raPost r * rbPost r \<le> raPost s * rbPost s \<and> deltaOut s \<le> din"
  using swapVarCurve_k [OF assms(1)] swapVarCurve_k [OF assms(2)] swap_back_no_gain [OF assms] by blast

theorem swap_there_and_back_witness:
  "let r = \<lparr>deltaOut = 94, raPost = 1906, rbPost = 2100\<rparr>; s = \<lparr>deltaOut = 98, raPost = 2000, rbPost = 2002\<rparr>
   in swapVarCurveDeltaOut 1 2000 2000 100 30 = Inr r \<and> swapVarCurveDeltaOut 0 1906 2100 94 30 = Inr s \<and>
      (2000::int) * 2000 \<le> raPost r * rbPost r \<and> raPost r * rbPost r \<le> raPost s * rbPost s \<and> deltaOut s \<le> 100"
proof -
  have 1: "swapVarCurveDeltaOut 1 2000 2000 100 30 = Inr \<lparr>deltaOut = 94, raPost = 1906, rbPost = 2100\<rparr>"
    by (simp add: swapVarCurveDeltaOut_def tdiv_def)
  have 2: "swapVarCurveDeltaOut (1 - 1) (raPost \<lparr>deltaOut = 94, raPost = 1906, rbPost = 2100\<rparr>)
      (rbPost \<lparr>deltaOut = 94, raPost = 1906, rbPost = 2100\<rparr>) (deltaOut \<lparr>deltaOut = 94, raPost = 1906, rbPost = 2100\<rparr>) 30
    = Inr \<lparr>deltaOut = 98, raPost = 2000, rbPost = 2002\<rparr>"
    by (simp add: swapVarCurveDeltaOut_def tdiv_def)
  from swap_there_and_back [OF 1 2] 1 2 show ?thesis by (simp add: Let_def)
qed

text \<open>
  C7. A swap of a positive amount on a pool with 64-bit reserves and a legal fee never throws, as long as the
  receiving reserve stays below 2^64.
\<close>

theorem swap_accepts:
  assumes "0 < ra" "0 < rb" "0 < din" "0 \<le> fbps" "fbps \<le> 1000" "ra < 2 ^ 64" "rb < 2 ^ 64"
    and "direction = 0 \<and> ra + din < 2 ^ 64 \<or> direction = 1 \<and> rb + din < 2 ^ 64"
  shows "\<exists>r. swapVarCurveDeltaOut direction ra rb din fbps = Inr r"
  using assms by (rule swapVarCurve_total)

theorem swap_accepts_witness: "\<exists>r. swapVarCurveDeltaOut 1 (2 ^ 64 - 1) 5 7 1000 = Inr r"
  by (rule swap_accepts) simp_all

text \<open>
  C8. Adding liquidity and at once removing the shares it minted returns at most what was added, on both sides.
\<close>

theorem liquidity_round_trip:
  assumes "lpAddSharesProportional da db ra rb s = Inr sh"
    "lpRemoveOutputsProportional sh (ra + da) (rb + db) (s + sh) = Inr w"
    "0 < ra" "0 < rb" "0 < s" "0 \<le> da" "0 \<le> db"
  shows "outA w \<le> da \<and> outB w \<le> db"
  using assms by (rule add_then_remove_no_gain)

theorem liquidity_round_trip_witness:
  "lpAddSharesProportional 210 190 2100 1906 2000 = Inr 199 \<and>
   lpRemoveOutputsProportional 199 (2100 + 210) (1906 + 190) (2000 + 199) = Inr \<lparr>outA = 209, outB = 189\<rparr> \<and>
   outA \<lparr>outA = 209, outB = 189\<rparr> \<le> (210::int) \<and> outB \<lparr>outA = 209, outB = 189\<rparr> \<le> (190::int)"
proof -
  have 1: "lpAddSharesProportional 210 190 2100 1906 2000 = Inr 199"
    by (simp add: lpAddSharesProportional_def tdiv_def)
  have 2: "lpRemoveOutputsProportional 199 (2100 + 210) (1906 + 190) (2000 + 199) = Inr \<lparr>outA = 209, outB = 189\<rparr>"
    by (simp add: lpRemoveOutputsProportional_def tdiv_def)
  from liquidity_round_trip [OF 1 2] 1 2 show ?thesis by simp
qed

text \<open>
  C9. The assessment shown to a pool founder and the share computation agree: the severity is \<open>reject\<close> exactly
  when the pool cannot open, and otherwise both give the founder the same shares.
\<close>

theorem founder_warning_agrees:
  assumes "0 < da" "0 < db"
  shows "\<exists>a. assessMinLiqLockFraction da db = Inr a \<and>
      ((lock_severity a = reject) = (\<exists>e. lpInitShares da db = Inl e)) \<and>
      (lock_severity a \<noteq> reject \<longrightarrow> (\<exists>s. lpInitShares da db = Inr s \<and> founder_shares s = founder_shares a))"
  using assms by (rule assess_agrees_with_init)

theorem founder_warning_agrees_witness:
  "\<exists>a. assessMinLiqLockFraction 2000 2000 = Inr a \<and>
      ((lock_severity a = reject) = (\<exists>e. lpInitShares 2000 2000 = Inl e)) \<and>
      (lock_severity a \<noteq> reject \<longrightarrow> (\<exists>s. lpInitShares 2000 2000 = Inr s \<and> founder_shares s = founder_shares a))"
  using founder_warning_agrees [of 2000 2000] by simp

subsection \<open>The shielded pool's replay service\<close>

text \<open>
  C10. However its passes end and however often it is restarted on its tables, a replay service of the shielded pool stands on a
  chain: every block it has replayed parses under its hash, meets its proof-of-work target and names the block before it,
  and the service's state and tables are those of one ledger of notes, nullifiers and exits (\<open>indexed\<close>). Each pass has its
  own block source, disk, verifiers and note validator, which answer as they like or fail but do not change within the
  pass; start height, hash functions and proof-of-work limit stay the same; passes and restarts begin with at most
  \<open>2 ^ 30\<close> notes.
\<close>

theorem pool_service_safe:
  assumes "poolService V sha256 powLimitBits s ix"
  shows "\<exists>d bs hs. indexed (pv_H2 V) ix s d bs hs \<and> chainOk sha256 powLimitBits hs"
  using service_ledger [OF assms] by blast

theorem pool_service_safe_witness:
  "poolService toyEnv toySha 0x207fffff 1 exStart
    \<and> (\<exists>d bs hs. indexed toyH2 exStart 1 d bs hs \<and> chainOk toySha 0x207fffff hs)"
  using pool_service_safe [OF ex_service] ex_service by simp

text \<open>
  C11. When the replay, with a block open on a ledger, accepts a spend (whose nullifiers have 32 bytes, as its parser sees to),
  the nullifiers are pairwise different and in no block of the ledger nor in the open one, the anchor lies at most 144
  blocks back and the proof was checked against the root that the notes of the blocks up to the anchor give; and the open
  block afterwards is the one before with the spend's nullifiers, its notes in order and its exit under its outpoint
  added.
\<close>

theorem pool_no_double_spend:
  assumes "openOn (pv_H2 V) st s d bs b" "spendOk x" "acceptSpend V cr agg st x = (Inr Accepted, st')"
  shows "distinct (sp_nullifiers x) \<and> set (sp_nullifiers x) \<inter> fst ` set (nfsOf (bs @ [b])) = {}
    \<and> s \<le> sp_hAnchor x \<and> s + int (length bs) - 144 \<le> sp_hAnchor x \<and> sp_hAnchor x < s + int (length bs)
    \<and> (\<exists>exitC. exitBoundary V x = Some exitC
         \<and> proofChecks V agg x (envelopePublics (pv_sha256 V) x (rootAfter (pv_H2 V) bs (nat (sp_hAnchor x - s))) exitC) = Inr None)
    \<and> (\<exists>ls es. openOn (pv_H2 V) st' s d bs (spendBlock b (s + int (length bs)) (cr_txid cr) x ls es)
         \<and> map fl_output ls = sp_outputs x \<and> map fst es = exitKeys (cr_txid cr) x)"
proof -
  obtain b' where b': "openOn (pv_H2 V) st' s d bs b'"
    and result: "(\<exists>ls es. b' = spendBlock b (s + int (length bs)) (cr_txid cr) x ls es \<and> map fl_output ls = sp_outputs x
      \<and> map fst es = exitKeys (cr_txid cr) x) \<and> (\<exists>p. bp_pending st = Some p \<and> spendChecks V cr agg st p x = Inr None)"
    by (rule acceptSpend_open [OF assms(1,3,2)]) blast
  then obtain p where p: "bp_pending st = Some p" "spendChecks V cr agg st p x = Inr None" by blast
  then show ?thesis using spendChecks_ledger [OF assms(1) p] b' result by blast
qed

theorem pool_no_double_spend_witness:
  "openOn toyH2 exOpen2 1 1 [emptyBlock] emptyBlock \<and> acceptSpend toyEnv exCarrier None exOpen2 exSpend = (Inr Accepted, exSpent)
    \<and> set (sp_nullifiers exSpend) \<inter> fst ` set (nfsOf [emptyBlock, emptyBlock]) = {}"
  using pool_no_double_spend [of toyEnv exOpen2 1 1 "[emptyBlock]" emptyBlock exSpend exCarrier None exSpent]
    ex_open2 ex_spendOk ex_accepted by simp

text \<open>
  C12. A reorganisation undoes exactly the blocks it removes: from a state with no block open, rolling back to a height whose
  undo records are kept gives a state of the ledger cut there, with the tree, nullifiers, exits and retained roots it
  had; beyond the records, the rollback fails and leaves the state as it is.
\<close>

theorem pool_reorg:
  assumes "refines H2 st s d bs" "k < length bs"
  shows "if length bs - k \<le> d
    then \<exists>st'. rollbackFrom H2 st (s + int k) = (Inr (), st') \<and> refines H2 st' s (d - (length bs - k)) (take k bs)
    else rollbackFrom H2 st (s + int k) = (Inl (Err ''ReorgTooDeepError''), st)"
proof (cases "length bs - k \<le> d")
  case True
  have "refines H2 st s d (take k bs @ drop k bs)" using assms(1) by simp
  from rollback_closed [OF this] show ?thesis using True assms(2) by auto
next
  case False
  then show ?thesis using assms by (auto intro!: rollback_too_deep [OF assms(1)])
qed

theorem pool_reorg_witness:
  "refines toyH2 exClosed2 1 2 exLedger
    \<and> (\<exists>st'. rollbackFrom toyH2 exClosed2 2 = (Inr (), st') \<and> refines toyH2 st' 1 1 [emptyBlock])"
  using pool_reorg [OF ex_closed2, of 1] ex_closed2 by (simp add: exLedger_def)

text \<open>
  C13. Replaying a block is all or nothing: when it returns, one block with that hash is added to ledger and tables (the first
  block sets the start height); when anything throws before the commit, nothing has changed but the report of the halt;
  when the commit itself fails, the tables are as before, the state stands on the same ledger again, and at most the
  oldest undo record is lost.
\<close>

theorem pool_block_atomic:
  assumes "indexed (pv_H2 V) ix s d bs hs" "processBlock V transparent disk ix h block = (r, ix')"
  shows "case r of
      Inr _ \<Rightarrow> \<exists>b s'. indexed (pv_H2 V) ix' s' (min 288 (Suc d)) (bs @ [b]) (hs @ [hd_hash (bk_header block)])
        \<and> h = s' + int (length bs) \<and> (bs \<noteq> [] \<longrightarrow> s' = s)
    | Inl e \<Rightarrow> ix' = ix\<lparr>ix_halted := ix_halted ix'\<rparr>
        \<or> (\<exists>s' dl rows. indexed (pv_H2 V) ix' s' (min 288 (Suc d) - 1) bs hs \<and> ix_store ix' = ix_store ix \<and> h = s' + int (length bs)
            \<and> commitBlock disk (ix_store ix) dl (hd_hash (bk_header block)) rows = Inl e)"
proof (cases r)
  case (Inl e)
  then show ?thesis using processBlock_throws [OF assms(1), of transparent disk h block e ix'] assms(2) by simp blast
next
  case (Inr u)
  then have "processBlock V transparent disk ix h block = (Inr (), ix')" using assms(2) by simp
  then have "\<exists>b s'. indexed (pv_H2 V) ix' s' (min 288 (Suc d)) (bs @ [b]) (hs @ [hd_hash (bk_header block)]) \<and> h = s' + int (length bs)
      \<and> (bs \<noteq> [] \<longrightarrow> s' = s)"
    by (rule processBlock_ok [OF assms(1)]) blast
  then show ?thesis using Inr by simp
qed

theorem pool_block_atomic_witness:
  "\<exists>ix'. processBlock toyEnv (\<lambda>_ _ _. Inr None) True exIndexer 3 exEmptyBlock = (Inr (), ix')
    \<and> (\<exists>b s'. indexed toyH2 ix' s' 3 (exLedger @ [b]) (exHashes @ [zeros 31 @ [2]]) \<and> 3 = s' + int (length exLedger) \<and> (exLedger \<noteq> [] \<longrightarrow> s' = 1))"
proof -
  obtain ix' where run: "processBlock toyEnv (\<lambda>_ _ _. Inr None) True exIndexer 3 exEmptyBlock = (Inr (), ix')" using ex_process by blast
  have ix: "indexed (pv_H2 toyEnv) exIndexer 1 2 exLedger exHashes" using ex_indexed by simp
  from pool_block_atomic [OF ix run] run show ?thesis by (auto simp: exEmptyBlock_def)
qed

text \<open>
  C14. A replay service with at least one block and at most \<open>2 ^ 30\<close> notes, restored from its tables, has the tree, note
  heights, nullifiers, exits, tip and retained roots of the one that wrote them, and the undo records of its last 288
  blocks.
\<close>

theorem pool_restart:
  assumes "indexed H2 ix s d bs hs" "length (rowsOf bs) \<le> 2 ^ 30" "bs \<noteq> []"
  shows "\<exists>st. restorePool H2 (storeSnapshot (ix_store ix)) = Some (Inr st) \<and> refines H2 st s (min 288 (length bs)) bs
    \<and> bp_tree st = bp_tree (ix_state ix) \<and> bp_leafHeights st = bp_leafHeights (ix_state ix)
    \<and> bp_nullifiers st = bp_nullifiers (ix_state ix) \<and> bp_exits st = bp_exits (ix_state ix)
    \<and> bp_tip st = bp_tip (ix_state ix) \<and> map_of (bp_roots st) = map_of (bp_roots (ix_state ix))"
proof -
  have ref: "refines H2 (ix_state ix) s d bs" and so: "storeOf H2 (ix_store ix) s bs hs" using assms(1) by (auto simp: indexed_def)
  obtain st where st: "restorePool H2 (storeSnapshot (ix_store ix)) = Some (Inr st)" "refines H2 st s (min 288 (length bs)) bs"
    by (rule restart_ok [OF so refines_ledger [OF ref] assms(2)])
  then show ?thesis using refines_same [OF st(2) ref assms(3)] by blast
qed

theorem pool_restart_witness:
  "\<exists>st. restorePool toyH2 (storeSnapshot exStore) = Some (Inr st) \<and> bp_tree st = bp_tree exClosed2 \<and> bp_nullifiers st = bp_nullifiers exClosed2"
  using pool_restart [OF ex_indexed] ex_rows(1) by (auto simp: exIndexer_def exLedger_def)

text \<open>
  C15. A pass of a replay service that holds at most \<open>2 ^ 30\<close> notes returns, with a result or an error, whatever its block
  source answers; and the binary search that counts the notes up to a height, from the start height on, ends with the
  exact number.
\<close>

theorem pool_pass_returns:
  assumes "poolService V (sy_sha256 Y) (cp_powLimitBits (sy_params Y)) (sy_startHeight Y) ix" "treeSize (bp_tree (ix_state ix)) \<le> 2 ^ 30"
  shows "(\<exists>r ix'. syncOnce V Y m ix = Some (r, ix'))
    \<and> leafCountAt (ix_state ix) (sy_startHeight Y + int k) = Some (int (length (filter (\<lambda>h. h \<le> sy_startHeight Y + int k) (bp_leafHeights (ix_state ix)))))"
proof -
  obtain d bs hs where ix: "indexed (pv_H2 V) ix (sy_startHeight Y) d bs hs" "chainOk (sy_sha256 Y) (cp_powLimitBits (sy_params Y)) hs" "1 \<le> sy_startHeight Y"
    using service_ledger [OF assms(1)] by blast
  have len: "length (rowsOf bs) \<le> 2 ^ 30" using assms(2) indexed_size [OF ix(1)] by simp
  have core: "coreOf (pv_H2 V) (ix_state ix) (sy_startHeight Y) bs" using ix(1) by (simp add: indexed_def refines_def)
  show ?thesis
    using syncOnce_ok [OF ix(1) refl _ len ix(2)] ix(3) leafCountAt_filter [OF core len] by force
qed

theorem pool_pass_returns_witness:
  "poolService toyEnv toySha 0x207fffff 1 exStart \<and> (\<exists>r ix'. syncOnce toyEnv (exSync 1) None exStart = Some (r, ix'))"
  using pool_pass_returns [of toyEnv "exSync 1" exStart None] ex_service ex_sync_settings [of 1] ex_start_size by simp

text \<open>
  C16. For every retained root and every note at or below its height, the path request of a service with at most \<open>2 ^ 30\<close>
  notes is answered with an authentication path that leads from the note to that root, so the service's own comparison of
  the two roots never fails. The tree's hash gives field elements.
\<close>

theorem pool_path_served:
  assumes "indexed H2 ix s d bs hs" "length (rowsOf bs) \<le> 2 ^ 30" "fieldHash H2" "map_of (bp_roots (ix_state ix)) h = Some R"
    "i < length (rowsOf bs)" "fl_height (rowsOf bs ! i) \<le> h"
  shows "\<exists>path. servePath H2 ix i (Some h) = Some (Reply \<lparr>pr_leafIndex = i, pr_leaf = bigTo32 (leafVals bs ! i), pr_height = bp_tip (ix_state ix),
       pr_hAnchor = Some h, pr_root = R, pr_path = path\<rparr>)
    \<and> rootFromPath H2 (bigTo32 (leafVals bs ! i)) i path = Some R"
proof -
  have h: "s \<le> h" and ok: "ledgerOk s bs"
    using assms(1,4) by (auto simp: indexed_def refines_def booksOf_def coreOf_def rootsOf_def split: if_splits)
  have "i < length (rowsOf (take (Suc (nat (h - s))) bs))"
    using height_split [OF ok assms(5), of "Suc (nat (h - s))"] assms(6) h by simp
  then show ?thesis by (rule servePath_ok [OF assms(1-4)]) blast
qed

theorem pool_path_served_witness:
  "\<exists>path. servePath toyH2 exIndexer 0 (Some 2) = Some (Reply \<lparr>pr_leafIndex = 0, pr_leaf = bigTo32 (leafVals exLedger ! 0),
       pr_height = bp_tip exClosed2, pr_hAnchor = Some 2, pr_root = rootAfter toyH2 exLedger 1, pr_path = path\<rparr>)
    \<and> rootFromPath toyH2 (bigTo32 (leafVals exLedger ! 0)) 0 path = Some (rootAfter toyH2 exLedger 1)"
  using pool_path_served [OF ex_indexed _ toyH2_field ex_retained, of 0] ex_rows(1,5) by (simp add: exIndexer_def)

text \<open>
  C17. In every replay service, as above, the tables and the state hold well-formed values and agree: blocks at consecutive
  heights from the start height, notes numbered from zero whose leaves are field elements, nullifiers of 32 bytes and no
  nullifier or exit twice, no block left open, and the leaves of the tree, the note heights, nullifiers and exits of the
  state are those of the tables.
\<close>

theorem pool_tables_typed:
  assumes "poolService V sha256 powLimitBits s ix"
  shows "tablesOk s ix"
  using service_ledger [OF assms] indexed_tables by blast

theorem pool_tables_typed_witness: "poolService toyEnv toySha 0x207fffff 1 exStart \<and> tablesOk 1 exStart"
  using pool_tables_typed [OF ex_service] ex_service by simp

subsection \<open>The wallet and the relayer of the shielded pool\<close>

text \<open>
  C18. Whatever root, status and notes the replay service answers, as long as every leaf it serves has 32 bytes: an anchor the
  wallet accepts without asking for paths by note is one whose paths check. Each leads from the wallet's own leaf to the
  root the service reports as retained for the anchor, and the anchor lies between the notes' blocks and the replayed tip.
  The wallet's note indices are below \<open>2 ^ 31\<close> and the tree's hash gives field elements.
\<close>

theorem wallet_anchor_safe:
  assumes "anchorAndPaths H2 api memo notes anchor False = Inr (Anchored a)" "fieldHash H2" "leafLengths api memo"
    "\<forall>n\<in>set notes. hn_leafIndex n < 2 ^ 31"
  shows "\<exists>root. an_root a = Some root \<and> pa_root api (an_hAnchor a) = Reply (root, True) \<and> length (an_paths a) = length notes
    \<and> (\<forall>k<length notes. rootFromPath H2 (hn_leaf (notes ! k)) (hn_leafIndex (notes ! k)) (an_paths a ! k) = Some root)
    \<and> (\<forall>n\<in>set notes. hn_height n \<le> an_hAnchor a) \<and> an_hAnchor a \<le> an_tip a \<and> pa_status api = Reply (Some (an_tip a), False)"
  by (rule anchor_safe [OF assms]) blast

theorem wallet_anchor_safe_witness:
  "\<exists>a root. anchorAndPaths toyH2 (servedApi toyH2 exIndexer) None [exHeld] (Some 2) False = Inr (Anchored a) \<and> an_root a = Some root
    \<and> rootFromPath toyH2 (hn_leaf exHeld) 0 (an_paths a ! 0) = Some root"
proof -
  obtain a where a: "anchorAndPaths toyH2 (servedApi toyH2 exIndexer) None [exHeld] (Some 2) False = Inr (Anchored a)" using ex_anchor by blast
  have "\<forall>n\<in>set [exHeld]. hn_leafIndex n < 2 ^ 31" by (simp add: exHeld_def)
  from wallet_anchor_safe [OF a toyH2_field ex_leafLengths this] a show ?thesis by (auto simp: exHeld_def)
qed

text \<open>
  C19. A wallet gets its anchor: against a replay service that is not halted and has at most ten million notes, a wallet with at
  least one note, each as the service recorded it, gets an anchor at any retained height at or above the blocks of its
  notes, whatever feed it has kept, and the root of the anchor is the one the replay checks spends at that height
  against.
\<close>

theorem wallet_anchor_live:
  assumes "indexed H2 ix s d bs hs" "0 \<le> s" "length (rowsOf bs) \<le> 10000000" "ix_halted ix = None" "notes \<noteq> []"
    "\<forall>n\<in>set notes. hn_leafIndex n < length (rowsOf bs) \<and> hn_height n = fl_height (rowsOf bs ! hn_leafIndex n)
       \<and> hn_leaf n = po_leaf (fl_output (rowsOf bs ! hn_leafIndex n)) \<and> hn_height n \<le> h"
    "map_of (bp_roots (ix_state ix)) h \<noteq> None"
  shows "\<exists>a. anchorAndPaths H2 (servedApi H2 ix) memo notes (Some h) False = Inr (Anchored a) \<and> an_hAnchor a = h
    \<and> map_of (bp_roots (ix_state ix)) h = an_root a"
  by (rule anchor_live [OF assms(1-6), of memo]) (use assms(7) in \<open>auto simp: retainedAt_def\<close>)

theorem wallet_anchor_live_witness:
  "\<exists>a. anchorAndPaths toyH2 (servedApi toyH2 exIndexer) (Some []) [exHeld] (Some 2) False = Inr (Anchored a)
    \<and> an_root a = Some (rootAfter toyH2 exLedger 1)"
proof -
  have "length (rowsOf exLedger) \<le> 10000000" "ix_halted exIndexer = None" using ex_rows(1) by (simp_all add: exIndexer_def)
  from wallet_anchor_live [OF ex_indexed _ this _ ex_held] ex_retained show ?thesis by force
qed

text \<open>
  C20. When the relayer's view of the chain is complete after a pass that returned, and every block it held before was scanned
  under its hash, then for every block between the replayed tip and the source's tip it holds the scan of a block with the
  source's hash, and every nullifier of a spend that the replay would read in that block is in the view, for transactions
  whose inputs have at most three witness items.
\<close>

theorem relay_sees_spends:
  assumes "syncOnce V Y m ix = Some (Inr k, ix')" "sy_trackAhead Y = Some (spendsOfTx keccak256 fromHex)"
    "aheadOk (sy_sha256 Y) (spendsOfTx keccak256 fromHex) ix" "aheadComplete Y ix'" "ix_chainTip ix' = Some t" "nextHeight Y ix' \<le> h" "h \<le> t"
  shows "\<exists>hash raw b seen. es_blockHash (sy_source Y) h = Inr hash \<and> parseBlock (sy_sha256 Y) raw (Some hash) = Some b
    \<and> ix_ahead ix' h = Some (hash, seen)
    \<and> (\<forall>tx\<in>set (drop 1 (rb_txs b)). (\<forall>w\<in>set (rt_witness tx). length w \<le> 3) \<longrightarrow>
         (\<forall>it\<in>set (snd (carrierPoolEnvelopes (txEnvelopes tx))). \<forall>x. parseEnvelope (cv_fromHex (pv_curve V)) (pi_payload it) = Some (Spend x) \<longrightarrow>
            set (sp_nullifiers x) \<subseteq> dom seen))"
proof -
  obtain hash raw b where b: "es_blockHash (sy_source Y) h = Inr hash" "parseBlock (sy_sha256 Y) raw (Some hash) = Some b"
      "ix_ahead ix' h = Some (hash, blockSpends (spendsOfTx keccak256 fromHex) b)"
    using ahead_scanned(2) [OF assms(1-7)] by blast
  have "set (sp_nullifiers x) \<subseteq> dom (blockSpends (spendsOfTx keccak256 fromHex) b)"
    if "tx \<in> set (drop 1 (rb_txs b))" "\<forall>w\<in>set (rt_witness tx). length w \<le> 3" "it \<in> set (snd (carrierPoolEnvelopes (txEnvelopes tx)))"
      "parseEnvelope (cv_fromHex (pv_curve V)) (pi_payload it) = Some (Spend x)" for tx it x
    unfolding blockSpends_keys using that(1) spends_seen [OF that(2-4)] by fastforce
  then show ?thesis using b by blast
qed

theorem relay_sees_spends_witness:
  "\<exists>ix' hash raw b seen. syncOnce toyEnv (exSync 2) None exStart = Some (Inr 0, ix') \<and> es_blockHash exSource 1 = Inr hash
    \<and> parseBlock toySha raw (Some hash) = Some b \<and> ix_ahead ix' 1 = Some (hash, seen)"
proof -
  obtain ix' where run: "syncOnce toyEnv (exSync 2) None exStart = Some (Inr 0, ix')" "aheadComplete (exSync 2) ix'" "ix_chainTip ix' = Some 1"
      "nextHeight (exSync 2) ix' = 1" using ex_ahead by blast
  have "sy_trackAhead (exSync 2) = Some (spendsOfTx toySha (cv_fromHex toyCurve))" "aheadOk (sy_sha256 (exSync 2)) (spendsOfTx toySha (cv_fromHex toyCurve)) exStart"
    by (simp_all add: exSync_def aheadOk_def exStart_def)
  from relay_sees_spends [OF run(1) this run(2,3), of 1] run show ?thesis by (fastforce simp: exSync_def)
qed

text \<open>
  C21. A spend the wallet encodes and assembles with a proof of at most 4096 bytes is read by the replay with exactly the asset,
  anchor, binding, nullifiers, notes, exit and demanded payment it was made from, provided nullifiers and leaves are
  nonzero field elements, the note keys and the exit's commitment are points of the curve, and the binding is not the null
  outpoint, which the wire reads as none. The point reader refuses coordinates outside the field.
\<close>

theorem wallet_spend_round_trip:
  assumes "\<And>b. bytesToBig (drop 1 b) \<ge> P_FIELD \<Longrightarrow> fromHex b = None" "encodeSpendBody sha256 a = Inr body" "valuesOk fromHex a"
    "length pf \<le> PROOF_MAX"
  shows "\<exists>out x w. assembleSpendEnvelope fromHex body pf = Inr out \<and> parseSpend fromHex out = Some x \<and> normalizeWant sha256 (pa_want a) = Inr w
    \<and> paramsOf x = a\<lparr>pa_want := wantSeen w\<rparr> \<and> sp_body x = body \<and> sp_proof x = pf"
  by (rule envelope_read) (use assms in auto)

theorem wallet_spend_round_trip_witness:
  "\<exists>body out x. encodeSpendBody toySha exBody = Inr body \<and> assembleSpendEnvelope toyHex body [1] = Inr out \<and> parseSpend toyHex out = Some x
    \<and> sp_nullifiers x = [exNf] \<and> sp_body x = body"
proof -
  obtain body where body: "encodeSpendBody toySha exBody = Inr body" using ex_spend_body by blast
  have "\<exists>out x w. assembleSpendEnvelope toyHex body [1] = Inr out \<and> parseSpend toyHex out = Some x \<and> normalizeWant toySha (pa_want exBody) = Inr w
    \<and> paramsOf x = exBody\<lparr>pa_want := wantSeen w\<rparr> \<and> sp_body x = body \<and> sp_proof x = [1]"
    by (rule wallet_spend_round_trip [OF _ body ex_values]) (auto simp: toyHex_def pool_consts)
  then obtain out x w where "assembleSpendEnvelope toyHex body [1] = Inr out" "parseSpend toyHex out = Some x" "sp_body x = body"
      "paramsOf x = exBody\<lparr>pa_want := wantSeen w\<rparr>" by blast
  moreover have "sp_nullifiers x = pa_nullifiers (paramsOf x)" by (simp add: paramsOf_def)
  then have "sp_nullifiers x = [exNf]" using calculation(4) by (simp add: exBody_def)
  ultimately show ?thesis using body by blast
qed

text \<open>
  C22. A transaction the wallet serialises is read back by the replay service, with its inputs, outputs, witnesses and the
  transaction id the wallet computes for it, and with nothing of what follows it. The transaction has an input, ids of 32
  bytes, 32-bit output indices, 64-bit values and fewer than \<open>2 ^ 53\<close> inputs, outputs, witness items and bytes in each
  script and item.
\<close>

theorem tx_round_trip:
  assumes "wt_inputs tx \<noteq> []" "list_all inputOk (wt_inputs tx)" "list_all txOutputOk (wt_outputs tx)"
    "length (wt_inputs tx) < 2 ^ 53" "length (wt_outputs tx) < 2 ^ 53"
  shows "\<exists>t. parseTx sha256 (serializeTx tx True @ rest) = Some (t, rest) \<and> rt_txid t = walletTxid sha256 tx
    \<and> rt_vin t = map (\<lambda>i. (ti_txid i, nat (ti_vout i))) (wt_inputs tx) \<and> rt_witness t = map ti_witness (wt_inputs tx)
    \<and> rt_vout t = map (\<lambda>out. (to_value out, to_script out)) (wt_outputs tx)"
proof -
  have "txOk tx" using assms by (simp add: txOk_def)
  then show ?thesis using parse_serialize by (simp add: parsedTx_def)
qed

theorem tx_round_trip_witness:
  "\<exists>t. parseTx toySha (serializeTx exCoinbase True @ [7]) = Some (t, [7]) \<and> rt_vin t = [(zeros 32, 0xffffffff)]"
  using tx_round_trip [of exCoinbase toySha "[7]"] by (auto simp: exCoinbase_def inputOk_def zeros_def)

text \<open>
  The wallet and the replay read the same shields and spends from the same bytes, except that the wallet already refuses a
  spend that names a nullifier twice, which the replay parses and then rejects.
\<close>

theorem pool_wire_agree:
  assumes "\<And>b. bytesToBig (drop 1 b) \<ge> P_FIELD \<Longrightarrow> fromHex b = None"
  shows "parseSpend_wallet fromHex True e = (case parseSpend fromHex e of None \<Rightarrow> None
      | Some x \<Rightarrow> if distinct (sp_nullifiers x) then Some x else None)
    \<and> parseShield_wallet fromHex e = parseShield fromHex e"
proof
  show "parseSpend_wallet fromHex True e = (case parseSpend fromHex e of None \<Rightarrow> None
      | Some x \<Rightarrow> if distinct (sp_nullifiers x) then Some x else None)"
    by (rule spend_wallet_distinct [OF assms])
  show "parseShield_wallet fromHex e = parseShield fromHex e" by (rule shield_wallet [OF assms])
qed

text \<open>
  Page by page the wallet reads the whole feed, of at most ten million notes, and at most fifty million nullifiers: when
  what it kept from its last read is exactly the nullifiers below the heights it reads again, the result is exactly the
  nullifiers the replay has recorded, each with its height.
\<close>

theorem wallet_reads_all:
  assumes "indexed H2 ix s d bs hs" "0 \<le> s" "length (rowsOf bs) \<le> 10000000" "length (nfsOf bs) \<le> 50000000"
    "\<forall>nf. spentKept memo nf = (case bp_nullifiers (ix_state ix) nf of None \<Rightarrow> None
       | Some rc \<Rightarrow> if nr_height rc < spentFrom memo then Some (nr_height rc) else None)"
  shows "allNotes (notesApi ix) 0 = Reply (so_leaves (ix_store ix))
    \<and> fst (spentList (Reply tip) (spentApi ix) memo) = Reply (Some (\<lambda>nf. map_option nr_height (bp_nullifiers (ix_state ix) nf)))"
proof -
  have serves: "servesFrom ix H2 (rowsOf bs) (map (\<lambda>(nf, rc). (nf, nr_height rc)) (spentOf bs))" using assms(1,2) by (auto simp: servesFrom_def)
  have eq: "map_of (map (\<lambda>(nf, rc). (nf, nr_height rc)) (spentOf bs)) = (\<lambda>nf. map_option nr_height (bp_nullifiers (ix_state ix) nf))"
    by (rule spentOf_map [OF assms(1)])
  have kept: "spentKept memo = map_of (filter (\<lambda>n. snd n < spentFrom memo) (map (\<lambda>(nf, rc). (nf, nr_height rc)) (spentOf bs)))"
    by (rule spentOf_kept [OF assms(1,5)])
  have len: "length (map (\<lambda>(nf, rc). (nf, nr_height rc)) (spentOf bs)) \<le> 50000000" using assms(4) by (simp add: spentOf_def)
  have "so_leaves (ix_store ix) = rowsOf bs" using assms(1) by (simp add: indexed_def storeOf_def)
  then show ?thesis using replay.all_notes [OF serves assms(3)] replay.spent_list [OF serves len kept] eq by simp
qed

text \<open>
  A block hash fixes the transactions: two blocks accepted under one hash whose Merkle trees have equally many levels list
  the same transaction ids, unless two of the strings hashed on the way, one of each block, are a collision of the hash.
\<close>

theorem block_hash_binds:
  assumes "\<And>x. length (sha256 x) = 32" "parseBlock sha256 d (Some h) = Some b" "parseBlock sha256 d' (Some h) = Some b'"
    "treeLevels (length (rb_txs b)) = treeLevels (length (rb_txs b'))"
  shows "map rt_txid (rb_txs b) = map rt_txid (rb_txs b')
    \<or> (\<exists>x\<in>set (blockInputs sha256 d b). \<exists>y\<in>set (blockInputs sha256 d' b'). collision (hash256 sha256) x y)"
  using parseBlock_binds [OF assms] by (simp add: collidesIn_def)

subsection \<open>Fair launches and drops\<close>

text \<open>
  C23. In every registry the block scan can reach, whatever the order of the blocks it visits, however often it repeats them
  and wherever it dies between two writes, a stored fair-launch mint belongs to a stored deployment, mints exactly its
  mint limit, confirms in its window and strictly after the block of the deployment, so that nothing is premined, and
  is stored under the key of its place. The chain has each transaction id once and no hash collision among them.
\<close>

theorem no_premine:
  assumes "oneTxid chain" "txidsHashApart e chain" "scanned e chain (kv, tk)" "rg_pmint kv k = Some m"
  shows "\<exists>pe. rg_petch kv (petchKey (se_network e) (bytesToHex (mm_asset_id m))) = Some pe \<and>
    pm_amount (mm_pmint m) = pd_mintLimit (pe_petch pe) \<and> pe_etched_at_height pe < mm_minted_at_height m \<and>
    inMintWindow pe (mm_minted_at_height m) \<and>
    k = pmintKeyFor (se_network e) (bytesToHex (mm_asset_id m)) (mm_minted_at_height m) (mm_tx_index m)
      (bytesToHex (mm_mint_txid m))"
  by (rule stored_mint [OF assms])

theorem no_premine_witness:
  "\<exists>sp sm kv tk k m pe. scanned exScan (exLaunch sp sm) (kv, tk) \<and> rg_pmint kv k = Some m \<and>
     rg_petch kv (petchKey ''signet'' (bytesToHex (mm_asset_id m))) = Some pe \<and>
     pe_etched_at_height pe < mm_minted_at_height m"
proof -
  obtain sp sm kv tk k m where s: "scanned exScan (exLaunch sp sm) (kv, tk)" "rg_pmint kv k = Some m"
    using ex_launch by blast
  from no_premine [OF exLaunch_chain s] s show ?thesis by (simp only: exScan_simps) blast
qed

text \<open>
  C24. Two stored claims on the same leaf of the same gated drop are the same transaction, in every registry the block scan
  can reach, whatever the order of the blocks it visits, however often it repeats them and wherever it dies between two
  writes. The chain has each transaction id once and no hash collision among them.
\<close>

theorem leaf_claimed_once:
  assumes "oneTxid chain" "txidsHashApart e chain" "scanned e chain (kv, tk)"
    and "rg_dclaim kv k = Some c" "rg_dclaim kv k' = Some c'" "cm_drop_id c = cm_drop_id c'"
    and "dc_witness (cm_claim c) = Some w" "dc_witness (cm_claim c') = Some w'" "cw_leafIndex w = cw_leafIndex w'"
  shows "cm_claim_txid c = cm_claim_txid c'"
  by (rule stored_claims [OF assms])

theorem leaf_claimed_once_witness:
  "\<exists>sd sc kv tk k c. scanned exScan (exDropChain sd sc) (kv, tk) \<and> rg_dclaim kv k = Some c \<and>
     dc_witness (cm_claim c) = Some exWitness \<and> cm_claim_txid c = cm_claim_txid c"
proof -
  obtain sd sc kv tk k c where s: "scanned exScan (exDropChain sd sc) (kv, tk)" "rg_dclaim kv k = Some c"
    "dc_witness (cm_claim c) = Some exWitness" using ex_claimed by blast
  have "oneTxid (exDropChain sd sc)" "txidsHashApart exScan (exDropChain sd sc)"
    using exLaunch_chain by (simp_all add: exDropChain_def)
  from leaf_claimed_once [OF this s(1,2,2) refl s(3,3) refl] s show ?thesis by blast
qed

text \<open>
  C25. The snapshot of a fair launch never credits more than the cap, whatever the store lists: the credited amount is the
  mint limit times the credited count and at most the cap, and when the scan of the store was not cut short the count
  is the number of distinct transactions three blocks deep, up to the number of mints that fit the cap.
\<close>

theorem mint_cap_holds:
  assumes "refreshPetchProgress kv sc network aid (Some tip) (Some pt) = Some snap"
    and "pc_cap_amount pt = Some cap" "pc_mint_limit pt = Some limit" "0 < limit" "0 \<le> cap"
  shows "pp_credited_amount snap = limit * int (pp_credited_count snap) \<and> pp_credited_amount snap \<le> cap \<and>
    (\<not> pp_truncated snap \<longrightarrow> pp_credited_count snap =
       min (mintSlots cap limit) (card (distinctMints kv network aid tip PETCH_REFRESH_MAX_PAGES)))"
  using refresh_snapshot [OF assms] slots_amount [OF assms(4,5)] by simp

theorem mint_cap_holds_witness:
  "\<exists>snap. refreshPetchProgress exMintKv None ''signet'' ''aa'' (Some 110) (Some exCaps) = Some snap \<and>
     pp_credited_amount snap \<le> 200 \<and>
     pp_credited_count snap = min (mintSlots 200 100) (card (distinctMints exMintKv ''signet'' ''aa'' 110 PETCH_REFRESH_MAX_PAGES))"
proof -
  obtain snap where "refreshPetchProgress exMintKv None ''signet'' ''aa'' (Some 110) (Some exCaps) = Some snap"
    "\<not> pp_truncated snap" using ex_refresh by blast
  with mint_cap_holds [OF this(1), of 200 100] show ?thesis by (simp add: exCaps_def)
qed

text \<open>
  C26. The two readers of a fair launch agree: when neither was cut short and the store holds for each key the event of its
  height and transaction, the list of annotated mints and the cap snapshot give the same count and the same amount.
\<close>

theorem mint_views_agree:
  assumes "refreshPetchProgress kv sc network aid (Some tip) (Some pt) = Some snap" "\<not> pp_truncated snap"
    and "pc_cap_amount pt = Some cap" "pc_mint_limit pt = Some limit" "0 < limit" "0 \<le> cap"
    and "\<not> lm_canonical_truncated (loadCanonicalPmints kv get network aid (Some tip) (Some cap) (Some limit))"
    and "scannerStore kv get network aid 60"
  shows "lm_credited_count (loadCanonicalPmints kv get network aid (Some tip) (Some cap) (Some limit)) = int (pp_credited_count snap) \<and>
    lm_cumulative_minted (loadCanonicalPmints kv get network aid (Some tip) (Some cap) (Some limit)) = pp_credited_amount snap"
proof -
  note load = load_count [OF assms(7,5,6,8)] and snap = refresh_snapshot [OF assms(1,3-6)]
  have pages: "(60::nat) \<le> PETCH_REFRESH_MAX_PAGES" by (simp add: PETCH_REFRESH_MAX_PAGES_def)
  have "nat (lm_credited_count (loadCanonicalPmints kv get network aid (Some tip) (Some cap) (Some limit))) = pp_credited_count snap"
    using load(1) [OF pages] snap(3) [OF assms(2) order_refl] by simp
  then have "lm_credited_count (loadCanonicalPmints kv get network aid (Some tip) (Some cap) (Some limit)) = int (pp_credited_count snap)"
    using load(3) [OF pages] by linarith
  then show ?thesis using load(2) [OF pages] snap(1) by simp
qed

theorem mint_views_agree_witness:
  "\<exists>snap. refreshPetchProgress exMintKv None ''signet'' ''aa'' (Some 110) (Some exCaps) = Some snap \<and>
     lm_credited_count (loadCanonicalPmints exMintKv exMintGet ''signet'' ''aa'' (Some 110) (Some 200) (Some 100))
       = int (pp_credited_count snap)"
proof -
  obtain snap where "refreshPetchProgress exMintKv None ''signet'' ''aa'' (Some 110) (Some exCaps) = Some snap"
    "\<not> pp_truncated snap" using ex_refresh by blast
  with mint_views_agree [OF this, of 200 100, OF _ _ _ _ ex_load ex_scanner_store] show ?thesis
    by (simp add: exCaps_def)
qed

text \<open>
  C27. The credited claims of a drop, whenever the indexer calls its answer resolvable, are the first distinct claims three
  blocks deep in the order of the listing, as many as fit the cap: stopping at the page guard or at a full cap drops
  nobody, and no claim is credited twice.
\<close>

theorem claims_credited_in_order:
  assumes "maxClaimsOf cap per = Some m"
    and "cc_resolvable (loadCreditedDclaims kv network dropId (Some tip) cap per)"
    and "DCLAIM_CREDIT_PAGE_GUARD \<le> n"
  shows "cc_credited_txids (loadCreditedDclaims kv network dropId (Some tip) cap per)
      = take (nat m) (claimsInOrder kv network dropId tip n) \<and>
    distinct (cc_credited_txids (loadCreditedDclaims kv network dropId (Some tip) cap per))"
  using credited_claims [OF assms] distinct_claimsInOrder by (metis distinct_take)

theorem claims_credited_in_order_witness:
  "cc_credited_txids (loadCreditedDclaims exClaimKv ''signet'' ''aa'' (Some 110) (Some 200) (Some 100))
     = take 2 (claimsInOrder exClaimKv ''signet'' ''aa'' 110 1000)"
  using claims_credited_in_order [OF ex_claims_resolved(2,1), of 1000] by (simp add: DCLAIM_CREDIT_PAGE_GUARD_def)

text \<open>
  C28. A drop is reclaimed once: after any number of confirmed reclaims under the depositor's key, in any order of arrival,
  the recorded one is the first by height and, within a block, by transaction id.
\<close>

theorem first_reclaim_wins:
  assumes "signedByDepositor e kv dropId pub" "rg_reclaim kv (dropReclaimKey (se_network e) (bytesToHex dropId)) = None"
    and "ms \<noteq> []"
    and "\<And>m. m \<in> set ms \<Longrightarrow> rc_reclaimDropId (rm_reclaim m) = dropId \<and> rm_reclaim_at_height m > 0"
    and "\<And>m m'. m \<in> set ms \<Longrightarrow> m' \<in> set ms \<Longrightarrow> rm_reclaim_txid m = rm_reclaim_txid m' \<Longrightarrow> m = m'"
  shows "\<exists>m\<in>set ms. rg_reclaim (reclaimAll e pub kv ms) (dropReclaimKey (se_network e) (bytesToHex dropId)) = Some m \<and>
    (\<forall>m'\<in>set ms. reclaimPlace m \<le> reclaimPlace m')"
  using reclaims_first [OF assms] by blast

theorem first_reclaim_wins_witness:
  "\<exists>m\<in>set exReclaims. rg_reclaim (reclaimAll exScan exKey exFunded exReclaims) (dropReclaimKey ''signet'' exAid) = Some m \<and>
     (\<forall>m'\<in>set exReclaims. reclaimPlace m \<le> reclaimPlace m')"
  using first_reclaim_wins [of exScan exFunded "zeros 32" exKey exReclaims]
  by (simp add: ex_reclaims exAid_def)

text \<open>
  C29. Once the scan has written the leaf record of a claim, every later claim on that leaf is skipped. No merkle proof is
  looked at, so a claim with a wrong proof keeps the rightful claimant out; and when the scan died between the leaf
  record and the claim record, the claim that wrote the leaf is itself skipped by the scan that repeats the block.
\<close>

theorem leaf_taken_for_good:
  assumes "envelopeOf b = Some eb" "env_opcode eb = T_DCLAIM" "decodeCDClaimPayload_worker (env_payload eb) = Some cb"
    and "dc_witness cb = Some wb" "fst (tokenOp e kv tk h i b) \<noteq> []" "0 < n"
    and "keepsRecords (foldl applyWrite kv (take n (fst (tokenOp e kv tk h i b)))) kv'"
    and "envelopeOf c = Some ec" "env_opcode ec = T_DCLAIM" "decodeCDClaimPayload_worker (env_payload ec) = Some cc"
    and "dc_witness cc = Some wc" "dc_dropRevealTxid cc = dc_dropRevealTxid cb" "cw_leafIndex wc = cw_leafIndex wb"
  shows "tokenOp e kv' tk' h' i' c = ([], tk')"
  by (rule leaf_stays_taken [OF assms])

theorem leaf_taken_for_good_witness:
  "\<exists>s kv. kv = foldl applyWrite exDropped (take 1 (fst (tokenOp exScan exDropped freshTick 101 0 (exTx 1 s)))) \<and>
     rg_dclaim kv = Map.empty \<and> fst (tokenOp exScan exDropped freshTick 101 0 (exTx 1 s)) \<noteq> [] \<and>
     tokenOp exScan kv freshTick 101 0 (exTx 1 s) = ([], freshTick)"
proof -
  obtain s env cdc where c: "decodeEnvelopeScript_worker s = Some env" "env_opcode env = T_DCLAIM"
    "decodeCDClaimPayload_worker (env_payload env) = Some cdc" "dc_witness cdc = Some exWitness"
    "dc_dropRevealTxid cdc = zeros 32" "dc_amount cdc = 100" using ex_claim_script by blast
  note ws = ex_gated_claim [OF c, of freshTick]
  define kv where "kv = foldl applyWrite exDropped (take 1 (fst (tokenOp exScan exDropped freshTick 101 0 (exTx 1 s))))"
  have env: "envelopeOf (exTx 1 s) = Some env" using c(1) by simp
  have "tokenOp exScan kv freshTick 101 0 (exTx 1 s) = ([], freshTick)"
    by (rule leaf_taken_for_good [OF env c(2-4) _ zero_less_one _ env c(2-4) refl refl, of exScan exDropped freshTick 101 0])
      (use ws in \<open>simp_all add: kv_def keepsRecords_def\<close>)
  moreover have "rg_dclaim kv = Map.empty" unfolding kv_def ws by (simp add: exDropped_def emptyRegistry_def)
  ultimately show ?thesis using ws kv_def by (intro exI [of _ s] exI [of _ kv]) simp
qed

text \<open>
  C30. The per-tick cache of deployments is not renewed when a deployment is indexed: once a mint of an asset has been scanned
  before the asset's deployment is stored, every later mint of that asset in the tick is skipped, whatever the tick scans
  in between, the deployment included; a valid mint skipped so is stored by a scan that starts with a fresh cache.
\<close>

theorem stale_lookup_skips_mint:
  assumes "envelopeOf b = Some eb" "env_opcode eb = T_PMINT" "decodeCPmintPayload_worker (env_payload eb) = Some cb"
    and "pm_assetId cb = assetIdFor (se_sha256 e) (pm_etchTxid cb) 0" "aid = bytesToHex (pm_assetId cb)"
    and "rg_petch kv (petchKey (se_network e) aid) = None" "tk_petchCache tk aid = None"
    and "envelopeOf m = Some em" "env_opcode em = T_PMINT" "decodeCPmintPayload_worker (env_payload em) = Some cm"
    and "pm_assetId cm = assetIdFor (se_sha256 e) (pm_etchTxid cm) 0" "bytesToHex (pm_assetId cm) = aid"
    and "s = scanRest e (scanTxStep e (kv, tk) h i b) rest"
  shows "scanTxStep e s h' i' m = s \<and>
    (rg_petch (fst s) (petchKey (se_network e) aid) = Some pe \<and> pm_amount cm = pd_mintLimit (pe_petch pe) \<and> inMintWindow pe h' \<and>
       se_commitmentOpens e (pm_amount cm) (pm_blinding cm) (pm_commitment cm) \<longrightarrow>
     rg_pmint (fst (scanTxStep e (fst s, freshTick) h' i' m)) (pmintKeyFor (se_network e) aid h' i' (bytesToHex (sx_txid m))) \<noteq> None)"
  using stale_lookup [OF assms(1-12)] mint_stored [OF assms(8-11) assms(12) [symmetric]] assms(13) by blast

theorem stale_lookup_skips_mint_witness:
  "\<exists>sp sm s. s = scanRest exScan (scanTxStep exScan (emptyRegistry, freshTick) 100 0 (exTx 2 sm)) [(100, 1, exTx 0 sp)] \<and>
     scanTxStep exScan s 101 0 (exTx 1 sm) = s \<and> rg_pmint (fst s) = Map.empty \<and>
     rg_pmint (fst (scanTxStep exScan (fst s, freshTick) 101 0 (exTx 1 sm))) \<noteq> Map.empty"
proof -
  obtain sp ep where p: "decodeEnvelopeScript_worker sp = Some ep" "env_opcode ep = T_PETCH"
    "decodeCPetchPayload_worker (env_payload ep) = Some (petchView exPetch)" using ex_petch_script by blast
  obtain sm em where m: "decodeEnvelopeScript_worker sm = Some em" "env_opcode em = T_PMINT"
    "decodeCPmintPayload_worker (env_payload em) = Some exPmint" using ex_pmint_script by blast
  define s where "s = scanRest exScan (scanTxStep exScan (emptyRegistry, freshTick) 100 0 (exTx 2 sm)) [(100, 1, exTx 0 sp)]"
  have env: "envelopeOf (exTx 2 sm) = Some em" "envelopeOf (exTx 0 sp) = Some ep" "envelopeOf (exTx 1 sm) = Some em"
    using p(1) m(1) by simp_all
  have aid: "pm_assetId exPmint = assetIdFor (se_sha256 exScan) (pm_etchTxid exPmint) 0" by (simp add: exPmint_def ex_assetId)
  let ?aid = "bytesToHex (pm_assetId exPmint)"
  have first: "scanTxStep exScan (emptyRegistry, freshTick) 100 0 (exTx 2 sm) =
      (emptyRegistry, freshTick\<lparr>tk_petchCache := (tk_petchCache freshTick)(?aid \<mapsto> None)\<rparr>)"
    using missing_stays_cached [OF env(1) m(2,3) aid refl, of emptyRegistry freshTick 100 0]
    by (simp add: scanTxStep_def emptyRegistry_def freshTick_def)
  have s: "rg_pmint (fst s) = Map.empty" "\<exists>pe. rg_petch (fst s) (petchKey (se_network exScan) ?aid) = Some pe \<and>
      pm_amount exPmint = pd_mintLimit (pe_petch pe) \<and> inMintWindow pe 101"
    using env(2) p(2,3) unfolding s_def first
    by (simp_all add: scanRest_def scanTxStep_def tokenOp_dispatch scanPetch_def exPmint_def ex_assetId petchView_def exPetch_def
        inMintWindow_def emptyRegistry_def zeros_def Let_def)
  then obtain pe where pe: "rg_petch (fst s) (petchKey (se_network exScan) ?aid) = Some pe" "pm_amount exPmint = pd_mintLimit (pe_petch pe)"
    "inMintWindow pe 101" by blast
  have opens: "se_commitmentOpens exScan (pm_amount exPmint) (pm_blinding exPmint) (pm_commitment exPmint)" by simp
  have "scanTxStep exScan s 101 0 (exTx 1 sm) = s \<and> (rg_petch (fst s) (petchKey (se_network exScan) ?aid) = Some pe \<and>
      pm_amount exPmint = pd_mintLimit (pe_petch pe) \<and> inMintWindow pe 101 \<and>
      se_commitmentOpens exScan (pm_amount exPmint) (pm_blinding exPmint) (pm_commitment exPmint) \<longrightarrow>
      rg_pmint (fst (scanTxStep exScan (fst s, freshTick) 101 0 (exTx 1 sm)))
        (pmintKeyFor (se_network exScan) ?aid 101 0 (bytesToHex (sx_txid (exTx 1 sm)))) \<noteq> None)"
    by (rule stale_lookup_skips_mint [OF env(1) m(2,3) aid refl _ _ env(3) m(2,3) aid refl s_def]) (simp_all add: emptyRegistry_def freshTick_def)
  with pe opens s(1) have "scanTxStep exScan s 101 0 (exTx 1 sm) = s" "rg_pmint (fst (scanTxStep exScan (fst s, freshTick) 101 0 (exTx 1 sm))) \<noteq> Map.empty"
    by auto
  then show ?thesis using s(1) s_def by blast
qed

text \<open>
  A cap counter that is full is final: when the cap is a multiple of the mint limit and neither scan of the store was cut
  short, a later snapshot of a store that has only gained keys, at the same or a greater height, credits the same count
  and the same amount.
\<close>

theorem cap_full_is_final:
  assumes "refreshPetchProgress kv sc network aid (Some tip) (Some pt) = Some snap"
    and "refreshPetchProgress kv' sc' network aid (Some tip') (Some pt) = Some snap'"
    and "pc_cap_amount pt = Some cap" "pc_mint_limit pt = Some limit" "0 < limit" "0 \<le> cap" "cap mod limit = 0"
    and "\<not> pp_truncated snap" "\<not> pp_truncated snap'" "pp_credited_amount snap = cap" "tip \<le> tip'"
    and "keepsKeys kv kv' (pmintPrefix network aid) PETCH_REFRESH_MAX_PAGES"
  shows "pp_credited_amount snap' = cap \<and> pp_credited_count snap' = pp_credited_count snap"
  by (rule full_stays_full [OF assms])

text \<open>
  The store lists the mints of an asset, and the claims of a drop, in the order of the chain: for heights of at most ten
  digits and positions of at most six, comparing two keys as strings compares height, position in the block and
  transaction id.
\<close>

theorem listing_is_chain_order:
  assumes "h < 10 ^ 10" "h' < 10 ^ 10" "i < 10 ^ 6" "i' < 10 ^ 6"
  shows "(pmintKeyFor network aid h i t < pmintKeyFor network aid h' i' t') = ((h, i, t) < (h', i', t')) \<and>
    (dclaimKeyFor network d h i t < dclaimKeyFor network d h' i' t') = ((h, i, t) < (h', i', t'))"
  using pmintKeys.listing_order [OF assms] dclaimKeys.listing_order [OF assms] by simp

subsection \<open>Identity of pools\<close>

text \<open>
  C31. A pool identifier determines the pool: two derivations that give the same identifier have the same unordered
  asset pair, fee, capability flags and protocol-fee configuration, unless their two preimages are a collision
  of the hash; and equal configurations give equal identifiers.
\<close>

theorem pool_id_binds:
  assumes "poolIdOf sha256 m = Inr d" "poolIdOf sha256 m' = Inr d'"
  shows "(d = d' \<longrightarrow> poolConfig m = poolConfig m' \<or> collision sha256 (poolPreimage m) (poolPreimage m')) \<and>
    (poolConfig m = poolConfig m' \<longrightarrow> d = d')"
  using poolIds.binds [OF assms(1) _ TrueI TrueI] assms(2) config_same_id [OF assms] by blast

theorem pool_id_binds_witness:
  "let m = \<lparr>pp_idA = assetX, pp_idB = assetY, pp_feeBps = 30, pp_capabilityFlags = 0, pp_protocolFeeAddress = None,
         pp_protocolFeeBps = None\<rparr>;
       m' = \<lparr>pp_idA = assetY, pp_idB = assetX, pp_feeBps = 30, pp_capabilityFlags = 0,
         pp_protocolFeeAddress = Some (zeros 33), pp_protocolFeeBps = Some 0\<rparr>
   in \<exists>d d'. poolIdOf (\<lambda>b. b) m = Inr d \<and> poolIdOf (\<lambda>b. b) m' = Inr d' \<and> poolConfig m = poolConfig m' \<and> d = d'"
proof -
  let ?m = "\<lparr>pp_idA = assetX, pp_idB = assetY, pp_feeBps = 30, pp_capabilityFlags = 0, pp_protocolFeeAddress = None,
         pp_protocolFeeBps = None\<rparr>"
  let ?m' = "\<lparr>pp_idA = assetY, pp_idB = assetX, pp_feeBps = 30, pp_capabilityFlags = 0,
         pp_protocolFeeAddress = Some (zeros 33), pp_protocolFeeBps = Some 0\<rparr>"
  have "\<exists>d. poolIdOf (\<lambda>b. b) ?m = Inr d" "\<exists>d. poolIdOf (\<lambda>b. b) ?m' = Inr d"
    by (simp_all add: poolIdOf_def derivePoolId_def canonicalAssetPair_def assetX_def assetY_def numeral_eq_Suc
        pfAddrOf_def pfBpsOf_def poolId_consts Let_def)
  moreover have "poolConfig ?m = poolConfig ?m'" by (auto simp: poolConfig_def pfBpsOf_def)
  ultimately show ?thesis using pool_id_binds [of "\<lambda>b. b" ?m _ ?m'] by (fastforce simp: Let_def)
qed

text \<open>
  C32. The three copies of the pool-id derivation, in the wallet's AMM module, in the wallet and in the indexer, accept
  the same arguments and give the same identifier; the order of the two assets does not matter.
\<close>

theorem pool_id_copies_agree:
  "ok_of (ammDerivePoolIdDapp sha256 a b fee flags addr bps) = ok_of (derivePoolId sha256 a b fee flags addr bps) \<and>
   ok_of (ammDerivePoolId sha256 a b fee flags addr bps) = ok_of (derivePoolId sha256 a b fee flags addr bps) \<and>
   derivePoolId sha256 b a fee flags addr bps = derivePoolId sha256 a b fee flags addr bps"
  using dapp_poolId_agrees worker_poolId_agrees derivePoolId_commute by simp

subsection \<open>Envelopes on Bitcoin\<close>

text \<open>
  C33. Every non-empty payload, of any length, can be put into a leaf script under a 32-byte key, and the script
  decodes to that key, the payload's first byte as opcode, and the payload.
\<close>

theorem script_round_trip:
  assumes "length pub = 32" "payload \<noteq> []"
  shows "\<exists>s. encodeEnvelopeScript pub payload = Inr s \<and>
    decodeEnvelopeScript s = Some \<lparr>signingPubXonly = pub, env_opcode = u8 payload 0, env_payload = payload\<rparr>"
  using encode_script_total [OF assms(1)] decode_encode_script assms(2) by blast

theorem script_round_trip_witness:
  "\<exists>s. encodeEnvelopeScript (zeros 32) (replicate 1000 7) = Inr s \<and>
    decodeEnvelopeScript s = Some \<lparr>signingPubXonly = zeros 32, env_opcode = u8 (replicate 1000 7) 0,
      env_payload = replicate 1000 7\<rparr>"
  by (rule script_round_trip) simp_all

text \<open>
  C34. Wallet, indexer and relay read the same envelope out of every script, and reject the same scripts.
\<close>

theorem script_readers_agree:
  "decodeEnvelopeScript_worker s = decodeEnvelopeScript s \<and>
   decodeEnvelopeScript_relay s = map_option (\<lambda>e. (env_opcode e, env_payload e)) (decodeEnvelopeScript s)"
  using worker_script_eq relay_script_eq by simp

text \<open>
  C35. The five farm payloads are canonical: each decoder accepts exactly the encodings of records with 32-bit heights
  and (where the decoder looks) a compressed public key, and gives the record back.
\<close>

theorem farm_wire:
  "((decodeFarmInit p = Some fi) = (encodeFarmInit fi = Inr p \<and> farmInitOk fi)) \<and>
   ((decodeLpBond p = Some lb) = (encodeLpBond lb = Inr p \<and> lpBondOk lb)) \<and>
   ((decodeLpUnbond p = Some lu) = (encodeLpUnbond lu = Inr p)) \<and>
   ((decodeLpHarvest p = Some lh) = (encodeLpHarvest lh = Inr p \<and> u32 (lh_exitViewHeight lh))) \<and>
   ((decodeFarmRefund p = Some fr) = (encodeFarmRefund fr = Inr p \<and> farmRefundOk fr))"
  by (simp only: farmInitWire.decode_iff lpBondWire.decode_iff lpUnbondWire.decode_iff lpHarvestWire.decode_iff
    farmRefundWire.decode_iff simp_thms)

text \<open>
  C36. For the seven liquidity and farm payloads that both sides read, the indexer accepts a byte string exactly when
  the wallet's decoder does and its own extra checks hold (public keys and commitments on the curve, a change
  commitment that is on the curve or the all-zero sentinel, a removal with a proof), with the same fields.
\<close>

theorem indexer_reads_wallet:
  "((decodeTFarmInitPayload onCurve p = Some fi) = (decodeFarmInit p = Some fi \<and>
      compressedPointFromHex onCurve (fi_launcherPubkey fi) \<and> changeOk onCurve (fi_cChangeOrSentinel fi))) \<and>
   ((decodeTLpBondPayload onCurve p = Some lb) = (decodeLpBond p = Some lb \<and>
      compressedPointFromHex onCurve (lb_bonderPubkey lb) \<and> changeOk onCurve (lb_cChangeOrSentinel lb))) \<and>
   ((decodeTLpUnbondPayload p = Some lu) = (decodeLpUnbond p = Some lu)) \<and>
   ((decodeTLpHarvestPayload onCurve p = Some lh) = (decodeLpHarvest p = Some lh \<and>
      compressedPointFromHex onCurve (lh_harvesterPubkey lh))) \<and>
   ((decodeTFarmRefundPayload onCurve p = Some fr) = (decodeFarmRefund p = Some fr \<and>
      compressedPointFromHex onCurve (fr_launcherPubkey fr))) \<and>
   ((decodeTProtocolFeeClaimPayload onCurve p = Some fc) = (decodeProtocolFeeClaim p = Some fc \<and>
      compressedPointFromHex onCurve (fc_claimerPubkey fc) \<and> compressedPointFromHex onCurve (fc_claimCSecp fc))) \<and>
   ((decodeTLpRemovePayload onCurve p = Some lr) = (decodeLpRemove p = Some lr \<and>
      compressedPointFromHex onCurve (lr_recvACSecp lr) \<and> compressedPointFromHex onCurve (lr_recvBCSecp lr) \<and>
      lr_proof lr \<noteq> []))"
  by (simp only: farmInitReaders.strict_iff lpBondReaders.strict_iff lpUnbondReaders.strict_iff
    lpHarvestReaders.strict_iff farmRefundReaders.strict_iff feeClaimReaders.strict_iff lpRemoveReaders.strict_iff
    simp_thms)

text \<open>
  C37. Whatever liquidity addition or pool opening the indexer accepts, the wallet decodes to the same fields. An
  addition that the wallet encodes is accepted by the indexer exactly when its share commitment is on the curve
  and no byte follows, while the wallet accepts it with any bytes behind it.
\<close>

theorem indexer_lp_add_reads:
  assumes "decodeTLpAddPayload onCurve q = Some w"
    and "encodeLpAdd a = Inr p" "lpAddOk a" "la_variant a = 0"
  shows "decodeLpAdd q = Some (lpAddDecoded.truncate w) \<and>
    decodeTLpAddPayload onCurve (p @ junk) =
      (if junk = [] \<and> compressedPointFromHex onCurve (la_shareCSecp a) then Some (lpAddWorkerView a) else None) \<and>
    decodeLpAdd (p @ junk) = Some (lpAddView a)"
  using worker_lp_add_reads [OF assms(1)] worker_lp_add_tail [OF assms(2-4)]
    decodeLpAdd_encode_append [OF assms(2,3)] by blast

theorem indexer_lp_add_reads_witness:
  "\<exists>p w. encodeLpAdd exTopUp = Inr p \<and> decodeTLpAddPayload (\<lambda>_. True) p = Some w \<and>
    decodeLpAdd p = Some (lpAddDecoded.truncate w) \<and> decodeTLpAddPayload (\<lambda>_. True) (p @ [0xff]) = None \<and>
    decodeLpAdd (p @ [0xff]) = Some (lpAddView exTopUp)"
proof -
  obtain p where p: "encodeLpAdd exTopUp = Inr p" using ex_top_up(1) by blast
  have v: "compressedPointFromHex (\<lambda>_. True) (la_shareCSecp exTopUp)"
    by (simp add: exTopUp_def compressedPointFromHex_def zeros_def u8_def)
  have w: "decodeTLpAddPayload (\<lambda>_. True) p = Some (lpAddWorkerView exTopUp)"
    using worker_lp_add_tail [OF p ex_top_up(2) ex_top_up(3), of "\<lambda>_. True" "[]"] v by simp
  show ?thesis using indexer_lp_add_reads [OF w p ex_top_up(2) ex_top_up(3), of "[0xff]"] p w by auto
qed

text \<open>
  A liquidity addition or pool opening that the wallet encodes, with a 32-bit expiry (the encoder wraps others) and texts
  without a leading byte order mark, is decoded with every field the decoder returns unchanged, and any bytes behind the
  payload are ignored.
\<close>

theorem lp_add_wire:
  assumes "encodeLpAdd a = Inr p" "lpAddOk a"
  shows "decodeLpAdd (p @ junk) = Some (lpAddView a)"
  using assms by (rule decodeLpAdd_encode_append)

text \<open>
  The single-pool swap payload is canonical: the indexer decodes \<open>p\<close> to \<open>a\<close> exactly when \<open>p\<close> is the encoding of
  \<open>a\<close>, the expiry of \<open>a\<close> is a 32-bit number (the encoder wraps others), its points are on the curve and its change is
  on the curve or the all-zero sentinel; the wallet asks for consistent amounts on top.
\<close>

theorem swap_var_wire:
  "(decodeTSwapVarPayload_worker onCurve p = Some a) = (encodeTSwapVarPayload a = Inr p \<and> swapPointsOk onCurve a) \<and>
   (decodeTSwapVarPayload onCurve p = Some a) =
     (encodeTSwapVarPayload a = Inr p \<and> swapPointsOk onCurve a \<and> sv_deltaInMin a \<le> sv_deltaIn a \<and>
      sv_deltaIn a \<le> sv_deltaInMax a \<and> sv_minOut a \<le> sv_deltaOut a)"
  using swapVarWorkerWire.decode_iff swapVarWire.decode_iff by (simp add: amountsOk_def)

text \<open>
  The route payload is canonical for the wallet and the indexer alike: both decode \<open>p\<close> to \<open>a\<close> exactly when \<open>p\<close> is
  the encoding of \<open>a\<close>, its expiry and output indices are 32-bit numbers (the encoder wraps others), its assets differ
  and its points are on the curve.
\<close>

theorem swap_route_wire:
  "(decodeTSwapRoutePayload onCurve p = Some a) = (encodeTSwapRoutePayload a = Inr p \<and> routeOk onCurve a) \<and>
   decodeTSwapRoutePayload_worker onCurve p = decodeTSwapRoutePayload onCurve p"
  using swapRouteWire.decode_iff swapRoute_readers_agree by simp

text \<open>
  For a route the wallet put on the wire and a non-empty receive script, the message the trader signs and the message the
  indexer rebuilds from the decoded payload are the same, or both refuse. With an empty receive script the wallet refuses
  and the indexer does not.
\<close>

theorem route_intent_same_on_both_sides:
  assumes "decodeTSwapRoutePayload onCurve p = Some a" "spk \<noteq> []"
  shows "ok_of (buildSwapRouteIntentMsg sha256 (intentOf a spk rspk)) = ok_of (ammSwapRouteIntentMsg sha256 a spk rspk)"
proof -
  have "encodeTSwapRoutePayload a = Inr p" using assms(1) swapRouteWire.decode_iff by blast
  then show ?thesis using assms(2) by (rule intent_msgs_agree)
qed

text \<open>
  A route intent digest determines the trader's consent: the trader, both assets, the input amount, the floor, the
  expiry, every pool with its direction, the spent commitment, the receipt blinding and both destination scripts,
  unless the two hashed strings are a collision; the fields have their widths, the expiry is a 32-bit number and the
  scripts are shorter than 65536 bytes, which the builder does not check.
\<close>

theorem route_intent_binds:
  assumes "buildSwapRouteIntentMsg sha256 a = Inr d" "buildSwapRouteIntentMsg sha256 b = Inr d" "intentOk a" "intentOk b"
  shows "consentOf a = consentOf b \<or> collision sha256 (intentPreimage a) (intentPreimage b)"
  using assms by (rule routeIntents.binds)

text \<open>
  Two farm messages (position receipt, harvest, unbond, farm refund or protocol-fee claim) with the same digest are
  the same message, field by field and with the same destination script, unless the two strings that were hashed
  are a collision of keccak; their amounts and indices fit the 64 or 32 bits they are written in, which the builders do
  not check.
\<close>

theorem owner_digest_binds:
  assumes "ownerMsgDigest keccak m = Inr d" "ownerMsgDigest keccak m' = Inr d" "inRange m" "inRange m'"
  shows "m = m' \<or> collision keccak (preimage m) (preimage m')"
  using assms by (rule ownerMsgs.binds)

subsection \<open>Confidential transfers\<close>

text \<open>
  C38. The transfer, settlement, mint and burn payloads are canonical: each wallet decoder accepts exactly the byte
  strings its encoder writes and gives back the encoder's arguments. A deployment-bound transfer made from the
  Bulletproofs+ transfer payload is byte for byte the one the burn-deposit module encodes.
\<close>

theorem transfer_wire:
  "((decodeCXferPayload p = Some c) = (encodeCXferPayload c = Inr p)) \<and>
   ((decodeCXferBppPayload p = Some c) = (encodeCXferBppPayload c = Inr p)) \<and>
   ((decodeCXferBoundPayload p = Some b) = (encodeCxferBoundEnvelope b = Inr p)) \<and>
   ((boundEncodePayload t c = Inr p) = (encodeCxferBoundEnvelope (cxfer.extend c \<lparr>cb_targetChainBinding = t\<rparr>) = Inr p)) \<and>
   ((decodeAxferPayload p = Some a) = (encodeAxferPayload a = Inr p)) \<and>
   ((decodeAxferBppPayload p = Some a) = (encodeAxferBppPayload a = Inr p)) \<and>
   ((decodeAxferVarPayload p = Some a) = (encodeAxferVarPayload (cxfer.truncate a) = Inr p \<and> ax_assetInputCount a = 1)) \<and>
   ((decodeAxferVarBppPayload p = Some a) =
      (encodeAxferVarBppPayload (cxfer.truncate a) = Inr p \<and> ax_assetInputCount a = 1)) \<and>
   ((decodeCMintPayload p = Some m) = (encodeCMintPayload m = Inr p)) \<and>
   ((decodeCBurnPayload p = Some u) = (encodeCBurnPayload u = Inr p))"
  by (simp add: cxferWire.decode_iff cxferBppWire.decode_iff bound_codec boundKit_same_bytes axferWire.decode_iff
    axferBppWire.decode_iff mint_codec burn_codec decodeAxferVarPayload_def encodeAxferVarPayload_def
    decodeAxferVarBppPayload_def encodeAxferVarBppPayload_def axferVar_codec transfer_consts)

text \<open>
  C39. The indexer's structural decoders of the nine transfer payloads accept exactly what the wallet's decoders accept
  and return the asset and the commitments the wallet reads. The provenance readers
  do the same, and read nothing else as a transfer.
\<close>

theorem transfer_readers_agree:
  "decodeCXferPayload_worker p = map_option indexXfer (decodeCXferPayload p) \<and>
   decodeCXferBppPayload_worker p = map_option indexXfer (decodeCXferBppPayload p) \<and>
   decodeCXferBoundPayload_worker p = map_option indexBound (decodeCXferBoundPayload p) \<and>
   decodeAxferPayload_worker p = map_option indexAxfer (decodeAxferPayload p) \<and>
   decodeAxferBppPayload_worker p = map_option indexAxfer (decodeAxferBppPayload p) \<and>
   decodeAxferVarPayload_worker p = map_option indexAxfer (decodeAxferVarPayload p) \<and>
   decodeAxferVarBppPayload_worker p = map_option indexAxfer (decodeAxferVarBppPayload p) \<and>
   decodeCMintPayload_worker p = map_option indexMint (decodeCMintPayload p) \<and>
   decodeCBurnPayload_worker p = map_option indexBurn (decodeCBurnPayload p) \<and>
   parseCxferBoundEnvelope p = map_option boundProvenanceOf (decodeCXferBoundPayload p) \<and>
   parseCmint p = decodeCMintPayload p \<and>
   parseCxferEnvelopeFull p =
     (if u8 p 0 = T_CXFER then map_option (\<lambda>a. provenanceOf a None) (decodeCXferPayload p)
      else if u8 p 0 = T_CXFER_BPP then map_option (\<lambda>a. provenanceOf a None) (decodeCXferBppPayload p)
      else if u8 p 0 = T_AXFER then
        map_option (\<lambda>a. provenanceOf (cxfer.truncate a) (Some (nat (ax_assetInputCount a)))) (decodeAxferPayload p)
      else if u8 p 0 = T_AXFER_BPP then
        map_option (\<lambda>a. provenanceOf (cxfer.truncate a) (Some (nat (ax_assetInputCount a)))) (decodeAxferBppPayload p)
      else None)"
  by (simp add: worker_readers worker_bound worker_mint worker_burn provenance_bound provenance_mint provenance_reader)

subsection \<open>Tokens and drops\<close>

text \<open>
  C40. An etch and a permissionless-mint deployment that the wallet encodes, with texts that have no leading byte order
  mark, are decoded with every field unchanged, and the indexer and the provenance reader read the same fields. A
  mint event is decoded exactly when it is what the encoder writes, by the wallet and the indexer alike.
\<close>

theorem etch_wire:
  assumes "encodeCEtchPayload a = Inr p" "plain_text (ce_ticker a)" "plain_text (ce_imageUri a)"
    and "encodeCPetchPayload b = Inr q" "plain_text (pt_ticker b)" "plain_text (pt_imageUri b)"
  shows "decodeCEtchPayload p = Some (etchView a) \<and>
    decodeCEtchPayload_worker p = Some (indexEtch (etchView a)) \<and>
    parseCetch p = Some \<lparr>pe_c0Compressed = ce_commitment a, pe_mintAuthority = etchAuth a,
      pe_decimals = Some (nat (ce_decimals a)), pe_rangeProof = ce_rangeproof a\<rparr> \<and>
    decodeCPetchPayload q = Some (petchView b) \<and> decodeCPetchPayload_worker q = Some (petchView b) \<and>
    (decodeCPmintPayload r = Some m) = (encodeCPmintPayload m = Inr r) \<and>
    decodeCPmintPayload_worker r = decodeCPmintPayload r"
  using etch_round_trip [OF assms(1-3)] provenance_etch [OF etch_round_trip [OF assms(1-3)]]
    petch_round_trip [OF assms(4-6)] worker_etch [of p] worker_petch [of q] pmint_codec [of r m] worker_pmint [of r]
  by (simp add: etchView_def)

theorem etch_wire_witness:
  "\<exists>p q. encodeCEtchPayload exEtch = Inr p \<and> decodeCEtchPayload_worker p = Some (indexEtch (etchView exEtch)) \<and>
    encodeCPetchPayload exPetch = Inr q \<and> decodeCPetchPayload_worker q = Some (petchView exPetch)"
proof -
  obtain p q where "encodeCEtchPayload exEtch = Inr p" "encodeCPetchPayload exPetch = Inr q" using ex_etch by blast
  with etch_wire [OF this(1) ex_etch_text(1,2) this(2) ex_etch_text(3,4)] show ?thesis by blast
qed

text \<open>
  A drop whose ticker has no leading byte order mark is read back as that drop, a reclaim as that reclaim, and they are
  never the same bytes. A claim is read back with its witness, or without one when none was
  given, and a claim whose witness bytes are no encoded witness is rejected. The indexer's copies write and read
  the same bytes. The bridge burn behind the same opcode is not told apart from a drop (\<open>drop_reads_as_burn\<close>).
\<close>

theorem drop_wire:
  assumes "encodeCDropPayload d = Inr p" "plain_text (dr_ticker d)"
    and "encodeCDropReclaimPayload rc = Inr q" "encodeCDClaimPayload a = Inr r"
  shows "decodeCDropPayload p = Some (Drop d) \<and> decodeCDropPayload q = Some (Reclaim rc) \<and> p \<noteq> q \<and>
    decodeCDClaimPayload r =
      (if ca_witness a = [] then Some (claimView a None)
       else map_option (\<lambda>w. claimView a (Some w)) (decodeWitness (ca_witness a))) \<and>
    (decodeWitness b = Some w) = (encodeCDClaimWitness w = Inr b) \<and>
    decodeCDropPayload_worker = decodeCDropPayload \<and> decodeCDClaimPayload_worker r = decodeCDClaimPayload r \<and>
    ok_of (encodeCDropPayload_worker d) = Some p \<and> ok_of (encodeCDropReclaimPayload_worker rc) = Some q \<and>
    ok_of (encodeCDClaimPayload_worker a) = Some r \<and>
    ok_of (encodeCDClaimWitness_worker w) = ok_of (encodeCDClaimWitness w)"
  using drop_round_trip [OF assms(1,2)] reclaim_round_trip [OF assms(3)] drop_shapes_differ [OF assms(1-3)]
    claim_codec [OF assms(4)] witness_codec [of b w] worker_drop worker_claim [of r] worker_drop_encoders(1) [of d]
    worker_drop_encoders(2) [of rc] worker_claim_encoders(1) [of w] worker_claim_encoders(2) [of a] assms
  by simp

end
